(* ===== verification/Prelude.thy ===== *)
theory Prelude
  imports Main "HOL-Library.AList" "HOL-Library.List_Lexorder" "HOL-Library.Char_ord"
    "HOL-Library.Sublist"
begin

text \<open>
  Shared vocabulary of the development: programs that change a state and may return an error
  (the shape of every Go function that takes a receiver and returns \<open>error\<close>), their weakest
  preconditions, and list lemmas the components share.

  A Go function \<open>func (s *Store) F(...) (T, error)\<close> becomes a value of
  \<open>('s, 'e, 'a) prog\<close>. An error keeps the state reached when it was returned: this is what
  makes statements about a change that stops half-way possible.
\<close>

section \<open>Programs with state and errors\<close>

type_synonym ('s, 'e, 'a) prog = "'s \<Rightarrow> ('e + 'a) \<times> 's"

definition ret :: "'a \<Rightarrow> ('s, 'e, 'a) prog" where
  "ret x s = (Inr x, s)"

definition raise :: "'e \<Rightarrow> ('s, 'e, 'a) prog" where
  "raise e s = (Inl e, s)"

text \<open>\<open>bind_s m f\<close> is \<open>x, err := m(); if err != nil { return err }; f(x)\<close>.\<close>

definition bind_s :: "('s, 'e, 'a) prog \<Rightarrow> ('a \<Rightarrow> ('s, 'e, 'b) prog) \<Rightarrow> ('s, 'e, 'b) prog" where
  "bind_s m f s = (case m s of (Inl e, t) \<Rightarrow> (Inl e, t) | (Inr x, t) \<Rightarrow> f x t)"

text \<open>\<open>try_s m\<close> is a call whose error the caller looks at instead of returning it.\<close>

definition try_s :: "('s, 'e, 'a) prog \<Rightarrow> ('s, 'e, 'e + 'a) prog" where
  "try_s m s = (case m s of (r, t) \<Rightarrow> (Inr r, t))"

definition gets :: "('s \<Rightarrow> 'a) \<Rightarrow> ('s, 'e, 'a) prog" where
  "gets f s = (Inr (f s), s)"

definition modify :: "('s \<Rightarrow> 's) \<Rightarrow> ('s, 'e, unit) prog" where
  "modify f s = (Inr (), f s)"

text \<open>A \<open>for\<close> loop over a slice that returns at the first error.\<close>

fun for_each :: "('a \<Rightarrow> ('s, 'e, unit) prog) \<Rightarrow> 'a list \<Rightarrow> ('s, 'e, unit) prog" where
  "for_each f [] = ret ()"
| "for_each f (x # xs) = bind_s (f x) (\<lambda>_. for_each f xs)"

text \<open>A loop that carries an accumulator.\<close>

fun fold_s :: "('a \<Rightarrow> 'b \<Rightarrow> ('s, 'e, 'b) prog) \<Rightarrow> 'a list \<Rightarrow> 'b \<Rightarrow> ('s, 'e, 'b) prog" where
  "fold_s f [] b = ret b"
| "fold_s f (x # xs) b = bind_s (f x b) (\<lambda>b'. fold_s f xs b')"

text \<open>A sequence of updates that may fail, without the state around them.\<close>

fun fold_opt :: "('a \<Rightarrow> 'b \<Rightarrow> 'b option) \<Rightarrow> 'a list \<Rightarrow> 'b \<Rightarrow> 'b option" where
  "fold_opt f [] b = Some b"
| "fold_opt f (x # xs) b = (case f x b of None \<Rightarrow> None | Some b' \<Rightarrow> fold_opt f xs b')"

section \<open>Weakest preconditions\<close>

text \<open>
  \<open>wp m Q E s\<close>: run from \<open>s\<close>, \<open>m\<close> ends in a state (and result) satisfying \<open>Q\<close> when it
  returns a value and \<open>E\<close> when it returns an error. The equations below compute it; the
  components add the equations of their primitives to \<open>wp_rules\<close>.
\<close>

definition wp :: "('s, 'e, 'a) prog \<Rightarrow> ('a \<Rightarrow> 's \<Rightarrow> bool) \<Rightarrow> ('e \<Rightarrow> 's \<Rightarrow> bool) \<Rightarrow> 's \<Rightarrow> bool" where
  "wp m Q E s \<longleftrightarrow> (case m s of (Inl e, t) \<Rightarrow> E e t | (Inr x, t) \<Rightarrow> Q x t)"

named_theorems wp_rules

lemma wp_ret [wp_rules]: "wp (ret x) Q E = (\<lambda>s. Q x s)"
  by (rule ext) (simp add: wp_def ret_def)

lemma wp_raise [wp_rules]: "wp (raise e) Q E = (\<lambda>s. E e s)"
  by (rule ext) (simp add: wp_def raise_def)

lemma wp_bind [wp_rules]: "wp (bind_s m f) Q E = (\<lambda>s. wp m (\<lambda>x. wp (f x) Q E) E s)"
  by (rule ext) (simp add: wp_def bind_s_def split: prod.splits sum.splits)

lemma wp_try [wp_rules]: "wp (try_s m) Q E = (\<lambda>s. wp m (\<lambda>x. Q (Inr x)) (\<lambda>e. Q (Inl e)) s)"
  by (rule ext) (simp add: wp_def try_s_def split: prod.splits sum.splits)

lemma wp_gets [wp_rules]: "wp (gets f) Q E = (\<lambda>s. Q (f s) s)"
  by (rule ext) (simp add: wp_def gets_def)

lemma wp_modify [wp_rules]: "wp (modify f) Q E = (\<lambda>s. Q () (f s))"
  by (rule ext) (simp add: wp_def modify_def)

lemma wp_if [wp_rules]:
  "wp (if b then m else n) Q E = (\<lambda>s. (if b then wp m Q E s else wp n Q E s))"
  by (rule ext) simp

lemma wp_case_option [wp_rules]:
  "wp (case x of None \<Rightarrow> m | Some y \<Rightarrow> f y) Q E = (\<lambda>s. (case x of None \<Rightarrow> wp m Q E s | Some y \<Rightarrow> wp (f y) Q E s))"
  by (rule ext, cases x) simp_all

lemma wp_case_sum [wp_rules]:
  "wp (case x of Inl a \<Rightarrow> f a | Inr b \<Rightarrow> g b) Q E = (\<lambda>s. (case x of Inl a \<Rightarrow> wp (f a) Q E s | Inr b \<Rightarrow> wp (g b) Q E s))"
  by (rule ext, cases x) simp_all

lemma wp_case_prod [wp_rules]:
  "wp (case x of (a, b) \<Rightarrow> f a b) Q E = (\<lambda>s. (case x of (a, b) \<Rightarrow> wp (f a b) Q E s))"
  by (rule ext, cases x) simp

lemma wp_let [wp_rules]: "wp (let x = v in f x) Q E = (\<lambda>s. (let x = v in wp (f x) Q E s))"
  by (rule ext) simp

lemma wp_for_each_Nil [wp_rules]: "wp (for_each f []) Q E = (\<lambda>s. Q () s)"
  by (rule ext) (simp add: wp_ret)

lemma wp_mono:
  assumes "wp m Q E s"
    and "\<And>x t. Q x t \<Longrightarrow> Q' x t" and "\<And>e t. E e t \<Longrightarrow> E' e t"
  shows "wp m Q' E' s"
  using assms by (auto simp: wp_def split: prod.splits sum.splits)

lemma wp_conj:
  "wp m Q E s \<Longrightarrow> wp m Q' E' s \<Longrightarrow> wp m (\<lambda>x t. Q x t \<and> Q' x t) (\<lambda>e t. E e t \<and> E' e t) s"
  by (auto simp: wp_def split: prod.splits sum.splits)

lemma wp_ball:
  "(\<And>p. p \<in> S \<Longrightarrow> wp m (Q p) (\<lambda>_ _. True) s) \<Longrightarrow> wp m (\<lambda>x t. \<forall>p\<in>S. Q p x t) (\<lambda>_ _. True) s"
  by (auto simp: wp_def split: prod.splits sum.splits)

lemma wp_InrD: "wp m Q E s \<Longrightarrow> m s = (Inr x, t) \<Longrightarrow> Q x t"
  by (simp add: wp_def)

lemma wp_InlD: "wp m Q E s \<Longrightarrow> m s = (Inl e, t) \<Longrightarrow> E e t"
  by (simp add: wp_def)

lemma wp_snd: "wp m (\<lambda>_. P) (\<lambda>_. P) s = P (snd (m s))"
  by (auto simp: wp_def split: prod.splits sum.splits)

lemma wp_True: "wp m (\<lambda>_ _. True) (\<lambda>_ _. True) s"
  by (simp add: wp_def split: prod.splits sum.splits)

text \<open>The rule for programs whose outcomes, errors included, keep one property.\<close>

definition keeps :: "('s \<Rightarrow> bool) \<Rightarrow> ('s, 'e, 'a) prog \<Rightarrow> bool" where
  "keeps I m \<longleftrightarrow> (\<forall>s. I s \<longrightarrow> I (snd (m s)))"

named_theorems keeps_rules

lemma keepsD: "keeps I m \<Longrightarrow> I s \<Longrightarrow> I (snd (m s))"
  by (simp add: keeps_def)

lemma keeps_wp: "keeps I m \<longleftrightarrow> (\<forall>s. I s \<longrightarrow> wp m (\<lambda>_. I) (\<lambda>_. I) s)"
  by (simp add: keeps_def wp_snd)

lemma keeps_wpD: "keeps I m \<Longrightarrow> I s \<Longrightarrow> wp m (\<lambda>_. I) (\<lambda>_. I) s"
  by (simp add: keeps_wp)

lemma keeps_ret [keeps_rules]: "keeps I (ret x)"
  by (simp add: keeps_def ret_def)

lemma keeps_raise [keeps_rules]: "keeps I (raise e)"
  by (simp add: keeps_def raise_def)

lemma keeps_gets [keeps_rules]: "keeps I (gets f)"
  by (simp add: keeps_def gets_def)

lemma keeps_bind [keeps_rules]:
  "keeps I m \<Longrightarrow> (\<And>x. keeps I (f x)) \<Longrightarrow> keeps I (bind_s m f)"
  by (force simp: keeps_def bind_s_def split: prod.splits sum.splits)

lemma keeps_try [keeps_rules]: "keeps I m \<Longrightarrow> keeps I (try_s m)"
  by (force simp: keeps_def try_s_def split: prod.splits)

lemma keeps_if [keeps_rules]:
  "(b \<Longrightarrow> keeps I m) \<Longrightarrow> (\<not> b \<Longrightarrow> keeps I n) \<Longrightarrow> keeps I (if b then m else n)"
  by simp

lemma keeps_case_option [keeps_rules]:
  "(x = None \<Longrightarrow> keeps I m) \<Longrightarrow> (\<And>y. x = Some y \<Longrightarrow> keeps I (f y)) \<Longrightarrow>
   keeps I (case x of None \<Rightarrow> m | Some y \<Rightarrow> f y)"
  by (cases x) simp_all

lemma keeps_case_sum [keeps_rules]:
  "(\<And>a. x = Inl a \<Longrightarrow> keeps I (f a)) \<Longrightarrow> (\<And>b. x = Inr b \<Longrightarrow> keeps I (g b)) \<Longrightarrow>
   keeps I (case x of Inl a \<Rightarrow> f a | Inr b \<Rightarrow> g b)"
  by (cases x) simp_all

lemma keeps_let [keeps_rules]: "(\<And>x. keeps I (f x)) \<Longrightarrow> keeps I (let x = v in f x)"
  by simp

lemma keeps_case_prod [keeps_rules]: "(\<And>a b. keeps I (f a b)) \<Longrightarrow> keeps I (case x of (a, b) \<Rightarrow> f a b)"
  by (cases x) simp

lemma keeps_case_list [keeps_rules]:
  "keeps I m \<Longrightarrow> (\<And>y ys. keeps I (f y ys)) \<Longrightarrow> keeps I (case xs of [] \<Rightarrow> m | y # ys \<Rightarrow> f y ys)"
  by (cases xs) simp_all

lemma keeps_for_each [keeps_rules]:
  "(\<And>x. x \<in> set xs \<Longrightarrow> keeps I (f x)) \<Longrightarrow> keeps I (for_each f xs)"
  by (induction xs) (auto intro: keeps_ret keeps_bind)

lemma keeps_fold_s [keeps_rules]:
  "(\<And>x b. x \<in> set xs \<Longrightarrow> keeps I (f x b)) \<Longrightarrow> keeps I (fold_s f xs b)"
  by (induction xs arbitrary: b) (auto intro: keeps_ret keeps_bind)

lemma wp_keeps_bind:
  assumes "keeps I m" "I s" "\<And>x t. I t \<Longrightarrow> wp (f x) Q E t" "\<And>e t. I t \<Longrightarrow> E e t"
  shows "wp (bind_s m f) Q E s"
proof -
  have "wp m (\<lambda>_. I) (\<lambda>_. I) s" using assms(1,2) by (simp add: keeps_wp)
  then have "wp m (\<lambda>x. wp (f x) Q E) E s" by (rule wp_mono) (use assms(3,4) in auto)
  then show ?thesis by (simp add: wp_bind)
qed

text \<open>A loop, with an invariant over the elements still to come.\<close>

lemma wp_for_each:
  assumes "I xs s"
    and "\<And>x ys t. I (x # ys) t \<Longrightarrow> wp (f x) (\<lambda>_. I ys) E t"
    and "\<And>t. I [] t \<Longrightarrow> Q () t"
  shows "wp (for_each f xs) Q E s"
  using assms(1)
proof (induction xs arbitrary: s)
  case Nil
  then show ?case using assms(3) by (simp add: wp_ret)
next
  case (Cons x xs)
  from Cons.prems have "wp (f x) (\<lambda>_. I xs) E s" by (rule assms(2))
  then show ?case by (auto simp: wp_bind elim!: wp_mono intro: Cons.IH)
qed

lemma wp_fold_s:
  assumes "I xs b s"
    and "\<And>x ys b t. I (x # ys) b t \<Longrightarrow> wp (f x b) (I ys) E t"
    and "\<And>b t. I [] b t \<Longrightarrow> Q b t"
  shows "wp (fold_s f xs b) Q E s"
  using assms(1)
proof (induction xs arbitrary: b s)
  case Nil
  then show ?case using assms(3) by (simp add: wp_ret)
next
  case (Cons x xs)
  from Cons.prems have "wp (f x b) (I xs) E s" by (rule assms(2))
  then have "wp (f x b) (\<lambda>b'. wp (fold_s f xs b') Q E) E s" by (rule wp_mono) (auto intro: Cons.IH)
  then show ?case by (simp add: wp_bind)
qed

section \<open>Lists\<close>

lemma prefix_append_not_parallel: "prefix xs (xs @ ys)"
  by simp

lemma parallel_append_same: "xs \<parallel> ys \<Longrightarrow> (zs @ xs) \<parallel> (zs @ ys)"
  by (simp add: parallel_def)

lemma parallel_same_append: "(zs @ xs) \<parallel> (zs @ ys) \<longleftrightarrow> xs \<parallel> ys"
  by (simp add: parallel_def)

lemma parallel_cons: "(x # xs) \<parallel> (y # ys) \<longleftrightarrow> x \<noteq> y \<or> xs \<parallel> ys"
  by (auto simp: parallel_def)

lemma parallel_commute: "xs \<parallel> ys \<longleftrightarrow> ys \<parallel> xs"
  by (auto simp: parallel_def)

lemma not_parallel_Nil [simp]: "\<not> ([] \<parallel> ys)" "\<not> (ys \<parallel> [])"
  by (auto simp: parallel_def)

lemma suffix_append [simp]: "suffix xs (ys @ xs)"
  by (simp add: suffix_def)

lemma upt_split: "i \<le> n \<Longrightarrow> [0..<Suc n] = [0..<i] @ i # [Suc i..<Suc n]"
  using upt_add_eq_append [of 0 i "Suc n - i"] by (simp add: upt_conv_Cons)

lemma takeWhile_all: "(\<forall>x\<in>set xs. P x) \<Longrightarrow> takeWhile P xs = xs"
  by (simp add: takeWhile_eq_all_conv)

end
