(* ===== verification/GoStrings.thy ===== *)
theory GoStrings
  imports Prelude
begin

text \<open>
  The parts of Go's \<open>strings\<close>, \<open>strconv\<close> and \<open>path/filepath\<close> packages the program uses, on
  byte strings. Go strings are bytes, as Isabelle's \<open>char\<close> is; the white space and letter cases
  below are ASCII's, which is all the names and files the program accepts contain.
\<close>

section \<open>strings\<close>

definition cut_suffix :: "string \<Rightarrow> string \<Rightarrow> string option" where
  "cut_suffix s suf = (if suffix suf s then Some (take (length s - length suf) s) else None)"

definition cut_prefix :: "string \<Rightarrow> string \<Rightarrow> string option" where
  "cut_prefix s pre = (if prefix pre s then Some (drop (length pre) s) else None)"

definition trim_suffix :: "string \<Rightarrow> string \<Rightarrow> string" where
  "trim_suffix s suf = (case cut_suffix s suf of Some r \<Rightarrow> r | None \<Rightarrow> s)"

text \<open>\<open>strings.LastIndex\<close>; \<open>None\<close> stands for -1.\<close>

definition last_index :: "string \<Rightarrow> string \<Rightarrow> nat option" where
  "last_index s sub =
     (case rev (filter (\<lambda>i. prefix sub (drop i s)) [0..<Suc (length s)]) of
        [] \<Rightarrow> None | i # _ \<Rightarrow> Some i)"

text \<open>\<open>strings.Cut\<close> at the first occurrence of one byte.\<close>

definition cut_at :: "char \<Rightarrow> string \<Rightarrow> string \<times> string \<times> bool" where
  "cut_at c s = (let h = takeWhile (\<lambda>x. x \<noteq> c) s in
     if c \<in> set s then (h, drop (Suc (length h)) s, True) else (s, [], False))"

definition is_space :: "char \<Rightarrow> bool" where
  "is_space c \<longleftrightarrow> of_char c \<in> {9, 10, 11, 12, 13, 32 :: nat}"

definition trim_space :: "string \<Rightarrow> string" where
  "trim_space s = rev (dropWhile is_space (rev (dropWhile is_space s)))"

text \<open>\<open>strings.Trim(s, cutset)\<close>.\<close>

definition trim_set :: "char set \<Rightarrow> string \<Rightarrow> string" where
  "trim_set cs s = rev (dropWhile (\<lambda>c. c \<in> cs) (rev (dropWhile (\<lambda>c. c \<in> cs) s)))"

fun split_on :: "char \<Rightarrow> string \<Rightarrow> string list" where
  "split_on c [] = [[]]"
| "split_on c (x # xs) =
     (if x = c then [] # split_on c xs
      else (case split_on c xs of [] \<Rightarrow> [[x]] | w # ws \<Rightarrow> (x # w) # ws))"

definition is_lower :: "char \<Rightarrow> bool" where
  "is_lower c \<longleftrightarrow> CHR ''a'' \<le> c \<and> c \<le> CHR ''z''"

definition is_upper :: "char \<Rightarrow> bool" where
  "is_upper c \<longleftrightarrow> CHR ''A'' \<le> c \<and> c \<le> CHR ''Z''"

definition is_digit :: "char \<Rightarrow> bool" where
  "is_digit c \<longleftrightarrow> CHR ''0'' \<le> c \<and> c \<le> CHR ''9''"

definition to_lower :: "char \<Rightarrow> char" where
  "to_lower c = (if is_upper c then char_of ((of_char c :: nat) + 32) else c)"

lemmas char_classes = is_lower_def is_upper_def is_digit_def less_eq_char_def

section \<open>strconv\<close>

definition digit_char :: "nat \<Rightarrow> char" where
  "digit_char d = char_of (48 + d)"

definition digit_val :: "char \<Rightarrow> nat" where
  "digit_val c = of_char c - 48"

fun utoa :: "nat \<Rightarrow> string" where
  "utoa n = (if n < 10 then [digit_char n] else utoa (n div 10) @ [digit_char (n mod 10)])"

declare utoa.simps [simp del]

definition Itoa :: "int \<Rightarrow> string" where
  "Itoa i = (if i < 0 then CHR ''-'' # utoa (nat (- i)) else utoa (nat i))"

definition digits_val :: "string \<Rightarrow> nat" where
  "digits_val s = foldl (\<lambda>n c. 10 * n + digit_val c) 0 s"

text \<open>
  \<open>strconv.Atoi\<close>: an optional sign and at least one digit; \<open>None\<close> is the error, which a value
  outside \<open>int\<close> (64 bits) is too.
\<close>

definition Atoi :: "string \<Rightarrow> int option" where
  "Atoi s =
     (let neg = (s \<noteq> [] \<and> hd s = CHR ''-'');
          t = (if s \<noteq> [] \<and> (hd s = CHR ''-'' \<or> hd s = CHR ''+'') then tl s else s)
      in if t = [] \<or> \<not> list_all is_digit t then None
         else let v = int (digits_val t); i = (if neg then - v else v)
              in if - (2 ^ 63) \<le> i \<and> i < 2 ^ 63 then Some i else None)"

lemma of_char_digit_char: "d < 10 \<Longrightarrow> of_char (digit_char d) = 48 + d"
  by (simp add: digit_char_def)

lemma is_digit_code: "is_digit c \<longleftrightarrow> 48 \<le> (of_char c :: nat) \<and> (of_char c :: nat) \<le> 57"
  by (simp add: is_digit_def less_eq_char_def)

lemma is_digit_digit_char [simp]: "d < 10 \<Longrightarrow> is_digit (digit_char d)"
  by (simp add: is_digit_code of_char_digit_char)

lemma digit_val_digit_char [simp]: "d < 10 \<Longrightarrow> digit_val (digit_char d) = d"
  by (simp add: digit_val_def of_char_digit_char)

lemma utoa_nonempty [simp]: "utoa n \<noteq> []"
  by (subst utoa.simps) simp

lemma utoa_digits: "list_all is_digit (utoa n)"
  by (induction n rule: utoa.induct) (subst utoa.simps, simp)

lemma digits_val_utoa [simp]: "digits_val (utoa n) = n"
proof (induction n rule: utoa.induct)
  case (1 n)
  show ?case
  proof (cases "n < 10")
    case True
    then show ?thesis by (subst utoa.simps) (simp add: digits_val_def)
  next
    case False
    with 1 have "digits_val (utoa (n div 10)) = n div 10" by simp
    with False show ?thesis by (subst utoa.simps) (simp add: digits_val_def)
  qed
qed

lemma not_digit_sign [simp]: "\<not> is_digit CHR ''-''" "\<not> is_digit CHR ''+''"
  by (simp_all add: is_digit_code)

lemma utoa_hd_digit: "is_digit (hd (utoa n))"
  using utoa_digits [of n] by (cases "utoa n") simp_all

lemma Atoi_Itoa:
  assumes "- (2 ^ 63) \<le> i" "i < 2 ^ 63"
  shows "Atoi (Itoa i) = Some i"
proof (cases "i < 0")
  case True
  then show ?thesis
    using assms utoa_digits [of "nat (- i)"] by (simp add: Atoi_def Itoa_def Let_def)
next
  case False
  have "hd (utoa (nat i)) \<noteq> CHR ''-''" "hd (utoa (nat i)) \<noteq> CHR ''+''"
    using utoa_hd_digit [of "nat i"] by auto
  with False assms show ?thesis
    using utoa_digits [of "nat i"] by (simp add: Atoi_def Itoa_def Let_def)
qed

section \<open>path/filepath\<close>

text \<open>
  A cleaned path: whether it is rooted, and its components, none empty or \<open>.\<close>, with \<open>..\<close> only
  at the start of a relative one. \<open>(False, [])\<close> is \<open>.\<close>, and \<open>(True, [])\<close> is \<open>/\<close>.
\<close>

type_synonym fpath = "bool \<times> string list"

definition clean_step :: "bool \<Rightarrow> string \<Rightarrow> string list \<Rightarrow> string list" where
  "clean_step rooted c acc =
     (if c = [] \<or> c = ''.'' then acc
      else if c = ''..'' then
        (case acc of
           [] \<Rightarrow> (if rooted then [] else [''..''])
         | a # as \<Rightarrow> (if a = ''..'' then ''..'' # acc else as))
      else c # acc)"

definition clean_onto :: "bool \<Rightarrow> string list \<Rightarrow> string list \<Rightarrow> string list" where
  "clean_onto rooted base cs = rev (fold (clean_step rooted) cs (rev base))"

definition is_abs :: "string \<Rightarrow> bool" where
  "is_abs s \<longleftrightarrow> s \<noteq> [] \<and> hd s = CHR ''/''"

definition Clean :: "string \<Rightarrow> fpath" where
  "Clean s = (is_abs s, clean_onto (is_abs s) [] (split_on CHR ''/'' s))"

definition Rel :: "fpath \<Rightarrow> fpath \<Rightarrow> string list option" where
  "Rel base targ =
     (let b = snd base; t = snd targ; n = length (longest_common_prefix b t);
          bs = drop n b; ts = drop n t
      in if fst base \<noteq> fst targ then None
         else if bs \<noteq> [] \<and> hd bs = ''..'' then None
         else Some (map (\<lambda>_. ''..'') bs @ ts))"

definition IsLocal :: "string \<Rightarrow> bool" where
  "IsLocal s \<longleftrightarrow> s \<noteq> [] \<and> \<not> fst (Clean s) \<and> take 1 (snd (Clean s)) \<noteq> [''..'']"

text \<open>The text of an absolute clean path.\<close>

definition path_text :: "string list \<Rightarrow> string" where
  "path_text p = (if p = [] then ''/'' else concat (map ((#) CHR ''/'') p))"

text \<open>A component as a directory entry can have it.\<close>

definition good_name :: "string \<Rightarrow> bool" where
  "good_name c \<longleftrightarrow> c \<noteq> [] \<and> c \<noteq> ''.'' \<and> c \<noteq> ''..'' \<and> CHR ''/'' \<notin> set c"

lemma clean_step_good: "good_name c \<Longrightarrow> clean_step r c acc = c # acc"
  by (simp add: clean_step_def good_name_def)

lemma clean_onto_good: "list_all good_name cs \<Longrightarrow> clean_onto r base cs = base @ cs"
proof -
  assume "list_all good_name cs"
  then have "fold (clean_step r) cs acc = rev cs @ acc" for acc
    by (induction cs arbitrary: acc) (simp_all add: clean_step_good)
  then show ?thesis by (simp add: clean_onto_def)
qed

lemma split_on_no_sep: "c \<notin> set s \<Longrightarrow> split_on c s = [s]"
  by (induction s) auto

lemma split_on_nonempty [simp]: "split_on c s \<noteq> []"
  by (induction s) (auto split: list.splits)

lemma split_on_cons_sep:
  "c \<notin> set s \<Longrightarrow> split_on c (s @ c # t) = s # split_on c t"
  by (induction s) auto

lemma split_on_path_text:
  "list_all good_name p \<Longrightarrow> split_on CHR ''/'' (concat (map ((#) CHR ''/'') p)) = [] # p"
proof (induction p)
  case Nil
  then show ?case by simp
next
  case (Cons x p)
  then have x: "CHR ''/'' \<notin> set x" by (simp add: good_name_def)
  show ?case
  proof (cases p)
    case Nil
    then show ?thesis using x by (simp add: split_on_no_sep)
  next
    case (Cons y q)
    then have "concat (map ((#) CHR ''/'') p) = CHR ''/'' # y @ concat (map ((#) CHR ''/'') q)"
      by simp
    with Cons.IH Cons.prems x show ?thesis
      by (simp add: Cons split_on_cons_sep)
  qed
qed

lemma Clean_path_text:
  assumes "list_all good_name p"
  shows "Clean (path_text p) = (True, p)"
proof (cases "p = []")
  case True
  then show ?thesis by (simp add: Clean_def path_text_def is_abs_def clean_onto_def clean_step_def)
next
  case False
  then have "is_abs (path_text p)" by (cases p) (simp_all add: path_text_def is_abs_def)
  moreover have "clean_onto True [] ([] # p) = p"
    using clean_onto_good [OF assms, of True "[]"] by (simp add: clean_onto_def clean_step_def)
  ultimately show ?thesis
    using False assms by (simp add: Clean_def path_text_def split_on_path_text)
qed

lemma longest_common_prefix_append [simp]:
  "longest_common_prefix (p @ q) (p @ r) = p @ longest_common_prefix q r"
  by (induction p) simp_all

lemma longest_common_prefix_take:
  "\<exists>xs' ys'. xs = longest_common_prefix xs ys @ xs' \<and> ys = longest_common_prefix xs ys @ ys'"
  by (meson longest_common_prefix_prefix1 longest_common_prefix_prefix2 prefix_def)

text \<open>A relative path without a leading \<open>..\<close> is one below the base.\<close>

lemma Rel_below:
  assumes "Rel (True, b) (True, t) = Some r" and "r \<noteq> [] \<Longrightarrow> hd r \<noteq> ''..''"
  shows "t = b @ r"
proof -
  let ?l = "longest_common_prefix b t"
  obtain b' t' where b: "b = ?l @ b'" and t: "t = ?l @ t'"
    using longest_common_prefix_take [of b t] by blast
  have db: "drop (length ?l) b = b'" using b by (metis append_eq_conv_conj)
  have dt: "drop (length ?l) t = t'" using t by (metis append_eq_conv_conj)
  from assms(1) have r: "r = map (\<lambda>_. ''..'') b' @ t'"
    by (auto simp: Rel_def Let_def db dt split: if_splits)
  with assms(2) have "b' = []" by (cases b') auto
  with r b t show ?thesis by simp
qed

lemma Rel_append: "Rel (True, b) (True, b @ r) = Some r"
proof -
  have "longest_common_prefix b (b @ r) = b"
    using longest_common_prefix_append [of b "[]" r] by simp
  then show ?thesis by (simp add: Rel_def)
qed

end
