(* ===== verification/Ids.thy ===== *)
theory Ids
  imports GoStrings
begin

text \<open>
  The names of environments, snapshots, boxes, forks and golden builders:
  \<open>internal/store/store.go\<close> (the patterns, \<open>CheckEnvID\<close>, \<open>AgentBox\<close>, \<open>ForkID\<close>, \<open>ForkOf\<close>) and the
  end of \<open>internal/setup/setup.go\<close> (\<open>IsBuilder\<close>, \<open>SourceID\<close>, \<open>BuilderOf\<close>, \<open>ID\<close>). The names
  carry meaning (an agent box's environment, a fork's source), so what matters is that they can
  be taken apart again and never meet.
\<close>

section \<open>Patterns\<close>

definition lower_alnum :: "char \<Rightarrow> bool" where
  "lower_alnum c \<longleftrightarrow> is_lower c \<or> is_digit c"

definition alnum :: "char \<Rightarrow> bool" where
  "alnum c \<longleftrightarrow> is_lower c \<or> is_upper c \<or> is_digit c"

text \<open>\<open>^[a-z0-9]([-a-z0-9]{0,61}[a-z0-9])?$\<close>\<close>

definition envIDPattern :: "string \<Rightarrow> bool" where
  "envIDPattern s \<longleftrightarrow>
     s \<noteq> [] \<and> lower_alnum (hd s) \<and>
     (tl s = [] \<or>
      length (butlast (tl s)) \<le> 61 \<and>
      list_all (\<lambda>c. c = CHR ''-'' \<or> lower_alnum c) (butlast (tl s)) \<and>
      lower_alnum (last (tl s)))"

text \<open>\<open>^[A-Za-z0-9][A-Za-z0-9._-]{0,127}$\<close>\<close>

definition snapIDPattern :: "string \<Rightarrow> bool" where
  "snapIDPattern s \<longleftrightarrow>
     s \<noteq> [] \<and> alnum (hd s) \<and> length (tl s) \<le> 127 \<and>
     list_all (\<lambda>c. alnum c \<or> c \<in> set ''._-'') (tl s)"

text \<open>\<open>^[A-Za-z0-9_][A-Za-z0-9._-]{0,127}$\<close>\<close>

definition pathPartPattern :: "string \<Rightarrow> bool" where
  "pathPartPattern s \<longleftrightarrow>
     s \<noteq> [] \<and> (alnum (hd s) \<or> hd s = CHR ''_'') \<and> length (tl s) \<le> 127 \<and>
     list_all (\<lambda>c. alnum c \<or> c \<in> set ''._-'') (tl s)"

definition CheckEnvID :: "string \<Rightarrow> bool" where
  "CheckEnvID eid \<longleftrightarrow> envIDPattern eid"

definition checkSnapID :: "string \<Rightarrow> bool" where
  "checkSnapID eid \<longleftrightarrow> snapIDPattern eid"

section \<open>Agent boxes and forks\<close>

definition agentSuffix :: string where "agentSuffix = ''.agent''"

definition AgentBox :: "string \<Rightarrow> string" where
  "AgentBox eid = eid @ agentSuffix"

definition IsAgentBox :: "string \<Rightarrow> bool" where
  "IsAgentBox box \<longleftrightarrow> suffix agentSuffix box"

definition EnvOfBox :: "string \<Rightarrow> string" where
  "EnvOfBox box = trim_suffix box agentSuffix"

definition forkInfix :: string where "forkInfix = ''-fork-''"

definition ForkID :: "string \<Rightarrow> int \<Rightarrow> string" where
  "ForkID eid n = eid @ forkInfix @ Itoa n"

definition ForkOf :: "string \<Rightarrow> (string \<times> int) option" where
  "ForkOf fork =
     (case last_index fork forkInfix of
        None \<Rightarrow> None
      | Some i \<Rightarrow>
          if i = 0 then None
          else let digits = drop (i + length forkInfix) fork
               in case Atoi digits of
                    None \<Rightarrow> None
                  | Some n \<Rightarrow> if n < 1 \<or> Itoa n \<noteq> digits then None else Some (take i fork, n))"

section \<open>Golden builders\<close>

definition builderPrefix :: string where "builderPrefix = ''golden-''"

definition sourceSuffix :: string where "sourceSuffix = ''-src''"

definition IsBuilder :: "string \<Rightarrow> bool" where
  "IsBuilder eid \<longleftrightarrow> prefix builderPrefix eid"

text \<open>
  \<open>ID\<close>: a readable part and 8 hex digits of the repository name's SHA-256. \<open>sha256hex\<close> is the
  standard library's hash, as hex; its callers below state what they use of it.
\<close>

definition readable_part :: "string \<Rightarrow> string" where
  "readable_part repo =
     (let b = map (\<lambda>r. if lower_alnum r then r else CHR ''-'') (map to_lower repo);
          r1 = trim_set {CHR ''-''} b;
          r2 = (if length r1 > 30 then trim_set {CHR ''-''} (take 30 r1) else r1)
      in if r2 = [] then ''repo'' else r2)"

definition builderID :: "(string \<Rightarrow> string) \<Rightarrow> string \<Rightarrow> string" where
  "builderID sha256hex repo =
     builderPrefix @ readable_part repo @ ''-'' @ take 8 (sha256hex repo)"

definition SourceID :: "(string \<Rightarrow> string) \<Rightarrow> string \<Rightarrow> string" where
  "SourceID sha256hex repo = builderID sha256hex repo @ sourceSuffix"

definition BuilderOf :: "string \<Rightarrow> string option" where
  "BuilderOf eid = (if IsBuilder eid then cut_suffix eid sourceSuffix else None)"

section \<open>Lemmas\<close>

lemma lower_alnum_simps [simp]: "\<not> lower_alnum CHR ''-''" "\<not> lower_alnum CHR ''.''"
    "\<not> lower_alnum CHR ''/''"
  by (simp_all add: lower_alnum_def is_lower_def is_digit_def less_eq_char_def)

lemma alnum_simps [simp]: "\<not> alnum CHR ''.''" "\<not> alnum CHR ''/''" "\<not> alnum CHR ''_''"
  by (simp_all add: alnum_def char_classes)

lemma envIDPattern_chars:
  assumes "envIDPattern s" "c \<in> set s"
  shows "c = CHR ''-'' \<or> lower_alnum c"
proof (cases s)
  case (Cons x t)
  show ?thesis
  proof (cases "t = []")
    case False
    then have "set t = insert (last t) (set (butlast t))"
      by (metis Un_insert_right append_butlast_last_id list.set(1) list.simps(15) set_append sup_bot_right)
    with assms Cons False show ?thesis by (auto simp: envIDPattern_def list_all_iff)
  qed (use assms Cons in \<open>auto simp: envIDPattern_def\<close>)
qed (use assms in simp)

lemma envIDPattern_no: "envIDPattern s \<Longrightarrow> CHR ''.'' \<notin> set s \<and> CHR ''/'' \<notin> set s"
  using envIDPattern_chars [of s "CHR ''.''"] envIDPattern_chars [of s "CHR ''/''"] by auto

lemma envIDPattern_good_name: "envIDPattern s \<Longrightarrow> good_name s"
  using envIDPattern_no [of s] by (auto simp: good_name_def envIDPattern_def)

lemma envIDPattern_length: "envIDPattern s \<Longrightarrow> length s \<le> 63"
  by (cases s) (auto simp: envIDPattern_def)

lemma envIDPattern_I:
  assumes "list_all (\<lambda>c. c = CHR ''-'' \<or> lower_alnum c) s" "s \<noteq> []" "length s \<le> 63"
    "lower_alnum (hd s)" "lower_alnum (last s)"
  shows "envIDPattern s"
proof -
  obtain x t where s: "s = x # t" using assms(2) by (cases s) auto
  have "list_all (\<lambda>c. c = CHR ''-'' \<or> lower_alnum c) (butlast t)"
    using assms(1) s by (auto simp: list_all_iff dest: in_set_butlastD)
  then show ?thesis using assms s by (auto simp: envIDPattern_def split: if_splits)
qed

lemma snapIDPattern_good_name: "snapIDPattern s \<Longrightarrow> good_name s"
  by (cases s) (auto simp: snapIDPattern_def good_name_def list_all_iff)

lemma pathPartPattern_good_name: "pathPartPattern s \<Longrightarrow> good_name s"
  by (cases s) (auto simp: pathPartPattern_def good_name_def list_all_iff)

lemma EnvOfBox_AgentBox [simp]: "EnvOfBox (AgentBox eid) = eid"
  by (simp add: EnvOfBox_def AgentBox_def trim_suffix_def cut_suffix_def)

lemma IsAgentBox_AgentBox [simp]: "IsAgentBox (AgentBox eid)"
  by (simp add: IsAgentBox_def AgentBox_def)

lemma CheckEnvID_not_agent: "CheckEnvID eid \<Longrightarrow> \<not> IsAgentBox eid"
  using envIDPattern_no [of eid]
  by (auto simp: CheckEnvID_def IsAgentBox_def agentSuffix_def suffix_def)

lemma EnvOfBox_env: "CheckEnvID eid \<Longrightarrow> EnvOfBox eid = eid"
  using CheckEnvID_not_agent [of eid]
  by (simp add: IsAgentBox_def EnvOfBox_def trim_suffix_def cut_suffix_def)

lemma last_index_SomeD:
  assumes "last_index s sub = Some i"
  shows "prefix sub (drop i s) \<and> i \<le> length s"
proof -
  let ?l = "rev (filter (\<lambda>i. prefix sub (drop i s)) [0..<Suc (length s)])"
  obtain xs where "?l = i # xs"
    using assms unfolding last_index_def by (cases ?l) (simp_all del: upt_Suc)
  then have "i \<in> set ?l" by (metis list.set_intros(1))
  then show ?thesis by (auto simp del: upt_Suc)
qed

lemma last_index_eqI:
  assumes "prefix sub (drop i s)" "i \<le> length s"
    and "\<And>j. i < j \<Longrightarrow> j \<le> length s \<Longrightarrow> \<not> prefix sub (drop j s)"
  shows "last_index s sub = Some i"
proof -
  have "[0..<Suc (length s)] = [0..<i] @ i # [Suc i..<Suc (length s)]"
    using assms(2) by (rule upt_split)
  moreover have "filter (\<lambda>j. prefix sub (drop j s)) [Suc i..<Suc (length s)] = []"
    using assms(3) by (auto simp: filter_empty_conv simp del: upt_Suc)
  ultimately show ?thesis using assms(1) by (simp add: last_index_def del: upt_Suc)
qed

lemma Itoa_digits: "1 \<le> n \<Longrightarrow> list_all is_digit (Itoa n)"
  using utoa_digits by (simp add: Itoa_def)

lemma last_index_fork:
  assumes "1 \<le> n"
  shows "last_index (ForkID eid n) forkInfix = Some (length eid)"
proof (rule last_index_eqI)
  show "prefix forkInfix (drop (length eid) (ForkID eid n))"
    by (simp add: ForkID_def)
  show "length eid \<le> length (ForkID eid n)" by (simp add: ForkID_def)
  fix j assume j: "length eid < j" "j \<le> length (ForkID eid n)"
  show "\<not> prefix forkInfix (drop j (ForkID eid n))"
  proof
    assume "prefix forkInfix (drop j (ForkID eid n))"
    then obtain r where r: "drop j (ForkID eid n) = forkInfix @ r" by (auto simp: prefix_def)
    define k where "k = j - length eid"
    have k: "0 < k" "j = length eid + k" using j by (simp_all add: k_def)
    have d: "drop k (forkInfix @ Itoa n) = forkInfix @ r"
      using r by (simp add: ForkID_def k)
    have "(forkInfix @ Itoa n) ! (k + 5) = CHR ''-''"
    proof -
      have "drop k (forkInfix @ Itoa n) ! 5 = CHR ''-''" by (simp only: d) (simp add: forkInfix_def)
      moreover have "5 < length (drop k (forkInfix @ Itoa n))" by (simp only: d) (simp add: forkInfix_def)
      ultimately show ?thesis by (simp only: nth_drop length_drop) 
    qed
    moreover have "k + 5 < length (forkInfix @ Itoa n)"
    proof -
      have "length (drop k (forkInfix @ Itoa n)) \<ge> 6" by (simp only: d) (simp add: forkInfix_def)
      then show ?thesis by simp
    qed
    ultimately have "Itoa n ! (k - 1) = CHR ''-''" "k - 1 < length (Itoa n)"
      using k by (auto simp: nth_append forkInfix_def split: if_splits)
    then have "\<not> list_all is_digit (Itoa n)"
      by (metis list_all_length not_digit_sign(1))
    with Itoa_digits [OF assms] show False by simp
  qed
qed

lemma ForkOf_ForkID:
  assumes "eid \<noteq> []" "1 \<le> n" "n < 2 ^ 63"
  shows "ForkOf (ForkID eid n) = Some (eid, n)"
proof -
  have "Atoi (Itoa n) = Some n" using assms by (intro Atoi_Itoa) auto
  with assms show ?thesis
    by (simp add: ForkOf_def last_index_fork) (simp add: ForkID_def)
qed

lemma ForkOf_SomeD:
  assumes "ForkOf f = Some (eid, n)"
  shows "f = ForkID eid n \<and> eid \<noteq> [] \<and> 1 \<le> n"
proof -
  from assms obtain i where i: "last_index f forkInfix = Some i" "i \<noteq> 0"
    and n: "1 \<le> n" "Itoa n = drop (i + length forkInfix) f" "eid = take i f"
    by (auto simp: ForkOf_def Let_def split: option.splits if_splits)
  from last_index_SomeD [OF i(1)] obtain r where r: "drop i f = forkInfix @ r" and il: "i \<le> length f"
    by (auto simp: prefix_def)
  then have "drop (i + length forkInfix) f = r"
    by (metis add.commute append_eq_conv_conj drop_drop)
  with n r have "f = ForkID eid n"
    by (simp add: ForkID_def) (metis append_take_drop_id)
  moreover have "eid \<noteq> []" using i(2) il n(3) r by (auto simp: forkInfix_def)
  ultimately show ?thesis using n by simp
qed

section \<open>Builders' names\<close>

lemma trim_set_set: "set (trim_set cs s) \<subseteq> set s"
  by (auto simp: trim_set_def dest!: set_dropWhileD)

lemma trim_set_length: "length (trim_set cs s) \<le> length s"
  unfolding trim_set_def
  by (metis le_trans length_dropWhile_le length_rev)

lemma trim_set_ends:
  assumes "trim_set cs s \<noteq> []"
  shows "hd (trim_set cs s) \<notin> cs \<and> last (trim_set cs s) \<notin> cs"
proof -
  define t where "t = dropWhile (\<lambda>c. c \<in> cs) s"
  define u where "u = dropWhile (\<lambda>c. c \<in> cs) (rev t)"
  have r: "trim_set cs s = rev u" by (simp add: trim_set_def t_def u_def)
  have "u \<noteq> []" using assms r by simp
  then have "hd u \<notin> cs" using hd_dropWhile [of "\<lambda>c. c \<in> cs" "rev t"] by (simp add: u_def)
  moreover have "hd (rev u) = hd t"
  proof -
    have "rev t = takeWhile (\<lambda>c. c \<in> cs) (rev t) @ u" by (simp add: u_def)
    then have "t = rev u @ rev (takeWhile (\<lambda>c. c \<in> cs) (rev t))" by (metis rev_append rev_rev_ident)
    with \<open>u \<noteq> []\<close> show ?thesis by (metis hd_append2 rev_is_Nil_conv)
  qed
  moreover have "t \<noteq> []" using \<open>u \<noteq> []\<close> by (auto simp: u_def)
  then have "hd t \<notin> cs" using hd_dropWhile [of "\<lambda>c. c \<in> cs" s] by (simp add: t_def)
  ultimately show ?thesis using \<open>u \<noteq> []\<close> by (simp add: r hd_rev last_rev)
qed

lemma readable_part_ok:
  "readable_part repo \<noteq> [] \<and> length (readable_part repo) \<le> 30 \<and>
   list_all (\<lambda>c. c = CHR ''-'' \<or> lower_alnum c) (readable_part repo)"
proof -
  define b where "b = map (\<lambda>r. if lower_alnum r then r else CHR ''-'') (map to_lower repo)"
  define r1 where "r1 = trim_set {CHR ''-''} b"
  define r2 where "r2 = (if length r1 > 30 then trim_set {CHR ''-''} (take 30 r1) else r1)"
  have eq: "readable_part repo = (if r2 = [] then ''repo'' else r2)"
    by (simp add: readable_part_def b_def r1_def r2_def Let_def)
  have b: "\<And>c. c \<in> set b \<Longrightarrow> c = CHR ''-'' \<or> lower_alnum c" by (auto simp: b_def)
  have "set r2 \<subseteq> set b"
    using trim_set_set [of "{CHR ''-''}" b] trim_set_set [of "{CHR ''-''}" "take 30 r1"]
      set_take_subset [of 30 r1] by (auto simp: r2_def r1_def)
  moreover have "length r2 \<le> 30"
    using trim_set_length [of "{CHR ''-''}" "take 30 r1"] by (auto simp: r2_def)
  ultimately show ?thesis
    using b by (auto simp: eq list_all_iff lower_alnum_def is_lower_def is_digit_def less_eq_char_def)
qed

text \<open>What is used of SHA-256 in hex: 64 hex digits (\<open>sha256.Size\<close> bytes).\<close>

definition hex_digit :: "char \<Rightarrow> bool" where
  "hex_digit c \<longleftrightarrow> is_digit c \<or> (CHR ''a'' \<le> c \<and> c \<le> CHR ''f'')"

definition hex64 :: "(string \<Rightarrow> string) \<Rightarrow> bool" where
  "hex64 h \<longleftrightarrow> (\<forall>s. length (h s) = 64 \<and> list_all hex_digit (h s))"

lemma hex_digit_lower_alnum: "hex_digit c \<Longrightarrow> lower_alnum c"
  by (auto simp: hex_digit_def lower_alnum_def is_digit_def is_lower_def less_eq_char_def)

lemma hex64_take:
  assumes "hex64 h"
  shows "list_all hex_digit (take 8 (h s))" "length (take 8 (h s)) = 8"
  using assms by (auto simp: hex64_def list_all_iff dest: in_set_takeD)

lemma builderID_valid:
  assumes "hex64 h"
  shows "envIDPattern (builderID h repo)"
proof (rule envIDPattern_I)
  note h = hex64_take [OF assms, of repo]
  have h': "list_all lower_alnum (take 8 (h repo))"
    using h(1) by (auto simp: list_all_iff hex_digit_lower_alnum)
  show "list_all (\<lambda>c. c = CHR ''-'' \<or> lower_alnum c) (builderID h repo)"
    using readable_part_ok [of repo] h'
    by (auto simp: builderID_def builderPrefix_def list_all_iff lower_alnum_def is_lower_def
        is_digit_def less_eq_char_def)
  show "length (builderID h repo) \<le> 63"
    using readable_part_ok [of repo] h(2) by (simp add: builderID_def builderPrefix_def)
  show "lower_alnum (hd (builderID h repo))"
    by (simp add: builderID_def builderPrefix_def lower_alnum_def is_lower_def less_eq_char_def)
  have "take 8 (h repo) \<noteq> []" using h(2) by auto
  then show "lower_alnum (last (builderID h repo))"
    using h' by (simp add: builderID_def list_all_iff)
qed (simp add: builderID_def builderPrefix_def)

lemma SourceID_valid:
  assumes "hex64 h"
  shows "envIDPattern (SourceID h repo)"
proof (rule envIDPattern_I)
  note v = builderID_valid [OF assms, of repo]
  have "\<And>c. c \<in> set (builderID h repo) \<Longrightarrow> c = CHR ''-'' \<or> lower_alnum c"
    using envIDPattern_chars [OF v] by blast
  then show "list_all (\<lambda>c. c = CHR ''-'' \<or> lower_alnum c) (SourceID h repo)"
    by (auto simp: SourceID_def sourceSuffix_def list_all_iff lower_alnum_def is_lower_def
        is_digit_def less_eq_char_def)
  show "length (SourceID h repo) \<le> 63"
    using readable_part_ok [of repo] hex64_take(2) [OF assms, of repo]
    by (simp add: SourceID_def sourceSuffix_def builderID_def builderPrefix_def)
  show "lower_alnum (hd (SourceID h repo))"
    using v by (auto simp: SourceID_def envIDPattern_def)
qed (simp_all add: SourceID_def sourceSuffix_def lower_alnum_def is_lower_def less_eq_char_def)

lemma cut_suffix_append [simp]: "cut_suffix (s @ suf) suf = Some s"
  by (simp add: cut_suffix_def)

lemma IsBuilder_builderID: "IsBuilder (builderID h repo @ s)"
  by (simp add: IsBuilder_def builderID_def)

lemma BuilderOf_SourceID: "BuilderOf (SourceID h repo) = Some (builderID h repo)"
  by (simp add: BuilderOf_def SourceID_def IsBuilder_builderID)

lemma BuilderOf_builderID:
  assumes "hex64 h"
  shows "BuilderOf (builderID h repo) = None"
proof -
  have "\<not> suffix sourceSuffix (builderID h repo)"
  proof
    assume "suffix sourceSuffix (builderID h repo)"
    then obtain u where u: "builderID h repo = u @ ''-src''"
      by (auto simp: suffix_def sourceSuffix_def)
    have "builderID h repo = (builderPrefix @ readable_part repo @ ''-'') @ take 8 (h repo)"
      by (simp add: builderID_def)
    then have "take 4 (rev (builderID h repo)) = take 4 (rev (take 8 (h repo)))"
      using hex64_take(2) [OF assms, of repo] by simp
    moreover have "take 4 (rev (builderID h repo)) = ''crs-''" by (simp add: u)
    ultimately have "CHR ''-'' \<in> set (take 8 (h repo))"
      by (metis in_set_takeD list.set_intros set_rev)
    then have "hex_digit CHR ''-''"
      using hex64_take(1) [OF assms, of repo] by (simp add: list_all_iff)
    then show False by (simp add: hex_digit_def is_digit_def less_eq_char_def)
  qed
  then show ?thesis by (simp add: BuilderOf_def cut_suffix_def)
qed

end
