(* ===== verification/FileTree.thy ===== *)
theory FileTree
  imports Prelude
begin

text \<open>
  The filesystem as a tree. A node is a regular file, a symlink, a special file (a socket, a
  pipe, a device) or a directory; a directory may be the root of a btrfs subvolume, writable or
  read-only. The entries of a directory are in the order they were made, which is the order
  btrfs lists them in.

  Paths are lists of components from the filesystem's root, and a walk follows no symlink: the
  store refuses workspaces reached through one (\<open>checkWorkspace\<close>, \<open>isRealDir\<close>), and reads
  through an \<open>os.Root\<close> elsewhere.
\<close>

type_synonym path = "string list"

record attr =
  uid :: nat
  gid :: nat
  mode :: nat
  mtime :: int

datatype dkind = Plain | Subvol (ro: bool)

datatype node =
    File attr string
  | Symlink attr string
  | Special attr
  | Dir attr dkind "(string \<times> node) list"

fun lookup :: "node \<Rightarrow> path \<Rightarrow> node option" where
  "lookup n [] = Some n"
| "lookup (Dir a k es) (x # xs) = (case map_of es x of None \<Rightarrow> None | Some c \<Rightarrow> lookup c xs)"
| "lookup n (x # xs) = None"

fun upd :: "path \<Rightarrow> node option \<Rightarrow> node \<Rightarrow> node" where
  "upd [] v n = (case v of None \<Rightarrow> n | Some m \<Rightarrow> m)"
| "upd [x] v (Dir a k es) =
     Dir a k (case v of None \<Rightarrow> AList.delete x es | Some m \<Rightarrow> AList.update x m es)"
| "upd (x # y # ys) v (Dir a k es) =
     (case map_of es x of
        None \<Rightarrow> Dir a k es
      | Some c \<Rightarrow> Dir a k (AList.update x (upd (y # ys) v c) es))"
| "upd (x # xs) v n = n"

definition is_dir :: "node \<Rightarrow> bool" where
  "is_dir n \<longleftrightarrow> (case n of Dir _ _ _ \<Rightarrow> True | _ \<Rightarrow> False)"

definition is_link :: "node \<Rightarrow> bool" where
  "is_link n \<longleftrightarrow> (case n of Symlink _ _ \<Rightarrow> True | _ \<Rightarrow> False)"

definition is_regular :: "node \<Rightarrow> bool" where
  "is_regular n \<longleftrightarrow> (case n of File _ _ \<Rightarrow> True | _ \<Rightarrow> False)"

definition entries :: "node \<Rightarrow> (string \<times> node) list" where
  "entries n = (case n of Dir _ _ es \<Rightarrow> es | _ \<Rightarrow> [])"

definition attr_of :: "node \<Rightarrow> attr" where
  "attr_of n = (case n of File a _ \<Rightarrow> a | Symlink a _ \<Rightarrow> a | Special a \<Rightarrow> a | Dir a _ _ \<Rightarrow> a)"

definition set_attr :: "(attr \<Rightarrow> attr) \<Rightarrow> node \<Rightarrow> node" where
  "set_attr f n = (case n of
      File a c \<Rightarrow> File (f a) c
    | Symlink a l \<Rightarrow> Symlink (f a) l
    | Special a \<Rightarrow> Special (f a)
    | Dir a k es \<Rightarrow> Dir (f a) k es)"

text \<open>The directory that holds path \<open>p\<close> is there.\<close>

definition has_parent :: "node \<Rightarrow> path \<Rightarrow> bool" where
  "has_parent t p \<longleftrightarrow> p \<noteq> [] \<and> (\<exists>a k es. lookup t (butlast p) = Some (Dir a k es))"

lemma has_parent_code [code]:
  "has_parent t p \<longleftrightarrow> p \<noteq> [] \<and> (case lookup t (butlast p) of Some n \<Rightarrow> is_dir n | None \<Rightarrow> False)"
  by (auto simp: has_parent_def is_dir_def split: option.splits node.splits)

section \<open>Lookup and update\<close>

lemma is_dir_Dir [simp]: "is_dir (Dir a k es)" "\<not> is_dir (File b c)" "\<not> is_dir (Symlink b l)"
    "\<not> is_dir (Special b)"
  by (simp_all add: is_dir_def)

lemma is_dirE: "is_dir n \<Longrightarrow> (\<And>a k es. n = Dir a k es \<Longrightarrow> P) \<Longrightarrow> P"
  by (cases n) (simp_all add: is_dir_def)

lemma entries_simps [simp]:
  "entries (Dir a k es) = es" "entries (File b c) = []" "entries (Symlink b l) = []"
  "entries (Special b) = []"
  by (simp_all add: entries_def)

lemma lookup_cons: "lookup n (x # xs) =
    (case map_of (entries n) x of None \<Rightarrow> None | Some c \<Rightarrow> lookup c xs)"
  by (cases n) simp_all

lemma lookup_append:
  "lookup t (p @ q) = (case lookup t p of None \<Rightarrow> None | Some n \<Rightarrow> lookup n q)"
  by (induction p arbitrary: t) (auto simp: lookup_cons split: option.split)

lemma lookup_some_parent:
  "lookup t p = Some n \<Longrightarrow> p \<noteq> [] \<Longrightarrow> has_parent t p"
proof -
  assume n: "lookup t p = Some n" and p: "p \<noteq> []"
  from p obtain q x where [simp]: "p = q @ [x]" by (metis rev_exhaust)
  from n obtain m where m: "lookup t q = Some m" and "lookup m [x] = Some n"
    by (auto simp: lookup_append split: option.splits)
  then have "is_dir m" by (cases m) auto
  with m show ?thesis by (auto simp: has_parent_def elim: is_dirE)
qed

lemma upd_cons: "q \<noteq> [] \<Longrightarrow> upd (x # q) v (Dir a k es) =
    (case map_of es x of None \<Rightarrow> Dir a k es | Some c \<Rightarrow> Dir a k (AList.update x (upd q v c) es))"
  by (cases q) (auto split: option.split)

lemma upd_not_dir [simp]: "p \<noteq> [] \<Longrightarrow> \<not> is_dir n \<Longrightarrow> upd p v n = n"
  by (cases p; cases n) simp_all

lemma is_dir_upd [simp]: "p \<noteq> [] \<Longrightarrow> is_dir (upd p v n) = is_dir n"
  by (cases "(p, v, n)" rule: upd.cases) (auto split: option.splits)

text \<open>An update below a path is the update of the node there.\<close>

lemma lookup_upd_above:
  assumes "q \<noteq> []"
  shows "lookup (upd (p @ q) v t) p = map_option (upd q v) (lookup t p)"
proof (induction p arbitrary: t)
  case Nil
  then show ?case by simp
next
  case (Cons x p)
  have ne: "p @ q \<noteq> []" using assms by simp
  show ?case
  proof (cases t)
    case (Dir a k es)
    show ?thesis
      by (simp add: Dir upd_cons [OF ne] update_conv' Cons.IH split: option.split)
  qed simp_all
qed

lemma lookup_upd_one:
  "lookup (upd [x] v (Dir a k es)) (y # r) =
     (if x = y then (case v of None \<Rightarrow> None | Some m \<Rightarrow> lookup m r)
      else lookup (Dir a k es) (y # r))"
  by (cases v) (simp_all add: update_conv' delete_conv')

lemma lookup_upd_eq:
  assumes "has_parent t p"
  shows "lookup (upd p v t) p = v"
proof -
  from assms obtain q x where p: "p = q @ [x]"
    by (metis has_parent_def rev_exhaust)
  with assms obtain a k es where d: "lookup t q = Some (Dir a k es)"
    by (auto simp: has_parent_def)
  have "lookup (upd p v t) (q @ [x]) =
      lookup (upd [x] v (Dir a k es)) [x]"
    by (simp add: p lookup_append [of _ q] lookup_upd_above d)
  also have "\<dots> = v"
    by (simp only: lookup_upd_one split: option.split) simp
  finally show ?thesis by (simp only: p)
qed

lemma lookup_upd_below:
  "has_parent t p \<Longrightarrow> lookup (upd p v t) (p @ r) = (case v of None \<Rightarrow> None | Some m \<Rightarrow> lookup m r)"
  by (simp add: lookup_append lookup_upd_eq)

lemma lookup_upd_parallel:
  assumes "p \<parallel> q"
  shows "lookup (upd p v t) q = lookup t q"
  using assms
proof (induction p arbitrary: t q)
  case Nil
  then show ?case by simp
next
  case (Cons x p)
  then obtain y q' where q: "q = y # q'" by (cases q) auto
  show ?case
  proof (cases t)
    case (Dir a k es)
    show ?thesis
    proof (cases "p = []")
      case True
      with Cons.prems q have "x \<noteq> y" by (auto simp: parallel_cons)
      then show ?thesis by (simp only: Dir True q lookup_upd_one if_False)
    next
      case False
      show ?thesis
      proof (cases "x = y")
        case True
        with Cons.prems q have "p \<parallel> q'" by (auto simp: parallel_cons)
        then show ?thesis
          by (simp add: Dir q True upd_cons [OF False] update_conv' Cons.IH split: option.split)
      next
        case neq: False
        then show ?thesis
          by (simp add: Dir q upd_cons [OF False] update_conv' split: option.split)
      qed
    qed
  qed (simp_all add: q)
qed

lemma upd_no_parent:
  assumes "\<not> has_parent t p" "p \<noteq> []" shows "lookup (upd p v t) p = lookup t p"
proof -
  from assms obtain q x where p: "p = q @ [x]" by (metis rev_exhaust)
  then have "\<And>a k es. lookup t q \<noteq> Some (Dir a k es)"
    using assms(1) by (simp add: has_parent_def)
  then have "map_option (upd [x] v) (lookup t q) = lookup t q"
    by (cases "lookup t q") (auto intro!: upd_not_dir elim!: is_dirE)
  then show ?thesis
    by (simp add: p lookup_append [of _ q "[x]"] lookup_upd_above)
qed

lemma has_parent_upd:
  assumes "has_parent t p" "q \<noteq> []" "\<not> prefix q (butlast p)"
  shows "has_parent (upd q v t) p"
proof -
  from assms(1) obtain a k es where d: "lookup t (butlast p) = Some (Dir a k es)"
    by (auto simp: has_parent_def)
  have "\<exists>n. lookup (upd q v t) (butlast p) = Some n \<and> is_dir n"
  proof (cases "q \<parallel> butlast p")
    case True
    with d show ?thesis by (auto simp: lookup_upd_parallel)
  next
    case False
    with assms(3) obtain r where q: "q = butlast p @ r"
      by (auto simp: parallel_def prefix_def)
    with assms(3) have "r \<noteq> []" by auto
    then have "lookup (upd q v t) (butlast p) = Some (upd r v (Dir a k es))"
      by (simp add: q lookup_upd_above d)
    with \<open>r \<noteq> []\<close> show ?thesis by simp
  qed
  with assms(1) show ?thesis by (auto simp: has_parent_def elim!: is_dirE)
qed

lemmas lookup_upd = lookup_upd_eq lookup_upd_parallel lookup_upd_above

section \<open>Subvolumes\<close>

text \<open>\<open>isSubvolume\<close>: a directory with inode 256, the root of a subvolume.\<close>

definition isSubvolume :: "node \<Rightarrow> bool" where
  "isSubvolume n \<longleftrightarrow> (case n of Dir _ (Subvol _) _ \<Rightarrow> True | _ \<Rightarrow> False)"

lemma isSubvolume_is_dir: "isSubvolume n \<Longrightarrow> is_dir n"
  by (cases n) (simp_all add: isSubvolume_def)

lemma isSubvolume_upd [simp]: "p \<noteq> [] \<Longrightarrow> isSubvolume (upd p v n) = isSubvolume n"
  by (cases "(p, v, n)" rule: upd.cases) (auto simp: isSubvolume_def split: option.splits)

text \<open>The subvolumes below a directory; deleting a subvolume that holds one is ENOTEMPTY.\<close>

fun has_subvol :: "node \<Rightarrow> bool" where
  "has_subvol (Dir a k es) = (\<exists>c \<in> snd ` set es. isSubvolume c \<or> has_subvol c)"
| "has_subvol _ = False"

text \<open>
  A snapshot of a subvolume: the same files below a new subvolume, read-only or not. What a
  nested subvolume held is not part of it (btrfs leaves an empty directory there).
\<close>

fun prune_subvols :: "node \<Rightarrow> node" where
  "prune_subvols (Dir a k es) =
     Dir a k (map (\<lambda>(x, c). (x, if isSubvolume c then Dir (attr_of c) Plain [] else prune_subvols c)) es)"
| "prune_subvols n = n"

definition snapshot_of :: "bool \<Rightarrow> node \<Rightarrow> node" where
  "snapshot_of r n = (case prune_subvols n of Dir a k es \<Rightarrow> Dir a (Subvol r) es | m \<Rightarrow> m)"

text \<open>Two trees with the same files: equal but for the root's own kind.\<close>

definition same_files :: "node \<Rightarrow> node \<Rightarrow> bool" where
  "same_files m n \<longleftrightarrow> attr_of m = attr_of n \<and> entries m = entries n \<and> is_dir m \<and> is_dir n"

lemma isSubvolume_snapshot_of [simp]: "isSubvolume (snapshot_of r n) = is_dir n"
  by (cases n) (simp_all add: snapshot_of_def isSubvolume_def)

lemma is_dir_snapshot_of [simp]: "is_dir (snapshot_of r n) = is_dir n"
  by (cases n) (simp_all add: snapshot_of_def)

lemma prune_subvols_id: "\<not> has_subvol n \<Longrightarrow> prune_subvols n = n"
proof (induction n)
  case (Dir a k es)
  have "map (\<lambda>(x, c). (x, if isSubvolume c then Dir (attr_of c) Plain [] else prune_subvols c)) es = es"
  proof (rule map_idI)
    fix p assume p: "p \<in> set es"
    obtain x c where [simp]: "p = (x, c)" by (cases p)
    from p Dir.prems have "\<not> isSubvolume c" "\<not> has_subvol c" by force+
    moreover from p this have "prune_subvols c = c" by (intro Dir.IH [of p c]) simp_all
    ultimately show "(\<lambda>(x, c). (x, if isSubvolume c then Dir (attr_of c) Plain [] else prune_subvols c)) p = p"
      by simp
  qed
  then show ?case by (simp del: map_eq_conv)
qed simp_all

lemma same_files_snapshot_of: "is_dir n \<Longrightarrow> \<not> has_subvol n \<Longrightarrow> same_files (snapshot_of r n) n"
  by (cases n) (simp_all add: same_files_def snapshot_of_def prune_subvols_id attr_of_def
      del: prune_subvols.simps has_subvol.simps)

lemma has_subvol_prune [simp]: "\<not> has_subvol (prune_subvols n)"
proof (induction n)
  case (Dir a k es)
  show ?case
  proof
    assume "has_subvol (prune_subvols (Dir a k es))"
    then obtain x c where c: "(x, c) \<in> set es" and
      h: "isSubvolume (if isSubvolume c then Dir (attr_of c) Plain [] else prune_subvols c) \<or>
         has_subvol (if isSubvolume c then Dir (attr_of c) Plain [] else prune_subvols c)"
      by auto
    have "isSubvolume (prune_subvols c) = isSubvolume c"
      by (cases c) (simp_all add: isSubvolume_def)
    moreover have "\<not> has_subvol (prune_subvols c)"
      using Dir.IH [of "(x, c)" c] c by simp
    ultimately show False using h by (auto simp: isSubvolume_def split: if_splits)
  qed
qed simp_all

lemma has_subvol_snapshot_of [simp]: "\<not> has_subvol (snapshot_of r n)"
proof (cases "prune_subvols n")
  case (Dir a k es)
  have "\<not> has_subvol (Dir a k es)" using has_subvol_prune [of n] Dir by metis
  then show ?thesis by (simp add: snapshot_of_def Dir)
qed (simp_all add: snapshot_of_def)

section \<open>The order in which a tree is removed\<close>

text \<open>
  \<open>os.RemoveAll\<close> removes a directory's entries in the order they are listed, each with what is
  below it, then the directory.
\<close>

fun removal_order :: "node \<Rightarrow> path list" where
  "removal_order (Dir a k es) =
     concat (map (\<lambda>(x, c). map ((#) x) (removal_order c)) es) @ [[]]"
| "removal_order n = [[]]"

lemma removal_order_last: "\<exists>ps. removal_order n = ps @ [[]]"
  by (cases n) auto

end
