(* ===== verification/Index.thy ===== *)
theory Index
  imports GoStrings FileTree
begin

text \<open>
  The SQLite index, \<open>internal/store/index\<close>: the two tables of \<open>schema.sql\<close> and the queries of
  \<open>queries.sql.go\<close>, one definition each. A table is the list of its rows in the order of their
  rowids: SQLite gives a new row a rowid above every other, so an insert appends, and
  \<open>INSERT OR REPLACE\<close> removes the old row and appends a new one.
\<close>

record env_row =
  eID :: string
  eWorkspace :: path
  eGit :: "path option"
  eCreatedAt :: int
  eBoxToken :: string

record snap_row =
  sEnv :: string
  sID :: string
  sCreatedAt :: int

record index =
  environments :: "env_row list"
  snapshots :: "snap_row list"

section \<open>Queries\<close>

definition q_Env :: "string \<Rightarrow> index \<Rightarrow> env_row option" where
  "q_Env i db = find (\<lambda>r. eID r = i) (environments db)"

definition q_Envs :: "index \<Rightarrow> env_row list" where
  "q_Envs db = sort_key eID (environments db)"

definition q_EnvAt :: "path \<Rightarrow> index \<Rightarrow> env_row option" where
  "q_EnvAt p db = find (\<lambda>r. eWorkspace r = p) (environments db)"

text \<open>A write that breaks a constraint is an error and changes nothing: \<open>None\<close>.\<close>

definition q_InsertEnv :: "env_row \<Rightarrow> index \<Rightarrow> index option" where
  "q_InsertEnv r db =
     (if q_Env (eID r) db \<noteq> None \<or> q_EnvAt (eWorkspace r) db \<noteq> None then None
      else Some (db\<lparr>environments := environments db @ [r]\<rparr>))"

definition q_SetEnvGit :: "path option \<Rightarrow> string \<Rightarrow> index \<Rightarrow> index" where
  "q_SetEnvGit g i db =
     db\<lparr>environments := map (\<lambda>r. if eID r = i then r\<lparr>eGit := g\<rparr> else r) (environments db)\<rparr>"

text \<open>The snapshots' rows go with their environment's: \<open>ON DELETE CASCADE\<close>.\<close>

definition q_DeleteEnv :: "string \<Rightarrow> index \<Rightarrow> index" where
  "q_DeleteEnv i db =
     \<lparr>environments = filter (\<lambda>r. eID r \<noteq> i) (environments db),
      snapshots = filter (\<lambda>r. sEnv r \<noteq> i) (snapshots db)\<rparr>"

definition q_HasSnapshot :: "string \<Rightarrow> string \<Rightarrow> index \<Rightarrow> bool" where
  "q_HasSnapshot e i db \<longleftrightarrow> list_ex (\<lambda>r. sEnv r = e \<and> sID r = i) (snapshots db)"

definition q_KeepSnapshot :: "string \<Rightarrow> string \<Rightarrow> int \<Rightarrow> index \<Rightarrow> index option" where
  "q_KeepSnapshot e i c db =
     (if q_HasSnapshot e i db then Some db
      else if q_Env e db = None then None
      else Some (db\<lparr>snapshots := snapshots db @ [\<lparr>sEnv = e, sID = i, sCreatedAt = c\<rparr>]\<rparr>))"

definition q_ReplaceSnapshot :: "string \<Rightarrow> string \<Rightarrow> int \<Rightarrow> index \<Rightarrow> index option" where
  "q_ReplaceSnapshot e i c db =
     (if q_Env e db = None then None
      else Some (db\<lparr>snapshots := filter (\<lambda>r. \<not> (sEnv r = e \<and> sID r = i)) (snapshots db)
                      @ [\<lparr>sEnv = e, sID = i, sCreatedAt = c\<rparr>]\<rparr>))"

definition q_DeleteSnapshot :: "string \<Rightarrow> string \<Rightarrow> index \<Rightarrow> index" where
  "q_DeleteSnapshot e i db =
     db\<lparr>snapshots := filter (\<lambda>r. \<not> (sEnv r = e \<and> sID r = i)) (snapshots db)\<rparr>"

definition q_Snapshots :: "string \<Rightarrow> index \<Rightarrow> snap_row list" where
  "q_Snapshots e db = sort_key sCreatedAt (filter (\<lambda>r. sEnv r = e) (snapshots db))"

text \<open>SQLite's \<open>LIKE 'text%'\<close>: a prefix, with ASCII letters of either case.\<close>

definition like_prefix :: "string \<Rightarrow> string \<Rightarrow> bool" where
  "like_prefix pre s \<longleftrightarrow> prefix (map to_lower pre) (map to_lower s)"

definition q_SnapshotsBefore :: "string \<Rightarrow> string \<Rightarrow> string \<Rightarrow> int \<Rightarrow> index \<Rightarrow> string list" where
  "q_SnapshotsBefore e pre keep before db =
     map sID (filter (\<lambda>r. sEnv r = e \<and> like_prefix pre (sID r) \<and> sID r \<noteq> keep
                        \<and> sCreatedAt r < before) (snapshots db))"

text \<open>\<open>ORDER BY created_at DESC, rowid DESC LIMIT -1 OFFSET keep\<close>: newest first, all after the first \<open>keep\<close>.\<close>

definition q_SnapshotsBeyond :: "string \<Rightarrow> string \<Rightarrow> nat \<Rightarrow> index \<Rightarrow> string list" where
  "q_SnapshotsBeyond e pre keep db =
     map sID (drop keep (rev (sort_key sCreatedAt
       (filter (\<lambda>r. sEnv r = e \<and> \<not> like_prefix pre (sID r)) (snapshots db)))))"

definition q_EnvsWithSnapshot :: "string \<Rightarrow> index \<Rightarrow> string list" where
  "q_EnvsWithSnapshot i db = map sEnv (sort_key sCreatedAt (filter (\<lambda>r. sID r = i) (snapshots db)))"

section \<open>The constraints of the schema\<close>

definition index_ok :: "index \<Rightarrow> bool" where
  "index_ok db \<longleftrightarrow>
     distinct (map eID (environments db)) \<and>
     distinct (map eWorkspace (environments db)) \<and>
     distinct (map (\<lambda>r. (sEnv r, sID r)) (snapshots db)) \<and>
     (\<forall>r \<in> set (snapshots db). sEnv r \<in> eID ` set (environments db))"

lemma find_None_map: "find (\<lambda>r. f r = x) xs = None \<longleftrightarrow> x \<notin> f ` set xs"
  by (auto simp: find_None_iff)

lemma find_Some_distinct:
  "distinct (map f xs) \<Longrightarrow> find (\<lambda>r. f r = x) xs = Some r \<longleftrightarrow> r \<in> set xs \<and> f r = x"
  by (induction xs) auto

lemma q_Env_Some: "index_ok db \<Longrightarrow> q_Env i db = Some r \<longleftrightarrow> r \<in> set (environments db) \<and> eID r = i"
  by (simp add: index_ok_def q_Env_def find_Some_distinct)

lemma q_Env_eID: "q_Env i db = Some r \<Longrightarrow> eID r = i \<and> r \<in> set (environments db)"
  by (auto simp: q_Env_def find_Some_iff)

lemma q_EnvAt_Some:
  "index_ok db \<Longrightarrow> q_EnvAt p db = Some r \<longleftrightarrow> r \<in> set (environments db) \<and> eWorkspace r = p"
  by (simp add: index_ok_def q_EnvAt_def find_Some_distinct)

lemma q_InsertEnv_ok: "index_ok db \<Longrightarrow> q_InsertEnv r db = Some db' \<Longrightarrow> index_ok db'"
  by (auto simp: index_ok_def q_InsertEnv_def q_Env_def q_EnvAt_def find_None_map split: if_splits)

lemma q_SetEnvGit_ok: "index_ok db \<Longrightarrow> index_ok (q_SetEnvGit g i db)"
proof -
  have m: "map f (map (\<lambda>r. if eID r = i then r\<lparr>eGit := g\<rparr> else r) xs) = map f xs"
    if "\<And>r. f (r\<lparr>eGit := g\<rparr>) = f r" for f :: "env_row \<Rightarrow> 'b" and xs
    using that by (induction xs) auto
  have "eID ` set (map (\<lambda>r. if eID r = i then r\<lparr>eGit := g\<rparr> else r) (environments db)) =
      eID ` set (environments db)"
    using arg_cong [OF m [of eID "environments db"], of set] by (simp only: set_map) simp
  then show "index_ok db \<Longrightarrow> index_ok (q_SetEnvGit g i db)"
    using m [of eID "environments db"] m [of eWorkspace "environments db"]
    by (simp add: index_ok_def q_SetEnvGit_def del: map_map set_map)
qed

lemma q_DeleteEnv_ok: "index_ok db \<Longrightarrow> index_ok (q_DeleteEnv i db)"
  by (auto simp: index_ok_def q_DeleteEnv_def distinct_map inj_on_def)

lemma q_HasSnapshot_iff: "q_HasSnapshot e i db \<longleftrightarrow> (\<exists>r \<in> set (snapshots db). sEnv r = e \<and> sID r = i)"
  by (auto simp: q_HasSnapshot_def list_ex_iff)

lemma q_Env_not_None: "q_Env e db \<noteq> None \<longleftrightarrow> e \<in> eID ` set (environments db)"
  by (auto simp: q_Env_def find_None_map)

lemma q_KeepSnapshot_ok: "index_ok db \<Longrightarrow> q_KeepSnapshot e i c db = Some db' \<Longrightarrow> index_ok db'"
  using q_Env_not_None [of e db]
  by (fastforce simp: index_ok_def q_KeepSnapshot_def q_HasSnapshot_iff split: if_splits)

lemma q_DeleteSnapshot_ok: "index_ok db \<Longrightarrow> index_ok (q_DeleteSnapshot e i db)"
  by (auto simp: index_ok_def q_DeleteSnapshot_def distinct_map inj_on_def)

lemma q_ReplaceSnapshot_ok: "index_ok db \<Longrightarrow> q_ReplaceSnapshot e i c db = Some db' \<Longrightarrow> index_ok db'"
  using q_Env_not_None [of e db]
  by (auto simp: index_ok_def q_ReplaceSnapshot_def distinct_map inj_on_def split: if_splits)

section \<open>What the writes do to what the reads see\<close>

named_theorems index_laws

lemma q_Env_snapshots [index_laws]: "q_Env i (db\<lparr>snapshots := ss\<rparr>) = q_Env i db"
  by (simp add: q_Env_def)

lemma q_Env_DeleteSnapshot [index_laws]: "q_Env j (q_DeleteSnapshot e i db) = q_Env j db"
  by (simp add: q_DeleteSnapshot_def q_Env_def)

lemma q_Env_KeepSnapshot [index_laws]:
  "q_KeepSnapshot e i c db = Some db' \<Longrightarrow> q_Env j db' = q_Env j db"
  by (auto simp: q_KeepSnapshot_def q_Env_def split: if_splits)

lemma q_Env_ReplaceSnapshot [index_laws]:
  "q_ReplaceSnapshot e i c db = Some db' \<Longrightarrow> q_Env j db' = q_Env j db"
  by (auto simp: q_ReplaceSnapshot_def q_Env_def split: if_splits)

lemma q_HasSnapshot_Keep [index_laws]:
  "q_KeepSnapshot e i c db = Some db' \<Longrightarrow>
   q_HasSnapshot e' i' db' \<longleftrightarrow> (e' = e \<and> i' = i) \<or> q_HasSnapshot e' i' db"
  by (auto simp: q_KeepSnapshot_def q_HasSnapshot_def split: if_splits)

lemma q_HasSnapshot_Replace [index_laws]:
  "q_ReplaceSnapshot e i c db = Some db' \<Longrightarrow>
   q_HasSnapshot e' i' db' \<longleftrightarrow> (e' = e \<and> i' = i) \<or> q_HasSnapshot e' i' db"
  by (auto simp: q_ReplaceSnapshot_def q_HasSnapshot_iff split: if_splits)

lemma q_HasSnapshot_Delete [index_laws]:
  "q_HasSnapshot e' i' (q_DeleteSnapshot e i db) \<longleftrightarrow> \<not> (e' = e \<and> i' = i) \<and> q_HasSnapshot e' i' db"
  by (auto simp: q_DeleteSnapshot_def q_HasSnapshot_iff)

lemma q_KeepSnapshot_total: "q_Env e db \<noteq> None \<Longrightarrow> \<exists>db'. q_KeepSnapshot e i c db = Some db'"
  by (auto simp: q_KeepSnapshot_def)

lemma q_ReplaceSnapshot_total: "q_Env e db \<noteq> None \<Longrightarrow> \<exists>db'. q_ReplaceSnapshot e i c db = Some db'"
  by (auto simp: q_ReplaceSnapshot_def)

lemma q_Env_DeleteEnv [index_laws]:
  "q_Env j (q_DeleteEnv i db) = (if i = j then None else q_Env j db)"
proof -
  have "find (\<lambda>r. eID r = j) (filter (\<lambda>r. eID r \<noteq> i) xs) =
      (if i = j then None else find (\<lambda>r. eID r = j) xs)" for xs
    by (induction xs) auto
  from this [of "environments db"] show ?thesis by (simp add: q_DeleteEnv_def q_Env_def)
qed

lemma q_HasSnapshot_DeleteEnv [index_laws]:
  "q_HasSnapshot e i (q_DeleteEnv j db) \<longleftrightarrow> e \<noteq> j \<and> q_HasSnapshot e i db"
  by (auto simp: q_HasSnapshot_iff q_DeleteEnv_def)

lemma set_q_Snapshots: "i \<in> sID ` set (q_Snapshots e db) \<longleftrightarrow> q_HasSnapshot e i db"
  by (auto simp: q_Snapshots_def q_HasSnapshot_iff)

lemma set_q_SnapshotsBefore:
  "i \<in> set (q_SnapshotsBefore e pre keep before db) \<longleftrightarrow>
   (\<exists>r \<in> set (snapshots db). sEnv r = e \<and> sID r = i \<and> like_prefix pre i \<and> i \<noteq> keep \<and> sCreatedAt r < before)"
  by (auto simp: q_SnapshotsBefore_def)

lemma set_q_SnapshotsBeyond_sub:
  "i \<in> set (q_SnapshotsBeyond e pre keep db) \<Longrightarrow> q_HasSnapshot e i db \<and> \<not> like_prefix pre i"
  by (auto simp: q_SnapshotsBeyond_def q_HasSnapshot_iff dest!: in_set_dropD)

section \<open>The rows as \<open>Reconcile\<close> uses them\<close>

text \<open>
  The contract recovery relies on: what a row's presence is after rows are kept and deleted. A
  client that keeps the missing rows and deletes the stale ones ends with the rows it wants.
\<close>

locale snapshot_rows =
  fixes has :: "'k \<Rightarrow> 'd \<Rightarrow> bool"
    and keep :: "'k \<Rightarrow> 't \<Rightarrow> 'd \<Rightarrow> 'd option"
    and del :: "'k \<Rightarrow> 'd \<Rightarrow> 'd"
    and inv :: "'d \<Rightarrow> bool"
  assumes keep_has: "keep k c d = Some d' \<Longrightarrow> has k' d' \<longleftrightarrow> k' = k \<or> has k' d"
    and del_has: "has k' (del k d) \<longleftrightarrow> k' \<noteq> k \<and> has k' d"
    and keep_inv: "inv d \<Longrightarrow> keep k c d = Some d' \<Longrightarrow> inv d'"
    and del_inv: "inv d \<Longrightarrow> inv (del k d)"
begin

lemma keep_all_has:
  "fold_opt (\<lambda>k. keep k c) ks d = Some d' \<Longrightarrow> has k' d' \<longleftrightarrow> k' \<in> set ks \<or> has k' d"
  by (induction ks arbitrary: d) (auto simp: keep_has split: option.splits)

lemma keep_all_inv: "inv d \<Longrightarrow> fold_opt (\<lambda>k. keep k c) ks d = Some d' \<Longrightarrow> inv d'"
  by (induction ks arbitrary: d) (auto dest: keep_inv split: option.splits)

lemma del_all_has:
  "fold_opt (\<lambda>k d. Some (del k d)) ks d = Some d' \<Longrightarrow> has k' d' \<longleftrightarrow> k' \<notin> set ks \<and> has k' d"
  by (induction ks arbitrary: d) (auto simp: del_has)

lemma del_all_inv: "inv d \<Longrightarrow> fold_opt (\<lambda>k d. Some (del k d)) ks d = Some d' \<Longrightarrow> inv d'"
  by (induction ks arbitrary: d) (auto dest: del_inv)

text \<open>Rows for what is missing, none for what is stale: the rows are those wanted.\<close>

lemma recovered_has:
  assumes "fold_opt (\<lambda>k. keep k c) missing d = Some m" "fold_opt (\<lambda>k d. Some (del k d)) stale m = Some d'"
    and "\<And>k. k \<in> A \<Longrightarrow> k \<in> set missing \<longleftrightarrow> want k \<and> \<not> has k d"
    and "\<And>k. k \<in> A \<Longrightarrow> k \<in> set stale \<longleftrightarrow> \<not> want k \<and> has k d"
    and "k \<in> A"
  shows "has k d' \<longleftrightarrow> want k"
  using assms by (auto simp: keep_all_has [OF assms(1)] del_all_has [OF assms(2)])

lemma recovered_other:
  assumes "fold_opt (\<lambda>k. keep k c) missing d = Some m" "fold_opt (\<lambda>k d. Some (del k d)) stale m = Some d'"
    and "k \<notin> set missing" "k \<notin> set stale"
  shows "has k d' \<longleftrightarrow> has k d"
  using assms by (auto simp: keep_all_has [OF assms(1)] del_all_has [OF assms(2)])

end

interpretation idx: snapshot_rows "\<lambda>(e, x). q_HasSnapshot e x" "\<lambda>(e, x). q_KeepSnapshot e x"
  "\<lambda>(e, x). q_DeleteSnapshot e x" index_ok
  by unfold_locales
    (auto simp: index_laws split: prod.splits intro: q_KeepSnapshot_ok q_DeleteSnapshot_ok)

end
