(* ===== verification/StoreBase.thy ===== *)
theory StoreBase
  imports Ids Index FileTree "HOL-Library.Word" "HOL-Library.Log_Nat"
begin

text \<open>
  The state of \<open>internal/store\<close> and the primitives it is built from: the file system calls
  (\<open>os\<close>, \<open>btrfs.go\<close>, \<open>ioctl.go\<close>), the index's queries, the crash-test hook \<open>step\<close>, the paths
  under the pool's root, and the read-only operations \<open>Get\<close>, \<open>List\<close> and \<open>FindByPath\<close>.

  What the program does not decide is a parameter, the \<open>world\<close> of the store: which system call
  or query fails (\<open>faults\<close>: the \<open>n\<close>-th one, with an error code), what \<open>time.Now\<close>, \<open>rand.Text\<close>
  and \<open>statfs\<close> answer, and at which named step a crash test stops (\<open>failAt\<close>). A theorem for
  every \<open>world\<close> is one for every pattern of I/O failures. A process that crashes is the case
  where every call from the \<open>n\<close>-th on fails: nothing it does afterwards changes the disk.
\<close>

section \<open>State\<close>

record world =
  faults :: "nat \<Rightarrow> nat option"
  failAt :: "string \<Rightarrow> bool"
  times :: "nat \<Rightarrow> int"
  tokens :: "nat \<Rightarrow> string"
  stats :: "nat \<Rightarrow> 64 word \<times> 64 word \<times> 64 word"

record store =
  root :: path
  disk :: node
  db :: index
  keepTurns :: nat
  minFreeBytes :: "64 word"
  calls :: nat
  wld :: world

datatype errno = ENOENT | EEXIST | ENOTDIR | EISDIR | ENOTEMPTY | EINVAL | EFault nat

datatype store_error =
    ErrNotFound
  | ErrInvalidID
  | ErrInvalidPath
  | ErrPoolFull
  | ErrUnindexed
  | Sys errno
  | SQLError
  | StoppedAt string

type_synonym 'a st = "(store, store_error, 'a) prog"

definition tick :: "store \<Rightarrow> store" where
  "tick s = s\<lparr>calls := Suc (calls s)\<rparr>"

lemma tick_simps [simp]:
  "root (tick s) = root s" "disk (tick s) = disk s" "db (tick s) = db s"
  "keepTurns (tick s) = keepTurns s" "minFreeBytes (tick s) = minFreeBytes s" "wld (tick s) = wld s"
  "calls (tick s) = Suc (calls s)"
  by (simp_all add: tick_def)

lemma tick_update [simp]:
  "tick (s\<lparr>disk := d\<rparr>) = (tick s)\<lparr>disk := d\<rparr>" "tick (s\<lparr>db := x\<rparr>) = (tick s)\<lparr>db := x\<rparr>"
  by (simp_all add: tick_def)

section \<open>System calls and queries\<close>

definition faulty :: "store \<Rightarrow> nat option" where
  "faulty s = faults (wld s) (calls s)"

lemma faulty_disk [simp]: "faulty (s\<lparr>disk := d\<rparr>) = faulty s" "faulty (s\<lparr>db := x\<rparr>) = faulty s"
  by (simp_all add: faulty_def)

definition sys_read :: "(node \<Rightarrow> errno + 'a) \<Rightarrow> (errno + 'a) st" where
  "sys_read f s =
     (case faulty s of
        Some n \<Rightarrow> (Inr (Inl (EFault n)), tick s)
      | None \<Rightarrow> (Inr (f (disk s)), tick s))"

definition sys_write :: "(node \<Rightarrow> errno + node) \<Rightarrow> (errno + unit) st" where
  "sys_write f s =
     (case faulty s of
        Some n \<Rightarrow> (Inr (Inl (EFault n)), tick s)
      | None \<Rightarrow> (case f (disk s) of
          Inl e \<Rightarrow> (Inr (Inl e), tick s)
        | Inr d \<Rightarrow> (Inr (Inr ()), (tick s)\<lparr>disk := d\<rparr>)))"

text \<open>\<open>ok m\<close>: \<open>if err != nil { return err }\<close>.\<close>

definition ok :: "(errno + 'a) st \<Rightarrow> 'a st" where
  "ok m = bind_s m (\<lambda>r. case r of Inl e \<Rightarrow> raise (Sys e) | Inr x \<Rightarrow> ret x)"

definition sql_query :: "(index \<Rightarrow> 'a) \<Rightarrow> 'a st" where
  "sql_query f s =
     (case faulty s of
        Some _ \<Rightarrow> (Inl SQLError, tick s)
      | None \<Rightarrow> (Inr (f (db s)), tick s))"

definition sql_exec :: "(index \<Rightarrow> index option) \<Rightarrow> unit st" where
  "sql_exec f s =
     (case faulty s of
        Some _ \<Rightarrow> (Inl SQLError, tick s)
      | None \<Rightarrow> (case f (db s) of
          None \<Rightarrow> (Inl SQLError, tick s)
        | Some x \<Rightarrow> (Inr (), (tick s)\<lparr>db := x\<rparr>)))"

definition step :: "string \<Rightarrow> unit st" where
  "step name s = (if failAt (wld s) name then (Inl (StoppedAt name), s) else (Inr (), s))"

text \<open>\<open>time.Now()\<close> in nanoseconds since 1970.\<close>

definition time_now :: "int st" where
  "time_now s = (Inr (times (wld s) (calls s)), tick s)"

definition second :: int where "second = 1000000000"

text \<open>\<open>now().Unix()\<close>\<close>

definition now_unix :: "int st" where
  "now_unix = bind_s time_now (\<lambda>t. ret (t div second))"

definition rand_Text :: "string st" where
  "rand_Text s = (Inr (tokens (wld s) (calls s)), tick s)"

lemma wp_case_errno [wp_rules]:
  "wp (case e of ENOENT \<Rightarrow> m1 | EEXIST \<Rightarrow> m2 | ENOTDIR \<Rightarrow> m3 | EISDIR \<Rightarrow> m4 | ENOTEMPTY \<Rightarrow> m5
       | EINVAL \<Rightarrow> m6 | EFault n \<Rightarrow> f n) Q E =
   (\<lambda>s. case e of ENOENT \<Rightarrow> wp m1 Q E s | EEXIST \<Rightarrow> wp m2 Q E s | ENOTDIR \<Rightarrow> wp m3 Q E s
       | EISDIR \<Rightarrow> wp m4 Q E s | ENOTEMPTY \<Rightarrow> wp m5 Q E s | EINVAL \<Rightarrow> wp m6 Q E s
       | EFault n \<Rightarrow> wp (f n) Q E s)"
  by (rule ext, cases e) simp_all

lemma keeps_case_errno [keeps_rules]:
  assumes "keeps I m1" "keeps I m2" "keeps I m3" "keeps I m4" "keeps I m5" "keeps I m6" "\<And>n. keeps I (f n)"
  shows "keeps I (case e of ENOENT \<Rightarrow> m1 | EEXIST \<Rightarrow> m2 | ENOTDIR \<Rightarrow> m3 | EISDIR \<Rightarrow> m4
       | ENOTEMPTY \<Rightarrow> m5 | EINVAL \<Rightarrow> m6 | EFault n \<Rightarrow> f n)"
  using assms by (cases e) simp_all

lemma wp_sys_read [wp_rules]:
  "wp (sys_read f) Q E = (\<lambda>s. (case faulty s of Some n \<Rightarrow> Q (Inl (EFault n)) (tick s) | None \<Rightarrow> Q (f (disk s)) (tick s)))"
  by (rule ext) (simp add: wp_def sys_read_def split: option.splits)

lemma wp_sys_write [wp_rules]:
  "wp (sys_write f) Q E = (\<lambda>s. (case faulty s of
        Some n \<Rightarrow> Q (Inl (EFault n)) (tick s)
      | None \<Rightarrow> (case f (disk s) of
          Inl e \<Rightarrow> Q (Inl e) (tick s)
        | Inr d \<Rightarrow> Q (Inr ()) ((tick s)\<lparr>disk := d\<rparr>))))"
  by (rule ext) (simp add: wp_def sys_write_def split: option.splits sum.splits)

lemma wp_ok [wp_rules]:
  "wp (ok m) Q E = (\<lambda>s. wp m (\<lambda>r t. case r of Inl e \<Rightarrow> E (Sys e) t | Inr x \<Rightarrow> Q x t) E s)"
  by (rule ext) (simp add: ok_def wp_rules cong: sum.case_cong)

lemma wp_sql_query [wp_rules]:
  "wp (sql_query f) Q E = (\<lambda>s. (case faulty s of Some _ \<Rightarrow> E SQLError (tick s) | None \<Rightarrow> Q (f (db s)) (tick s)))"
  by (rule ext) (simp add: wp_def sql_query_def split: option.splits)

lemma wp_sql_exec [wp_rules]:
  "wp (sql_exec f) Q E = (\<lambda>s. (case faulty s of
        Some _ \<Rightarrow> E SQLError (tick s)
      | None \<Rightarrow> (case f (db s) of
          None \<Rightarrow> E SQLError (tick s)
        | Some x \<Rightarrow> Q () ((tick s)\<lparr>db := x\<rparr>))))"
  by (rule ext) (simp add: wp_def sql_exec_def split: option.splits)

lemma wp_step [wp_rules]:
  "wp (step n) Q E = (\<lambda>s. (if failAt (wld s) n then E (StoppedAt n) s else Q () s))"
  by (rule ext) (simp add: wp_def step_def)

lemma wp_time_now [wp_rules]: "wp time_now Q E = (\<lambda>s. Q (times (wld s) (calls s)) (tick s))"
  by (rule ext) (simp add: wp_def time_now_def)

lemma wp_now_unix [wp_rules]: "wp now_unix Q E = (\<lambda>s. Q (times (wld s) (calls s) div second) (tick s))"
  by (rule ext) (simp add: now_unix_def wp_rules)

lemma wp_rand_Text [wp_rules]: "wp rand_Text Q E = (\<lambda>s. Q (tokens (wld s) (calls s)) (tick s))"
  by (rule ext) (simp add: wp_def rand_Text_def)

section \<open>The file system's calls\<close>

fun stat_at :: "node \<Rightarrow> path \<Rightarrow> errno + node" where
  "stat_at n [] = Inr n"
| "stat_at (Dir a k es) (x # xs) = (case map_of es x of None \<Rightarrow> Inl ENOENT | Some c \<Rightarrow> stat_at c xs)"
| "stat_at n (x # xs) = Inl ENOTDIR"

lemma stat_at_Inr: "stat_at d p = Inr n \<longleftrightarrow> lookup d p = Some n"
  by (induction d p rule: stat_at.induct) (auto split: option.splits)

lemma stat_at_lookup: "lookup d p = Some n \<Longrightarrow> stat_at d p = Inr n"
  by (simp add: stat_at_Inr)

lemma stat_at_ENOENT: "stat_at d p = Inl e \<Longrightarrow> lookup d p = None"
  by (metis Inr_Inl_False not_None_eq stat_at_lookup)

lemma stat_at_Inl_iff: "(\<exists>e. stat_at d p = Inl e) \<longleftrightarrow> lookup d p = None"
  by (cases "stat_at d p") (auto simp: stat_at_Inr stat_at_ENOENT)

lemma stat_at_parent:
  assumes "has_parent d p" "lookup d p = None"
  shows "stat_at d p = Inl ENOENT"
proof -
  have *: "stat_at d (q @ [x]) = (case map_of es x of None \<Rightarrow> Inl ENOENT | Some c \<Rightarrow> Inr c)"
    if "lookup d q = Some (Dir a k es)" for q x a k es
    using that by (induction d q rule: lookup.induct) (auto split: option.splits)
  from assms(1) obtain q x where p: "p = q @ [x]" by (metis has_parent_def rev_exhaust)
  with assms(1) obtain a k es where q: "lookup d q = Some (Dir a k es)" by (auto simp: has_parent_def)
  with assms(2) have "map_of es x = None" by (auto simp: p lookup_append split: option.splits)
  then show ?thesis using * [OF q, of x] by (simp add: p)
qed

definition root_attr :: attr where
  "root_attr = \<lparr>uid = 0, gid = 0, mode = 493, mtime = 0\<rparr>"

definition BoxUID :: nat where "BoxUID = 1000"
definition BoxGID :: nat where "BoxGID = 1000"

definition lstat :: "path \<Rightarrow> (errno + node) st" where
  "lstat p = sys_read (\<lambda>d. stat_at d p)"

definition fs_mkdir :: "nat \<Rightarrow> path \<Rightarrow> node \<Rightarrow> errno + node" where
  "fs_mkdir m p d =
     (case stat_at d p of
        Inr n \<Rightarrow> if is_dir n then Inr d else Inl ENOTDIR
      | Inl e \<Rightarrow> if has_parent d p then Inr (upd p (Some (Dir (root_attr\<lparr>mode := m\<rparr>) Plain [])) d)
                else Inl e)"

definition mkdirAll :: "nat \<Rightarrow> path \<Rightarrow> unit st" where
  "mkdirAll m p = for_each (\<lambda>q. ok (sys_write (fs_mkdir m q))) (tl (prefixes p))"

definition fs_write :: "string \<Rightarrow> path \<Rightarrow> node \<Rightarrow> errno + node" where
  "fs_write c p d =
     (case stat_at d p of
        Inr (File a _) \<Rightarrow> Inr (upd p (Some (File a c)) d)
      | Inr (Dir _ _ _) \<Rightarrow> Inl EISDIR
      | Inr _ \<Rightarrow> Inl EINVAL
      | Inl e \<Rightarrow> if has_parent d p then Inr (upd p (Some (File root_attr c)) d) else Inl e)"

definition writeFile :: "path \<Rightarrow> string \<Rightarrow> unit st" where
  "writeFile p c = ok (sys_write (fs_write c p))"

definition fs_read :: "path \<Rightarrow> node \<Rightarrow> errno + string" where
  "fs_read p d =
     (case stat_at d p of
        Inr (File _ c) \<Rightarrow> Inr c
      | Inr (Dir _ _ _) \<Rightarrow> Inl EISDIR
      | Inr _ \<Rightarrow> Inl EINVAL
      | Inl e \<Rightarrow> Inl e)"

definition readFile :: "path \<Rightarrow> (errno + string) st" where
  "readFile p = sys_read (fs_read p)"

definition fs_set_attr :: "(attr \<Rightarrow> attr) \<Rightarrow> path \<Rightarrow> node \<Rightarrow> errno + node" where
  "fs_set_attr f p d =
     (case stat_at d p of
        Inr n \<Rightarrow> Inr (upd p (Some (set_attr f n)) d)
      | Inl e \<Rightarrow> Inl e)"

definition chown :: "path \<Rightarrow> nat \<Rightarrow> nat \<Rightarrow> unit st" where
  "chown p u g = ok (sys_write (fs_set_attr (\<lambda>a. a\<lparr>uid := u, gid := g\<rparr>) p))"

definition chmod :: "path \<Rightarrow> nat \<Rightarrow> unit st" where
  "chmod p m = ok (sys_write (fs_set_attr (\<lambda>a. a\<lparr>mode := m\<rparr>) p))"

text \<open>\<open>os.Remove\<close>: a file, a link or an empty directory.\<close>

definition fs_remove :: "path \<Rightarrow> node \<Rightarrow> errno + node" where
  "fs_remove p d =
     (case stat_at d p of
        Inl e \<Rightarrow> Inl e
      | Inr n \<Rightarrow> if entries n \<noteq> [] then Inl ENOTEMPTY
                else if p = [] then Inl EINVAL else Inr (upd p None d))"

definition os_remove :: "path \<Rightarrow> (errno + unit) st" where
  "os_remove p = sys_write (fs_remove p)"

text \<open>
  \<open>os.RemoveAll\<close>, one removal at a time; what is not there is not an error.
\<close>

definition removeAll :: "path \<Rightarrow> unit st" where
  "removeAll p =
     bind_s (lstat p) (\<lambda>r. case r of
       Inl ENOENT \<Rightarrow> ret ()
     | Inl e \<Rightarrow> raise (Sys e)
     | Inr n \<Rightarrow> for_each (\<lambda>q. ok (sys_write (\<lambda>d. Inr (upd (p @ q) None d)))) (removal_order n))"

text \<open>\<open>os.ReadDir\<close>: the entries, sorted by name.\<close>

definition fs_readDir :: "path \<Rightarrow> node \<Rightarrow> errno + (string \<times> node) list" where
  "fs_readDir p d =
     (case stat_at d p of
        Inl e \<Rightarrow> Inl e
      | Inr n \<Rightarrow> if is_dir n
          then Inr (map (\<lambda>x. (x, the (map_of (entries n) x))) (sort (remdups (map fst (entries n)))))
          else Inl ENOTDIR)"

definition readDir :: "path \<Rightarrow> (errno + (string \<times> node) list) st" where
  "readDir p = sys_read (fs_readDir p)"

text \<open>\<open>renameat2\<close> with \<open>RENAME_EXCHANGE\<close>: both are there, neither holds the other.\<close>

definition fs_exchange :: "path \<Rightarrow> path \<Rightarrow> node \<Rightarrow> errno + node" where
  "fs_exchange p q d =
     (case (stat_at d p, stat_at d q) of
        (Inr m, Inr n) \<Rightarrow> if p \<parallel> q then Inr (upd p (Some n) (upd q (Some m) d)) else Inl EINVAL
      | (Inl e, _) \<Rightarrow> Inl e
      | (_, Inl e) \<Rightarrow> Inl e)"

definition rename_exchange :: "path \<Rightarrow> path \<Rightarrow> unit st" where
  "rename_exchange p q = ok (sys_write (fs_exchange p q))"

section \<open>Subvolumes\<close>

text \<open>\<open>volumeName\<close>: the name must fit the ioctl's buffer with its NUL.\<close>

definition volumeName :: "path \<Rightarrow> nat \<Rightarrow> bool" where
  "volumeName p len \<longleftrightarrow>
     p \<noteq> [] \<and> last p \<noteq> ''.'' \<and> last p \<noteq> ''..'' \<and> length (last p) < len \<and> char_of (0::nat) \<notin> set (last p)"

definition fs_new_subvol :: "nat \<Rightarrow> path \<Rightarrow> node \<Rightarrow> node \<Rightarrow> errno + node" where
  "fs_new_subvol len p n d =
     (if \<not> volumeName p len then Inl EINVAL
      else if \<not> has_parent d p then Inl ENOENT
      else if lookup d p \<noteq> None then Inl EEXIST
      else Inr (upd p (Some n) d))"

definition createSubvolume :: "path \<Rightarrow> unit st" where
  "createSubvolume p = ok (sys_write (fs_new_subvol 4088 p (Dir root_attr (Subvol False) [])))"

definition fs_snapshot :: "path \<Rightarrow> path \<Rightarrow> bool \<Rightarrow> node \<Rightarrow> errno + node" where
  "fs_snapshot src p r d =
     (case stat_at d src of
        Inl e \<Rightarrow> Inl e
      | Inr n \<Rightarrow> if \<not> volumeName p 4040 then Inl EINVAL
                else if \<not> isSubvolume n then Inl EINVAL
                else fs_new_subvol 4040 p (snapshot_of r n) d)"

definition snapshotSubvolume :: "path \<Rightarrow> path \<Rightarrow> bool \<Rightarrow> unit st" where
  "snapshotSubvolume src p r = ok (sys_write (fs_snapshot src p r))"

definition fs_deleteSubvolume :: "path \<Rightarrow> node \<Rightarrow> errno + node" where
  "fs_deleteSubvolume p d =
     (if \<not> volumeName p 4088 then Inl EINVAL
      else case stat_at d p of
        Inl e \<Rightarrow> Inl e
      | Inr n \<Rightarrow> if \<not> isSubvolume n then Inl EINVAL
                else if has_subvol n then Inl ENOTEMPTY
                else Inr (upd p None d))"

text \<open>\<open>btrfs subvolume delete --recursive\<close> of one path.\<close>

definition fs_delete_recursive :: "path \<Rightarrow> node \<Rightarrow> errno + node" where
  "fs_delete_recursive p d = (if p = [] then Inl EINVAL else Inr (upd p None d))"

text \<open>
  \<open>deleteSubvolumes\<close>: those of \<open>paths\<close> that are subvolumes. The accumulator is \<open>nested\<close>, the
  paths whose direct deletion said ENOTEMPTY.
\<close>

definition delete_one :: "path \<Rightarrow> path list \<Rightarrow> path list st" where
  "delete_one p nested =
     bind_s (lstat p) (\<lambda>r. case r of
       Inl ENOENT \<Rightarrow> ret nested
     | Inl e \<Rightarrow> raise (Sys e)
     | Inr n \<Rightarrow>
         if \<not> isSubvolume n then ret nested
         else bind_s (sys_write (fs_deleteSubvolume p)) (\<lambda>w. case w of
                Inl ENOTEMPTY \<Rightarrow> ret (nested @ [p])
              | Inl e \<Rightarrow> raise (Sys e)
              | Inr _ \<Rightarrow> bind_s (step (''delete subvolume: '' @ last p)) (\<lambda>_. ret nested)))"

definition deleteSubvolumes :: "path list \<Rightarrow> unit st" where
  "deleteSubvolumes ps =
     bind_s (fold_s delete_one ps []) (\<lambda>nested.
       if nested = [] then ret ()
       else bind_s (for_each (\<lambda>p. ok (sys_write (fs_delete_recursive p))) nested) (\<lambda>_.
            step ''delete subvolumes: nested removed''))"

section \<open>Paths under the pool's root\<close>

definition envsDir :: "path \<Rightarrow> path" where "envsDir r = r @ [''envs'']"
definition worktrees :: "path \<Rightarrow> path" where "worktrees r = r @ [''worktrees'']"
definition repos :: "path \<Rightarrow> path" where "repos r = r @ [''repos'']"
definition projects :: "path \<Rightarrow> path" where "projects r = r @ [''projects'']"
definition envDir :: "path \<Rightarrow> string \<Rightarrow> path" where "envDir r i = r @ [''envs'', i]"
definition livePath :: "path \<Rightarrow> string \<Rightarrow> path" where "livePath r i = r @ [''envs'', i, ''live'']"
definition claudePath :: "path \<Rightarrow> string \<Rightarrow> path" where "claudePath r i = r @ [''envs'', i, ''claude'']"
definition restorePath :: "path \<Rightarrow> string \<Rightarrow> path" where "restorePath r i = r @ [''envs'', i, ''live.new'']"
definition adoptPath :: "path \<Rightarrow> string \<Rightarrow> path" where "adoptPath r i = r @ [''envs'', i, ''adopt.new'']"
definition markerPath :: "path \<Rightarrow> string \<Rightarrow> path" where "markerPath r i = r @ [''envs'', i, ''incomplete'']"
definition snapsDir :: "path \<Rightarrow> string \<Rightarrow> path" where "snapsDir r i = r @ [''envs'', i, ''snaps'']"
definition snapPath :: "path \<Rightarrow> string \<Rightarrow> string \<Rightarrow> path" where
  "snapPath r i x = r @ [''envs'', i, ''snaps'', x]"
definition sourceList :: "path \<Rightarrow> string \<Rightarrow> path" where "sourceList r i = r @ [''envs'', i, ''source.list'']"

lemmas pool_paths = envsDir_def worktrees_def repos_def projects_def envDir_def livePath_def
  claudePath_def restorePath_def adoptPath_def markerPath_def snapsDir_def snapPath_def sourceList_def

lemmas path_simps = pool_paths parallel_same_append parallel_cons

section \<open>Environments\<close>

record Env =
  ID :: string
  Workspace :: path
  Claude :: path
  Git :: "path option"
  Created :: int
  BoxToken :: string

record SnapshotRef =
  refEnv :: string
  refSnapshot :: string

definition env_of :: "path \<Rightarrow> env_row \<Rightarrow> Env" where
  "env_of r e = \<lparr>ID = eID e, Workspace = eWorkspace e, Claude = claudePath r (eID e), Git = eGit e,
                Created = eCreatedAt e, BoxToken = eBoxToken e\<rparr>"

definition Get :: "string \<Rightarrow> Env st" where
  "Get i =
     (if \<not> CheckEnvID i then raise ErrInvalidID
      else bind_s (gets root) (\<lambda>r.
           bind_s (sql_query (q_Env i)) (\<lambda>e. case e of
             None \<Rightarrow> raise ErrNotFound
           | Some e \<Rightarrow> ret (env_of r e))))"

definition List :: "Env list st" where
  "List = bind_s (gets root) (\<lambda>r. bind_s (sql_query q_Envs) (\<lambda>es. ret (map (env_of r) es)))"

text \<open>
  \<open>FindByPath\<close> looks at the path and then at each folder above it, up to the pool's root or the
  file system's; an index query per folder. A relative path names no workspace: rows hold
  absolute ones.
\<close>

function find_up :: "bool \<Rightarrow> path \<Rightarrow> path \<Rightarrow> Env st" where
  "find_up rooted r p =
     (if (rooted \<and> p = r) \<or> p = [] then raise ErrNotFound
      else bind_s (sql_query (\<lambda>x. if rooted then q_EnvAt p x else None)) (\<lambda>e. case e of
             None \<Rightarrow> find_up rooted r (butlast p)
           | Some e \<Rightarrow> ret (env_of r e)))"
  by pat_completeness auto
termination
  by (relation "measure (\<lambda>(b, r, p). length p)") auto

declare find_up.simps [simp del]

definition FindByPath :: "string \<Rightarrow> Env st" where
  "FindByPath path =
     bind_s (gets root) (\<lambda>r. find_up (fst (Clean path)) r (snd (Clean path)))"

lemma wp_Get [wp_rules]:
  "wp (Get i) Q E = (\<lambda>s. (if \<not> CheckEnvID i then E ErrInvalidID s
      else case faulty s of
        Some _ \<Rightarrow> E SQLError (tick s)
      | None \<Rightarrow> (case q_Env i (db s) of
          None \<Rightarrow> E ErrNotFound (tick s)
        | Some e \<Rightarrow> Q (env_of (root s) e) (tick s))))"
  by (rule ext) (simp add: Get_def wp_rules cong: option.case_cong)

lemma wp_List [wp_rules]:
  "wp List Q E = (\<lambda>s. (case faulty s of
        Some _ \<Rightarrow> E SQLError (tick s)
      | None \<Rightarrow> Q (map (env_of (root s)) (q_Envs (db s))) (tick s)))"
  by (rule ext) (simp add: List_def wp_rules cong: option.case_cong)

end
