(* ===== verification/StoreFrame.thy ===== *)
theory StoreFrame
  imports StoreBase
begin

text \<open>
  What the store's primitives leave alone: preservation rules (\<open>keeps\<close>) for the system calls
  and queries, and the behaviour of \<open>deleteSubvolumes\<close> and \<open>removeAll\<close>. The proofs about the
  store's operations combine these with the \<open>wp\<close> equations.
\<close>

section \<open>Preservation by the primitives\<close>

text \<open>A property of the disk, the index and the settings, not of the call counter.\<close>

definition tick_inv :: "(store \<Rightarrow> bool) \<Rightarrow> bool" where
  "tick_inv I \<longleftrightarrow> (\<forall>s. I s \<longrightarrow> I (tick s))"

lemma tick_invD: "tick_inv I \<Longrightarrow> I s \<Longrightarrow> I (tick s)"
  by (simp add: tick_inv_def)

lemma keeps_sys_read [keeps_rules]: "tick_inv I \<Longrightarrow> keeps I (sys_read f)"
  by (auto simp: keeps_def sys_read_def tick_inv_def split: option.splits)

lemma keeps_sys_write [keeps_rules]:
  assumes "tick_inv I" "\<And>s d. I s \<Longrightarrow> f (disk s) = Inr d \<Longrightarrow> I (s\<lparr>disk := d\<rparr>)"
  shows "keeps I (sys_write f)"
  unfolding keeps_def sys_write_def
proof (intro allI impI)
  fix s assume "I s"
  then have t: "I (tick s)" using assms(1) by (simp add: tick_inv_def)
  show "I (snd (case faulty s of Some n \<Rightarrow> (Inr (Inl (EFault n)), tick s)
        | None \<Rightarrow> (case f (disk s) of Inl e \<Rightarrow> (Inr (Inl e), tick s)
           | Inr d \<Rightarrow> (Inr (Inr ()), (tick s)\<lparr>disk := d\<rparr>))))"
    using t assms(2) [OF t] by (auto split: option.split sum.split)
qed

lemma keeps_ok [keeps_rules]: "keeps I m \<Longrightarrow> keeps I (ok m)"
  unfolding ok_def by (intro keeps_rules)

lemma keeps_sql_query [keeps_rules]: "tick_inv I \<Longrightarrow> keeps I (sql_query f)"
  by (auto simp: keeps_def sql_query_def tick_inv_def split: option.splits)

lemma keeps_sql_exec [keeps_rules]:
  assumes "tick_inv I" "\<And>s x. I s \<Longrightarrow> f (db s) = Some x \<Longrightarrow> I (s\<lparr>db := x\<rparr>)"
  shows "keeps I (sql_exec f)"
  unfolding keeps_def sql_exec_def
proof (intro allI impI)
  fix s assume "I s"
  then have t: "I (tick s)" using assms(1) by (simp add: tick_inv_def)
  show "I (snd (case faulty s of Some _ \<Rightarrow> (Inl SQLError, tick s)
        | None \<Rightarrow> (case f (db s) of None \<Rightarrow> (Inl SQLError, tick s)
           | Some x \<Rightarrow> (Inr (), (tick s)\<lparr>db := x\<rparr>))))"
    using t assms(2) [OF t] by (auto split: option.split)
qed

lemma keeps_step [keeps_rules]: "keeps I (step n)"
  by (simp add: keeps_def step_def)

lemma keeps_time_now [keeps_rules]: "tick_inv I \<Longrightarrow> keeps I time_now"
  by (simp add: keeps_def time_now_def tick_inv_def)

lemma keeps_now_unix [keeps_rules]: "tick_inv I \<Longrightarrow> keeps I now_unix"
  unfolding now_unix_def by (intro keeps_rules)

lemma keeps_rand_Text [keeps_rules]: "tick_inv I \<Longrightarrow> keeps I rand_Text"
  by (simp add: keeps_def rand_Text_def tick_inv_def)

lemma keeps_lstat [keeps_rules]: "tick_inv I \<Longrightarrow> keeps I (lstat p)"
  unfolding lstat_def by (intro keeps_rules)

lemma keeps_readFile [keeps_rules]: "tick_inv I \<Longrightarrow> keeps I (readFile p)"
  unfolding readFile_def by (intro keeps_rules)

lemma keeps_readDir [keeps_rules]: "tick_inv I \<Longrightarrow> keeps I (readDir p)"
  unfolding readDir_def by (intro keeps_rules)

lemma keeps_Get [keeps_rules]: "tick_inv I \<Longrightarrow> keeps I (Get i)"
  unfolding Get_def by (intro keeps_rules)

lemma keeps_List [keeps_rules]: "tick_inv I \<Longrightarrow> keeps I List"
  unfolding List_def by (intro keeps_rules)

section \<open>Places other than the one written\<close>

text \<open>Removing never makes anything appear.\<close>

lemma lookup_upd_None_mono:
  assumes "lookup d q = None" "p \<noteq> []"
  shows "lookup (upd p None d) q = None"
proof (cases "p \<parallel> q")
  case True
  then show ?thesis by (simp add: lookup_upd_parallel assms)
next
  case False
  then consider r where "q = p @ r" | r where "p = q @ r"
    by (auto simp: parallel_def prefix_def)
  then show ?thesis
  proof cases
    case 1
    show ?thesis
    proof (cases "has_parent d p")
      case True
      then show ?thesis by (simp add: 1 lookup_upd_below)
    next
      case False
      then have "lookup (upd p None d) p = lookup d p" using assms(2) by (rule upd_no_parent)
      with assms(1) show ?thesis by (simp add: 1 lookup_append split: option.splits)
    qed
  next
    case 2
    show ?thesis
    proof (cases "r = []")
      case True
      with 2 assms show ?thesis
        by (cases "has_parent d p") (simp_all add: lookup_upd_eq upd_no_parent)
    next
      case False
      with 2 assms show ?thesis by (simp add: lookup_upd_above)
    qed
  qed
qed

definition same_at :: "path \<Rightarrow> node option \<Rightarrow> store \<Rightarrow> bool" where
  "same_at q v s \<longleftrightarrow> lookup (disk s) q = v"

lemma tick_inv_same_at [simp]: "tick_inv (same_at q v)"
  by (simp add: tick_inv_def same_at_def)

lemma tick_inv_db [simp]: "tick_inv (\<lambda>s. P (db s))"
  by (simp add: tick_inv_def)

lemma tick_inv_disk [simp]: "tick_inv (\<lambda>s. P (disk s))"
  by (simp add: tick_inv_def)

lemma tick_inv_conj: "tick_inv I \<Longrightarrow> tick_inv J \<Longrightarrow> tick_inv (\<lambda>s. I s \<and> J s)"
  by (simp add: tick_inv_def)

text \<open>
  A write at \<open>p\<close>: what it does to the disk is an update at \<open>p\<close> alone.
\<close>

definition writes_at :: "path \<Rightarrow> (node \<Rightarrow> errno + node) \<Rightarrow> bool" where
  "writes_at p f \<longleftrightarrow> (\<forall>d d'. f d = Inr d' \<longrightarrow> d' = d \<or> (\<exists>v. d' = upd p v d))"

lemma writes_at_mkdir: "writes_at p (fs_mkdir m p)"
  by (auto simp: writes_at_def fs_mkdir_def split: sum.splits if_splits)

lemma writes_at_write: "writes_at p (fs_write c p)"
  by (auto simp: writes_at_def fs_write_def split: sum.splits if_splits node.splits)

lemma writes_at_set_attr: "writes_at p (fs_set_attr f p)"
  by (auto simp: writes_at_def fs_set_attr_def split: sum.splits)

lemma writes_at_remove: "writes_at p (fs_remove p)"
  by (auto simp: writes_at_def fs_remove_def split: sum.splits if_splits)

lemma writes_at_new_subvol: "writes_at p (fs_new_subvol l p n)"
  by (auto simp: writes_at_def fs_new_subvol_def split: if_splits)

lemma writes_at_snapshot: "writes_at p (fs_snapshot src p r)"
  using writes_at_new_subvol
  by (fastforce simp: writes_at_def fs_snapshot_def split: sum.splits if_splits)

lemma writes_at_deleteSubvolume: "writes_at p (fs_deleteSubvolume p)"
  by (auto simp: writes_at_def fs_deleteSubvolume_def split: sum.splits if_splits)

lemma writes_at_delete_recursive: "writes_at p (fs_delete_recursive p)"
  by (auto simp: writes_at_def fs_delete_recursive_def split: if_splits)

lemmas writes_at_rules = writes_at_mkdir writes_at_write writes_at_set_attr writes_at_remove
  writes_at_new_subvol writes_at_snapshot writes_at_deleteSubvolume writes_at_delete_recursive

lemma writes_at_lookup:
  "writes_at p f \<Longrightarrow> f d = Inr d' \<Longrightarrow> p \<parallel> q \<Longrightarrow> lookup d' q = lookup d q"
  using lookup_upd_parallel [of p q] by (auto simp: writes_at_def)

lemma keeps_write_parallel:
  "writes_at p f \<Longrightarrow> p \<parallel> q \<Longrightarrow> keeps (same_at q v) (sys_write f)"
  by (rule keeps_sys_write) (auto simp: same_at_def writes_at_lookup)

text \<open>No write of the disk touches the index, and no query the disk.\<close>

lemma keeps_db_write: "keeps (\<lambda>s. P (db s)) (sys_write f)"
  by (rule keeps_sys_write) simp_all

lemma keeps_disk_exec: "keeps (\<lambda>s. P (disk s)) (sql_exec f)"
  by (rule keeps_sql_exec) simp_all

section \<open>Deleting subvolumes\<close>

lemma fs_deleteSubvolume_Inr:
  "fs_deleteSubvolume p d = Inr d' \<Longrightarrow> d' = upd p None d \<and> p \<noteq> []"
  by (auto simp: fs_deleteSubvolume_def volumeName_def split: sum.splits if_splits)

lemma fs_delete_recursive_Inr:
  "fs_delete_recursive p d = Inr d' \<Longrightarrow> d' = upd p None d \<and> p \<noteq> []"
  by (auto simp: fs_delete_recursive_def split: if_splits)

definition removal_inv :: "path \<Rightarrow> (store \<Rightarrow> bool) \<Rightarrow> bool" where
  "removal_inv p I \<longleftrightarrow> (\<forall>s. I s \<longrightarrow> p \<noteq> [] \<longrightarrow> I (s\<lparr>disk := upd p None (disk s)\<rparr>))"

lemma keeps_delete_one:
  assumes "tick_inv I" "removal_inv p I"
  shows "keeps I (delete_one p nested)"
  unfolding delete_one_def using assms
  by (intro keeps_rules) (auto simp: removal_inv_def dest!: fs_deleteSubvolume_Inr)

lemma delete_one_nested:
  "wp (delete_one p nested) (\<lambda>r _. set r \<subseteq> insert p (set nested)) (\<lambda>_ _. True) s"
  by (auto simp: delete_one_def lstat_def wp_rules split: option.split sum.split errno.split)

lemma fold_delete_nested:
  "wp (fold_s delete_one ps nested) (\<lambda>r _. set r \<subseteq> set ps \<union> set nested) (\<lambda>_ _. True) s"
proof (induction ps arbitrary: nested s)
  case Nil
  then show ?case by (simp add: wp_rules)
next
  case (Cons p ps nested s)
  have "wp (delete_one p nested)
      (\<lambda>n t. wp (fold_s delete_one ps n) (\<lambda>r _. set r \<subseteq> set (p # ps) \<union> set nested) (\<lambda>_ _. True) t)
      (\<lambda>_ _. True) s"
    by (rule wp_mono [OF delete_one_nested]) (auto intro!: wp_mono [OF Cons.IH])
  then show ?case by (simp add: wp_bind)
qed

lemma keeps_deleteSubvolumes:
  assumes "tick_inv I" "\<And>p. p \<in> set ps \<Longrightarrow> removal_inv p I"
  shows "keeps I (deleteSubvolumes ps)"
  unfolding keeps_wp
proof (intro allI impI)
  fix s assume I: "I s"
  have "keeps I (fold_s delete_one ps [])"
    by (intro keeps_fold_s keeps_delete_one assms)
  then have 1: "wp (fold_s delete_one ps []) (\<lambda>_. I) (\<lambda>_. I) s"
    using I by (simp add: keeps_wp)
  have 2: "wp (if nested = [] then ret ()
        else bind_s (for_each (\<lambda>p. ok (sys_write (fs_delete_recursive p))) nested)
              (\<lambda>_. step ''delete subvolumes: nested removed'')) (\<lambda>_. I) (\<lambda>_. I) t"
    if "I t" "set nested \<subseteq> set ps" for nested t
  proof -
    have "keeps I (if nested = [] then ret ()
        else bind_s (for_each (\<lambda>p. ok (sys_write (fs_delete_recursive p))) nested)
              (\<lambda>_. step ''delete subvolumes: nested removed''))"
      using that(2) assms
      by (intro keeps_rules) (auto simp: removal_inv_def dest!: fs_delete_recursive_Inr)
    then show ?thesis using that(1) by (simp add: keeps_wp)
  qed
  show "wp (deleteSubvolumes ps) (\<lambda>_. I) (\<lambda>_. I) s"
    unfolding deleteSubvolumes_def wp_bind
    by (rule wp_mono [OF wp_conj [OF 1 fold_delete_nested]]) (use 2 in auto)
qed

lemma removal_inv_same_at: "p \<parallel> q \<Longrightarrow> removal_inv p (same_at q v)"
  by (simp add: removal_inv_def same_at_def lookup_upd_parallel)

lemma removal_inv_absent: "removal_inv p (same_at q None)"
  by (simp add: removal_inv_def same_at_def lookup_upd_None_mono)

lemma removal_inv_db: "removal_inv p (\<lambda>s. P (db s))"
  by (simp add: removal_inv_def)

text \<open>When it succeeds, none of the paths is a subvolume.\<close>

definition not_subvol :: "path \<Rightarrow> store \<Rightarrow> bool" where
  "not_subvol p s \<longleftrightarrow> (\<forall>n. lookup (disk s) p = Some n \<longrightarrow> \<not> isSubvolume n)"

lemma tick_inv_not_subvol [simp]: "tick_inv (not_subvol p)"
  by (simp add: tick_inv_def not_subvol_def)

lemma lookup_upd_None_cases:
  assumes "q \<noteq> []" "lookup (upd q None d) p = Some n"
  shows "\<exists>m. lookup d p = Some m \<and> isSubvolume n = isSubvolume m \<and> is_dir n = is_dir m"
proof (cases "q \<parallel> p")
  case True
  with assms show ?thesis by (auto simp: lookup_upd_parallel)
next
  case False
  have "lookup d p \<noteq> None" using assms lookup_upd_None_mono by force
  then obtain m where m: "lookup d p = Some m" by auto
  from False consider r where "p = q @ r" | r where "q = p @ r" "r \<noteq> []"
    by (auto simp: parallel_def prefix_def) (metis append_Nil2)
  then show ?thesis
  proof cases
    case 1
    then have "lookup d q \<noteq> None" using m by (auto simp: lookup_append split: option.splits)
    then have "has_parent d q" using assms(1) lookup_some_parent by auto
    then show ?thesis using assms(2) by (simp add: 1 lookup_upd_below)
  next
    case 2
    then show ?thesis using assms(2) m by (auto simp: lookup_upd_above)
  qed
qed

lemma removal_inv_not_subvol: "removal_inv q (not_subvol p)"
  unfolding removal_inv_def not_subvol_def
  using lookup_upd_None_cases by fastforce

lemma delete_one_done:
  "wp (delete_one p nested) (\<lambda>r t. not_subvol p t \<or> p \<in> set r) (\<lambda>_ _. True) s"
  unfolding delete_one_def lstat_def
  by (auto simp: wp_rules not_subvol_def stat_at_Inr lookup_upd_eq lookup_some_parent
      dest!: fs_deleteSubvolume_Inr stat_at_ENOENT split: option.split sum.split errno.split)

lemma keeps_wpI: "keeps I m \<Longrightarrow> I s \<Longrightarrow> wp m (\<lambda>_. I) (\<lambda>_. I) s"
  by (simp add: keeps_wp)

lemma fold_delete_done:
  "wp (fold_s delete_one ps nested)
     (\<lambda>r t. set nested \<subseteq> set r \<and> (\<forall>p\<in>set ps. not_subvol p t \<or> p \<in> set r)) (\<lambda>_ _. True) s"
proof (induction ps arbitrary: nested s)
  case Nil
  then show ?case by (simp add: wp_rules)
next
  case (Cons p ps nested s)
  let ?Q = "\<lambda>r t. set nested \<subseteq> set r \<and> (\<forall>p\<in>set (p # ps). not_subvol p t \<or> p \<in> set r)"
  have sub: "wp (delete_one p nested) (\<lambda>r _. set nested \<subseteq> set r) (\<lambda>_ _. True) s"
    by (auto simp: delete_one_def lstat_def wp_rules split: option.split sum.split errno.split)
  have kp: "keeps (not_subvol p) (fold_s delete_one ps n)" for n
    by (intro keeps_fold_s keeps_delete_one removal_inv_not_subvol) simp
  have "wp (fold_s delete_one ps n) ?Q (\<lambda>_ _. True) t"
    if "not_subvol p t \<or> p \<in> set n" "set nested \<subseteq> set n" for n t
  proof (cases "not_subvol p t")
    case True
    from wp_conj [OF keeps_wpI [OF kp True] Cons.IH] show ?thesis
      by (rule wp_mono) (use that in auto)
  next
    case False
    with that show ?thesis by (intro wp_mono [OF Cons.IH]) auto
  qed
  then have "wp (delete_one p nested) (\<lambda>n. wp (fold_s delete_one ps n) ?Q (\<lambda>_ _. True)) (\<lambda>_ _. True) s"
    by (intro wp_mono [OF wp_conj [OF delete_one_done sub]]) auto
  then show ?case by (simp add: wp_bind)
qed

lemma recursive_done:
  "wp (for_each (\<lambda>p. ok (sys_write (fs_delete_recursive p))) ps)
     (\<lambda>_ t. \<forall>p\<in>set ps. not_subvol p t) (\<lambda>_ _. True) s"
proof (induction ps arbitrary: s)
  case Nil
  then show ?case by (simp add: wp_rules)
next
  case (Cons p ps s)
  have kp: "keeps (not_subvol p) (for_each (\<lambda>p. ok (sys_write (fs_delete_recursive p))) ps)"
    using removal_inv_not_subvol
    by (intro keeps_rules) (auto simp: removal_inv_def dest!: fs_delete_recursive_Inr)
  have "wp (for_each (\<lambda>p. ok (sys_write (fs_delete_recursive p))) ps)
      (\<lambda>_ t. \<forall>p\<in>set (p # ps). not_subvol p t) (\<lambda>_ _. True) t" if "not_subvol p t" for t
    by (rule wp_mono [OF wp_conj [OF keeps_wpI [OF kp that] Cons.IH]]) auto
  moreover have "not_subvol p (u\<lparr>disk := upd p None d\<rparr>)" if "p \<noteq> []" for u d
  proof (cases "has_parent d p")
    case True
    then show ?thesis by (simp add: not_subvol_def lookup_upd_eq)
  next
    case False
    then have "lookup d p = None" using that lookup_some_parent by (cases "lookup d p") auto
    then show ?thesis using that by (simp add: not_subvol_def lookup_upd_None_mono)
  qed
  ultimately show ?case
    by (auto simp: wp_rules dest!: fs_delete_recursive_Inr split: option.split sum.split)
qed

lemma deleteSubvolumes_done:
  "wp (deleteSubvolumes ps) (\<lambda>_ t. \<forall>p\<in>set ps. not_subvol p t) (\<lambda>_ _. True) s"
proof -
  have kp: "keeps (not_subvol q) (for_each (\<lambda>p. ok (sys_write (fs_delete_recursive p))) ps)" for q ps
    using removal_inv_not_subvol
    by (intro keeps_rules) (auto simp: removal_inv_def dest!: fs_delete_recursive_Inr)
  have "wp (if n = [] then ret ()
        else bind_s (for_each (\<lambda>p. ok (sys_write (fs_delete_recursive p))) n)
              (\<lambda>_. step ''delete subvolumes: nested removed''))
      (\<lambda>_ t. not_subvol p t) (\<lambda>_ _. True) t"
    if "not_subvol p t \<or> p \<in> set n" for n t p
  proof -
    have "wp (for_each (\<lambda>p. ok (sys_write (fs_delete_recursive p))) n)
        (\<lambda>_ t. not_subvol p t) (\<lambda>_ _. True) t"
    proof (cases "p \<in> set n")
      case True
      then show ?thesis by (intro wp_mono [OF recursive_done]) auto
    next
      case False
      with that show ?thesis by (intro wp_mono [OF keeps_wpI [OF kp]]) auto
    qed
    then show ?thesis using that by (auto simp: wp_rules elim!: wp_mono)
  qed
  note one = this
  have *: "wp (if n = [] then ret ()
        else bind_s (for_each (\<lambda>p. ok (sys_write (fs_delete_recursive p))) n)
              (\<lambda>_. step ''delete subvolumes: nested removed''))
      (\<lambda>_ t. \<forall>p\<in>set ps. not_subvol p t) (\<lambda>_ _. True) t"
    if "\<forall>p\<in>set ps. not_subvol p t \<or> p \<in> set n" for n t
    using that one by (intro wp_ball) blast
  show ?thesis
    unfolding deleteSubvolumes_def wp_bind
    by (rule wp_mono [OF fold_delete_done]) (use * in blast)+
qed

end
