(* ===== verification/SampleStore.thy ===== *)
theory SampleStore
  imports StoreBase
begin

text \<open>
  A small pool, on which the theorems about the store are applied.
\<close>

text \<open>A pool with one environment, \<open>dev\<close>, whose workspace has changed since snapshot \<open>turn-1\<close>.\<close>

definition sample_attr :: attr where
  "sample_attr = \<lparr>uid = 1000, gid = 1000, mode = 420, mtime = 0\<rparr>"

definition sample_live :: node where
  "sample_live = Dir sample_attr (Subvol False) [(''a.txt'', File sample_attr ''new'')]"

definition sample_snap :: node where
  "sample_snap = Dir sample_attr (Subvol True) [(''a.txt'', File sample_attr ''old'')]"

definition sample_env :: "(string \<times> node) list \<Rightarrow> node" where
  "sample_env snaps = Dir root_attr Plain
     [(''live'', sample_live), (''snaps'', Dir root_attr Plain snaps), (''claude'', Dir root_attr Plain [])]"

definition sample_disk :: node where
  "sample_disk = Dir root_attr Plain
     [(''pool'', Dir root_attr Plain
        [(''envs'', Dir root_attr Plain [(''dev'', sample_env [(''turn-1'', sample_snap)])]),
         (''worktrees'', Dir root_attr Plain [])])]"

definition sample_world :: world where
  "sample_world = \<lparr>faults = (\<lambda>_. None), failAt = (\<lambda>_. False), times = (\<lambda>_. 86400 * 100 * second),
     tokens = (\<lambda>_. ''TOKEN''), stats = (\<lambda>_. (1000000, 2000000, 4096))\<rparr>"

definition sample_row :: env_row where
  "sample_row = \<lparr>eID = ''dev'', eWorkspace = [''pool'', ''envs'', ''dev'', ''live''], eGit = None,
     eCreatedAt = 0, eBoxToken = ''TOKEN''\<rparr>"

definition sample_store :: store where
  "sample_store = \<lparr>root = [''pool''], disk = sample_disk,
     db = \<lparr>environments = [sample_row], snapshots = [\<lparr>sEnv = ''dev'', sID = ''turn-1'', sCreatedAt = 5\<rparr>]\<rparr>,
     keepTurns = 50, minFreeBytes = 2147483648, calls = 0, wld = sample_world\<rparr>"

lemmas sample_defs = sample_attr_def sample_live_def sample_snap_def sample_env_def sample_disk_def
  sample_world_def sample_row_def sample_store_def

end
