(* ===== verification/StoreGit.thy ===== *)
theory StoreGit
  imports StoreFrame SampleStore
begin

text \<open>
  \<open>gitdir.go\<close>: the git folder of the main repository a worktree belongs to, which the
  environment's box gets. The worktree's \<open>.git\<close> file is written by its user, so what it names is
  checked: \<open>repoGitDir_sound\<close> is what the checks establish.
\<close>

text \<open>\<open>within\<close>: \<open>path\<close> is below \<open>dir\<close>. Both are absolute and clean.\<close>

definition is_within :: "path \<Rightarrow> path \<Rightarrow> bool" where
  "is_within dir p \<longleftrightarrow>
     (case Rel (True, dir) (True, p) of
        None \<Rightarrow> False
      | Some rel \<Rightarrow> rel \<noteq> [] \<and> hd rel \<noteq> ''..'')"

lemma is_within_append: "is_within dir p \<Longrightarrow> \<exists>rel. rel \<noteq> [] \<and> p = dir @ rel"
  using Rel_below [of dir p] by (auto simp: is_within_def split: option.splits)

lemma is_within_appendI: "rel \<noteq> [] \<Longrightarrow> hd rel \<noteq> ''..'' \<Longrightarrow> is_within dir (dir @ rel)"
  by (simp add: is_within_def Rel_append)

text \<open>
  \<open>isRealDir\<close>: a directory reached through no symlink. \<open>lookup\<close> follows none, so a path it
  finds resolves to itself; a failing call makes it false.
\<close>

definition isRealDir :: "path \<Rightarrow> bool st" where
  "isRealDir p =
     bind_s (lstat p) (\<lambda>r. case r of
       Inl _ \<Rightarrow> ret False
     | Inr n \<Rightarrow> ret (is_dir n))"

text \<open>\<open>pathIn\<close>: \<open>None\<close> is the empty string.\<close>

definition join_path :: "path \<Rightarrow> string \<Rightarrow> path" where
  "join_path dir s =
     (if is_abs s then snd (Clean s) else clean_onto True dir (split_on CHR ''/'' s))"

definition pathIn :: "path \<Rightarrow> string \<Rightarrow> string \<Rightarrow> path option st" where
  "pathIn dir name pre =
     bind_s (lstat (dir @ [name])) (\<lambda>r. case r of
       Inl ENOENT \<Rightarrow> ret None
     | Inl e \<Rightarrow> raise (Sys e)
     | Inr n \<Rightarrow>
         if \<not> is_regular n then ret None
         else bind_s (ok (readFile (dir @ [name]))) (\<lambda>c.
              case cut_prefix (trim_space c) pre of
                None \<Rightarrow> ret None
              | Some s \<Rightarrow> if s = [] then ret None else ret (Some (join_path dir s))))"

text \<open>The loop of \<open>repoGitDir\<close> over the two folders of projects.\<close>

fun gitdir_in :: "path list \<Rightarrow> path \<Rightarrow> path option st" where
  "gitdir_in [] own = ret None"
| "gitdir_in (r # rs) own =
     (if \<not> is_within r own then gitdir_in rs own
      else bind_s (isRealDir own) (\<lambda>real.
           if \<not> real then ret None
           else bind_s (pathIn own ''commondir'' []) (\<lambda>c. case c of
                  None \<Rightarrow> ret None
                | Some common \<Rightarrow>
                    if \<not> is_within r common \<or> \<not> is_within common own then ret None
                    else bind_s (isRealDir common) (\<lambda>b.
                         ret (if b then Some common else None)))))"

definition repoGitDir :: "path \<Rightarrow> path option st" where
  "repoGitDir workspace =
     bind_s (pathIn workspace ''.git'' ''gitdir: '') (\<lambda>own. case own of
       None \<Rightarrow> ret None
     | Some own \<Rightarrow> bind_s (gets root) (\<lambda>r. gitdir_in [repos r, projects r] own))"

section \<open>Frame\<close>

lemma keeps_isRealDir [keeps_rules]: "tick_inv I \<Longrightarrow> keeps I (isRealDir p)"
  unfolding isRealDir_def by (intro keeps_rules)

lemma keeps_pathIn [keeps_rules]: "tick_inv I \<Longrightarrow> keeps I (pathIn d n p)"
  unfolding pathIn_def by (intro keeps_rules)

lemma keeps_gitdir_in: "tick_inv I \<Longrightarrow> keeps I (gitdir_in rs own)"
  by (induction rs) (auto intro!: keeps_rules)

lemma keeps_repoGitDir [keeps_rules]: "tick_inv I \<Longrightarrow> keeps I (repoGitDir w)"
  unfolding repoGitDir_def by (intro keeps_rules keeps_gitdir_in)

section \<open>Soundness\<close>

text \<open>A folder that a box may get: a real directory below \<open>repos/\<close> or \<open>projects/\<close>.\<close>

definition sound_git :: "path \<Rightarrow> node \<Rightarrow> path \<Rightarrow> bool" where
  "sound_git r d g \<longleftrightarrow>
     (\<exists>top \<in> {repos r, projects r}. \<exists>rel. rel \<noteq> [] \<and> g = top @ rel) \<and>
     (\<exists>n. lookup d g = Some n \<and> is_dir n) \<and>
     (\<exists>own rel. rel \<noteq> [] \<and> own = g @ rel \<and> (\<exists>n. lookup d own = Some n \<and> is_dir n))"

lemma isRealDir_wp:
  "wp (isRealDir p) (\<lambda>b t. disk t = disk s \<and> (b \<longrightarrow> (\<exists>n. lookup (disk s) p = Some n \<and> is_dir n)))
     (\<lambda>_ _. False) s"
  by (auto simp: isRealDir_def lstat_def wp_rules stat_at_Inr split: option.split sum.split)

lemma pathIn_wp: "wp (pathIn d n p) (\<lambda>_ t. disk t = disk s) (\<lambda>_ _. True) s"
  using keeps_wpI [OF keeps_pathIn [OF tick_inv_disk [of "\<lambda>x. x = disk s"]], of s d n p]
  by (auto elim: wp_mono)

lemma gitdir_in_one:
  assumes "is_within r own"
  shows "wp (gitdir_in (r # rs) own)
     (\<lambda>g _. \<forall>c. g = Some c \<longrightarrow> is_within r c \<and> is_within c own \<and>
        (\<exists>n. lookup (disk s) c = Some n \<and> is_dir n) \<and> (\<exists>n. lookup (disk s) own = Some n \<and> is_dir n))
     (\<lambda>_ _. True) s" (is "wp _ ?Q _ _")
proof -
  have 2: "wp (pathIn own ''commondir'' []) (\<lambda>c. wp (case c of None \<Rightarrow> ret None
      | Some common \<Rightarrow> if \<not> is_within r common \<or> \<not> is_within common own then ret None
          else bind_s (isRealDir common) (\<lambda>b. ret (if b then Some common else None))) ?Q (\<lambda>_ _. True))
      (\<lambda>_ _. True) t"
    if "disk t = disk s" "\<exists>n. lookup (disk s) own = Some n \<and> is_dir n" for t
    by (rule wp_mono [OF pathIn_wp])
      (use that in \<open>auto simp: wp_ret wp_bind wp_if wp_case_option
        intro!: wp_mono [OF isRealDir_wp] split: option.split if_splits\<close>)
  have "wp (isRealDir own) (\<lambda>b. wp (if \<not> b then ret None else
      bind_s (pathIn own ''commondir'' []) (\<lambda>c. case c of None \<Rightarrow> ret None
      | Some common \<Rightarrow> if \<not> is_within r common \<or> \<not> is_within common own then ret None
          else bind_s (isRealDir common) (\<lambda>b. ret (if b then Some common else None)))) ?Q (\<lambda>_ _. True))
      (\<lambda>_ _. True) s"
    by (rule wp_mono [OF isRealDir_wp])
      (simp only: wp_bind [of "pathIn _ _ _"] wp_ret wp_if not_not simp_thms option.distinct split: if_split,
        use 2 in blast, simp)
  then show ?thesis using assms by (simp add: wp_bind)
qed

lemma gitdir_in_sound:
  "wp (gitdir_in rs own)
     (\<lambda>g _. \<forall>c. g = Some c \<longrightarrow> (\<exists>r\<in>set rs. is_within r c) \<and> is_within c own \<and>
        (\<exists>n. lookup (disk s) c = Some n \<and> is_dir n) \<and> (\<exists>n. lookup (disk s) own = Some n \<and> is_dir n))
     (\<lambda>_ _. True) s"
proof (induction rs)
  case Nil
  then show ?case by (simp add: wp_rules)
next
  case (Cons r rs)
  show ?case
  proof (cases "is_within r own")
    case True
    show ?thesis by (rule wp_mono [OF gitdir_in_one [OF True]]) auto
  next
    case False
    then have "gitdir_in (r # rs) own = gitdir_in rs own" by simp
    then show ?thesis by (simp only:) (rule wp_mono [OF Cons.IH], auto)
  qed
qed

lemma repoGitDir_wp:
  "wp (repoGitDir w) (\<lambda>g t. \<forall>c. g = Some c \<longrightarrow> sound_git (root s) (disk s) c) (\<lambda>_ _. True) s"
proof -
  have "wp (gitdir_in [repos (root s), projects (root s)] own)
      (\<lambda>g t. \<forall>c. g = Some c \<longrightarrow> sound_git (root s) (disk s) c) (\<lambda>_ _. True) t"
    if "disk t = disk s" for t own
    by (rule wp_mono [OF gitdir_in_sound])
      (use that in \<open>fastforce simp: sound_git_def dest!: is_within_append\<close>)
  moreover have "wp (pathIn w ''.git'' ''gitdir: '') (\<lambda>_ t. disk t = disk s \<and> root t = root s) (\<lambda>_ _. True) s"
    using keeps_wpI [OF keeps_pathIn [of "\<lambda>t. disk t = disk s \<and> root t = root s"], of s w "''.git''" "''gitdir: ''"]
    by (auto simp: tick_inv_def elim: wp_mono)
  ultimately show ?thesis
    by (auto simp: repoGitDir_def wp_bind wp_case_option wp_ret wp_gets elim!: wp_mono
        simp del: gitdir_in.simps split: option.split)
qed


text \<open>A worktree of a repository under \<open>repos/\<close>, as \<open>git worktree add\<close> leaves them.\<close>

definition git_disk :: node where
  "git_disk = (let dir = Dir root_attr Plain; txt = File root_attr in
     dir [(''pool'', dir
       [(''repos'', dir [(''app'', dir [(''.git'', dir [(''worktrees'', dir [(''t1'', dir
           [(''commondir'', txt (''../..'' @ [CHR 0x0A]))])])])])]),
        (''worktrees'', dir [(''app'', dir [(''t1'', dir
           [(''.git'', txt (''gitdir: /pool/repos/app/.git/worktrees/t1'' @ [CHR 0x0A]))])])])])])"

definition git_store :: store where
  "git_store = sample_store\<lparr>disk := git_disk\<rparr>"


end
