(* ===== verification/StoreGolden.thy ===== *)
theory StoreGolden
  imports StoreSnapshot
begin

text \<open>
  \<open>golden.go\<close>: making a builder's workspace a copy of a checkout, listing what was copied,
  stripping it again, and laying a worktree over a golden snapshot.

  Every access goes through an \<open>os.Root\<close> in the code, which follows no symlink out of the
  directory; \<open>lookup\<close> follows none at all.
\<close>

section \<open>Walking a tree\<close>

text \<open>
  \<open>filepath.WalkDir\<close>: the root, then each entry in the order of the names, each followed by what
  is below it.
\<close>

fun walk :: "node \<Rightarrow> (path \<times> node) list" where
  "walk (Dir a k es) =
     ([], Dir a k es) #
     concat (map snd (sort_key fst
       (map (\<lambda>(x, c). (x, map (\<lambda>(p, m). (x # p, m)) (walk c))) es)))"
| "walk n = [([], n)]"

definition fs_walk :: "path \<Rightarrow> node \<Rightarrow> errno + (path \<times> node) list" where
  "fs_walk p d = (case stat_at d p of Inl e \<Rightarrow> Inl e | Inr n \<Rightarrow> Inr (walk n))"

text \<open>\<open>rel\<close> as the text of a relative path.\<close>

fun rel_text :: "path \<Rightarrow> string" where
  "rel_text [] = ''.''"
| "rel_text [x] = x"
| "rel_text (x # xs) = x @ CHR ''/'' # rel_text xs"

section \<open>Building\<close>

definition fs_rename :: "path \<Rightarrow> path \<Rightarrow> node \<Rightarrow> errno + node" where
  "fs_rename p q d =
     (case stat_at d p of
        Inl e \<Rightarrow> Inl e
      | Inr n \<Rightarrow> if \<not> has_parent d q then Inl ENOENT else Inr (upd q (Some n) (upd p None d)))"

definition NUL :: char where "NUL = char_of (0::nat)"

definition source_text :: "(path \<times> node) list \<Rightarrow> string" where
  "source_text ws = concat (map (\<lambda>(p, n). rel_text p @ [NUL]) (filter (\<lambda>(p, n). \<not> is_dir n) ws))"

definition tmpList :: "path \<Rightarrow> string \<Rightarrow> path" where
  "tmpList r i = r @ [''envs'', i, ''source.list.tmp'']"

definition listSource :: "string \<Rightarrow> path \<Rightarrow> unit st" where
  "listSource i dir =
     bind_s (gets root) (\<lambda>r.
     bind_s (writeFile (tmpList r i) []) (\<lambda>_.
     bind_s (ok (sys_read (fs_walk dir))) (\<lambda>ws.
     bind_s (writeFile (tmpList r i) (source_text ws)) (\<lambda>_.
     bind_s (ok (sys_read (\<lambda>_. Inr ()))) (\<lambda>_.
     ok (sys_write (fs_rename (tmpList r i) (sourceList r i))))))))"

definition BuildSource :: "string \<Rightarrow> SnapshotRef \<Rightarrow> unit st" where
  "BuildSource i src =
     bind_s (Get i) (\<lambda>env.
     bind_s (gets root) (\<lambda>r.
       if Workspace env \<noteq> livePath r i then raise ErrInvalidPath
       else bind_s (snapshotPath src) (\<lambda>from.
            bind_s (listSource i from) (\<lambda>_.
            bind_s (step ''build source: listed'') (\<lambda>_.
            bind_s (deleteSubvolumes [Workspace env]) (\<lambda>_.
            bind_s (step ''build source: cleared'') (\<lambda>_.
            bind_s (snapshotSubvolume from (Workspace env) False) (\<lambda>_.
            step ''build source: made''))))))))"

text \<open>
  \<open>StripSource\<close>. What \<open>Remove\<close> finds gone, or a directory that is not empty, is left; a
  directory below a file the build made in its place is ENOTDIR, an error.
\<close>

definition strip_one :: "path \<Rightarrow> string \<Rightarrow> unit st" where
  "strip_one workspace rel =
     (if rel = [] \<or> \<not> IsLocal rel then ret ()
      else bind_s (os_remove (workspace @ snd (Clean rel))) (\<lambda>w. case w of
             Inr _ \<Rightarrow> ret ()
           | Inl e \<Rightarrow> if e = ENOENT \<or> e = ENOTEMPTY \<or> e = EEXIST then ret () else raise (Sys e)))"

definition StripSource :: "string \<Rightarrow> unit st" where
  "StripSource i =
     bind_s (Get i) (\<lambda>env.
     bind_s (gets root) (\<lambda>r.
     bind_s (readFile (sourceList r i)) (\<lambda>c. case c of
       Inl ENOENT \<Rightarrow> ret ()
     | Inl e \<Rightarrow> raise (Sys e)
     | Inr txt \<Rightarrow>
         bind_s (ok (sys_read (\<lambda>d. case stat_at d (Workspace env) of
                   Inl e \<Rightarrow> Inl e | Inr n \<Rightarrow> if is_dir n then Inr () else Inl ENOTDIR))) (\<lambda>_.
         bind_s (for_each (strip_one (Workspace env)) (split_on NUL txt)) (\<lambda>_.
         ok (os_remove (sourceList r i)))))))"

definition Sources :: "string \<Rightarrow> SnapshotRef list st" where
  "Sources name =
     bind_s (sql_query (q_EnvsWithSnapshot name)) (\<lambda>es.
     ret (map (\<lambda>e. \<lparr>refEnv = e, refSnapshot = name\<rparr>) es))"

section \<open>Laying a worktree over a golden\<close>

definition fs_mkdir_new :: "nat \<Rightarrow> path \<Rightarrow> node \<Rightarrow> errno + node" where
  "fs_mkdir_new m p d =
     (case stat_at d p of
        Inr n \<Rightarrow> Inl EEXIST
      | Inl e \<Rightarrow> if has_parent d p then Inr (upd p (Some (Dir (root_attr\<lparr>mode := m\<rparr>) Plain [])) d)
                else Inl e)"

definition fs_create_new :: "node \<Rightarrow> path \<Rightarrow> node \<Rightarrow> errno + node" where
  "fs_create_new n p d =
     (case stat_at d p of
        Inr _ \<Rightarrow> Inl EEXIST
      | Inl e \<Rightarrow> if has_parent d p then Inr (upd p (Some n) d) else Inl e)"

definition link_mode :: nat where "link_mode = 511"

text \<open>Permission bits: the low nine; set-user-ID, set-group-ID and sticky above them.\<close>

definition perm :: "attr \<Rightarrow> nat" where "perm a = mode a mod 512"

definition fs_clone :: "string \<Rightarrow> path \<Rightarrow> node \<Rightarrow> errno + node" where
  "fs_clone c p d = (case stat_at d p of
      Inr (File a _) \<Rightarrow> Inr (upd p (Some (File a c)) d)
    | Inr _ \<Rightarrow> Inl EINVAL
    | Inl e \<Rightarrow> Inl e)"

text \<open>\<open>cloneFile\<close>: \<open>None\<close> is the nil of a file that has become something else.\<close>

definition cloneFile :: "path \<Rightarrow> path \<Rightarrow> path \<Rightarrow> node option st" where
  "cloneFile dst src rel =
     bind_s (ok (lstat (src @ rel))) (\<lambda>n. case n of
       File a c \<Rightarrow>
         bind_s (removeAll (dst @ rel)) (\<lambda>_.
         bind_s (ok (sys_write (fs_create_new (File (root_attr\<lparr>mode := perm a\<rparr>) []) (dst @ rel)))) (\<lambda>_.
         bind_s (ok (sys_write (fs_clone c (dst @ rel)))) (\<lambda>_.
         ret (Some n))))
     | _ \<Rightarrow> ret None)"

definition setAttrs :: "path \<Rightarrow> node \<Rightarrow> unit st" where
  "setAttrs p n =
     bind_s (chown p (uid (attr_of n)) (gid (attr_of n))) (\<lambda>_.
       if is_link n then ret ()
       else bind_s (chmod p (mode (attr_of n) mod 4096)) (\<lambda>_.
            ok (sys_write (fs_set_attr (\<lambda>a. a\<lparr>mtime := mtime (attr_of n)\<rparr>) p))))"

definition overlay_dir :: "path \<Rightarrow> attr \<Rightarrow> unit st" where
  "overlay_dir p a =
     bind_s (sys_write (fs_mkdir_new (perm a) p)) (\<lambda>w. case w of
       Inr _ \<Rightarrow> ret ()
     | Inl EEXIST \<Rightarrow>
         bind_s (ok (lstat p)) (\<lambda>cur.
           if is_dir cur then ret ()
           else bind_s (removeAll p) (\<lambda>_. ok (sys_write (fs_mkdir_new (perm a) p))))
     | Inl e \<Rightarrow> raise (Sys e))"

definition overlay_one :: "path \<Rightarrow> path \<Rightarrow> path \<times> node \<Rightarrow> unit st" where
  "overlay_one dst src e =
     (case e of (rel, _) \<Rightarrow>
      if rel = [] then ret ()
      else bind_s (ok (lstat (src @ rel))) (\<lambda>n. case n of
             Dir a _ _ \<Rightarrow> bind_s (overlay_dir (dst @ rel) a) (\<lambda>_. setAttrs (dst @ rel) n)
           | Symlink a target \<Rightarrow>
               bind_s (removeAll (dst @ rel)) (\<lambda>_.
               bind_s (ok (sys_write (fs_create_new (Symlink (root_attr\<lparr>mode := link_mode\<rparr>) target) (dst @ rel)))) (\<lambda>_.
               setAttrs (dst @ rel) n))
           | File _ _ \<Rightarrow>
               bind_s (cloneFile dst src rel) (\<lambda>m. case m of
                 None \<Rightarrow> ret ()
               | Some m \<Rightarrow> setAttrs (dst @ rel) m)
           | Special _ \<Rightarrow> ret ()))"

definition overlay :: "path \<Rightarrow> path \<Rightarrow> unit st" where
  "overlay dst src =
     bind_s (ok (lstat dst)) (\<lambda>_.
     bind_s (ok (sys_read (fs_walk src))) (\<lambda>ws.
     for_each (overlay_one dst src) ws))"

end
