(* ===== verification/StoreCreate.thy ===== *)
theory StoreCreate
  imports StoreGit StoreGolden
begin

text \<open>
  \<open>create.go\<close>, and the parts of \<open>recover.go\<close> it shares with \<open>Delete\<close> and \<open>Reconcile\<close>: the
  marker of a change that has begun, and clearing what such a change left.
\<close>

section \<open>Options\<close>

text \<open>
  The seed is a tar stream, read by the \<open>tar\<close> program: here the list of what it makes below the
  workspace, in order. A member whose directory is not there yet comes after it.
\<close>

record CreateOptions =
  optWorkspace :: string
  Seed :: "(path \<times> node) list option"
  From :: "SnapshotRef option"
  Fork :: "SnapshotRef option"

section \<open>Leftovers (recover.go)\<close>

text \<open>
  A marker's text is the path of the workspace that goes with the environment, or empty. Paths
  in it are absolute.
\<close>

definition writeMarker :: "string \<Rightarrow> string \<Rightarrow> unit st" where
  "writeMarker i workspace =
     bind_s (gets root) (\<lambda>r.
     bind_s (mkdirAll 493 (envDir r i)) (\<lambda>_.
     writeFile (markerPath r i) workspace))"

definition holds_entries :: "path \<Rightarrow> bool st" where
  "holds_entries p =
     bind_s (readDir p) (\<lambda>es. case es of
       Inr es \<Rightarrow> ret (es \<noteq> [])
     | Inl ENOENT \<Rightarrow> ret False
     | Inl e \<Rightarrow> raise (Sys e))"

definition holdsData :: "path \<Rightarrow> bool st" where
  "holdsData dir =
     bind_s (lstat (dir @ [''live''])) (\<lambda>st. case st of
       Inr _ \<Rightarrow> ret True
     | Inl ENOENT \<Rightarrow>
         bind_s (holds_entries (dir @ [''snaps''])) (\<lambda>b.
           if b then ret True else holds_entries (dir @ [''claude'']))
     | Inl e \<Rightarrow> raise (Sys e))"

definition removed_paths :: "path \<Rightarrow> string \<Rightarrow> string \<Rightarrow> (string \<times> node) list \<Rightarrow> path list" where
  "removed_paths r i workspace snaps =
     [livePath r i, restorePath r i, adoptPath r i] @
     (if workspace \<noteq> [] \<and> workspace \<noteq> path_text (livePath r i) then [snd (Clean workspace)] else []) @
     map (\<lambda>(x, _). snapPath r i x) snaps"

definition removeDisk :: "string \<Rightarrow> string \<Rightarrow> unit st" where
  "removeDisk i workspace =
     bind_s (gets root) (\<lambda>r.
     bind_s (readDir (snapsDir r i)) (\<lambda>es.
     bind_s (case es of
               Inr snaps \<Rightarrow> ret snaps
             | Inl ENOENT \<Rightarrow> ret []
             | Inl e \<Rightarrow> raise (Sys e)) (\<lambda>snaps.
     bind_s (deleteSubvolumes (removed_paths r i workspace snaps)) (\<lambda>_.
     removeAll (envDir r i)))))"

definition clearLeftovers :: "string \<Rightarrow> unit st" where
  "clearLeftovers i =
     bind_s (gets root) (\<lambda>r.
     bind_s (lstat (envDir r i)) (\<lambda>st. case st of
       Inl ENOENT \<Rightarrow> ret ()
     | Inl e \<Rightarrow> raise (Sys e)
     | Inr _ \<Rightarrow>
         bind_s (readFile (markerPath r i)) (\<lambda>m. case m of
           Inr workspace \<Rightarrow> removeDisk i (trim_space workspace)
         | Inl ENOENT \<Rightarrow>
             bind_s (holdsData (envDir r i)) (\<lambda>kept.
               if kept then raise ErrUnindexed else removeDisk i [])
         | Inl e \<Rightarrow> raise (Sys e))))"

section \<open>Workspaces\<close>

definition untar :: "path \<Rightarrow> (path \<times> node) list \<Rightarrow> unit st" where
  "untar dir ms =
     for_each (\<lambda>(rel, n).
       ok (sys_write (\<lambda>d. if rel = [] \<or> \<not> has_parent d (dir @ rel) then Inl ENOENT
                          else Inr (upd (dir @ rel) (Some n) d)))) ms"

definition syncfs :: "path \<Rightarrow> unit st" where
  "syncfs dir = ok (sys_read (\<lambda>d. case stat_at d dir of Inl e \<Rightarrow> Inl e | Inr _ \<Rightarrow> Inr ()))"

text \<open>
  \<open>cp -a --reflink=always -T path next\<close>: the directory's own attributes on \<open>next\<close>, which stays
  the subvolume it is, then everything below it, one at a time. A nested subvolume is copied as
  a plain directory.
\<close>

definition shallow :: "node \<Rightarrow> node" where
  "shallow n = (case n of Dir a _ _ \<Rightarrow> Dir a Plain [] | m \<Rightarrow> m)"

definition cp_one :: "path \<Rightarrow> path \<times> node \<Rightarrow> unit st" where
  "cp_one dst e =
     (case e of (rel, n) \<Rightarrow>
      if rel = [] then ok (sys_write (fs_set_attr (\<lambda>_. attr_of n) dst))
      else ok (sys_write (fs_create_new (shallow n) (dst @ rel))))"

definition cp_tree :: "path \<Rightarrow> path \<Rightarrow> unit st" where
  "cp_tree src dst =
     bind_s (ok (sys_read (fs_walk src))) (\<lambda>ws. for_each (cp_one dst) ws)"

definition adopt :: "string \<Rightarrow> path \<Rightarrow> path option \<Rightarrow> unit st" where
  "adopt i path from =
     bind_s (gets root) (\<lambda>r. let next = adoptPath r i in
     bind_s (case from of
               Some f \<Rightarrow> snapshotSubvolume f next False
             | None \<Rightarrow> createSubvolume next) (\<lambda>_.
     bind_s (case from of
               Some f \<Rightarrow>
                 bind_s (overlay next path) (\<lambda>_.
                 bind_s (ok (lstat path)) (\<lambda>fi.
                 chmod next (perm (attr_of fi))))
             | None \<Rightarrow> cp_tree path next) (\<lambda>_.
     bind_s (step ''adopt: copied'') (\<lambda>_.
     bind_s (rename_exchange next path) (\<lambda>_.
     bind_s (step ''adopt: swapped'') (\<lambda>_.
     removeAll next))))))"

definition makeWorkspace :: "string \<Rightarrow> path \<Rightarrow> path option \<Rightarrow> unit st" where
  "makeWorkspace i workspace from =
     bind_s (lstat workspace) (\<lambda>st. case st of
       Inl ENOENT \<Rightarrow>
         bind_s (gets root) (\<lambda>r.
         bind_s (if workspace \<noteq> livePath r i
                 then bind_s (mkdirAll 493 (butlast workspace)) (\<lambda>_. chown (butlast workspace) BoxUID BoxGID)
                 else ret ()) (\<lambda>_.
         bind_s (createSubvolume workspace) (\<lambda>_.
         chown workspace BoxUID BoxGID)))
     | Inl e \<Rightarrow> raise (Sys e)
     | Inr fi \<Rightarrow>
         if \<not> is_dir fi then raise ErrInvalidPath
         else if isSubvolume fi then ret ()
         else adopt i workspace from)"

definition refuse_link :: "path \<Rightarrow> unit st" where
  "refuse_link p =
     bind_s (lstat p) (\<lambda>st. case st of
       Inr n \<Rightarrow> if is_link n then raise ErrInvalidPath else ret ()
     | Inl _ \<Rightarrow> ret ())"

definition checkWorkspace :: "string \<Rightarrow> path st" where
  "checkWorkspace path =
     bind_s (gets root) (\<lambda>r.
     (case Rel (True, worktrees r) (Clean path) of
        None \<Rightarrow> raise ErrInvalidPath
      | Some parts \<Rightarrow>
          if length parts \<noteq> 2 \<or> \<not> pathPartPattern (parts ! 0) \<or> \<not> pathPartPattern (parts ! 1)
          then raise ErrInvalidPath
          else bind_s (for_each refuse_link [snd (Clean path), butlast (snd (Clean path))]) (\<lambda>_.
               bind_s (sql_query (q_EnvAt (snd (Clean path)))) (\<lambda>other. case other of
                 Some _ \<Rightarrow> raise ErrInvalidPath
               | None \<Rightarrow> ret (snd (Clean path))))))"

definition forkWorkspace :: "SnapshotRef \<Rightarrow> path \<Rightarrow> unit st" where
  "forkWorkspace src workspace =
     bind_s (if refSnapshot src = []
             then bind_s (Get (refEnv src)) (\<lambda>env. ret (Workspace env))
             else snapshotPath src) (\<lambda>from.
     bind_s (snapshotSubvolume from workspace False) (\<lambda>_.
     chown workspace BoxUID BoxGID))"

definition readopt :: "Env \<Rightarrow> Env st" where
  "readopt env =
     bind_s (gets root) (\<lambda>r.
       if Workspace env = livePath r (ID env) then ret env
       else bind_s (lstat (Workspace env)) (\<lambda>st.
              if (case st of Inr n \<Rightarrow> isSubvolume n | Inl _ \<Rightarrow> False) then ret env
              else if (case st of Inl e \<Rightarrow> e \<noteq> ENOENT | Inr _ \<Rightarrow> False)
              then raise (Sys (case st of Inl e \<Rightarrow> e | Inr _ \<Rightarrow> EINVAL))
              else bind_s (makeWorkspace (ID env) (Workspace env) None) (\<lambda>_.
                   bind_s (repoGitDir (Workspace env)) (\<lambda>git.
                   bind_s (sql_exec (\<lambda>x. Some (q_SetEnvGit git (ID env) x))) (\<lambda>_.
                   ret (env\<lparr>Git := git\<rparr>))))))"

section \<open>Create\<close>

definition create_workspace :: "string \<Rightarrow> path \<Rightarrow> CreateOptions \<Rightarrow> unit st" where
  "create_workspace i workspace opts =
     bind_s (case From opts of
               None \<Rightarrow> ret None
             | Some f \<Rightarrow> bind_s (snapshotPath f) (\<lambda>p. ret (Some p))) (\<lambda>from.
     (case Fork opts of
        Some src \<Rightarrow> forkWorkspace src workspace
      | None \<Rightarrow> makeWorkspace i workspace from))"

definition create :: "string \<Rightarrow> CreateOptions \<Rightarrow> Env st" where
  "create i opts =
     bind_s (gets root) (\<lambda>r.
     bind_s (if optWorkspace opts \<noteq> [] then checkWorkspace (optWorkspace opts) else ret (livePath r i)) (\<lambda>workspace.
     bind_s (clearLeftovers i) (\<lambda>_.
     bind_s (writeMarker i []) (\<lambda>_.
     bind_s (step ''create: marked'') (\<lambda>_.
     bind_s (mkdirAll 493 (snapsDir r i)) (\<lambda>_.
     bind_s (mkdirAll 448 (claudePath r i)) (\<lambda>_.
     bind_s (chown (claudePath r i) BoxUID BoxGID) (\<lambda>_.
     bind_s (create_workspace i workspace opts) (\<lambda>_.
     bind_s (step ''create: workspace made'') (\<lambda>_.
     bind_s (case Seed opts of
               None \<Rightarrow> ret ()
             | Some ms \<Rightarrow> bind_s (untar workspace ms) (\<lambda>_. syncfs workspace)) (\<lambda>_.
     bind_s (repoGitDir workspace) (\<lambda>git.
     bind_s now_unix (\<lambda>t.
     bind_s rand_Text (\<lambda>tok.
     bind_s (sql_exec (q_InsertEnv \<lparr>eID = i, eWorkspace = workspace, eGit = git, eCreatedAt = t, eBoxToken = tok\<rparr>)) (\<lambda>_.
     bind_s (step ''create: indexed'') (\<lambda>_.
     bind_s (ok (os_remove (markerPath r i))) (\<lambda>_.
     ret \<lparr>ID = i, Workspace = workspace, Claude = claudePath r i, Git = git, Created = t, BoxToken = tok\<rparr>)))))))))))))))))"

definition Create :: "string \<Rightarrow> CreateOptions \<Rightarrow> Env st" where
  "Create i opts =
     bind_s (try_s (Get i)) (\<lambda>res. case res of
       Inr env \<Rightarrow>
         if optWorkspace opts \<noteq> [] \<and> Clean (optWorkspace opts) \<noteq> (True, Workspace env)
         then raise ErrInvalidPath else readopt env
     | Inl err \<Rightarrow>
         if err \<noteq> ErrNotFound then raise err
         else if Fork opts \<noteq> None \<and> (optWorkspace opts \<noteq> [] \<or> Seed opts \<noteq> None \<or> From opts \<noteq> None)
         then raise ErrInvalidPath
         else bind_s checkFree (\<lambda>_. create i opts))"

end
