(* ===== verification/StoreRecover.thy ===== *)
theory StoreRecover
  imports StoreCreate
begin

text \<open>
  \<open>recover.go\<close>: deleting an environment, and bringing the disk and the index together after a
  crash.
\<close>

section \<open>Delete\<close>

definition Delete :: "string \<Rightarrow> unit st" where
  "Delete i =
     bind_s (try_s (Get i)) (\<lambda>res.
     bind_s (case res of
               Inr env \<Rightarrow>
                 bind_s (writeMarker i (path_text (Workspace env))) (\<lambda>_.
                 bind_s (step ''delete: marked'') (\<lambda>_.
                 bind_s (sql_exec (\<lambda>x. Some (q_DeleteEnv i x))) (\<lambda>_.
                 step ''delete: unindexed'')))
             | Inl err \<Rightarrow> if err \<noteq> ErrNotFound then raise err else ret ()) (\<lambda>_.
     clearLeftovers i))"

section \<open>Reconcile\<close>

text \<open>
  \<open>indexRecoveredSnapshots\<close> runs inside a transaction: its queries see and change \<open>tx\<close>, and the
  index only changes when \<open>Commit\<close> succeeds. The Go map of stale rows is iterated in an
  unspecified order; \<open>stale\<close> is any list of its keys.
\<close>

definition tx_exec :: "(index \<Rightarrow> index option) \<Rightarrow> index \<Rightarrow> index st" where
  "tx_exec f tx s =
     (case faulty s of
        Some _ \<Rightarrow> (Inl SQLError, tick s)
      | None \<Rightarrow> (case f tx of None \<Rightarrow> (Inl SQLError, tick s) | Some x \<Rightarrow> (Inr x, tick s)))"

definition indexRecoveredSnapshots :: "string \<Rightarrow> string list \<Rightarrow> string list \<Rightarrow> index \<Rightarrow> index st" where
  "indexRecoveredSnapshots i missing stale tx =
     bind_s now_unix (\<lambda>created.
     bind_s (fold_s (\<lambda>x tx.
               bind_s (tx_exec (q_KeepSnapshot i x created) tx) (\<lambda>tx.
               bind_s (step (''reconcile: indexed '' @ x)) (\<lambda>_. ret tx))) missing tx) (\<lambda>tx.
     fold_s (\<lambda>x tx.
               bind_s (tx_exec (\<lambda>y. Some (q_DeleteSnapshot i x y)) tx) (\<lambda>tx.
               bind_s (step (''reconcile: unindexed '' @ x)) (\<lambda>_. ret tx))) stale tx))"

definition on_disk :: "(string \<times> node) list \<Rightarrow> string list" where
  "on_disk es = map fst (filter (\<lambda>(x, n). snapIDPattern x \<and> isSubvolume n) es)"

text \<open>
  \<open>reconcileSnapshots\<close>. The keys of the map \<open>indexed\<close> that are left are taken in the order of the
  rows.
\<close>

definition reconcileSnapshots :: "string \<Rightarrow> unit st" where
  "reconcileSnapshots i =
     bind_s (Snapshots i) (\<lambda>snaps. let indexed = map fst snaps in
     bind_s (gets root) (\<lambda>r.
     bind_s (ok (readDir (snapsDir r i))) (\<lambda>es.
       let missing = filter (\<lambda>x. x \<notin> set indexed) (on_disk es);
           stale = filter (\<lambda>x. x \<notin> set (on_disk es)) indexed
       in if missing = [] \<and> stale = [] then ret ()
          else bind_s (sql_query (\<lambda>x. x)) (\<lambda>tx.
               bind_s (indexRecoveredSnapshots i missing stale tx) (\<lambda>tx.
               bind_s (sql_exec (\<lambda>_. Some tx)) (\<lambda>_.
               step ''reconcile: snapshot rows committed''))))))"

text \<open>The directory of an environment that has a row.\<close>

definition reconcile_env :: "string \<Rightarrow> Env \<Rightarrow> unit st" where
  "reconcile_env i env =
     bind_s (gets root) (\<lambda>r.
     bind_s (deleteSubvolumes [restorePath r i, adoptPath r i]) (\<lambda>_.
     bind_s (removeAll (adoptPath r i)) (\<lambda>_.
     bind_s (os_remove (markerPath r i)) (\<lambda>w.
     bind_s (case w of
               Inl e \<Rightarrow> if e = ENOENT then ret () else raise (Sys e)
             | Inr _ \<Rightarrow> ret ()) (\<lambda>_.
     bind_s (reconcileSnapshots i) (\<lambda>_.
     bind_s (lstat (Workspace env)) (\<lambda>st.
     bind_s (case st of
               Inl e \<Rightarrow> if e = ENOENT \<and> Workspace env = livePath r i
                        then makeWorkspace i (Workspace env) None
                        else if e \<noteq> ENOENT then raise (Sys e) else ret ()
             | Inr _ \<Rightarrow> ret ()) (\<lambda>_.
     prunePreRestores i []))))))))"

definition reconcile_one :: "string \<Rightarrow> path list \<Rightarrow> path list st" where
  "reconcile_one i lost =
     bind_s (gets root) (\<lambda>r.
       if \<not> CheckEnvID i then ret (lost @ [envDir r i])
       else bind_s (try_s (Get i)) (\<lambda>res. case res of
              Inl ErrNotFound \<Rightarrow>
                bind_s (try_s (clearLeftovers i)) (\<lambda>c. case c of
                  Inl ErrUnindexed \<Rightarrow> ret (lost @ [envDir r i])
                | Inl e \<Rightarrow> raise e
                | Inr _ \<Rightarrow> ret lost)
            | Inl e \<Rightarrow> raise e
            | Inr env \<Rightarrow> bind_s (reconcile_env i env) (\<lambda>_. ret lost)))"

definition Reconcile :: "path list st" where
  "Reconcile =
     bind_s (gets root) (\<lambda>r.
     bind_s (ok (readDir (envsDir r))) (\<lambda>dirs.
     fold_s (\<lambda>(i, _) lost. reconcile_one i lost) dirs []))"

end
