(* ===== verification/SnapshotSafety.thy ===== *)
theory SnapshotSafety
  imports StoreSnapshot SampleStore
begin

text \<open>
  What \<open>StoreSnapshot\<close> promises, for every pattern of failing calls: where a restore can stop
  and what it leaves then, and what taking and deleting snapshots leave alone.
\<close>

section \<open>Where workspaces are\<close>

text \<open>A workspace is \<open>envs/<id>/live\<close>, or a worktree two levels below \<open>worktrees/\<close>.\<close>

definition ws_path :: "path \<Rightarrow> string \<Rightarrow> path \<Rightarrow> bool" where
  "ws_path r i p \<longleftrightarrow> p = livePath r i \<or> (\<exists>a b. p = r @ [''worktrees'', a, b])"

lemma ws_path_parallel:
  assumes "ws_path r i p"
  shows "p \<parallel> snapPath r j x" "snapPath r j x \<parallel> p" "p \<parallel> restorePath r j" "restorePath r j \<parallel> p"
    "p \<parallel> adoptPath r j" "adoptPath r j \<parallel> p" "p \<parallel> markerPath r j" "markerPath r j \<parallel> p"
    "p \<parallel> claudePath r j" "p \<parallel> snapsDir r j"
  using assms by (auto simp: ws_path_def path_simps)

lemma snapPath_parallel:
  "x \<noteq> y \<Longrightarrow> snapPath r i x \<parallel> snapPath r i y"
  "snapPath r i x \<parallel> restorePath r j" "restorePath r j \<parallel> snapPath r i x"
  "snapPath r i x \<parallel> adoptPath r j" "snapPath r i x \<parallel> markerPath r j"
  "snapPath r i x \<parallel> claudePath r j"
  "i \<noteq> j \<Longrightarrow> snapPath r i x \<parallel> envDir r j"
  by (auto simp: path_simps)

lemma pool_path_nonempty [simp]:
  "snapPath r i x \<noteq> []" "restorePath r i \<noteq> []" "livePath r i \<noteq> []" "adoptPath r i \<noteq> []"
  "markerPath r i \<noteq> []" "envDir r i \<noteq> []" "snapsDir r i \<noteq> []" "claudePath r i \<noteq> []"
  by (simp_all add: pool_paths)

lemma ws_path_nonempty: "ws_path r i p \<Longrightarrow> p \<noteq> []"
  by (auto simp: ws_path_def pool_paths)

section \<open>Settings\<close>

text \<open>No operation changes the pool's root or the world.\<close>

definition settings :: "path \<Rightarrow> world \<Rightarrow> store \<Rightarrow> bool" where
  "settings r w s \<longleftrightarrow> root s = r \<and> wld s = w"

lemma settings_simps [simp]:
  "settings r w (tick s) = settings r w s" "settings r w (s\<lparr>disk := d\<rparr>) = settings r w s"
  "settings r w (s\<lparr>db := x\<rparr>) = settings r w s"
  by (simp_all add: settings_def)

lemma keeps_gets_root:
  assumes "\<And>s. I s \<Longrightarrow> root s = r" "keeps I (f r)"
  shows "keeps I (bind_s (gets root) f)"
  using assms by (auto simp: keeps_def bind_s_def gets_def)

section \<open>Deleting a snapshot\<close>

lemma keeps_DeleteSnapshot:
  assumes "tick_inv I" "\<And>s. I s \<Longrightarrow> root s = r" "removal_inv (snapPath r i x) I"
    and "\<And>s. I s \<Longrightarrow> I (s\<lparr>db := q_DeleteSnapshot i x (db s)\<rparr>)"
  shows "keeps I (DeleteSnapshot i x)"
  unfolding DeleteSnapshot_def
  by (intro keeps_rules keeps_gets_root [of I r] keeps_deleteSubvolumes assms(1,2)) (use assms in auto)

section \<open>Restore\<close>

text \<open>
  What a restore of environment \<open>i\<close> to snapshot \<open>x\<close> starts from: the environment's row names a
  workspace that is a subvolume \<open>w\<close>, the snapshot is on disk as \<open>sn\<close>, and no snapshot has the name
  of a moment the clock shows during the restore (the names go to the nanosecond).
\<close>

definition restore_ready :: "store \<Rightarrow> string \<Rightarrow> string \<Rightarrow> env_row \<Rightarrow> node \<Rightarrow> node \<Rightarrow> bool" where
  "restore_ready s i x e w sn \<longleftrightarrow>
     q_Env i (db s) = Some e \<and> ws_path (root s) i (eWorkspace e) \<and>
     lookup (disk s) (eWorkspace e) = Some w \<and> isSubvolume w \<and>
     lookup (disk s) (snapPath (root s) i x) = Some sn \<and>
     (\<forall>n. lookup (disk s) (snapPath (root s) i (preRestoreName (times (wld s) n))) = None)"

text \<open>The replaced workspace \<open>w\<close> is kept as a pre-restore snapshot.\<close>

definition kept_before :: "path \<Rightarrow> string \<Rightarrow> node \<Rightarrow> node \<Rightarrow> bool" where
  "kept_before r i w d \<longleftrightarrow>
     (\<exists>y. prefix preRestorePrefix y \<and> lookup d (snapPath r i y) = Some (snapshot_of True w))"

text \<open>The workspace is the old tree, or the new one and the old is kept.\<close>

definition old_or_new :: "path \<Rightarrow> string \<Rightarrow> path \<Rightarrow> node \<Rightarrow> node \<Rightarrow> node \<Rightarrow> bool" where
  "old_or_new r i W w sn d \<longleftrightarrow>
     lookup d W = Some w \<or>
     lookup d W = Some (snapshot_of False sn) \<and> kept_before r i w d"

definition restoring :: "path \<Rightarrow> world \<Rightarrow> string \<Rightarrow> string \<Rightarrow> path \<Rightarrow> node \<Rightarrow> node \<Rightarrow> store \<Rightarrow> bool" where
  "restoring r wd i x W w sn s \<longleftrightarrow>
     settings r wd s \<and> lookup (disk s) W = Some w \<and> lookup (disk s) (snapPath r i x) = Some sn \<and>
     (\<forall>n. lookup (disk s) (snapPath r i (preRestoreName (times wd n))) = None)"

lemma restoring_simps [simp]:
  "restoring r wd i x W w sn (tick s) = restoring r wd i x W w sn s"
  "restoring r wd i x W w sn (s\<lparr>db := y\<rparr>) = restoring r wd i x W w sn s"
  by (simp_all add: restoring_def)

lemma tick_inv_restoring: "tick_inv (restoring r wd i x W w sn)"
  by (simp add: tick_inv_def)

lemma restoring_root: "restoring r wd i x W w sn s \<Longrightarrow> root s = r"
  by (simp add: restoring_def settings_def)

lemma restoring_old: "restoring r wd i x W w sn s \<Longrightarrow> old_or_new r i W w sn (disk s)"
  by (simp add: restoring_def old_or_new_def)

lemma restoring_removal:
  assumes "p \<parallel> W" "p \<parallel> snapPath r i x"
  shows "removal_inv p (restoring r wd i x W w sn)"
  using assms by (simp add: removal_inv_def restoring_def lookup_upd_parallel lookup_upd_None_mono)

lemma prunePreRestores_restoring:
  assumes "ws_path r i W" "restoring r wd i x W w sn s"
  shows "wp (prunePreRestores i x) (\<lambda>_. restoring r wd i x W w sn) (\<lambda>_. restoring r wd i x W w sn) s"
proof -
  let ?J = "restoring r wd i x W w sn"
  have del: "keeps ?J (DeleteSnapshot i y)" if "y \<noteq> x" for y
    using that ws_path_parallel [OF assms(1)] snapPath_parallel(1) [of y x r i]
    by (intro keeps_DeleteSnapshot tick_inv_restoring restoring_removal) (auto intro: restoring_root)
  have "keeps ?J (for_each (DeleteSnapshot i) (q_SnapshotsBefore i preRestorePrefix x c d))" for c d
    by (intro keeps_for_each del) (auto simp: set_q_SnapshotsBefore)
  then show ?thesis
    using assms(2) by (auto simp: prunePreRestores_def wp_rules keeps_wp split: option.split)
qed

lemma fs_snapshot_Inr:
  assumes "fs_snapshot src p b d = Inr d'"
  shows "\<exists>n. lookup d src = Some n \<and> isSubvolume n \<and> has_parent d p \<and> lookup d p = None \<and>
    d' = upd p (Some (snapshot_of b n)) d"
  using assms by (auto simp: fs_snapshot_def fs_new_subvol_def stat_at_Inr split: sum.splits if_splits)

lemma fs_exchange_Inr:
  assumes "fs_exchange p q d = Inr d'"
  shows "\<exists>m n. lookup d p = Some m \<and> lookup d q = Some n \<and> p \<parallel> q \<and>
    d' = upd p (Some n) (upd q (Some m) d)"
  using assms by (auto simp: fs_exchange_def stat_at_Inr split: sum.splits if_splits)

lemma lookup_exchange:
  assumes "fs_exchange p q d = Inr d'" "p \<noteq> []" "q \<noteq> []"
  shows "lookup d' p = lookup d q" "lookup d' q = lookup d p"
    "\<And>z. p \<parallel> z \<Longrightarrow> q \<parallel> z \<Longrightarrow> lookup d' z = lookup d z"
proof -
  from fs_exchange_Inr [OF assms(1)] obtain m n where mn: "lookup d p = Some m" "lookup d q = Some n"
    and par: "p \<parallel> q" and d': "d' = upd p (Some n) (upd q (Some m) d)" by blast
  have hq: "has_parent d q" and hp: "has_parent d p"
    using mn assms(2,3) lookup_some_parent by blast+
  have "\<not> prefix q (butlast p)"
  proof
    assume "prefix q (butlast p)"
    then have "prefix q p" by (metis append_butlast_last_id assms(2) prefix_append prefix_order.dual_order.trans prefixI)
    with par show False by (simp add: parallel_def)
  qed
  with hp have hp': "has_parent (upd q (Some m) d) p" by (intro has_parent_upd assms(3))
  show "lookup d' p = lookup d q" using hp' mn by (simp add: d' lookup_upd_eq)
  show "lookup d' q = lookup d p" using par hq mn by (simp add: d' lookup_upd_parallel lookup_upd_eq)
  show "\<And>z. p \<parallel> z \<Longrightarrow> q \<parallel> z \<Longrightarrow> lookup d' z = lookup d z" by (simp add: d' lookup_upd_parallel)
qed

text \<open>The copy beside the workspace.\<close>

lemma copy_restoring:
  assumes "ws_path r i W" "restoring r wd i x W w sn s"
  shows "wp (snapshotSubvolume (snapPath r i x) (restorePath r i) False)
     (\<lambda>_ t. restoring r wd i x W w sn t \<and> lookup (disk t) (restorePath r i) = Some (snapshot_of False sn))
     (\<lambda>_. restoring r wd i x W w sn) s"
  using assms ws_path_parallel [OF assms(1)]
  by (auto simp: snapshotSubvolume_def wp_rules restoring_def lookup_upd_eq lookup_upd_parallel
      snapPath_parallel dest!: fs_snapshot_Inr split: option.split sum.split)

text \<open>Taking the pre-restore snapshot.\<close>

lemma keep_restoring:
  assumes "ws_path r i W" "restoring r wd i x W w sn s"
    and "lookup (disk s) (restorePath r i) = Some (snapshot_of False sn)"
    and "ID env = i" "Workspace env = W" "y = preRestoreName (times wd n)"
  shows "wp (snapshot env y)
     (\<lambda>_ t. lookup (disk t) W = Some w \<and> lookup (disk t) (restorePath r i) = Some (snapshot_of False sn) \<and>
        lookup (disk t) (snapPath r i y) = Some (snapshot_of True w) \<and> q_HasSnapshot i y (db t))
     (\<lambda>_ t. lookup (disk t) W = Some w) s"
proof -
  have fresh: "\<And>m. stat_at (disk s) (snapPath r i y) \<noteq> Inr m"
    using assms by (simp add: restoring_def stat_at_Inr)
  show ?thesis
    using assms fresh ws_path_parallel [OF assms(1)]
    by (auto simp: snapshot_def lstat_def snapshotSubvolume_def wp_rules restoring_def settings_def
        lookup_upd_eq lookup_upd_parallel snapPath_parallel index_laws
        dest!: fs_snapshot_Inr split: option.split sum.split errno.split)
qed

text \<open>The swap, and the removal of what it leaves beside the workspace.\<close>

definition restored :: "path \<Rightarrow> string \<Rightarrow> path \<Rightarrow> node \<Rightarrow> node \<Rightarrow> string \<Rightarrow> store \<Rightarrow> bool" where
  "restored r i W w sn y s \<longleftrightarrow>
     lookup (disk s) W = Some (snapshot_of False sn) \<and>
     lookup (disk s) (snapPath r i y) = Some (snapshot_of True w) \<and> q_HasSnapshot i y (db s)"

lemma tick_inv_restored: "tick_inv (restored r i W w sn y)"
  by (simp add: tick_inv_def restored_def)

lemma swap_restored:
  assumes "ws_path r i W" "lookup (disk s) W = Some w"
    and "lookup (disk s) (restorePath r i) = Some (snapshot_of False sn)"
    and "lookup (disk s) (snapPath r i y) = Some (snapshot_of True w)" "q_HasSnapshot i y (db s)"
  shows "wp (rename_exchange (restorePath r i) W)
     (\<lambda>_. restored r i W w sn y) (\<lambda>_ t. lookup (disk t) W = Some w) s"
  using assms ws_path_parallel [OF assms(1)] snapPath_parallel
    lookup_exchange [of "restorePath r i" W "disk s"] ws_path_nonempty [OF assms(1)]
  by (auto simp: rename_exchange_def wp_rules restored_def split: option.split sum.split)

lemma restored_safe:
  "restored r i W w sn y s \<Longrightarrow> prefix preRestorePrefix y \<Longrightarrow> old_or_new r i W w sn (disk s)"
  by (auto simp: restored_def old_or_new_def kept_before_def)

lemma cleanup_restored:
  assumes "ws_path r i W"
  shows "keeps (restored r i W w sn y) (deleteSubvolumes [restorePath r i])"
  using ws_path_parallel [OF assms] snapPath_parallel
  by (intro keeps_deleteSubvolumes tick_inv_restored)
    (auto simp: removal_inv_def restored_def lookup_upd_parallel)

text \<open>\<open>restore\<close> from each of its steps on.\<close>

abbreviation (input) restore_clean :: "path \<Rightarrow> string \<Rightarrow> unit st" where
  "restore_clean r i \<equiv>
     bind_s (step ''restore: swapped'') (\<lambda>_. deleteSubvolumes [restorePath r i])"

abbreviation (input) restore_swap :: "path \<Rightarrow> string \<Rightarrow> path \<Rightarrow> unit st" where
  "restore_swap r i W \<equiv> bind_s (rename_exchange (restorePath r i) W) (\<lambda>_. restore_clean r i)"

abbreviation (input) restore_keep :: "path \<Rightarrow> Env \<Rightarrow> unit st" where
  "restore_keep r env \<equiv>
     bind_s time_now (\<lambda>u. bind_s (snapshot env (preRestoreName u)) (\<lambda>_.
     bind_s (step ''restore: kept'') (\<lambda>_. restore_swap r (ID env) (Workspace env))))"

abbreviation (input) restore_copy :: "path \<Rightarrow> Env \<Rightarrow> string \<Rightarrow> unit st" where
  "restore_copy r env x \<equiv>
     bind_s (snapshotSubvolume (snapPath r (ID env) x) (restorePath r (ID env)) False) (\<lambda>_.
     bind_s (step ''restore: copied'') (\<lambda>_. restore_keep r env))"

abbreviation (input) was_restored :: "path \<Rightarrow> string \<Rightarrow> path \<Rightarrow> node \<Rightarrow> node \<Rightarrow> unit \<Rightarrow> store \<Rightarrow> bool" where
  "was_restored r i W w sn \<equiv> \<lambda>_ t. \<exists>y. prefix preRestorePrefix y \<and> restored r i W w sn y t"

abbreviation (input) stopped_safe :: "path \<Rightarrow> string \<Rightarrow> path \<Rightarrow> node \<Rightarrow> node \<Rightarrow> store_error \<Rightarrow> store \<Rightarrow> bool" where
  "stopped_safe r i W w sn \<equiv> \<lambda>_ t. old_or_new r i W w sn (disk t)"

lemma old_is_safe: "lookup (disk t) W = Some w \<Longrightarrow> old_or_new r i W w sn (disk t)"
  by (simp add: old_or_new_def)

lemma restore_clean_outcome:
  assumes "ws_path r i W" "restored r i W w sn y t" "prefix preRestorePrefix y"
  shows "wp (restore_clean r i) (was_restored r i W w sn) (stopped_safe r i W w sn) t"
  using keeps_wpI [OF cleanup_restored [OF assms(1)] assms(2)] assms
  by (auto simp: wp_rules restored_safe elim!: wp_mono)

lemma restore_swap_outcome:
  assumes "ws_path r i W" "lookup (disk t) W = Some w"
    and "lookup (disk t) (restorePath r i) = Some (snapshot_of False sn)"
    and "lookup (disk t) (snapPath r i y) = Some (snapshot_of True w)" "q_HasSnapshot i y (db t)"
    and "prefix preRestorePrefix y"
  shows "wp (restore_swap r i W) (was_restored r i W w sn) (stopped_safe r i W w sn) t"
  unfolding wp_bind [of "rename_exchange _ _"]
  by (rule wp_mono [OF swap_restored [OF assms(1-5)]])
    (use restore_clean_outcome [OF assms(1) _ assms(6)] old_is_safe in auto)

lemma restore_keep_outcome:
  assumes "ws_path r i W" "restoring r wd i x W w sn t"
    and "lookup (disk t) (restorePath r i) = Some (snapshot_of False sn)"
    and "ID env = i" "Workspace env = W"
  shows "wp (restore_keep r env) (was_restored r i W w sn) (stopped_safe r i W w sn) t"
proof -
  let ?y = "preRestoreName (times wd (calls t))"
  have y: "prefix preRestorePrefix ?y" by (simp add: preRestoreName_def)
  have w: "wld t = wd" using assms(2) by (simp add: restoring_def settings_def)
  have "wp (snapshot env ?y) (\<lambda>_. wp (bind_s (step ''restore: kept'') (\<lambda>_. restore_swap r i W))
      (was_restored r i W w sn) (stopped_safe r i W w sn)) (stopped_safe r i W w sn) (tick t)"
    unfolding wp_bind [of "step ''restore: kept''"] wp_step
    by (rule wp_mono [OF keep_restoring [OF assms(1), of wd x w sn "tick t" env ?y "calls t"]])
      (use assms restore_swap_outcome [OF assms(1) _ _ _ _ y] old_is_safe in auto)
  then show ?thesis
    by (simp add: wp_bind [of time_now] wp_bind [of "snapshot env _"] wp_time_now w assms(4,5))
qed

lemma restore_copy_outcome:
  assumes "ws_path r i W" "restoring r wd i x W w sn t" "ID env = i" "Workspace env = W"
  shows "wp (restore_copy r env x) (was_restored r i W w sn) (stopped_safe r i W w sn) t"
  unfolding wp_bind [of "snapshotSubvolume _ _ _"] wp_bind [of "step ''restore: copied''"] wp_step assms(3)
  by (rule wp_mono [OF copy_restoring [OF assms(1,2)]])
    (use restore_keep_outcome [OF assms(1) _ _ assms(3,4)] restoring_old assms(3) in auto)

lemma restore_outcome:
  assumes "ws_path r i W" "restoring r wd i x W w sn s" "ID env = i" "Workspace env = W"
  shows "wp (restore env x) (was_restored r i W w sn) (stopped_safe r i W w sn) s"
proof -
  let ?J = "restoring r wd i x W w sn"
  have clear: "wp (deleteSubvolumes [restorePath r i]) (\<lambda>_. ?J) (\<lambda>_. ?J) t" if "?J t" for t
    using ws_path_parallel [OF assms(1)] snapPath_parallel that
    by (intro keeps_wpI keeps_deleteSubvolumes tick_inv_restoring restoring_removal) auto
  have rest: "wp (deleteSubvolumes [restorePath r i]) (\<lambda>_. wp (restore_copy r env x)
      (was_restored r i W w sn) (stopped_safe r i W w sn)) (stopped_safe r i W w sn) t"
    if "?J t" for t
    by (rule wp_mono [OF clear [OF that]])
      (use restore_copy_outcome [OF assms(1) _ assms(3,4)] restoring_old in auto)
  show ?thesis
    unfolding restore_def wp_bind [of "prunePreRestores _ _"] assms(3)
  proof (rule wp_mono [OF prunePreRestores_restoring [OF assms(1,2)]])
    fix t assume t: "?J t"
    then have r: "root t = r" by (rule restoring_root)
    show "wp (bind_s (gets root) (\<lambda>r. bind_s (deleteSubvolumes [restorePath r i]) (\<lambda>_.
      bind_s (snapshotSubvolume (snapPath r i x) (restorePath r i) False) (\<lambda>_.
      bind_s (step ''restore: copied'') (\<lambda>_.
      bind_s time_now (\<lambda>u. bind_s (snapshot env (preRestoreName u)) (\<lambda>_.
      bind_s (step ''restore: kept'') (\<lambda>_. restore_swap r i (Workspace env)))))))))
      (was_restored r i W w sn) (stopped_safe r i W w sn) t"
      unfolding wp_bind [of "gets _"] wp_gets r wp_bind [of "deleteSubvolumes _"]
      using rest [OF t] by (simp add: assms(3))
  qed (rule restoring_old)
qed

lemma Restore_wp:
  assumes "restore_ready s i x e w sn"
  shows "wp (Restore i x)
     (\<lambda>_ t. \<exists>y. prefix preRestorePrefix y \<and> restored (root s) i (eWorkspace e) w sn y t)
     (\<lambda>_ t. old_or_new (root s) i (eWorkspace e) w sn (disk t)) s"
proof -
  let ?W = "eWorkspace e"
  have ready: "restoring (root s) (wld s) i x ?W w sn (s\<lparr>calls := n\<rparr>)" for n
    using assms by (simp add: restore_ready_def restoring_def settings_def)
  have tick2: "tick (tick s) = s\<lparr>calls := Suc (Suc (calls s))\<rparr>" by (simp add: tick_def)
  have ws: "ws_path (root s) i ?W" and e: "q_Env i (db s) = Some e" "eID e = i"
    using assms by (auto simp: restore_ready_def dest: q_Env_eID)
  have old: "old_or_new (root s) i ?W w sn (disk s)"
    using assms by (simp add: restore_ready_def old_or_new_def)
  have "wp (restore (env_of (root s) e) x)
     (\<lambda>_ t. \<exists>y. prefix preRestorePrefix y \<and> restored (root s) i ?W w sn y t)
     (\<lambda>_ t. old_or_new (root s) i ?W w sn (disk t)) (tick (tick s))"
    unfolding tick2 by (rule restore_outcome [OF ws ready]) (simp_all add: env_of_def e)
  then show ?thesis
    using old e by (auto simp: Restore_def wp_rules snapshotPath_def HasSnapshot_def split: option.split)
qed

text \<open>
  C1. A restore is crash-safe. Whatever call fails, and wherever it stops, the workspace is the
  old tree, or it is a writable copy of the snapshot and the old tree is kept as a pre-restore
  snapshot. When \<open>Restore\<close> returns no error, the workspace is the copy, and the pre-restore
  snapshot is on disk and in the index.
\<close>

theorem Restore_crash_safe:
  assumes "restore_ready s i x e w sn" "Restore i x s = (res, t)"
  shows "old_or_new (root s) i (eWorkspace e) w sn (disk t) \<and>
    (res = Inr () \<longrightarrow>
      lookup (disk t) (eWorkspace e) = Some (snapshot_of False sn) \<and>
      (\<exists>y. prefix preRestorePrefix y \<and> q_HasSnapshot i y (db t) \<and>
           lookup (disk t) (snapPath (root s) i y) = Some (snapshot_of True w)))"
proof (cases res)
  case (Inl err)
  then show ?thesis using wp_InlD [OF Restore_wp [OF assms(1)]] assms(2) by simp
next
  case (Inr u)
  then show ?thesis
    using wp_InrD [OF Restore_wp [OF assms(1)]] assms(2) restored_safe
    by (fastforce simp: restored_def)
qed

lemma sample_restore_ready: "restore_ready sample_store ''dev'' ''turn-1'' sample_row sample_live sample_snap"
  by (simp add: restore_ready_def ws_path_def sample_defs pool_paths q_Env_def isSubvolume_def
      preRestoreName_def preRestorePrefix_def)

theorem Restore_crash_safe_witness:
  "restore_ready sample_store ''dev'' ''turn-1'' sample_row sample_live sample_snap \<and>
   old_or_new [''pool''] ''dev'' [''pool'', ''envs'', ''dev'', ''live''] sample_live sample_snap
     (disk (snd (Restore ''dev'' ''turn-1'' sample_store)))"
  using Restore_crash_safe [OF sample_restore_ready, of _ "snd (Restore ''dev'' ''turn-1'' sample_store)"]
    sample_restore_ready
  by (auto simp: sample_store_def [THEN arg_cong, of root] sample_row_def [THEN arg_cong, of eWorkspace]
      prod_eq_iff)

end
