(* ===== verification/CreateFrame.thy ===== *)
theory CreateFrame
  imports StoreRecover SnapshotSafety
begin

text \<open>
  What the operations that make a workspace write: preservation rules for \<open>golden.go\<close> and
  \<open>create.go\<close>, stated for properties that survive writes at or below the places they write to.
\<close>

section \<open>Properties that survive writes at a place\<close>

definition write_inv :: "path \<Rightarrow> (store \<Rightarrow> bool) \<Rightarrow> bool" where
  "write_inv p I \<longleftrightarrow> (\<forall>s v. I s \<longrightarrow> I (s\<lparr>disk := upd p v (disk s)\<rparr>))"

text \<open>Making missing directories.\<close>

definition mkdir_inv :: "(store \<Rightarrow> bool) \<Rightarrow> bool" where
  "mkdir_inv I \<longleftrightarrow> (\<forall>s m q d. I s \<longrightarrow> fs_mkdir m q (disk s) = Inr d \<longrightarrow> I (s\<lparr>disk := d\<rparr>))"

lemma write_inv_removal: "write_inv p I \<Longrightarrow> removal_inv p I"
  by (simp add: write_inv_def removal_inv_def)

lemma keeps_write_at:
  assumes "tick_inv I" "writes_at p f" "write_inv p I"
  shows "keeps I (sys_write f)"
proof (rule keeps_sys_write [OF assms(1)])
  fix s d assume "I s" "f (disk s) = Inr d"
  with assms(2) consider "d = disk s" | v where "d = upd p v (disk s)" by (auto simp: writes_at_def)
  then show "I (s\<lparr>disk := d\<rparr>)" using assms(3) \<open>I s\<close> by cases (auto simp: write_inv_def)
qed

lemma keeps_removeAll_at:
  assumes "tick_inv I" "\<And>q. write_inv (p @ q) I"
  shows "keeps I (removeAll p)"
  unfolding removeAll_def using assms by (intro keeps_rules) (auto simp: write_inv_def)

lemma keeps_exchange:
  assumes "tick_inv I" "write_inv p I" "write_inv q I"
  shows "keeps I (rename_exchange p q)"
  unfolding rename_exchange_def
proof (intro keeps_ok keeps_sys_write [OF assms(1)])
  fix s d assume "I s" "fs_exchange p q (disk s) = Inr d"
  then obtain m n where d: "d = upd p (Some n) (upd q (Some m) (disk s))" by (blast dest: fs_exchange_Inr)
  have "I (s\<lparr>disk := upd q (Some m) (disk s)\<rparr>)" using assms(3) \<open>I s\<close> by (simp add: write_inv_def)
  with assms(2) have "I (s\<lparr>disk := upd q (Some m) (disk s), disk := upd p (Some n) (upd q (Some m) (disk s))\<rparr>)"
    unfolding write_inv_def by fastforce
  then show "I (s\<lparr>disk := d\<rparr>)" by (simp add: d)
qed

lemma keeps_mkdirAll: "tick_inv I \<Longrightarrow> mkdir_inv I \<Longrightarrow> keeps I (mkdirAll m p)"
  unfolding mkdirAll_def by (intro keeps_rules) (auto simp: mkdir_inv_def)

lemma writes_at_mkdir_new: "writes_at p (fs_mkdir_new m p)"
  by (auto simp: writes_at_def fs_mkdir_new_def split: sum.splits if_splits)

lemma writes_at_create_new: "writes_at p (fs_create_new n p)"
  by (auto simp: writes_at_def fs_create_new_def split: sum.splits if_splits)

lemma writes_at_clone: "writes_at p (fs_clone c p)"
  by (auto simp: writes_at_def fs_clone_def split: sum.splits node.splits)

lemmas writes_rules = writes_at_rules writes_at_mkdir_new writes_at_create_new writes_at_clone

lemma keeps_chown: "tick_inv I \<Longrightarrow> write_inv p I \<Longrightarrow> keeps I (chown p u g)"
  unfolding chown_def by (intro keeps_ok keeps_write_at [where p = p] writes_rules)

lemma keeps_chmod: "tick_inv I \<Longrightarrow> write_inv p I \<Longrightarrow> keeps I (chmod p m)"
  unfolding chmod_def by (intro keeps_ok keeps_write_at [where p = p] writes_rules)

lemma keeps_createSubvolume: "tick_inv I \<Longrightarrow> write_inv p I \<Longrightarrow> keeps I (createSubvolume p)"
  unfolding createSubvolume_def by (intro keeps_ok keeps_write_at [where p = p] writes_rules)

lemma keeps_snapshotSubvolume: "tick_inv I \<Longrightarrow> write_inv p I \<Longrightarrow> keeps I (snapshotSubvolume src p b)"
  unfolding snapshotSubvolume_def by (intro keeps_ok keeps_write_at [where p = p] writes_rules)

lemma keeps_snapshotPath [keeps_rules]: "tick_inv I \<Longrightarrow> keeps I (snapshotPath ref)"
  unfolding snapshotPath_def HasSnapshot_def by (intro keeps_rules)

section \<open>Overlay and adopt\<close>

lemma keeps_case_node [keeps_rules]:
  assumes "\<And>a c. keeps I (f1 a c)" "\<And>a l. keeps I (f2 a l)" "\<And>a. keeps I (f3 a)" "\<And>a k es. keeps I (f4 a k es)"
  shows "keeps I (case n of File a c \<Rightarrow> f1 a c | Symlink a l \<Rightarrow> f2 a l | Special a \<Rightarrow> f3 a | Dir a k es \<Rightarrow> f4 a k es)"
  using assms by (cases n) simp_all

lemma keeps_setAttrs: "tick_inv I \<Longrightarrow> write_inv p I \<Longrightarrow> keeps I (setAttrs p n)"
  unfolding setAttrs_def by (intro keeps_rules keeps_chown keeps_chmod keeps_write_at [of I p] writes_rules)

lemma keeps_overlay:
  assumes "tick_inv I" "\<And>q. q \<noteq> [] \<Longrightarrow> write_inv (dst @ q) I"
  shows "keeps I (overlay dst src)"
proof -
  have below: "\<And>z. write_inv ((dst @ q) @ z) I" if "q \<noteq> []" for q using assms(2) that by simp
  have "keeps I (overlay_one dst src (q, m))" for q m
  proof (cases "q = []")
    case False
    note b = below [OF False] and w = assms(2) [OF False]
    show ?thesis
      unfolding overlay_one_def overlay_dir_def cloneFile_def prod.case
      by (intro keeps_rules keeps_setAttrs keeps_removeAll_at assms(1) w b keeps_write_at [of I "dst @ q"] writes_rules)
  qed (simp add: overlay_one_def keeps_ret)
  then show ?thesis
    unfolding overlay_def using assms(1) by (intro keeps_rules) (auto intro: keeps_rules)
qed

lemma keeps_cp_tree:
  assumes "tick_inv I" "\<And>q. q \<noteq> [] \<Longrightarrow> write_inv (dst @ q) I" "\<And>f. keeps I (sys_write (fs_set_attr f dst))"
  shows "keeps I (cp_tree src dst)"
proof -
  have "keeps I (cp_one dst (q, n))" for q n
    unfolding cp_one_def prod.case
    by (intro keeps_if keeps_ok assms(3) keeps_write_at [of I "dst @ q"] assms(1,2) writes_rules)
  then show ?thesis unfolding cp_tree_def using assms(1) by (intro keeps_rules) auto
qed

lemma keeps_adopt:
  assumes "tick_inv I" "\<And>s. I s \<Longrightarrow> root s = r" "\<And>q. write_inv (adoptPath r i @ q) I" "write_inv W I"
  shows "keeps I (adopt i W from)"
proof -
  have w: "write_inv (adoptPath r i) I" using assms(3) [of "[]"] by simp
  show ?thesis
    unfolding adopt_def Let_def
    by (intro keeps_gets_root [of I r] keeps_rules keeps_snapshotSubvolume keeps_createSubvolume keeps_overlay keeps_chmod
        keeps_cp_tree keeps_exchange keeps_removeAll_at keeps_write_at [of I "adoptPath r i"] writes_rules assms w)
qed

lemma keeps_makeWorkspace:
  assumes "tick_inv I" "\<And>s. I s \<Longrightarrow> root s = r" "\<And>q. write_inv (adoptPath r i @ q) I" "write_inv W I"
    and "mkdir_inv I" "W \<noteq> livePath r i \<Longrightarrow> write_inv (butlast W) I"
  shows "keeps I (makeWorkspace i W from)"
  unfolding makeWorkspace_def
  by (intro keeps_case_sum keeps_case_errno keeps_bind [OF keeps_lstat] keeps_gets_root [of I r] keeps_if
      keeps_bind keeps_ret keeps_raise keeps_mkdirAll keeps_chown keeps_createSubvolume keeps_adopt [of I r] assms)

lemma keeps_forkWorkspace:
  assumes "tick_inv I" "write_inv W I"
  shows "keeps I (forkWorkspace src W)"
  unfolding forkWorkspace_def by (intro keeps_rules keeps_snapshotSubvolume keeps_chown assms)

lemma keeps_untar:
  assumes "tick_inv I" "\<And>q. q \<noteq> [] \<Longrightarrow> write_inv (W @ q) I"
  shows "keeps I (untar W ms)"
  unfolding untar_def
proof (intro keeps_for_each)
  fix m assume "m \<in> set ms"
  obtain rel n where m: "m = (rel, n)" by (cases m)
  show "keeps I (case m of (rel, n) \<Rightarrow> ok (sys_write (\<lambda>d. if rel = [] \<or> \<not> has_parent d (W @ rel) then Inl ENOENT
      else Inr (upd (W @ rel) (Some n) d))))"
    unfolding m prod.case using assms by (intro keeps_ok keeps_sys_write) (auto simp: write_inv_def split: if_splits)
qed

lemma keeps_syncfs: "tick_inv I \<Longrightarrow> keeps I (syncfs p)"
  unfolding syncfs_def by (intro keeps_rules)

end
