(* ===== verification/SnapshotLaws.thy ===== *)
theory SnapshotLaws
  imports SnapshotSafety
begin

text \<open>
  What taking, deleting and pruning snapshots do, on every outcome, and the bound on the free
  space a new snapshot may leave.
\<close>

section \<open>Taking a snapshot\<close>

text \<open>Everything but the snapshot's own place and row is as it was.\<close>

definition only_snapshot :: "string \<Rightarrow> string \<Rightarrow> store \<Rightarrow> store \<Rightarrow> bool" where
  "only_snapshot i x s t \<longleftrightarrow>
     (\<forall>q. snapPath (root s) i x \<parallel> q \<longrightarrow> lookup (disk t) q = lookup (disk s) q) \<and>
     environments (db t) = environments (db s) \<and>
     (\<forall>j y. (j, y) \<noteq> (i, x) \<longrightarrow> q_HasSnapshot j y (db t) = q_HasSnapshot j y (db s)) \<and>
     settings (root s) (wld s) t"

lemma only_snapshot_simps [simp]:
  "only_snapshot i x s (tick t) = only_snapshot i x s t"
  by (simp add: only_snapshot_def)

lemma only_snapshot_refl [simp]: "only_snapshot i x s s"
  by (simp add: only_snapshot_def settings_def)

lemma only_snapshot_upd:
  assumes "only_snapshot i x s t"
  shows "only_snapshot i x s (t\<lparr>disk := upd (snapPath (root s) i x) v (disk t)\<rparr>)"
  using assms by (auto simp: only_snapshot_def lookup_upd_parallel)

lemma only_snapshot_rows:
  assumes "only_snapshot i x s t"
  shows "q_KeepSnapshot i x c (db t) = Some y \<Longrightarrow> only_snapshot i x s (t\<lparr>db := y\<rparr>)"
    and "q_ReplaceSnapshot i x c (db t) = Some y \<Longrightarrow> only_snapshot i x s (t\<lparr>db := y\<rparr>)"
    and "only_snapshot i x s (t\<lparr>db := q_DeleteSnapshot i x (db t)\<rparr>)"
proof -
  show "q_KeepSnapshot i x c (db t) = Some y \<Longrightarrow> only_snapshot i x s (t\<lparr>db := y\<rparr>)"
    using assms q_HasSnapshot_Keep [of i x c "db t" y]
    by (auto simp: only_snapshot_def q_KeepSnapshot_def split: if_splits)
  show "q_ReplaceSnapshot i x c (db t) = Some y \<Longrightarrow> only_snapshot i x s (t\<lparr>db := y\<rparr>)"
    using assms q_HasSnapshot_Replace [of i x c "db t" y]
    by (auto simp: only_snapshot_def q_ReplaceSnapshot_def split: if_splits)
  show "only_snapshot i x s (t\<lparr>db := q_DeleteSnapshot i x (db t)\<rparr>)"
    using assms by (auto simp: only_snapshot_def q_HasSnapshot_Delete)
      (auto simp: q_DeleteSnapshot_def)
qed

text \<open>The place of the snapshot: kept if it was taken, else still free or the frozen workspace.\<close>

definition frozen_at :: "path \<Rightarrow> node \<Rightarrow> node option \<Rightarrow> node \<Rightarrow> bool" where
  "frozen_at p w old d \<longleftrightarrow>
     (case old of
        Some n \<Rightarrow> lookup d p = Some n
      | None \<Rightarrow> lookup d p = None \<or> lookup d p = Some (snapshot_of True w))"

lemma fs_snapshot_disk:
  "fs_snapshot src p b d = Inr d' \<Longrightarrow> lookup d src = Some w \<Longrightarrow>
   d' = upd p (Some (snapshot_of b w)) d \<and> lookup d' p = Some (snapshot_of b w)"
  using fs_snapshot_Inr [of src p b d d'] by (auto simp: lookup_upd_eq)

abbreviation (input) taken :: "store \<Rightarrow> string \<Rightarrow> string \<Rightarrow> node \<Rightarrow> store \<Rightarrow> bool" where
  "taken s i x w t \<equiv> only_snapshot i x s t \<and>
     frozen_at (snapPath (root s) i x) w (lookup (disk s) (snapPath (root s) i x)) (disk t)"

text \<open>Indexing a snapshot that is on disk.\<close>

lemma index_taken:
  assumes "taken s i x w t" "lookup (disk t) (snapPath (root s) i x) \<noteq> None"
    and "f = q_KeepSnapshot i x c \<or> f = q_ReplaceSnapshot i x c"
  shows "wp (sql_exec f)
     (\<lambda>_ u. taken s i x w u \<and> lookup (disk u) (snapPath (root s) i x) \<noteq> None \<and> q_HasSnapshot i x (db u))
     (\<lambda>_. taken s i x w) t"
proof -
  have "only_snapshot i x s ((tick t)\<lparr>db := y\<rparr>) \<and> q_HasSnapshot i x y" if "f (db t) = Some y" for y
    using assms that only_snapshot_rows(1,2) [of i x s "tick t" c y]
    by (auto simp: index_laws)
  then show ?thesis using assms(1,2) by (auto simp: wp_sql_exec split: option.split)
qed

lemma snapshot_outcome:
  assumes "lookup (disk s) (Workspace env) = Some w" "ID env = i" "only_snapshot i x s0 s"
    and "disk s0 = disk s" "root s0 = root s"
  shows "wp (snapshot env x)
     (\<lambda>_ t. taken s0 i x w t \<and> lookup (disk t) (snapPath (root s0) i x) \<noteq> None \<and> q_HasSnapshot i x (db t))
     (\<lambda>_. taken s0 i x w) s"
proof (cases "lookup (disk s) (snapPath (root s0) i x)")
  case (Some n)
  have ok: "taken s0 i x w (tick s)" "taken s0 i x w (tick (tick s))"
    using assms Some by (simp_all add: frozen_at_def)
  show ?thesis
    using Some assms ok index_taken [OF ok(2)]
    by (auto simp: snapshot_def lstat_def wp_bind wp_gets wp_sys_read wp_case_sum wp_now_unix
        stat_at_lookup wp_case_errno wp_raise split: option.split)
next
  case None
  obtain err where err: "stat_at (disk s) (snapPath (root s0) i x) = Inl err"
    using None stat_at_Inl_iff by blast
  have ok: "taken s0 i x w (tick s)" "taken s0 i x w (tick (tick s))"
    using assms None by (simp_all add: frozen_at_def)
  have new: "taken s0 i x w (tick ((tick (tick s))\<lparr>disk := d\<rparr>)) \<and> taken s0 i x w ((tick (tick s))\<lparr>disk := d\<rparr>) \<and>
      lookup d (snapPath (root s0) i x) \<noteq> None"
    if "fs_snapshot (Workspace env) (snapPath (root s0) i x) True (disk s) = Inr d" for d
    using fs_snapshot_disk [OF that assms(1)] assms(4,5) None only_snapshot_upd [OF assms(3)]
    by (auto simp: frozen_at_def only_snapshot_def settings_def)
  show ?thesis
    using err assms(2,5) ok new
    by (auto simp: snapshot_def lstat_def snapshotSubvolume_def ok_def wp_rules simp del: wp_sql_exec
        intro!: wp_mono [OF index_taken [where s = s0 and w = w]] split: option.split sum.split errno.split)
qed

lemma wp_checkFree:
  "wp checkFree Q E = (\<lambda>s. (case faulty s of
        Some n \<Rightarrow> E (Sys (EFault n)) (tick s)
      | None \<Rightarrow> (if pool_full (minFreeBytes s) (stats (wld s) (calls s)) then E ErrPoolFull (tick s)
                else Q () (tick s))))"
proof -
  have "wp sys_statfs Q' E' = (\<lambda>s. (case faulty s of
        Some n \<Rightarrow> Q' (Inl (EFault n)) (tick s) | None \<Rightarrow> Q' (Inr (stats (wld s) (calls s))) (tick s)))" for Q' E'
    by (rule ext) (simp add: wp_def sys_statfs_def split: option.splits)
  then show ?thesis
    by (intro ext) (simp add: checkFree_def ok_def wp_rules split: option.split)
qed

text \<open>
  C3. Taking a snapshot: nothing else on the disk and no other row changes, whatever fails. A
  snapshot that exists is left as it is; otherwise its place stays free or holds the whole frozen
  workspace. When \<open>Snapshot\<close> succeeds the snapshot is on disk and has a row.
\<close>

theorem Snapshot_outcome:
  assumes "Snapshot i x s = (res, t)" "q_Env i (db s) = Some e" "lookup (disk s) (eWorkspace e) = Some w"
  shows "only_snapshot i x s t \<and>
    frozen_at (snapPath (root s) i x) w (lookup (disk s) (snapPath (root s) i x)) (disk t) \<and>
    (res = Inr () \<longrightarrow> lookup (disk t) (snapPath (root s) i x) \<noteq> None \<and> q_HasSnapshot i x (db t))"
proof -
  let ?P = "snapPath (root s) i x"
  let ?F = "\<lambda>t. only_snapshot i x s t \<and> frozen_at ?P w (lookup (disk s) ?P) (disk t)"
  have id: "eID e = i" using assms(2) by (auto dest: q_Env_eID)
  have same: "?F s" "?F (tick s)" "?F (tick (tick s))" by (simp_all add: frozen_at_def split: option.split)
  have "wp (snapshot (env_of (root s) e) x)
      (\<lambda>_ t. ?F t \<and> lookup (disk t) ?P \<noteq> None \<and> q_HasSnapshot i x (db t)) (\<lambda>_. ?F) (tick (tick s))"
    by (rule snapshot_outcome) (simp_all add: env_of_def assms(3) id)
  then have "wp (Snapshot i x) (\<lambda>_ t. ?F t \<and> lookup (disk t) ?P \<noteq> None \<and> q_HasSnapshot i x (db t)) (\<lambda>_. ?F) s"
    using assms(2) same by (auto simp: Snapshot_def wp_rules wp_checkFree split: option.split)
  then show ?thesis using assms(1) by (cases res) (auto simp: wp_def)
qed

theorem Snapshot_outcome_witness:
  "only_snapshot ''dev'' ''turn-2'' sample_store (snd (Snapshot ''dev'' ''turn-2'' sample_store))"
proof -
  have "q_Env ''dev'' (db sample_store) = Some sample_row"
    "lookup (disk sample_store) (eWorkspace sample_row) = Some sample_live"
    by (simp_all add: sample_defs q_Env_def)
  from Snapshot_outcome [OF _ this, of "''turn-2''" "fst (Snapshot ''dev'' ''turn-2'' sample_store)"]
  show ?thesis by simp
qed

section \<open>Deleting snapshots\<close>

lemma removal_inv_only_snapshot: "removal_inv (snapPath (root s) i x) (only_snapshot i x s)"
  by (auto simp: removal_inv_def intro: only_snapshot_upd)

lemma tick_inv_only_snapshot: "tick_inv (only_snapshot i x s)"
  by (simp add: tick_inv_def)

text \<open>A deleted snapshot's subvolume goes before its row.\<close>

definition row_or_gone :: "path \<Rightarrow> string \<Rightarrow> string \<Rightarrow> store \<Rightarrow> store \<Rightarrow> bool" where
  "row_or_gone p i x s t \<longleftrightarrow> snapshots (db t) = snapshots (db s) \<or> not_subvol p t"

lemma DeleteSnapshot_wp:
  "wp (DeleteSnapshot i x)
     (\<lambda>_ t. only_snapshot i x s t \<and> not_subvol (snapPath (root s) i x) t \<and> db t = q_DeleteSnapshot i x (db s))
     (\<lambda>_ t. only_snapshot i x s t \<and> db t = db s) s"
proof -
  let ?P = "snapPath (root s) i x"
  let ?J = "\<lambda>t. only_snapshot i x s t \<and> db t = db s"
  have "keeps ?J (deleteSubvolumes [?P])"
    by (rule keeps_deleteSubvolumes)
      (auto simp: tick_inv_def removal_inv_def intro: only_snapshot_upd)
  from wp_conj [OF keeps_wpI [OF this] deleteSubvolumes_done]
  have del: "wp (deleteSubvolumes [?P]) (\<lambda>_ t. ?J t \<and> not_subvol ?P t) (\<lambda>_. ?J) (tick s)"
    by (rule wp_mono) auto
  have "wp (deleteSubvolumes [?P])
      (\<lambda>_. wp (bind_s (step ''delete snapshot: removed'') (\<lambda>_. sql_exec (\<lambda>x'. Some (q_DeleteSnapshot i x x'))))
         (\<lambda>_ t. only_snapshot i x s t \<and> not_subvol ?P t \<and> db t = q_DeleteSnapshot i x (db s)) (\<lambda>_. ?J))
      (\<lambda>_. ?J) (tick s)"
  proof (rule wp_mono [OF del])
    fix t assume t: "?J t \<and> not_subvol ?P t"
    then have "only_snapshot i x s ((tick t)\<lparr>db := q_DeleteSnapshot i x (db s)\<rparr>)"
      using only_snapshot_rows(3) [of i x s "tick t"] by simp
    with t show "wp (bind_s (step ''delete snapshot: removed'') (\<lambda>_. sql_exec (\<lambda>x'. Some (q_DeleteSnapshot i x x'))))
         (\<lambda>_ t. only_snapshot i x s t \<and> not_subvol ?P t \<and> db t = q_DeleteSnapshot i x (db s)) (\<lambda>_. ?J) t"
      by (auto simp: wp_rules not_subvol_def split: option.split)
  qed
  then show ?thesis
    by (auto simp: DeleteSnapshot_def wp_bind [of "Get _"] wp_bind [of "gets _"] wp_bind [of "deleteSubvolumes _"]
        wp_Get wp_gets wp_if wp_raise split: option.split)
qed

text \<open>
  C4. Deleting a snapshot: nothing else changes, whatever fails. Its row goes only after its
  subvolume, so a snapshot on disk without a row is never a deleted one; on success both are gone.
\<close>

theorem DeleteSnapshot_outcome:
  assumes "DeleteSnapshot i x s = (res, t)"
  shows "only_snapshot i x s t \<and> row_or_gone (snapPath (root s) i x) i x s t \<and>
    (res = Inr () \<longrightarrow> not_subvol (snapPath (root s) i x) t \<and> \<not> q_HasSnapshot i x (db t))"
  using DeleteSnapshot_wp [of i x s] assms
  by (cases res) (auto simp: wp_def row_or_gone_def q_HasSnapshot_Delete)

theorem DeleteSnapshot_outcome_witness:
  "row_or_gone (snapPath [''pool''] ''dev'' ''turn-1'') ''dev'' ''turn-1'' sample_store
     (snd (DeleteSnapshot ''dev'' ''turn-1'' sample_store))"
  using DeleteSnapshot_outcome [of "''dev''" "''turn-1''" sample_store "fst (DeleteSnapshot ''dev'' ''turn-1'' sample_store)"]
  by (simp add: sample_store_def [THEN arg_cong, of root])

section \<open>Pruning\<close>

definition drop_rows :: "string \<Rightarrow> string set \<Rightarrow> snap_row list \<Rightarrow> snap_row list" where
  "drop_rows i xs = filter (\<lambda>r. \<not> (sEnv r = i \<and> sID r \<in> xs))"

lemma drop_rows_drop: "drop_rows i ys (drop_rows i xs rs) = drop_rows i (xs \<union> ys) rs"
  by (induction rs) (auto simp: drop_rows_def)

definition rows_gone :: "string \<Rightarrow> string set \<Rightarrow> store \<Rightarrow> store \<Rightarrow> bool" where
  "rows_gone i xs s t \<longleftrightarrow>
     environments (db t) = environments (db s) \<and> snapshots (db t) = drop_rows i xs (snapshots (db s)) \<and>
     (\<forall>x\<in>xs. not_subvol (snapPath (root s) i x) t) \<and>
     (\<forall>q. (\<forall>x\<in>xs. snapPath (root s) i x \<parallel> q) \<longrightarrow> lookup (disk t) q = lookup (disk s) q) \<and>
     root t = root s \<and> wld t = wld s \<and> keepTurns t = keepTurns s"

lemma rows_gone_refl: "rows_gone i {} s s"
  by (simp add: rows_gone_def drop_rows_def)

lemma rows_gone_tick: "rows_gone i xs s (tick t) = rows_gone i xs s t"
  by (simp add: rows_gone_def not_subvol_def)

lemma rows_gone_DeleteSnapshot:
  assumes "rows_gone i xs s t"
  shows "wp (DeleteSnapshot i x) (\<lambda>_. rows_gone i (insert x xs) s) (\<lambda>_ _. True) t"
proof -
  let ?I = "\<lambda>u. root u = root s \<and> keepTurns u = keepTurns s \<and> (\<forall>y\<in>xs. not_subvol (snapPath (root s) i y) u)"
  have "removal_inv p (not_subvol q)" for p q by (rule removal_inv_not_subvol)
  then have "removal_inv (snapPath (root s) i x) ?I" by (auto simp: removal_inv_def)
  then have "keeps ?I (DeleteSnapshot i x)"
    by (intro keeps_DeleteSnapshot [where r = "root s"]) (auto simp: tick_inv_def not_subvol_def)
  then have 1: "wp (DeleteSnapshot i x) (\<lambda>_. ?I) (\<lambda>_. ?I) t"
    by (rule keeps_wpI) (use assms in \<open>simp add: rows_gone_def\<close>)
  show ?thesis
    by (rule wp_mono [OF wp_conj [OF 1 DeleteSnapshot_wp]])
      (use assms in \<open>auto simp: rows_gone_def only_snapshot_def settings_def q_DeleteSnapshot_def
         drop_rows_def intro!: filter_cong\<close>)
qed

lemma rows_gone_each:
  "rows_gone i xs s t \<Longrightarrow>
   wp (for_each (DeleteSnapshot i) ys) (\<lambda>_. rows_gone i (xs \<union> set ys) s) (\<lambda>_ _. True) t"
proof (induction ys arbitrary: xs t)
  case Nil
  then show ?case by (simp add: wp_rules)
next
  case (Cons y ys)
  show ?case
    unfolding for_each.simps wp_bind
    by (rule wp_mono [OF rows_gone_DeleteSnapshot [OF Cons.prems]]) (auto dest!: Cons.IH)
qed

lemma Prune_wp:
  "wp (Prune i)
     (\<lambda>_. rows_gone i (set (q_SnapshotsBefore i preRestorePrefix []
           ((times (wld s) (calls s) - preRestoreKeep) div second) (db s)) \<union>
         set (q_SnapshotsBeyond i preRestorePrefix (keepTurns s) (db s))) s)
     (\<lambda>_ _. True) s" (is "wp _ (\<lambda>_. rows_gone i (set ?B \<union> set ?K) s) _ _")
proof -
  have beyond: "q_SnapshotsBeyond i preRestorePrefix k (db t) = q_SnapshotsBeyond i preRestorePrefix k (db s)"
    if "rows_gone i (set ?B) s t" for t k
  proof -
    have "\<forall>x\<in>set ?B. like_prefix preRestorePrefix x" by (auto simp: set_q_SnapshotsBefore)
    then have "filter (\<lambda>r. sEnv r = i \<and> \<not> like_prefix preRestorePrefix (sID r)) (drop_rows i (set ?B) (snapshots (db s)))
      = filter (\<lambda>r. sEnv r = i \<and> \<not> like_prefix preRestorePrefix (sID r)) (snapshots (db s))"
      unfolding drop_rows_def filter_filter by (intro filter_cong) auto
    with that show ?thesis by (simp add: q_SnapshotsBeyond_def rows_gone_def)
  qed
  have tail: "wp (bind_s (gets keepTurns) (\<lambda>k. bind_s (sql_query (q_SnapshotsBeyond i preRestorePrefix k)) (\<lambda>old.
      for_each (DeleteSnapshot i) old))) (\<lambda>_. rows_gone i (set ?B \<union> set ?K) s) (\<lambda>_ _. True) t"
    if "rows_gone i (set ?B) s t" for t
    using that rows_gone_each [of i "set ?B" s "tick t" ?K]
    by (simp add: wp_bind wp_gets wp_sql_query beyond rows_gone_tick rows_gone_def [of i "set ?B" s t] split: option.split)
  have "wp (for_each (DeleteSnapshot i) ?B) (\<lambda>_. wp (bind_s (gets keepTurns) (\<lambda>k.
      bind_s (sql_query (q_SnapshotsBeyond i preRestorePrefix k)) (\<lambda>old.
      for_each (DeleteSnapshot i) old))) (\<lambda>_. rows_gone i (set ?B \<union> set ?K) s) (\<lambda>_ _. True))
      (\<lambda>_ _. True) (tick (tick s))"
    by (rule wp_mono [OF rows_gone_each [of i "{}" s]]) (use tail in \<open>auto simp: rows_gone_tick rows_gone_refl\<close>)
  then show ?thesis
    by (simp add: Prune_def prunePreRestores_def wp_bind wp_time_now wp_sql_query split: option.split)
qed

text \<open>The rows \<open>Prune\<close> counts.\<close>

definition turn_rows :: "string \<Rightarrow> index \<Rightarrow> snap_row list" where
  "turn_rows i y = filter (\<lambda>r. sEnv r = i \<and> \<not> like_prefix preRestorePrefix (sID r)) (snapshots y)"

lemma distinct_turn_rows: "index_ok y \<Longrightarrow> distinct (map sID (turn_rows i y))"
  unfolding turn_rows_def index_ok_def by (auto simp: distinct_map inj_on_def)

lemma keep_first:
  assumes "distinct (map f (A @ B))"
  shows "set (filter (\<lambda>r. f r \<notin> set (map f B)) (A @ B)) = set A"
  using assms by (auto simp: disjoint_iff)

lemma keep_newest:
  fixes L :: "snap_row list"
  assumes "distinct (map sID L)" "sorted (map sCreatedAt (rev L))"
  shows "set (filter (\<lambda>r. sID r \<notin> set (map sID (drop k L))) L) = set (take k L)"
    and "\<And>r r'. r \<in> set (take k L) \<Longrightarrow> r' \<in> set (drop k L) \<Longrightarrow> sCreatedAt r' \<le> sCreatedAt r"
proof -
  show "set (filter (\<lambda>r. sID r \<notin> set (map sID (drop k L))) L) = set (take k L)"
    using keep_first [of sID "take k L" "drop k L"] assms(1) by (simp only: append_take_drop_id)
  have "sorted (map sCreatedAt (rev (take k L @ drop k L)))" using assms(2) by simp
  then show "\<And>r r'. r \<in> set (take k L) \<Longrightarrow> r' \<in> set (drop k L) \<Longrightarrow> sCreatedAt r' \<le> sCreatedAt r"
    by (simp only: rev_append map_append sorted_append) auto
qed

text \<open>
  C5. Retention. When \<open>Prune\<close> succeeds, an environment keeps exactly the newest \<open>keepTurns\<close> of
  its turn snapshots (all of them if there are no more), every one deleted is no newer than every
  one kept and its subvolume is gone, and the rows of other environments are untouched.
\<close>

theorem Prune_keeps_newest:
  assumes "index_ok (db s)" "Prune i s = (Inr (), t)"
  shows "card (set (turn_rows i (db t))) = min (keepTurns s) (card (set (turn_rows i (db s)))) \<and>
    set (turn_rows i (db t)) \<subseteq> set (turn_rows i (db s)) \<and>
    (\<forall>r \<in> set (turn_rows i (db t)). \<forall>r' \<in> set (turn_rows i (db s)) - set (turn_rows i (db t)).
       sCreatedAt r' \<le> sCreatedAt r \<and> not_subvol (snapPath (root s) i (sID r')) t) \<and>
    filter (\<lambda>r. sEnv r \<noteq> i) (snapshots (db t)) = filter (\<lambda>r. sEnv r \<noteq> i) (snapshots (db s))"
proof -
  let ?B = "q_SnapshotsBefore i preRestorePrefix [] ((times (wld s) (calls s) - preRestoreKeep) div second) (db s)"
  let ?L = "rev (sort_key sCreatedAt (turn_rows i (db s)))"
  let ?k = "keepTurns s"
  have K: "q_SnapshotsBeyond i preRestorePrefix ?k (db s) = map sID (drop ?k ?L)"
    by (simp add: q_SnapshotsBeyond_def turn_rows_def)
  have gone: "rows_gone i (set ?B \<union> set (map sID (drop ?k ?L))) s t"
    using wp_InrD [OF Prune_wp assms(2)] unfolding K .
  have B: "\<forall>x\<in>set ?B. like_prefix preRestorePrefix x" by (auto simp: set_q_SnapshotsBefore)
  have rows: "snapshots (db t) = drop_rows i (set ?B \<union> set (map sID (drop ?k ?L))) (snapshots (db s))"
    using gone by (simp add: rows_gone_def)
  have turn: "turn_rows i (db t) = filter (\<lambda>r. sID r \<notin> set (map sID (drop ?k ?L))) (turn_rows i (db s))"
    unfolding turn_rows_def rows drop_rows_def filter_filter using B by (intro filter_cong) auto
  have dist: "distinct (map sID ?L)"
    using distinct_turn_rows [OF assms(1), of i]
    by (metis distinct_map distinct_rev distinct_sort rev_map set_rev set_sort)
  have sorted: "sorted (map sCreatedAt (rev ?L))" by simp
  have kept: "set (turn_rows i (db t)) = set (take ?k ?L)"
    using keep_newest(1) [OF dist sorted, of ?k] by (simp add: turn)
  have "distinct ?L" using dist by (simp add: distinct_map)
  then have c: "card (set (take ?k ?L)) = min ?k (length ?L)"
    by (metis distinct_card distinct_take length_take min.commute)
  have "card (set (turn_rows i (db s))) = length ?L"
    using distinct_turn_rows [OF assms(1), of i] by (simp add: distinct_card distinct_map)
  with c kept have 1: "card (set (turn_rows i (db t))) = min ?k (card (set (turn_rows i (db s))))" by simp
  have split: "set (turn_rows i (db s)) = set (take ?k ?L) \<union> set (drop ?k ?L)"
    by (metis append_take_drop_id set_append set_rev set_sort)
  have 2: "sCreatedAt r' \<le> sCreatedAt r \<and> not_subvol (snapPath (root s) i (sID r')) t"
    if "r \<in> set (turn_rows i (db t))" "r' \<in> set (turn_rows i (db s)) - set (turn_rows i (db t))" for r r'
  proof -
    have r': "r' \<in> set (drop ?k ?L)" using that split kept by blast
    then have "sID r' \<in> set ?B \<union> set (map sID (drop ?k ?L))" by auto
    with gone r' that keep_newest(2) [OF dist sorted, of r ?k r'] kept show ?thesis
      unfolding rows_gone_def by blast
  qed
  have 3: "filter (\<lambda>r. sEnv r \<noteq> i) (snapshots (db t)) = filter (\<lambda>r. sEnv r \<noteq> i) (snapshots (db s))"
    unfolding rows drop_rows_def filter_filter by (intro filter_cong) auto
  have "set (turn_rows i (db t)) \<subseteq> set (turn_rows i (db s))" by (auto simp: turn)
  with 1 2 3 show ?thesis by blast
qed

text \<open>The sample pool, keeping no turns: its one snapshot goes.\<close>

definition prune_store :: store where
  "prune_store = sample_store\<lparr>keepTurns := 0\<rparr>"

lemma prune_store_succeeds: "fst (Prune ''dev'' prune_store) = Inr ()"
  by code_simp

theorem Prune_keeps_newest_witness:
  "card (set (turn_rows ''dev'' (db (snd (Prune ''dev'' prune_store))))) = 0"
proof -
  have "index_ok (db prune_store)" by (simp add: prune_store_def sample_defs index_ok_def)
  moreover have "Prune ''dev'' prune_store = (Inr (), snd (Prune ''dev'' prune_store))"
    using prune_store_succeeds by (metis prod.collapse)
  ultimately show ?thesis using Prune_keeps_newest by (fastforce simp: prune_store_def)
qed

section \<open>Free space\<close>

text \<open>Rounding to a double moves a number by at most one part in \<open>2^53\<close>.\<close>

lemma f64_round_error:
  "f64_round n * 2 ^ 53 \<le> n * 2 ^ 53 + n \<and> n * 2 ^ 53 \<le> f64_round n * 2 ^ 53 + n"
proof (cases "floorlog 2 n - 53")
  case 0
  then show ?thesis by (simp add: f64_round_def)
next
  case (Suc j)
  let ?q = "n div 2 ^ Suc j" and ?r = "n mod 2 ^ Suc j"
  have "0 < n" using Suc by (cases "n = 0") (simp_all add: floorlog_def)
  moreover have "floorlog 2 n - 1 = j + 53" using Suc by simp
  ultimately have n: "2 ^ (j + 53) \<le> n" using floorlog_bounds [of n 2] by simp
  have split: "n = ?q * 2 ^ Suc j + ?r" by (simp only: div_mult_mod_eq)
  have r: "?r < 2 ^ Suc j" by simp
  have up: "(?q + 1) * 2 ^ Suc j \<le> n + 2 ^ j \<and> n \<le> (?q + 1) * 2 ^ Suc j" if "2 ^ j \<le> ?r"
    using split r that by (simp only: distrib_right) (simp only: power_Suc, linarith)
  have down: "?q * 2 ^ Suc j \<le> n \<and> n \<le> ?q * 2 ^ Suc j + 2 ^ j" if "?r \<le> 2 ^ j"
    using split that by linarith
  have f: "f64_round n = (if 2 ^ j < ?r \<or> (?r = 2 ^ j \<and> odd ?q) then ?q + 1 else ?q) * 2 ^ Suc j"
    using Suc by (simp add: f64_round_def Let_def del: power_Suc)
  have "f64_round n \<le> n + 2 ^ j \<and> n \<le> f64_round n + 2 ^ j"
  proof (cases "2 ^ j < ?r \<or> (?r = 2 ^ j \<and> odd ?q)")
    case True
    then have "2 ^ j \<le> ?r" by auto
    then show ?thesis using up True by (simp only: f if_True) simp
  next
    case False
    then have "?r \<le> 2 ^ j" by auto
    then show ?thesis using down trans_le_add1 False by (simp only: f if_False)
  qed
  then have "f64_round n * 2 ^ 53 \<le> (n + 2 ^ j) * 2 ^ 53 \<and> n * 2 ^ 53 \<le> (f64_round n + 2 ^ j) * 2 ^ 53"
    by (meson mult_le_mono1)
  with n show ?thesis by (simp only: distrib_right power_add) linarith
qed

lemma free_share_error:
  "20 * free_share n \<le> n + n div 2 ^ 51 \<and> n \<le> 20 * free_share n + 20 + n div 2 ^ 51"
proof -
  let ?R = "f64_round n"
  let ?F = "f64_round (?R * 3602879701896397)"
  have R: "?R * 9007199254740992 \<le> n * 9007199254740993" "n * 9007199254740992 \<le> ?R * 9007199254740992 + n"
    using f64_round_error [of n] by simp_all
  have F: "?F * 9007199254740992 \<le> ?R * 3602879701896397 * 9007199254740993"
      "?R * 3602879701896397 * 9007199254740992 \<le> ?F * 9007199254740992 + ?R * 3602879701896397"
    using f64_round_error [of "?R * 3602879701896397"] by simp_all
  have S: "free_share n * 72057594037927936 \<le> ?F" "?F < free_share n * 72057594037927936 + 72057594037927936"
    unfolding free_share_def by simp_all
  define d where "d = n div 2 ^ 51"
  have D: "n < d * 2251799813685248 + 2251799813685248" by (simp add: d_def)
  have "20 * free_share n * 2251799813685248 \<le> n * 2251799813685249" using R(1) F(1) S(1) by linarith
  then have "20 * free_share n * 2251799813685248 < (n + d + 1) * 2251799813685248" using D by simp
  then have 1: "20 * free_share n \<le> n + d" by simp
  have "?R * 72057594037927940 * 9007199254740991 \<le> ?F * 20 * 9007199254740992" using F(2) by simp
  moreover have "n * 9007199254740991 \<le> ?R * 9007199254740992" using R(2) by simp
  ultimately have "n * 9007199254740991 * 72057594037927940 * 9007199254740991 \<le>
      ?F * 20 * 9007199254740992 * 9007199254740992" by linarith
  then have "n * 2251799813685248 < (20 * free_share n + 20) * 2251799813685248 + n" if "0 < n"
    using S(2) by simp
  then have "n * 2251799813685248 < (20 * free_share n + 20 + d + 1) * 2251799813685248"
    using D by (cases "n = 0") simp_all
  then have "n \<le> 20 * free_share n + 20 + d" by simp
  with 1 show ?thesis by (simp add: d_def)
qed

text \<open>
  C6. The free-space check in binary arithmetic: when \<open>checkFree\<close> lets a change pass, the pool has
  at least \<open>minFreeBytes\<close> free and at least a twentieth of its size, up to the rounding of the
  double product (less than 8 KiB over twenty for any 64-bit size); when it refuses, it has less
  than one of the two.
\<close>

theorem checkFree_share:
  assumes "faulty s = None" "stats (wld s) (calls s) = (bavail, blocks, bsize)"
  defines "free \<equiv> unat (bavail * bsize)" and "tot \<equiv> unat (blocks * bsize)"
  shows "(checkFree s = (Inr (), tick s) \<and> unat (minFreeBytes s) \<le> free \<and> tot \<le> 20 * free + 20 + 8192) \<or>
    (checkFree s = (Inl ErrPoolFull, tick s) \<and> (free < unat (minFreeBytes s) \<or> 20 * free < tot + 8192))"
proof -
  have small: "tot div 2 ^ 51 < 8192"
  proof -
    have "unat (blocks * bsize) < 2 ^ LENGTH(64)" by (rule unsigned_less)
    then show ?thesis by (simp add: tot_def less_mult_imp_div_less)
  qed
  have "checkFree s = (if pool_full (minFreeBytes s) (bavail, blocks, bsize)
      then (Inl ErrPoolFull, tick s) else (Inr (), tick s))"
    using assms(1,2)
    by (simp add: checkFree_def ok_def bind_s_def sys_statfs_def gets_def ret_def raise_def)
  moreover have "pool_full (minFreeBytes s) (bavail, blocks, bsize) \<longleftrightarrow>
      free < unat (minFreeBytes s) \<or> free < free_share tot"
    by (simp add: pool_full_def Let_def free_def tot_def less_max_iff_disj)
  ultimately show ?thesis using free_share_error [of tot] small by auto
qed

theorem checkFree_share_witness:
  "checkFree sample_store = (Inr (), tick sample_store)"
  using checkFree_share [of sample_store 1000000 2000000 4096]
  by (simp add: faulty_def sample_store_def sample_world_def)

end
