(* ===== verification/StoreCalm.thy ===== *)
theory StoreCalm
  imports StoreRecover SnapshotLaws
begin

text \<open>
  What the store's removals do when nothing fails: they succeed. With the outcomes for every
  pattern of failures this gives recovery: what stopped half-way is finished by the next run.
\<close>

section \<open>A world where nothing fails\<close>

definition calm :: "store \<Rightarrow> bool" where
  "calm s \<longleftrightarrow> (\<forall>n. faults (wld s) n = None) \<and> (\<forall>n. \<not> failAt (wld s) n)"

lemma calm_simps [simp]:
  "calm (tick s) = calm s" "calm (s\<lparr>disk := d\<rparr>) = calm s" "calm (s\<lparr>db := x\<rparr>) = calm s"
  by (simp_all add: calm_def)

lemma calm_faulty: "calm s \<Longrightarrow> faulty s = None"
  by (simp add: calm_def faulty_def)

lemma calm_failAt: "calm s \<Longrightarrow> \<not> failAt (wld s) n"
  by (simp add: calm_def)

lemmas calmD = calm_faulty calm_failAt

lemma tick_inv_calm: "tick_inv calm"
  by (simp add: tick_inv_def)

section \<open>Paths a lookup reaches\<close>

text \<open>Nothing on the way to \<open>p\<close> is in the way: it is there, or missing.\<close>

definition stat_ok :: "path \<Rightarrow> node \<Rightarrow> bool" where
  "stat_ok p d \<longleftrightarrow> (case stat_at d p of Inl e \<Rightarrow> e = ENOENT | Inr _ \<Rightarrow> True)"

lemma stat_ok_iff:
  "stat_ok p d \<longleftrightarrow> (\<forall>q n. strict_prefix q p \<longrightarrow> lookup d q = Some n \<longrightarrow> is_dir n)"
proof (induction d p rule: stat_at.induct)
  case (1 n)
  then show ?case by (simp add: stat_ok_def)
next
  case (2 a k es x xs)
  show ?case
  proof (cases "map_of es x")
    case None
    then show ?thesis
      by (auto simp: stat_ok_def prefix_Cons strict_prefix_def)
  next
    case (Some c)
    have "(\<forall>q n. strict_prefix q (x # xs) \<longrightarrow> lookup (Dir a k es) q = Some n \<longrightarrow> is_dir n) \<longleftrightarrow>
        (\<forall>q n. strict_prefix q xs \<longrightarrow> lookup c q = Some n \<longrightarrow> is_dir n)"
      using Some by (auto simp: strict_prefix_def prefix_Cons)
    with 2 [OF Some] Some show ?thesis by (simp add: stat_ok_def)
  qed
qed (auto simp: stat_ok_def intro!: exI [of _ "[]"])

lemma stat_ok_upd_None: "stat_ok p d \<Longrightarrow> q \<noteq> [] \<Longrightarrow> stat_ok p (upd q None d)"
  unfolding stat_ok_iff using lookup_upd_None_cases by blast

lemma stat_ok_lookup: "lookup d p = Some n \<Longrightarrow> stat_ok p d"
  by (simp add: stat_ok_def stat_at_lookup)

lemma stat_ok_parent: "has_parent d p \<Longrightarrow> stat_ok p d"
  by (cases "lookup d p") (auto simp: stat_ok_lookup stat_ok_def stat_at_parent stat_at_lookup)

lemma removal_inv_stat_ok: "removal_inv q (\<lambda>s. stat_ok p (disk s))"
  by (simp add: removal_inv_def stat_ok_upd_None)

lemma lookup_removed: "p \<noteq> [] \<Longrightarrow> lookup (upd p None d) p = None"
  by (metis lookup_some_parent lookup_upd_eq not_None_eq upd_no_parent)

section \<open>Removals succeed\<close>

definition deletable_path :: "node \<Rightarrow> path \<Rightarrow> bool" where
  "deletable_path d p \<longleftrightarrow> stat_ok p d \<and> volumeName p 4088"

lemma volumeName_nonempty: "volumeName p n \<Longrightarrow> p \<noteq> []"
  by (simp add: volumeName_def)

lemma delete_one_calm:
  assumes "calm s" "deletable_path (disk s) p"
  shows "wp (delete_one p nested) (\<lambda>r t. calm t \<and> set r \<subseteq> insert p (set nested)) (\<lambda>_ _. False) s"
  using assms
  by (auto simp: delete_one_def lstat_def wp_rules deletable_path_def stat_ok_def calmD
      fs_deleteSubvolume_def split: sum.split errno.split)

lemma removal_inv_deletable: "removal_inv q (\<lambda>s. deletable_path (disk s) p)"
  by (simp add: removal_inv_def deletable_path_def stat_ok_upd_None)

lemma fold_delete_calm:
  assumes "calm s" "\<forall>p\<in>set ps. deletable_path (disk s) p"
  shows "wp (fold_s delete_one ps nested) (\<lambda>r t. calm t \<and> set r \<subseteq> set ps \<union> set nested) (\<lambda>_ _. False) s"
  using assms
proof (induction ps arbitrary: nested s)
  case Nil
  then show ?case by (simp add: wp_rules)
next
  case (Cons p ps nested s)
  let ?D = "\<lambda>t. \<forall>q\<in>set ps. deletable_path (disk t) q"
  have "keeps ?D (delete_one p nested)"
    using removal_inv_deletable
    by (intro keeps_delete_one) (auto simp: tick_inv_def removal_inv_def)
  then have 1: "wp (delete_one p nested) (\<lambda>_. ?D) (\<lambda>_. ?D) s"
    by (rule keeps_wpI) (use Cons.prems in simp)
  have 2: "wp (delete_one p nested) (\<lambda>r t. calm t \<and> set r \<subseteq> insert p (set nested)) (\<lambda>_ _. False) s"
    by (rule delete_one_calm) (use Cons.prems in simp_all)
  have "wp (delete_one p nested) (\<lambda>n. wp (fold_s delete_one ps n)
      (\<lambda>r t. calm t \<and> set r \<subseteq> set (p # ps) \<union> set nested) (\<lambda>_ _. False)) (\<lambda>_ _. False) s"
    by (rule wp_mono [OF wp_conj [OF 1 2]]) (auto intro!: wp_mono [OF Cons.IH])
  then show ?case by (simp add: wp_bind)
qed

lemma recursive_calm:
  assumes "calm s" "\<forall>p\<in>set ps. p \<noteq> []"
  shows "wp (for_each (\<lambda>p. ok (sys_write (fs_delete_recursive p))) ps) (\<lambda>_. calm) (\<lambda>_ _. False) s"
  using assms
proof (induction ps arbitrary: s)
  case Nil
  then show ?case by (simp add: wp_rules)
next
  case (Cons p ps)
  then show ?case by (simp add: wp_rules calmD fs_delete_recursive_def)
qed

text \<open>\<open>wp\<close> of two facts about successful runs, one of which says that it succeeds.\<close>

lemma wp_total:
  assumes "wp m Q (\<lambda>_ _. False) s" "wp m Q' E s"
  shows "wp m (\<lambda>x t. Q x t \<and> Q' x t) (\<lambda>_ _. False) s"
  using assms by (auto simp: wp_def split: prod.splits sum.splits)

lemma deleteSubvolumes_calm:
  assumes "calm s" "\<forall>p\<in>set ps. deletable_path (disk s) p"
  shows "wp (deleteSubvolumes ps) (\<lambda>_ t. calm t \<and> (\<forall>p\<in>set ps. not_subvol p t)) (\<lambda>_ _. False) s"
proof (rule wp_total [OF _ deleteSubvolumes_done])
  have ne: "\<forall>p\<in>set ps. p \<noteq> []" using assms(2) by (auto simp: deletable_path_def volumeName_def)
  have "wp (if n = [] then ret () else bind_s (for_each (\<lambda>p. ok (sys_write (fs_delete_recursive p))) n)
      (\<lambda>_. step ''delete subvolumes: nested removed'')) (\<lambda>_. calm) (\<lambda>_ _. False) t"
    if "calm t" "set n \<subseteq> set ps" for n t
    using that ne by (auto simp: wp_bind wp_ret wp_if wp_step calmD intro!: wp_mono [OF recursive_calm])
  then show "wp (deleteSubvolumes ps) (\<lambda>_. calm) (\<lambda>_ _. False) s"
    unfolding deleteSubvolumes_def wp_bind
    by (intro wp_mono [OF fold_delete_calm [OF assms, of "[]"]]) auto
qed

abbreviation (input) remove_each :: "path \<Rightarrow> path list \<Rightarrow> unit st" where
  "remove_each p qs \<equiv> for_each (\<lambda>q. ok (sys_write (\<lambda>d. Inr (upd (p @ q) None d)))) qs"

lemma keeps_remove_each:
  "tick_inv I \<Longrightarrow> p \<noteq> [] \<Longrightarrow> (\<And>q. q \<in> set qs \<Longrightarrow> removal_inv (p @ q) I) \<Longrightarrow> keeps I (remove_each p qs)"
  by (intro keeps_rules) (auto simp: removal_inv_def)

lemma remove_each_done:
  assumes "p \<noteq> []"
  shows "wp (remove_each p qs) (\<lambda>_ t. \<forall>q\<in>set qs. lookup (disk t) (p @ q) = None) (\<lambda>_ _. True) s"
proof (induction qs arbitrary: s)
  case Nil
  then show ?case by (simp add: wp_rules)
next
  case (Cons q qs)
  have *: "wp (remove_each p qs) (\<lambda>_ t. \<forall>q\<in>set (q # qs). lookup (disk t) (p @ q) = None) (\<lambda>_ _. True) t"
    if "lookup (disk t) (p @ q) = None" for t
  proof -
    have "keeps (same_at (p @ q) None) (remove_each p qs)"
      using assms by (intro keeps_remove_each removal_inv_absent) auto
    from keeps_wpI [OF this] have "wp (remove_each p qs) (\<lambda>_. same_at (p @ q) None) (\<lambda>_. same_at (p @ q) None) t"
      using that by (simp add: same_at_def)
    from wp_conj [OF this Cons.IH] show ?thesis by (rule wp_mono) (auto simp: same_at_def)
  qed
  show ?case
    using * [of "(tick s)\<lparr>disk := upd (p @ q) None (disk s)\<rparr>"] assms
    by (simp add: wp_bind wp_ok wp_sys_write lookup_removed split: option.split)
qed

lemma remove_each_calm: "calm s \<Longrightarrow> wp (remove_each p qs) (\<lambda>_. calm) (\<lambda>_ _. False) s"
  by (induction qs arbitrary: s) (simp_all add: wp_rules calmD)

lemma removeAll_calm:
  assumes "calm s" "stat_ok p (disk s)" "p \<noteq> []"
  shows "wp (removeAll p) (\<lambda>_ t. calm t \<and> lookup (disk t) p = None) (\<lambda>_ _. False) s"
proof -
  have "wp (remove_each p (removal_order n)) (\<lambda>_ t. calm t \<and> lookup (disk t) p = None) (\<lambda>_ _. False) t"
    if "calm t" for n t
  proof -
    have "[] \<in> set (removal_order n)" using removal_order_last [of n] by auto
    then show ?thesis
      using wp_total [OF remove_each_calm [OF that] remove_each_done [OF assms(3), of "removal_order n"]]
      by (auto elim!: wp_mono)
  qed
  then show ?thesis
    using assms stat_at_ENOENT [of "disk s" p]
    by (auto simp: removeAll_def lstat_def wp_bind wp_sys_read wp_case_sum wp_case_errno wp_ret calmD stat_ok_def
        split: sum.split)
qed

end
