(* ===== verification/DeleteSafety.thy ===== *)
theory DeleteSafety
  imports StoreCalm
begin

text \<open>
  Deleting an environment: where a delete can stop, and that the next one finishes it.
\<close>

section \<open>The marker's text\<close>

text \<open>A workspace path as the pool's names make them.\<close>

definition text_path :: "path \<Rightarrow> bool" where
  "text_path p \<longleftrightarrow> p \<noteq> [] \<and> list_all good_name p \<and> \<not> is_space (last (last p))"

lemma trim_space_none:
  "s \<noteq> [] \<Longrightarrow> \<not> is_space (hd s) \<Longrightarrow> \<not> is_space (last s) \<Longrightarrow> trim_space s = s"
proof -
  assume a: "s \<noteq> []" "\<not> is_space (hd s)" "\<not> is_space (last s)"
  have "dropWhile is_space s = s" using a by (cases s) auto
  moreover have "dropWhile is_space (rev s) = rev s" using a by (cases s rule: rev_cases) auto
  ultimately show ?thesis by (simp add: trim_space_def)
qed

lemma last_concat_slash:
  "p \<noteq> [] \<Longrightarrow> list_all good_name p \<Longrightarrow> last (concat (map ((#) CHR ''/'') p)) = last (last p)"
  by (cases p rule: rev_cases) (auto simp: good_name_def)

lemma trim_path_text: "text_path p \<Longrightarrow> trim_space (path_text p) = path_text p"
proof -
  assume p: "text_path p"
  then obtain x q where q: "p = x # q" by (cases p) (auto simp: text_path_def)
  have "\<not> is_space (last (path_text p))"
    using p last_concat_slash [of p] by (simp add: text_path_def path_text_def)
  moreover have "hd (path_text p) = CHR ''/''" "path_text p \<noteq> []" by (simp_all add: path_text_def q)
  ultimately show ?thesis by (intro trim_space_none) (simp_all add: is_space_def)
qed

lemma Clean_text_path: "text_path p \<Longrightarrow> Clean (path_text p) = (True, p)"
  by (simp add: text_path_def Clean_path_text)

lemma path_text_nonempty [simp]: "path_text p \<noteq> []"
  by (cases p) (simp_all add: path_text_def)

lemma set_removed_paths:
  assumes "text_path W" "text_path (livePath r i)"
  shows "set (removed_paths r i (path_text W) snaps) =
    {livePath r i, restorePath r i, adoptPath r i, W} \<union> (\<lambda>(x, _). snapPath r i x) ` set snaps"
proof -
  have "set (if path_text W \<noteq> [] \<and> path_text W \<noteq> path_text (livePath r i)
      then [snd (Clean (path_text W))] else []) \<union> {livePath r i} = {livePath r i, W}"
  proof (cases "path_text W = path_text (livePath r i)")
    case True
    then have "W = livePath r i"
      using Clean_text_path [OF assms(1)] Clean_text_path [OF assms(2)] by (metis prod.inject)
    then show ?thesis by simp
  qed (simp add: Clean_text_path [OF assms(1)] insert_commute)
  then show ?thesis unfolding removed_paths_def set_append set_map by (simp only: list.set) blast
qed

section \<open>The disk of an environment\<close>

definition names_ok :: "node \<Rightarrow> bool" where
  "names_ok n \<longleftrightarrow> is_dir n \<and> (\<forall>x\<in>fst ` set (entries n). volumeName [x] 4088)"

text \<open>What a delete needs of the disk, and removals keep.\<close>

definition tidy :: "path \<Rightarrow> string \<Rightarrow> path \<Rightarrow> node \<Rightarrow> bool" where
  "tidy r i W d \<longleftrightarrow>
     deletable_path d W \<and> stat_ok (envDir r i) d \<and>
     (\<forall>n. lookup d (envDir r i) = Some n \<longrightarrow> is_dir n) \<and>
     (\<forall>n. lookup d (snapsDir r i) = Some n \<longrightarrow> names_ok n)"

lemma fst_delete: "fst ` set (AList.delete x es) = fst ` set es - {x}"
  by (induction es) auto

lemma fst_update: "fst ` set (AList.update x v es) = insert x (fst ` set es)"
  using dom_update [of x v es] by (metis insert_is_Un)

lemma entries_upd_None: "q \<noteq> [] \<Longrightarrow> fst ` set (entries (upd q None n)) \<subseteq> fst ` set (entries n)"
  by (cases "(q, None :: node option, n)" rule: upd.cases)
    (auto simp: fst_delete fst_update split: option.splits dest!: map_of_SomeD simp flip: image_iff
      intro!: rev_image_eqI)

lemma names_ok_upd_None: "names_ok n \<Longrightarrow> q \<noteq> [] \<Longrightarrow> names_ok (upd q None n)"
  unfolding names_ok_def using entries_upd_None [of q n] is_dir_upd [of q None n] by blast

lemma lookup_upd_None_P:
  assumes "\<forall>n. lookup d p = Some n \<longrightarrow> P n" "\<And>n q. P n \<Longrightarrow> q \<noteq> [] \<Longrightarrow> P (upd q None n)" "q \<noteq> []"
  shows "\<forall>n. lookup (upd q None d) p = Some n \<longrightarrow> P n"
proof (cases "q \<parallel> p")
  case True
  with assms(1) show ?thesis by (simp add: lookup_upd_parallel)
next
  case False
  then consider z where "p = q @ z" | z where "q = p @ z" "z \<noteq> []"
    by (auto simp: parallel_def prefix_def) (metis append_Nil2)
  then show ?thesis
  proof cases
    case 1
    then have "lookup (upd q None d) p = None"
      using lookup_removed [OF assms(3), of d] by (simp add: lookup_append)
    then show ?thesis by simp
  next
    case 2
    with assms(1,2) show ?thesis by (auto simp: lookup_upd_above)
  qed
qed

lemma tidy_upd_None: "tidy r i W d \<Longrightarrow> q \<noteq> [] \<Longrightarrow> tidy r i W (upd q None d)"
  unfolding tidy_def deletable_path_def
  using lookup_upd_None_P [of d "envDir r i" is_dir q]
    lookup_upd_None_P [of d "snapsDir r i" names_ok q] names_ok_upd_None is_dir_upd
  by (metis stat_ok_upd_None)

lemma removal_inv_tidy: "removal_inv q (\<lambda>s. tidy r i W (disk s))"
  by (simp add: removal_inv_def tidy_upd_None)

section \<open>Marked and cleared\<close>

definition marked :: "path \<Rightarrow> string \<Rightarrow> path \<Rightarrow> node \<Rightarrow> bool" where
  "marked r i W d \<longleftrightarrow> (\<exists>a. lookup d (markerPath r i) = Some (File a (path_text W)))"

definition cleared :: "path \<Rightarrow> string \<Rightarrow> path \<Rightarrow> store \<Rightarrow> bool" where
  "cleared r i W s \<longleftrightarrow> (\<forall>y. lookup (disk s) (envDir r i @ [y]) = None) \<and> not_subvol W s"

text \<open>The marker is the last entry of the environment's directory: the newest one.\<close>

definition marked_last :: "path \<Rightarrow> string \<Rightarrow> path \<Rightarrow> node \<Rightarrow> bool" where
  "marked_last r i W d \<longleftrightarrow>
     (\<exists>a k es b. lookup d (envDir r i) = Some (Dir a k (es @ [(''incomplete'', File b (path_text W))])) \<and>
        ''incomplete'' \<notin> fst ` set es)"

lemma marked_last_marked: "marked_last r i W d \<Longrightarrow> marked r i W d"
proof -
  have m: "markerPath r i = envDir r i @ [''incomplete'']" by (simp add: pool_paths)
  have map: "x \<notin> fst ` set es \<Longrightarrow> map_of (es @ [(x, n)]) x = Some n"
    for x :: string and es and n :: node
    by (induction es) auto
  show "marked_last r i W d \<Longrightarrow> marked r i W d"
    unfolding marked_last_def marked_def m using map by (fastforce simp: lookup_append)
qed

lemma AList_delete_append: "AList.delete x (xs @ ys) = AList.delete x xs @ AList.delete x ys"
  by (induction xs) auto

lemma AList_update_append: "x \<in> fst ` set xs \<Longrightarrow> AList.update x v (xs @ ys) = AList.update x v xs @ ys"
  by (induction xs) auto

lemma upd_None_last:
  assumes "x \<noteq> m" "m \<notin> fst ` set es"
  shows "\<exists>es'. upd (x # q) None (Dir a k (es @ [(m, f)])) = Dir a k (es' @ [(m, f)]) \<and> m \<notin> fst ` set es'"
proof (cases q)
  case Nil
  then show ?thesis using assms by (auto simp: AList_delete_append fst_delete intro!: exI [of _ "AList.delete x es"])
next
  case (Cons y ys)
  have map: "map_of (es @ [(m, f)]) x = map_of es x" using assms(1) by (simp add: map_add_def split: option.split)
  show ?thesis
  proof (cases "map_of es x")
    case None
    then show ?thesis using assms Cons map by (intro exI [of _ es]) (simp del: map_of_append)
  next
    case (Some c)
    then have "x \<in> fst ` set es" by (metis map_of_eq_None_iff option.distinct(1))
    then show ?thesis
      using Some Cons map assms
      by (intro exI [of _ "AList.update x (upd q None c) es"])
        (simp add: AList_update_append fst_update del: map_of_append)
  qed
qed

lemma removal_inv_marked_last:
  assumes "p \<parallel> envDir r i \<or> (\<exists>x q. p = envDir r i @ x # q \<and> x \<noteq> ''incomplete'')"
  shows "removal_inv p (\<lambda>s. marked_last r i W (disk s))"
  unfolding removal_inv_def marked_last_def
proof (intro allI impI)
  fix s assume "\<exists>a k es b. lookup (disk s) (envDir r i) = Some (Dir a k (es @ [(''incomplete'', File b (path_text W))])) \<and>
        ''incomplete'' \<notin> fst ` set es"
  then obtain a k es b where d: "lookup (disk s) (envDir r i) = Some (Dir a k (es @ [(''incomplete'', File b (path_text W))]))"
    and n: "''incomplete'' \<notin> fst ` set es" by blast
  show "\<exists>a k es b. lookup (disk (s\<lparr>disk := upd p None (disk s)\<rparr>)) (envDir r i) =
      Some (Dir a k (es @ [(''incomplete'', File b (path_text W))])) \<and> ''incomplete'' \<notin> fst ` set es"
    using assms
  proof
    assume "p \<parallel> envDir r i"
    with d n show ?thesis by (auto simp: lookup_upd_parallel)
  next
    assume "\<exists>x q. p = envDir r i @ x # q \<and> x \<noteq> ''incomplete''"
    then obtain x q where p: "p = envDir r i @ x # q" and x: "x \<noteq> ''incomplete''" by blast
    from upd_None_last [OF x n, of q a k "File b (path_text W)"] d show ?thesis
      by (auto simp: p lookup_upd_above)
  qed
qed

section \<open>Removing a marked directory\<close>

lemma wp_for_each_append:
  "wp (for_each f (xs @ ys)) Q E = wp (for_each f xs) (\<lambda>_. wp (for_each f ys) Q E) E"
  by (induction xs) (simp_all add: wp_ret wp_bind)

lemma removal_order_marked:
  assumes "m \<notin> fst ` set es"
  shows "\<exists>xs. removal_order (Dir a k (es @ [(m, File b c)])) = xs @ [[m], []] \<and>
    (\<forall>q\<in>set xs. \<exists>x q'. q = x # q' \<and> x \<noteq> m) \<and> (\<forall>x\<in>fst ` set es. [x] \<in> set xs)"
proof -
  have "[] \<in> set (removal_order n)" for n using removal_order_last [of n] by auto
  then show ?thesis
    using assms by (intro exI [of _ "concat (map (\<lambda>(x, c). map ((#) x) (removal_order c)) es)"]) force
qed

lemma markerPath_eq: "markerPath r i = envDir r i @ [''incomplete'']"
  by (simp add: pool_paths)

lemma below_marker: "x \<noteq> ''incomplete'' \<Longrightarrow> envDir r i @ x # q \<parallel> markerPath r i"
  by (simp add: markerPath_eq parallel_same_append parallel_cons)

lemma removal_inv_marked:
  "p \<parallel> markerPath r i \<Longrightarrow> removal_inv p (\<lambda>s. marked r i W (disk s))"
  by (simp add: removal_inv_def marked_def lookup_upd_parallel)

text \<open>The entries before the marker go first; while one is left, the marker is there.\<close>

lemma remove_others:
  assumes "marked r i W (disk s)" "not_subvol W s"
    and "\<forall>q\<in>set xs. \<exists>x q'. q = x # q' \<and> x \<noteq> ''incomplete''"
    and "\<forall>y. y \<noteq> ''incomplete'' \<longrightarrow> lookup (disk s) (envDir r i @ [y]) = None \<or> [y] \<in> set xs"
  shows "wp (remove_each (envDir r i) xs)
     (\<lambda>_ t. marked r i W (disk t) \<and> not_subvol W t \<and>
        (\<forall>y. y \<noteq> ''incomplete'' \<longrightarrow> lookup (disk t) (envDir r i @ [y]) = None))
     (\<lambda>_ t. marked r i W (disk t)) s"
proof -
  let ?I = "\<lambda>t. marked r i W (disk t) \<and> not_subvol W t \<and>
    (\<forall>y. lookup (disk s) (envDir r i @ [y]) = None \<longrightarrow> lookup (disk t) (envDir r i @ [y]) = None)"
  have inv: "removal_inv (envDir r i @ q) ?I" if "q \<in> set xs" for q
  proof -
    from that assms(3) obtain x q' where "q = x # q'" "x \<noteq> ''incomplete''" by blast
    then show ?thesis
      using removal_inv_marked [OF below_marker, of x r i q' W] removal_inv_not_subvol [of "envDir r i @ q" W]
      by (auto simp: removal_inv_def lookup_upd_None_mono)
  qed
  have "keeps ?I (remove_each (envDir r i) xs)"
    by (intro keeps_remove_each inv) (auto simp: tick_inv_def not_subvol_def)
  then have 1: "wp (remove_each (envDir r i) xs) (\<lambda>_. ?I) (\<lambda>_. ?I) s"
    by (rule keeps_wpI) (use assms in simp)
  have 2: "wp (remove_each (envDir r i) xs)
      (\<lambda>_ t. \<forall>q\<in>set xs. lookup (disk t) (envDir r i @ q) = None) (\<lambda>_ _. True) s"
    by (rule remove_each_done) simp
  show ?thesis by (rule wp_mono [OF wp_conj [OF 1 2]]) (use assms(4) in auto)
qed

definition gone :: "path \<Rightarrow> string \<Rightarrow> path \<Rightarrow> store \<Rightarrow> bool" where
  "gone r i W s \<longleftrightarrow> lookup (disk s) (envDir r i) = None \<and> not_subvol W s"

lemma remove_marker_dir:
  assumes "marked r i W (disk s)" "not_subvol W s"
    and "\<forall>y. y \<noteq> ''incomplete'' \<longrightarrow> lookup (disk s) (envDir r i @ [y]) = None"
  shows "wp (remove_each (envDir r i) [[''incomplete''], []]) (\<lambda>_. gone r i W)
     (\<lambda>_ t. marked r i W (disk t) \<or> cleared r i W t) s"
proof -
  let ?m = "markerPath r i" and ?D = "envDir r i"
  have 1: "lookup (upd ?m None (disk s)) (?D @ [y]) = None" for y
    using assms(3) lookup_removed [of ?m "disk s"] lookup_upd_None_mono [of "disk s" "?D @ [y]" ?m]
    by (cases "y = ''incomplete''") (simp_all add: markerPath_eq)
  have 2: "not_subvol W (s\<lparr>disk := upd ?m None (disk s)\<rparr>)"
      "not_subvol W (s\<lparr>disk := upd ?D None (upd ?m None (disk s))\<rparr>)"
    using assms(2) removal_inv_not_subvol [of ?m W] removal_inv_not_subvol [of ?D W]
    by (force simp: removal_inv_def)+
  have 3: "lookup (upd ?D None d) ?D = None" for d by (rule lookup_removed) simp
  show ?thesis
    using assms(1) 1 2 3
    by (auto simp: wp_rules cleared_def gone_def not_subvol_def markerPath_eq [symmetric] split: option.split)
qed

lemma removeAll_marked:
  assumes "marked_last r i W (disk s)" "not_subvol W s"
  shows "wp (removeAll (envDir r i)) (\<lambda>_. gone r i W) (\<lambda>_ t. marked r i W (disk t) \<or> cleared r i W t) s"
proof -
  from assms(1) obtain a k es b where
    d: "lookup (disk s) (envDir r i) = Some (Dir a k (es @ [(''incomplete'', File b (path_text W))]))"
    and n: "''incomplete'' \<notin> fst ` set es" by (auto simp: marked_last_def)
  from removal_order_marked [OF n, of a k b "path_text W"] obtain xs where
    xs: "removal_order (Dir a k (es @ [(''incomplete'', File b (path_text W))])) = xs @ [[''incomplete''], []]"
    and x1: "\<forall>q\<in>set xs. \<exists>x q'. q = x # q' \<and> x \<noteq> ''incomplete''"
    and x2: "\<forall>x\<in>fst ` set es. [x] \<in> set xs" by blast
  have m: "marked r i W (disk s)" using assms(1) by (rule marked_last_marked)
  have names: "lookup (disk s) (envDir r i @ [y]) = None \<or> [y] \<in> set xs" if "y \<noteq> ''incomplete''" for y
  proof (cases "y \<in> fst ` set es")
    case False
    then have "map_of es y = None" by (simp add: map_of_eq_None_iff)
    with d that show ?thesis by (simp add: lookup_append map_add_def)
  qed (use x2 in blast)
  have "wp (remove_each (envDir r i) (xs @ [[''incomplete''], []])) (\<lambda>_. gone r i W)
      (\<lambda>_ t. marked r i W (disk t) \<or> cleared r i W t) (tick s)"
    unfolding wp_for_each_append
    by (rule wp_mono [OF remove_others]) (use m assms(2) x1 names remove_marker_dir in \<open>auto simp: not_subvol_def\<close>)
  then show ?thesis
    using m by (simp add: removeAll_def lstat_def wp_bind wp_sys_read wp_case_sum wp_case_errno wp_raise
        stat_at_lookup [OF d] xs del: removal_order.simps split: option.split)
qed

section \<open>Where a delete stops\<close>

lemma ws_path_envDir: "ws_path r i W \<Longrightarrow> W \<parallel> envDir r i \<or> W = livePath r i"
  by (auto simp: ws_path_def path_simps)

lemma removed_below:
  assumes "ws_path r i W" "text_path W" "text_path (livePath r i)"
    and "p \<in> set (removed_paths r i (path_text W) snaps)"
  shows "p \<parallel> envDir r i \<or> (\<exists>x q. p = envDir r i @ x # q \<and> x \<noteq> ''incomplete'')"
proof -
  have "livePath r i = envDir r i @ [''live'']" "restorePath r i = envDir r i @ [''live.new'']"
    "adoptPath r i = envDir r i @ [''adopt.new'']" "snapPath r i x = envDir r i @ [''snaps'', x]" for x
    by (simp_all add: pool_paths)
  then show ?thesis
    using assms(4) ws_path_envDir [OF assms(1)] unfolding set_removed_paths [OF assms(2,3)] by auto
qed

lemma marked_read:
  "marked r i W d \<Longrightarrow> fs_read (markerPath r i) d = Inr (path_text W)"
  by (auto simp: marked_def fs_read_def stat_at_lookup)

lemma marked_envDir: "marked r i W d \<Longrightarrow> \<exists>n. lookup d (envDir r i) = Some n \<and> is_dir n"
proof -
  assume "marked r i W d"
  then have "has_parent d (markerPath r i)" by (auto simp: marked_def intro: lookup_some_parent)
  then show ?thesis by (auto simp: has_parent_def markerPath_eq)
qed

lemma removeDisk_marked:
  assumes "marked_last r i W (disk s)" "root s = r" "ws_path r i W" "text_path W" "text_path (livePath r i)"
  shows "wp (removeDisk i (path_text W)) (\<lambda>_. gone r i W)
     (\<lambda>_ t. marked r i W (disk t) \<or> cleared r i W t) s"
proof -
  let ?J = "\<lambda>t. marked_last r i W (disk t)"
  have "wp (deleteSubvolumes (removed_paths r i (path_text W) snaps)) (\<lambda>_. wp (removeAll (envDir r i))
      (\<lambda>_. gone r i W) (\<lambda>_ t. marked r i W (disk t) \<or> cleared r i W t))
      (\<lambda>_ t. marked r i W (disk t) \<or> cleared r i W t) (tick s)" for snaps
  proof -
    let ?ps = "removed_paths r i (path_text W) snaps"
    have W: "W \<in> set ?ps" unfolding set_removed_paths [OF assms(4,5)] by simp
    have "keeps ?J (deleteSubvolumes ?ps)"
      by (intro keeps_deleteSubvolumes tick_inv_disk removal_inv_marked_last removed_below [OF assms(3-5)])
    then have "wp (deleteSubvolumes ?ps) (\<lambda>_. ?J) (\<lambda>_. ?J) (tick s)"
      by (rule keeps_wpI) (simp add: assms(1))
    from wp_conj [OF this deleteSubvolumes_done] show ?thesis
      by (rule wp_mono) (use W in \<open>auto intro!: removeAll_marked dest: marked_last_marked\<close>)
  qed
  then show ?thesis
    using marked_last_marked [OF assms(1)] assms(2)
    by (auto simp: removeDisk_def readDir_def wp_bind wp_gets wp_sys_read wp_case_sum wp_case_errno wp_ret wp_raise
        split: option.split sum.split errno.split)
qed

lemma clearLeftovers_marked:
  assumes "marked_last r i W (disk s)" "root s = r" "ws_path r i W" "text_path W" "text_path (livePath r i)"
  shows "wp (clearLeftovers i) (\<lambda>_. gone r i W) (\<lambda>_ t. marked r i W (disk t) \<or> cleared r i W t) s"
proof -
  have m: "marked r i W (disk s)" using assms(1) by (rule marked_last_marked)
  obtain n where n: "lookup (disk s) (envDir r i) = Some n" using marked_envDir [OF m] by blast
  have "wp (removeDisk i (path_text W)) (\<lambda>_. gone r i W)
      (\<lambda>_ t. marked r i W (disk t) \<or> cleared r i W t) (tick (tick s))"
    by (rule removeDisk_marked) (use assms in simp_all)
  then show ?thesis
    using m assms(2)
    by (auto simp: clearLeftovers_def lstat_def readFile_def wp_bind wp_gets wp_sys_read wp_case_sum wp_case_errno
        wp_raise stat_at_lookup [OF n] marked_read [OF m] trim_path_text [OF assms(4)] split: option.split)
qed

lemma prefix_is_dir:
  assumes "lookup d p = Some n" "is_dir n" "prefix q p"
  shows "\<exists>m. lookup d q = Some m \<and> is_dir m"
proof (cases "q = p")
  case False
  with assms(3) obtain z where "p = q @ z" "z \<noteq> []" by (auto simp: prefix_def)
  then show ?thesis using assms(1) by (cases z) (auto simp: lookup_append lookup_cons is_dir_def
        split: option.splits node.splits)
qed (use assms in blast)

lemma fs_mkdir_exists:
  assumes "lookup d p = Some n" "is_dir n" "q \<in> set (tl (prefixes p))"
  shows "fs_mkdir m q d = Inr d"
proof -
  have "prefix q p" using assms(3) by (metis in_set_prefixes list.set_sel(2) prefixes.simps(1) tl_Nil empty_iff list.set(1))
  from prefix_is_dir [OF assms(1,2) this] show ?thesis by (auto simp: fs_mkdir_def stat_at_lookup)
qed

lemma mkdirAll_exists:
  assumes "lookup (disk s) p = Some n" "is_dir n"
  shows "wp (mkdirAll m p) (\<lambda>_ t. disk t = disk s) (\<lambda>_ t. disk t = disk s) s"
proof -
  have "keeps (\<lambda>t. disk t = disk s) (mkdirAll m p)"
    unfolding mkdirAll_def using fs_mkdir_exists [OF assms]
    by (intro keeps_rules tick_inv_disk) auto
  then show ?thesis by (rule keeps_wpI) simp
qed

lemma mkdirAll_calm:
  assumes "calm s" "lookup (disk s) p = Some n" "is_dir n"
  shows "wp (mkdirAll m p) (\<lambda>_ t. calm t \<and> disk t = disk s) (\<lambda>_ _. False) s"
proof -
  have "wp (for_each (\<lambda>q. ok (sys_write (fs_mkdir m q))) qs) (\<lambda>_ t. calm t \<and> disk t = disk s) (\<lambda>_ _. False) t"
    if "calm t" "disk t = disk s" "\<forall>q\<in>set qs. fs_mkdir m q (disk s) = Inr (disk s)" for qs t
    using that by (induction qs arbitrary: t) (simp_all add: wp_rules calmD)
  then show ?thesis unfolding mkdirAll_def using assms(1) fs_mkdir_exists [OF assms(2,3)] by blast
qed

text \<open>An environment as \<open>Create\<close> leaves it, with its row \<open>e\<close>: no marker.\<close>

definition deletable :: "store \<Rightarrow> string \<Rightarrow> env_row \<Rightarrow> bool" where
  "deletable s i e \<longleftrightarrow>
     CheckEnvID i \<and> q_Env i (db s) = Some e \<and>
     ws_path (root s) i (eWorkspace e) \<and> text_path (eWorkspace e) \<and> text_path (livePath (root s) i) \<and>
     tidy (root s) i (eWorkspace e) (disk s) \<and>
     lookup (disk s) (envDir (root s) i) \<noteq> None \<and> lookup (disk s) (markerPath (root s) i) = None"

text \<open>
  Where a delete can stop: the row is there and the disk is whole but for a marker; or the row is
  gone, and the marker is there, or nothing that counts as data is.
\<close>

definition resumable :: "path \<Rightarrow> string \<Rightarrow> env_row \<Rightarrow> store \<Rightarrow> bool" where
  "resumable r i e t \<longleftrightarrow>
     root t = r \<and> tidy r i (eWorkspace e) (disk t) \<and>
     (q_Env i (db t) = Some e \<and> lookup (disk t) (envDir r i) \<noteq> None \<and>
        (\<forall>n. lookup (disk t) (markerPath r i) = Some n \<longrightarrow> is_regular n) \<or>
      q_Env i (db t) = None \<and>
        (marked r i (eWorkspace e) (disk t) \<or> cleared r i (eWorkspace e) t \<or> gone r i (eWorkspace e) t))"

definition put_marker :: "attr \<Rightarrow> path \<Rightarrow> string \<Rightarrow> path \<Rightarrow> node \<Rightarrow> node" where
  "put_marker a r i W d = upd (markerPath r i) (Some (File a (path_text W))) d"

lemma upd_fresh_last:
  "x \<notin> fst ` set es \<Longrightarrow> upd [x] (Some n) (Dir a k es) = Dir a k (es @ [(x, n)])"
  by (simp add: update_nonempty) (induction es; auto)

lemma put_marker_last:
  assumes "lookup d (envDir r i) = Some n" "is_dir n" "lookup d (markerPath r i) = None"
  shows "marked_last r i W (put_marker b r i W d)"
proof -
  obtain a k es where n: "n = Dir a k es" using assms(2) by (rule is_dirE)
  have "''incomplete'' \<notin> fst ` set es"
    using assms(1,3) by (auto simp: n markerPath_eq lookup_append map_of_eq_None_iff split: option.splits)
  then show ?thesis
    using assms(1) unfolding marked_last_def put_marker_def markerPath_eq
    by (auto simp: lookup_upd_above n upd_fresh_last simp del: upd.simps)
qed

lemma stat_ok_upd_file:
  assumes "stat_ok p d" "q \<parallel> p"
  shows "stat_ok p (upd q v d)"
proof (cases "q = []")
  case False
  show ?thesis unfolding stat_ok_iff
  proof (intro allI impI)
    fix z n assume z: "strict_prefix z p" and n: "lookup (upd q v d) z = Some n"
    from z assms(2) have "\<not> prefix q z" by (meson parallel_def prefix_order.trans strict_prefixE' prefix_order.less_imp_le)
    then consider "q \<parallel> z" | y where "q = z @ y" "y \<noteq> []"
      by (auto simp: parallel_def prefix_def) (metis append_Nil2)
    then show "is_dir n"
    proof cases
      case 1
      with n z assms(1) show ?thesis by (auto simp: lookup_upd_parallel stat_ok_iff)
    next
      case 2
      with n z assms(1) show ?thesis by (auto simp: lookup_upd_above stat_ok_iff)
    qed
  qed
qed (use assms in simp)

lemma tidy_put_marker:
  assumes "tidy r i W d" "ws_path r i W"
  shows "tidy r i W (put_marker b r i W d)"
proof -
  have par: "markerPath r i \<parallel> W" "markerPath r i \<parallel> snapsDir r i"
    using ws_path_parallel(8) [OF assms(2)] by (auto simp: path_simps)
  have "stat_ok (envDir r i) (put_marker b r i W d)"
    unfolding stat_ok_iff
  proof (intro allI impI)
    fix z n assume z: "strict_prefix z (envDir r i)" and n: "lookup (put_marker b r i W d) z = Some n"
    then obtain y where y: "envDir r i = z @ y" by (auto simp: strict_prefix_def prefix_def)
    then have "markerPath r i = z @ (y @ [''incomplete''])" by (simp add: markerPath_eq)
    with n z assms(1) show "is_dir n" by (auto simp: put_marker_def lookup_upd_above tidy_def stat_ok_iff)
  qed
  then show ?thesis
    using assms(1) par
    by (auto simp: tidy_def deletable_path_def put_marker_def lookup_upd_parallel stat_ok_upd_file
        markerPath_eq lookup_upd_above)
qed

lemma writeMarker_outcome:
  assumes "tidy r i W (disk s)" "root s = r" "lookup (disk s) (envDir r i) \<noteq> None"
    "lookup (disk s) (markerPath r i) = None"
  shows "wp (writeMarker i (path_text W)) (\<lambda>_ t. disk t = put_marker root_attr r i W (disk s)) (\<lambda>_ t. disk t = disk s) s"
proof -
  obtain n where n: "lookup (disk s) (envDir r i) = Some n" "is_dir n"
    using assms(1,3) by (auto simp: tidy_def)
  then have parent: "has_parent (disk s) (markerPath r i)"
    by (auto simp: has_parent_def markerPath_eq elim!: is_dirE)
  then have w: "fs_write (path_text W) (markerPath r i) (disk s) = Inr (put_marker root_attr r i W (disk s))"
    using assms(4) by (simp add: fs_write_def stat_at_parent put_marker_def)
  have "wp (mkdirAll 493 (envDir r i)) (\<lambda>_. wp (writeFile (markerPath r i) (path_text W))
      (\<lambda>_ t. disk t = put_marker root_attr r i W (disk s)) (\<lambda>_ t. disk t = disk s)) (\<lambda>_ t. disk t = disk s) s"
    by (rule wp_mono [OF mkdirAll_exists [OF n]])
      (use w in \<open>auto simp: writeFile_def wp_rules split: option.split\<close>)
  then show ?thesis using assms(2) by (simp add: writeMarker_def wp_bind wp_gets)
qed

text \<open>What marking and clearing leave of the index and the settings.\<close>

definition same_rows :: "path \<Rightarrow> index \<Rightarrow> store \<Rightarrow> bool" where
  "same_rows r x t \<longleftrightarrow> root t = r \<and> db t = x"

lemma tick_inv_same_rows [simp]: "tick_inv (same_rows r x)"
  by (simp add: tick_inv_def same_rows_def)

lemma same_rows_disk [simp]: "same_rows r x (t\<lparr>disk := d\<rparr>) = same_rows r x t"
  by (simp add: same_rows_def)

lemma keeps_writeMarker_rows: "keeps (same_rows r x) (writeMarker i w)"
  unfolding writeMarker_def mkdirAll_def writeFile_def by (intro keeps_rules) simp_all

lemma keeps_removeAll:
  assumes "tick_inv I" "\<And>q. removal_inv (p @ q) I" "p \<noteq> []"
  shows "keeps I (removeAll p)"
  unfolding removeAll_def using assms by (intro keeps_rules) (auto simp: removal_inv_def)

lemma keeps_clearLeftovers:
  assumes "tick_inv I" "\<And>q. removal_inv q I"
  shows "keeps I (clearLeftovers i)"
  unfolding clearLeftovers_def removeDisk_def holdsData_def holds_entries_def using assms
  by (intro keeps_rules keeps_deleteSubvolumes keeps_removeAll) auto

lemma clear_rows_tidy:
  assumes "same_rows r x s" "tidy r i W (disk s)"
  shows "wp (clearLeftovers j) (\<lambda>_ t. same_rows r x t \<and> tidy r i W (disk t))
    (\<lambda>_ t. same_rows r x t \<and> tidy r i W (disk t)) s"
  using removal_inv_tidy assms
  by (intro keeps_wpI keeps_clearLeftovers) (auto simp: tick_inv_def removal_inv_def same_rows_def)

lemma Delete_marked_outcome:
  assumes "marked_last r i (eWorkspace e) (disk s)" "root s = r" "ws_path r i (eWorkspace e)"
    "text_path (eWorkspace e)" "text_path (livePath r i)" "tidy r i (eWorkspace e) (disk s)"
    "q_Env i (db s) = None"
  shows "wp (clearLeftovers i) (\<lambda>_ t. resumable r i e t \<and> q_Env i (db t) = None \<and> gone r i (eWorkspace e) t)
    (\<lambda>_. resumable r i e) s"
proof -
  have "wp (clearLeftovers i) (\<lambda>_ t. same_rows r (db s) t \<and> tidy r i (eWorkspace e) (disk t))
      (\<lambda>_ t. same_rows r (db s) t \<and> tidy r i (eWorkspace e) (disk t)) s"
    by (rule clear_rows_tidy) (use assms in \<open>simp_all add: same_rows_def\<close>)
  from wp_conj [OF this clearLeftovers_marked [OF assms(1-5)]] show ?thesis
    by (rule wp_mono) (use assms(7) in \<open>auto simp: resumable_def same_rows_def\<close>)
qed

lemma Delete_outcome:
  assumes "deletable s i e"
  shows "wp (Delete i)
    (\<lambda>_ t. resumable (root s) i e t \<and> q_Env i (db t) = None \<and> gone (root s) i (eWorkspace e) t)
    (\<lambda>_. resumable (root s) i e) s" (is "wp _ ?Q ?E _")
proof -
  let ?r = "root s" and ?W = "eWorkspace e"
  note d = assms [unfolded deletable_def]
  obtain n where n: "lookup (disk s) (envDir ?r i) = Some n" "is_dir n"
    using d by (auto simp: tidy_def)
  have last: "marked_last ?r i ?W (put_marker root_attr ?r i ?W (disk s))"
    using d by (intro put_marker_last [OF n]) simp
  have tidy: "tidy ?r i ?W (put_marker root_attr ?r i ?W (disk s))" using d by (intro tidy_put_marker) simp_all
  have same: "resumable ?r i e t" if "disk t = disk s" "same_rows ?r (db s) t" for t
    using that d by (auto simp: resumable_def same_rows_def)
  have put: "resumable ?r i e t" if "disk t = put_marker root_attr ?r i ?W (disk s)" "same_rows ?r (db s) t" for t
    using that d tidy marked_last_marked [OF last] marked_envDir [OF marked_last_marked [OF last]]
    by (auto simp: resumable_def same_rows_def marked_def is_regular_def)
  have clear: "wp (clearLeftovers i) ?Q ?E t"
    if "disk t = put_marker root_attr ?r i ?W (disk s)" "root t = ?r" "db t = q_DeleteEnv i (db s)" for t
    by (rule Delete_marked_outcome) (use that last tidy d in \<open>simp_all add: index_laws\<close>)
  have row: "wp (bind_s (step ''delete: marked'') (\<lambda>_. bind_s (sql_exec (\<lambda>x. Some (q_DeleteEnv i x))) (\<lambda>_.
      step ''delete: unindexed''))) (\<lambda>_. wp (clearLeftovers i) ?Q ?E) ?E t"
    if t: "disk t = put_marker root_attr ?r i ?W (disk s)" "same_rows ?r (db s) t" for t
  proof -
    have "resumable ?r i e ((tick t)\<lparr>db := q_DeleteEnv i (db s)\<rparr>)"
      using t tidy marked_last_marked [OF last] by (simp add: resumable_def same_rows_def index_laws)
    then show ?thesis
      using put [OF t] put [of "tick t"] clear [of "(tick t)\<lparr>db := q_DeleteEnv i (db s)\<rparr>"] t
      by (simp add: wp_bind wp_step wp_sql_exec same_rows_def split: option.split)
  qed
  have "wp (writeMarker i (path_text ?W)) (\<lambda>_. wp (bind_s (step ''delete: marked'') (\<lambda>_.
      bind_s (sql_exec (\<lambda>x. Some (q_DeleteEnv i x))) (\<lambda>_. step ''delete: unindexed'')))
      (\<lambda>_. wp (clearLeftovers i) ?Q ?E) ?E) ?E (tick s)"
  proof (rule wp_mono [OF wp_conj [OF writeMarker_outcome [of ?r i ?W "tick s"]
        keeps_wpI [OF keeps_writeMarker_rows [of ?r "db s"], of "tick s"]]])
  qed (use d row same in \<open>simp_all add: same_rows_def\<close>)
  then show ?thesis
    using d same [of "tick s"]
    by (simp add: Delete_def wp_bind wp_try wp_Get wp_case_sum wp_if wp_raise env_of_def same_rows_def
        split: option.split)
qed

section \<open>The next delete finishes it\<close>

lemma deletable_below:
  assumes "lookup d (envDir r i) = Some n" "is_dir n" "volumeName [x] 4088"
  shows "deletable_path d (envDir r i @ [x])"
proof -
  have "has_parent d (envDir r i @ [x])" using assms by (auto simp: has_parent_def elim!: is_dirE)
  then show ?thesis using assms(3) by (simp add: deletable_path_def stat_ok_parent volumeName_def)
qed

lemma fixed_names: "volumeName [''live''] 4088" "volumeName [''live.new''] 4088" "volumeName [''adopt.new''] 4088"
  by (simp_all add: volumeName_def char_of_def)

lemma deletable_own:
  assumes "lookup d (envDir r i) = Some n" "is_dir n"
  shows "deletable_path d (livePath r i)" "deletable_path d (restorePath r i)" "deletable_path d (adoptPath r i)"
  using deletable_below [OF assms fixed_names(1)] deletable_below [OF assms fixed_names(2)]
    deletable_below [OF assms fixed_names(3)]
  by (simp_all add: pool_paths)

lemma deletable_snap:
  assumes "lookup d (snapsDir r i) = Some n" "names_ok n" "x \<in> fst ` set (entries n)"
  shows "deletable_path d (snapPath r i x)"
proof -
  have "snapPath r i x = snapsDir r i @ [x]" by (simp add: pool_paths)
  moreover have "has_parent d (snapsDir r i @ [x])" using assms by (auto simp: has_parent_def names_ok_def elim!: is_dirE)
  ultimately show ?thesis using assms(2,3) by (auto simp: deletable_path_def names_ok_def stat_ok_parent volumeName_def)
qed

lemma removeAll_env_calm:
  assumes "calm t" "stat_ok (envDir r i) (disk t)" "b \<longrightarrow> not_subvol W t"
  shows "wp (removeAll (envDir r i)) (\<lambda>_ t. lookup (disk t) (envDir r i) = None \<and> (b \<longrightarrow> not_subvol W t)) (\<lambda>_ _. False) t"
proof -
  have "keeps (\<lambda>t. b \<longrightarrow> not_subvol W t) (removeAll (envDir r i))"
    using removal_inv_not_subvol tick_inv_not_subvol [of W]
    by (intro keeps_removeAll) (simp_all add: tick_inv_def removal_inv_def)
  from wp_total [OF removeAll_calm [OF assms(1,2)] keeps_wpI [OF this assms(3)]]
  show ?thesis by (rule wp_mono) simp_all
qed

lemma removeDisk_calm:
  assumes "calm s" "root s = r" "lookup (disk s) (envDir r i) = Some n" "is_dir n"
    and "\<forall>m. lookup (disk s) (snapsDir r i) = Some m \<longrightarrow> names_ok m"
    and "w = [] \<or> (deletable_path (disk s) W \<and> text_path W \<and> w = path_text W)"
    and "text_path (livePath r i)"
  shows "wp (removeDisk i w) (\<lambda>_ t. lookup (disk t) (envDir r i) = None \<and> (w \<noteq> [] \<longrightarrow> not_subvol W t)) (\<lambda>_ _. False) s"
proof -
  let ?Q = "\<lambda>_ t. lookup (disk t) (envDir r i) = None \<and> (w \<noteq> [] \<longrightarrow> not_subvol W t)"
  have del: "wp (deleteSubvolumes (removed_paths r i w snaps)) (\<lambda>_. wp (removeAll (envDir r i)) ?Q (\<lambda>_ _. False))
      (\<lambda>_ _. False) (tick s)"
    if snaps: "\<forall>x\<in>fst ` set snaps. deletable_path (disk s) (snapPath r i x)" for snaps
  proof -
    let ?ps = "removed_paths r i w snaps"
    have ps: "\<forall>p\<in>set ?ps. deletable_path (disk s) p"
      using snaps deletable_own [OF assms(3,4)] assms(6) by (auto simp: removed_paths_def Clean_text_path)
    have W: "w \<noteq> [] \<Longrightarrow> W \<in> set ?ps" using assms(6) set_removed_paths [OF _ assms(7), of W] by auto
    have "wp (deleteSubvolumes ?ps) (\<lambda>_ t. stat_ok (envDir r i) (disk t)) (\<lambda>_ t. stat_ok (envDir r i) (disk t)) (tick s)"
      using assms(3) by (intro keeps_wpI keeps_deleteSubvolumes removal_inv_stat_ok) (auto simp: tick_inv_def stat_ok_lookup)
    from wp_total [OF deleteSubvolumes_calm [of "tick s" ?ps] this]
    have "wp (deleteSubvolumes ?ps) (\<lambda>_ t. (calm t \<and> (\<forall>p\<in>set ?ps. not_subvol p t)) \<and> stat_ok (envDir r i) (disk t))
        (\<lambda>_ _. False) (tick s)" using ps assms(1) by simp
    then show ?thesis
    proof (rule wp_mono)
      fix t assume t: "(calm t \<and> (\<forall>p\<in>set ?ps. not_subvol p t)) \<and> stat_ok (envDir r i) (disk t)"
      show "wp (removeAll (envDir r i)) ?Q (\<lambda>_ _. False) t"
        by (rule removeAll_env_calm) (use t W in blast)+
    qed
  qed
  show ?thesis
  proof (cases "lookup (disk s) (snapsDir r i)")
    case None
    have "has_parent (disk s) (snapsDir r i)" using assms(3,4) by (auto simp: has_parent_def pool_paths butlast_append elim!: is_dirE)
    with None have "fs_readDir (snapsDir r i) (disk s) = Inl ENOENT" by (simp add: fs_readDir_def stat_at_parent)
    then show ?thesis using assms(1,2) del [of "[]"] by (simp add: removeDisk_def readDir_def wp_bind wp_gets wp_sys_read wp_ret calmD)
  next
    case (Some m)
    with assms(5) have m: "names_ok m" by blast
    let ?es = "map (\<lambda>x. (x, the (map_of (entries m) x))) (sort (remdups (map fst (entries m))))"
    have "fs_readDir (snapsDir r i) (disk s) = Inr ?es"
      using Some m by (simp add: fs_readDir_def stat_at_lookup names_ok_def)
    moreover have "\<forall>x\<in>fst ` set ?es. deletable_path (disk s) (snapPath r i x)"
      using deletable_snap [OF Some m] by auto
    ultimately show ?thesis
      using assms(1,2) del [of ?es] by (simp add: removeDisk_def readDir_def wp_bind wp_gets wp_sys_read wp_ret calmD)
  qed
qed

lemma clearLeftovers_calm:
  assumes "calm s" "root s = r" "tidy r i W (disk s)" "text_path W" "text_path (livePath r i)"
    and "marked r i W (disk s) \<or> cleared r i W s \<or> gone r i W s"
  shows "wp (clearLeftovers i) (\<lambda>_. gone r i W) (\<lambda>_ _. False) s"
proof (cases "lookup (disk s) (envDir r i)")
  case None
  then have "stat_at (disk s) (envDir r i) = Inl ENOENT"
    using assms(3) stat_at_Inr [of "disk s" "envDir r i"] by (auto simp: tidy_def stat_ok_def split: sum.splits)
  moreover have "not_subvol W s"
    using assms(6) None marked_envDir [of r i W "disk s"] by (auto simp: cleared_def gone_def)
  ultimately show ?thesis
    using assms(1,2) None by (simp add: clearLeftovers_def lstat_def wp_rules calmD gone_def not_subvol_def)
next
  case (Some n)
  have n: "is_dir n" using assms(3) Some by (simp add: tidy_def)
  have snaps: "\<forall>m. lookup (disk s) (snapsDir r i) = Some m \<longrightarrow> names_ok m" using assms(3) by (simp add: tidy_def)
  have W: "deletable_path (disk s) W" using assms(3) by (simp add: tidy_def)
  note unfold = clearLeftovers_def lstat_def readFile_def wp_bind wp_gets wp_sys_read wp_case_sum wp_case_errno
    wp_raise stat_at_lookup [OF Some]
  show ?thesis
  proof (cases "marked r i W (disk s)")
    case True
    have "wp (removeDisk i (path_text W)) (\<lambda>_. gone r i W) (\<lambda>_ _. False) (tick (tick s))"
      by (rule wp_mono [OF removeDisk_calm [of "tick (tick s)" r i n "path_text W" W]])
        (use assms Some n snaps W in \<open>simp_all add: gone_def\<close>)
    then show ?thesis
      using assms(1,2) by (simp add: unfold calmD marked_read [OF True] trim_path_text [OF assms(4)])
  next
    case False
    with assms(6) Some have c: "cleared r i W s" by (auto simp: gone_def)
    have absent: "stat_at (disk s) (envDir r i @ [y]) = Inl ENOENT" for y
    proof (rule stat_at_parent)
      show "has_parent (disk s) (envDir r i @ [y])" using Some n by (auto simp: has_parent_def elim!: is_dirE)
    qed (use c in \<open>simp add: cleared_def\<close>)
    have "wp (removeDisk i []) (\<lambda>_ t. lookup (disk t) (envDir r i) = None) (\<lambda>_ _. False) ((tick ^^ 5) s)"
      by (rule wp_mono [OF removeDisk_calm [of "(tick ^^ 5) s" r i n "[]" W]])
        (use assms Some n snaps in \<open>simp_all add: numeral_eq_Suc\<close>)
    then have "wp (clearLeftovers i) (\<lambda>_ t. lookup (disk t) (envDir r i) = None) (\<lambda>_ _. False) s"
      using assms(1,2) absent
      by (simp add: unfold calmD markerPath_eq fs_read_def holdsData_def holds_entries_def readDir_def fs_readDir_def
          wp_ret wp_if numeral_eq_Suc)
    from wp_total [OF this keeps_wpI [OF keeps_clearLeftovers [of "not_subvol W"], of s i]]
    show ?thesis
      by (rule wp_mono) (use c removal_inv_not_subvol in \<open>auto simp: gone_def cleared_def\<close>)
  qed
qed

lemma writeMarker_calm:
  assumes "calm s" "root s = r" "lookup (disk s) (envDir r i) = Some n" "is_dir n"
    and "\<forall>m. lookup (disk s) (markerPath r i) = Some m \<longrightarrow> is_regular m"
  shows "wp (writeMarker i (path_text W)) (\<lambda>_ t. calm t \<and> (\<exists>a. disk t = put_marker a r i W (disk s))) (\<lambda>_ _. False) s"
proof -
  have parent: "has_parent (disk s) (markerPath r i)"
    using assms(3,4) by (auto simp: has_parent_def markerPath_eq elim!: is_dirE)
  have w: "\<exists>a. fs_write (path_text W) (markerPath r i) (disk s) = Inr (put_marker a r i W (disk s))"
  proof (cases "lookup (disk s) (markerPath r i)")
    case None
    then show ?thesis using parent by (auto simp: fs_write_def stat_at_parent put_marker_def)
  next
    case (Some m)
    with assms(5) obtain a c where "m = File a c" by (cases m) (auto simp: is_regular_def)
    with Some show ?thesis by (auto simp: fs_write_def stat_at_lookup put_marker_def)
  qed
  have "wp (mkdirAll 493 (envDir r i)) (\<lambda>_. wp (writeFile (markerPath r i) (path_text W))
      (\<lambda>_ t. calm t \<and> (\<exists>a. disk t = put_marker a r i W (disk s))) (\<lambda>_ _. False)) (\<lambda>_ _. False) s"
    by (rule wp_mono [OF mkdirAll_calm [OF assms(1,3,4)]])
      (use w in \<open>auto simp: writeFile_def wp_rules calmD\<close>)
  then show ?thesis using assms(2) by (simp add: writeMarker_def wp_bind wp_gets)
qed

lemma marked_put_marker:
  assumes "lookup d (envDir r i) = Some n" "is_dir n"
  shows "marked r i W (put_marker a r i W d)"
proof -
  have "has_parent d (markerPath r i)" using assms by (auto simp: has_parent_def markerPath_eq elim!: is_dirE)
  then show ?thesis by (simp add: marked_def put_marker_def lookup_upd_eq)
qed

lemma Delete_calm:
  assumes "calm s" "resumable r i e s" "CheckEnvID i" "eID e = i" "ws_path r i (eWorkspace e)"
    "text_path (eWorkspace e)" "text_path (livePath r i)"
  shows "wp (Delete i) (\<lambda>_ t. gone r i (eWorkspace e) t \<and> q_Env i (db t) = None) (\<lambda>_ _. False) s"
    (is "wp _ ?Q _ _")
proof -
  let ?W = "eWorkspace e"
  have root: "root s = r" and tidy: "tidy r i ?W (disk s)" using assms(2) by (simp_all add: resumable_def)
  have clear: "wp (clearLeftovers i) ?Q (\<lambda>_ _. False) t"
    if "calm t" "root t = r" "tidy r i ?W (disk t)" "q_Env i (db t) = None"
      "marked r i ?W (disk t) \<or> cleared r i ?W t \<or> gone r i ?W t" for t
  proof -
    have "wp (clearLeftovers i) (\<lambda>_ u. same_rows r (db t) u \<and> tidy r i ?W (disk u))
      (\<lambda>_ u. same_rows r (db t) u \<and> tidy r i ?W (disk u)) t"
      by (rule clear_rows_tidy) (use that in \<open>simp_all add: same_rows_def\<close>)
    from wp_total [OF clearLeftovers_calm [OF that(1-3) assms(6,7) that(5)] this]
    show ?thesis by (rule wp_mono) (use that(4) in \<open>auto simp: same_rows_def\<close>)
  qed
  show ?thesis
  proof (cases "q_Env i (db s)")
    case None
    then have "marked r i ?W (disk s) \<or> cleared r i ?W s \<or> gone r i ?W s" using assms(2) by (simp add: resumable_def)
    then have "marked r i ?W (disk (tick s)) \<or> cleared r i ?W (tick s) \<or> gone r i ?W (tick s)"
      by (simp add: cleared_def gone_def not_subvol_def)
    then have "wp (clearLeftovers i) ?Q (\<lambda>_ _. False) (tick s)"
      using assms(1) root tidy None by (intro clear) simp_all
    then show ?thesis
      using assms(1,3) None by (simp add: Delete_def wp_bind wp_try wp_Get wp_case_sum wp_if wp_ret calmD)
  next
    case (Some e')
    then have e: "q_Env i (db s) = Some e" and mk: "\<forall>m. lookup (disk s) (markerPath r i) = Some m \<longrightarrow> is_regular m"
      using assms(2) by (auto simp: resumable_def)
    obtain n where n: "lookup (disk s) (envDir r i) = Some n" "is_dir n"
      using assms(2) Some by (auto simp: resumable_def tidy_def)
    have step: "wp (clearLeftovers i) ?Q (\<lambda>_ _. False) ((tick t)\<lparr>db := q_DeleteEnv i (db t)\<rparr>)"
      if "calm t" "disk t = put_marker a r i ?W (disk s)" "same_rows r (db s) t" for t a
      by (rule clear) (use that tidy_put_marker [OF tidy assms(5), of a] marked_put_marker [OF n, of ?W a] in
          \<open>simp_all add: same_rows_def index_laws\<close>)
    have "wp (writeMarker i (path_text ?W)) (\<lambda>_. wp (bind_s (step ''delete: marked'') (\<lambda>_.
      bind_s (sql_exec (\<lambda>x. Some (q_DeleteEnv i x))) (\<lambda>_. step ''delete: unindexed'')))
      (\<lambda>_. wp (clearLeftovers i) ?Q (\<lambda>_ _. False)) (\<lambda>_ _. False)) (\<lambda>_ _. False) (tick s)"
      by (rule wp_mono [OF wp_total [OF writeMarker_calm [of "tick s" r i n]
          keeps_wpI [OF keeps_writeMarker_rows [of r "db s"]]]])
        (use assms(1) root n mk step in \<open>auto simp: same_rows_def wp_bind wp_step wp_sql_exec calmD\<close>)
    then show ?thesis
      using assms(1,3) e by (simp add: Delete_def wp_bind wp_try wp_Get wp_case_sum env_of_def calmD)
  qed
qed

lemma resumable_world: "resumable r i e (t\<lparr>wld := w\<rparr>) = resumable r i e t"
  by (simp add: resumable_def cleared_def gone_def not_subvol_def)

text \<open>
  C7. Deleting is crash-safe. Wherever a delete of an environment stops, and whatever made it stop,
  running \<open>Delete\<close> again when nothing fails succeeds, and then the environment has no row and no
  directory, and its workspace is no longer a subvolume. A delete that returns no error has done
  all of that itself.
\<close>

theorem Delete_recovers:
  assumes "deletable s i e" "Delete i s = (res, t)" "calm (t\<lparr>wld := w\<rparr>)"
  shows "(res = Inr () \<longrightarrow> gone (root s) i (eWorkspace e) t \<and> q_Env i (db t) = None) \<and>
    (\<exists>v. Delete i (t\<lparr>wld := w\<rparr>) = (Inr (), v) \<and> gone (root s) i (eWorkspace e) v \<and> q_Env i (db v) = None)"
proof -
  have out: "resumable (root s) i e t \<and>
      (res = Inr () \<longrightarrow> gone (root s) i (eWorkspace e) t \<and> q_Env i (db t) = None)"
    using Delete_outcome [OF assms(1)] assms(2) by (cases res) (auto simp: wp_def)
  have "eID e = i" using assms(1) by (auto simp: deletable_def dest: q_Env_eID)
  then have "wp (Delete i) (\<lambda>_ t. gone (root s) i (eWorkspace e) t \<and> q_Env i (db t) = None) (\<lambda>_ _. False)
      (t\<lparr>wld := w\<rparr>)"
    using out assms(1) by (intro Delete_calm assms(3)) (simp_all add: resumable_world deletable_def)
  then show ?thesis using out by (auto simp: wp_def split: prod.splits sum.splits)
qed

lemma sample_deletable: "deletable sample_store ''dev'' sample_row"
  by (simp add: deletable_def sample_defs pool_paths q_Env_def ws_path_def text_path_def good_name_def is_space_def
      tidy_def deletable_path_def stat_ok_def volumeName_def names_ok_def CheckEnvID_def envIDPattern_def
      char_of_def lower_alnum_def is_lower_def is_digit_def less_eq_char_def)

theorem Delete_recovers_witness:
  "deletable sample_store ''dev'' sample_row \<and>
   gone [''pool''] ''dev'' (eWorkspace sample_row) (snd (Delete ''dev'' ((snd (Delete ''dev'' sample_store))\<lparr>wld := sample_world\<rparr>)))"
proof -
  have "calm ((snd (Delete ''dev'' sample_store))\<lparr>wld := sample_world\<rparr>)" by (simp add: calm_def sample_world_def)
  from Delete_recovers [OF sample_deletable _ this, of "fst (Delete ''dev'' sample_store)"]
  show ?thesis using sample_deletable by (auto simp: sample_store_def [THEN arg_cong, of root])
qed

section \<open>What a delete leaves alone\<close>

lemma keeps_removeDisk:
  assumes "tick_inv I" "\<And>s. I s \<Longrightarrow> root s = r" "\<And>p snaps. p \<in> set (removed_paths r i w snaps) \<Longrightarrow> removal_inv p I"
    and "\<And>q. removal_inv (envDir r i @ q) I"
  shows "keeps I (removeDisk i w)"
  unfolding removeDisk_def
  by (intro keeps_gets_root [of I r] keeps_rules keeps_deleteSubvolumes keeps_removeAll assms) simp_all

lemma clear_marked_frame:
  assumes "marked r i W (disk s)" "root s = r" "ws_path r i W" "text_path W" "text_path (livePath r i)"
    and "lookup (disk s) q = v" "q \<parallel> envDir r i" "q \<parallel> W"
  shows "wp (clearLeftovers i) (\<lambda>_ t. lookup (disk t) q = v) (\<lambda>_ t. lookup (disk t) q = v) s"
proof -
  let ?I = "\<lambda>t. root t = r \<and> lookup (disk t) q = v"
  have below: "envDir r i @ z \<parallel> q" for z
    using assms(7) by (metis parallel_append parallel_commute append_Nil2)
  have rem: "removal_inv p ?I" if "p \<parallel> q" for p
    using that by (simp add: removal_inv_def lookup_upd_parallel)
  have paths: "p \<parallel> q" if "p \<in> set (removed_paths r i (path_text W) snaps)" for p snaps
    using that below assms(8) unfolding set_removed_paths [OF assms(4,5)]
    by (auto simp: parallel_commute pool_paths)
  have "keeps ?I (removeDisk i (path_text W))"
    by (rule keeps_removeDisk [where r = r]) (use rem below paths in \<open>auto simp: tick_inv_def\<close>)
  then have "wp (removeDisk i (path_text W)) (\<lambda>_. ?I) (\<lambda>_. ?I) (tick (tick s))"
    by (rule keeps_wpI) (use assms(2,6) in simp)
  then have "wp (removeDisk i (path_text W)) (\<lambda>_ t. lookup (disk t) q = v) (\<lambda>_ t. lookup (disk t) q = v) (tick (tick s))"
    by (rule wp_mono) simp_all
  moreover obtain n where n: "lookup (disk s) (envDir r i) = Some n" using marked_envDir [OF assms(1)] by blast
  ultimately show ?thesis
    using assms(2,6)
    by (simp add: clearLeftovers_def lstat_def readFile_def wp_bind wp_gets wp_sys_read wp_case_sum wp_case_errno
        wp_raise stat_at_lookup [OF n] marked_read [OF assms(1)] trim_path_text [OF assms(4)] split: option.split)
qed

text \<open>
  Deleting an environment touches its own directory and its workspace only: every other place
  in the pool, in particular every other environment's directory and workspace, holds what it
  held, whatever fails on the way.
\<close>

theorem Delete_isolated:
  assumes "deletable s i e" "q \<parallel> envDir (root s) i" "q \<parallel> eWorkspace e"
  shows "lookup (disk (snd (Delete i s))) q = lookup (disk s) q"
proof -
  let ?r = "root s" and ?W = "eWorkspace e" and ?v = "lookup (disk s) q"
  let ?P = "\<lambda>t. lookup (disk t) q = ?v"
  note d = assms(1) [unfolded deletable_def]
  obtain n where n: "lookup (disk s) (envDir ?r i) = Some n" "is_dir n"
    using d by (auto simp: tidy_def)
  have "markerPath ?r i \<parallel> q"
    using assms(2) by (metis markerPath_eq parallel_append parallel_commute append_Nil2)
  then have put: "lookup (put_marker a ?r i ?W (disk s)) q = ?v" for a
    by (simp add: put_marker_def lookup_upd_parallel)
  have clear: "wp (clearLeftovers i) (\<lambda>_. ?P) (\<lambda>_. ?P) t"
    if "disk t = put_marker root_attr ?r i ?W (disk s)" "root t = ?r" for t
    by (rule clear_marked_frame [of ?r i ?W]) (use that d put assms marked_put_marker [OF n] in simp_all)
  have "wp (writeMarker i (path_text ?W)) (\<lambda>_. wp (bind_s (step ''delete: marked'') (\<lambda>_.
      bind_s (sql_exec (\<lambda>x. Some (q_DeleteEnv i x))) (\<lambda>_. step ''delete: unindexed'')))
      (\<lambda>_. wp (clearLeftovers i) (\<lambda>_. ?P) (\<lambda>_. ?P)) (\<lambda>_. ?P)) (\<lambda>_. ?P) (tick s)"
    by (rule wp_mono [OF wp_conj [OF writeMarker_outcome [of ?r i ?W "tick s"]
          keeps_wpI [OF keeps_writeMarker_rows [of ?r "db s"], of "tick s"]]])
      (use d clear put in \<open>auto simp: same_rows_def wp_bind wp_step wp_sql_exec split: option.split\<close>)
  then have "wp (Delete i) (\<lambda>_. ?P) (\<lambda>_. ?P) s"
    using d by (simp add: Delete_def wp_bind wp_try wp_Get wp_case_sum wp_if wp_raise env_of_def split: option.split)
  then show ?thesis by (simp only: wp_snd)
qed

theorem Delete_isolated_witness:
  "lookup (disk (snd (Delete ''dev'' sample_store))) [''pool'', ''worktrees''] = lookup sample_disk [''pool'', ''worktrees'']"
  using Delete_isolated [OF sample_deletable, of "[''pool'', ''worktrees'']"]
  by (simp add: sample_store_def [THEN arg_cong, of root] sample_store_def [THEN arg_cong, of disk]
      sample_row_def [THEN arg_cong, of eWorkspace] path_simps parallel_def)

end
