(* ===== verification/CreateSafety.thy ===== *)
theory CreateSafety
  imports CreateFrame DeleteSafety
begin

text \<open>
  Creating an environment: what a create that stops leaves, and what one that succeeds has made.
\<close>

lemma wp_bind_keeps:
  assumes "keeps I m" "I s" "\<And>x t. I t \<Longrightarrow> wp (f x) Q E t" "\<And>e t. I t \<Longrightarrow> E e t"
  shows "wp (bind_s m f) Q E s"
  unfolding wp_bind by (rule wp_mono [OF keeps_wpI [OF assms(1,2)]]) (use assms(3,4) in auto)

section \<open>The workspace is a subvolume\<close>

definition subvol_at :: "path \<Rightarrow> store \<Rightarrow> bool" where
  "subvol_at p s \<longleftrightarrow> (\<exists>n. lookup (disk s) p = Some n \<and> isSubvolume n)"

lemma tick_inv_subvol_at [simp]: "tick_inv (subvol_at p)"
  by (simp add: tick_inv_def subvol_at_def)

lemma isSubvolume_set_attr [simp]: "isSubvolume (set_attr f n) = isSubvolume n"
  by (cases n) (simp_all add: set_attr_def isSubvolume_def)

lemma write_inv_subvol_below: "q \<noteq> [] \<Longrightarrow> write_inv (p @ q) (subvol_at p)"
  by (auto simp: write_inv_def subvol_at_def lookup_upd_above)

lemma write_inv_subvol_parallel: "q \<parallel> p \<Longrightarrow> write_inv q (subvol_at p)"
  by (auto simp: write_inv_def subvol_at_def lookup_upd_parallel)

lemma keeps_set_attr_subvol:
  assumes "p \<noteq> []"
  shows "keeps (subvol_at p) (sys_write (fs_set_attr f p))"
proof (rule keeps_sys_write)
  fix s d assume "subvol_at p s" "fs_set_attr f p (disk s) = Inr d"
  then obtain n where n: "lookup (disk s) p = Some n" "isSubvolume n" and d: "d = upd p (Some (set_attr f n)) (disk s)"
    by (auto simp: subvol_at_def fs_set_attr_def stat_at_lookup)
  have "has_parent (disk s) p" using n(1) assms by (rule lookup_some_parent)
  then show "subvol_at p (s\<lparr>disk := d\<rparr>)" using n(2) by (simp add: subvol_at_def d lookup_upd_eq)
qed simp

lemma createSubvolume_done: "wp (createSubvolume p) (\<lambda>_. subvol_at p) (\<lambda>_ _. True) s"
  by (auto simp: createSubvolume_def wp_rules fs_new_subvol_def subvol_at_def lookup_upd_eq isSubvolume_def
      split: option.split sum.split if_splits)

lemma snapshotSubvolume_done: "wp (snapshotSubvolume src p b) (\<lambda>_. subvol_at p) (\<lambda>_ _. True) s"
proof -
  have "subvol_at p ((tick s)\<lparr>disk := d\<rparr>)" if "fs_snapshot src p b (disk s) = Inr d" for d
    using fs_snapshot_Inr [OF that] by (auto simp: subvol_at_def lookup_upd_eq isSubvolume_is_dir)
  then show ?thesis by (auto simp: snapshotSubvolume_def wp_rules split: option.split sum.split)
qed

text \<open>A first step that makes \<open>I\<close> true, and a rest that keeps it.\<close>

lemma wp_then_keeps:
  assumes "wp m (\<lambda>_. I) (\<lambda>_ _. True) s" "\<And>x. keeps I (f x)"
  shows "wp (bind_s m f) (\<lambda>_. I) (\<lambda>_ _. True) s"
  unfolding wp_bind
  by (rule wp_mono [OF assms(1)]) (auto intro!: wp_mono [OF keeps_wpI [OF assms(2)]])

lemma forkWorkspace_done:
  assumes "W \<noteq> []"
  shows "wp (forkWorkspace src W) (\<lambda>_. subvol_at W) (\<lambda>_ _. True) s"
proof -
  have "wp (bind_s (snapshotSubvolume g W False) (\<lambda>_. chown W BoxUID BoxGID)) (\<lambda>_. subvol_at W) (\<lambda>_ _. True) t"
    for g t
    by (rule wp_then_keeps [OF snapshotSubvolume_done]) (simp add: chown_def keeps_ok keeps_set_attr_subvol assms)
  then show ?thesis unfolding forkWorkspace_def wp_bind [of "if _ then _ else _"]
    by (rule wp_mono [OF wp_True]) simp_all
qed

definition both_parallel :: "path \<Rightarrow> path \<Rightarrow> bool" where
  "both_parallel p q \<longleftrightarrow> p \<parallel> q \<and> q \<parallel> p \<and> p \<noteq> [] \<and> q \<noteq> []"

lemma exchange_done:
  assumes "both_parallel p q" "subvol_at p s"
  shows "wp (rename_exchange p q) (\<lambda>_. subvol_at q) (\<lambda>_ _. True) s"
  using assms lookup_exchange(2) [of p q "disk s"]
  by (auto simp: rename_exchange_def wp_rules subvol_at_def both_parallel_def split: option.split sum.split)

lemma adopt_done:
  assumes "both_parallel (adoptPath (root s) i) W"
  shows "wp (adopt i W from) (\<lambda>_. subvol_at W) (\<lambda>_ _. True) s"
proof -
  let ?n = "adoptPath (root s) i"
  let ?T = "\<lambda>_ _. True"
  have n: "?n \<noteq> []" by simp
  have below: "write_inv (?n @ q) (subvol_at W)" for q
    using assms by (intro write_inv_subvol_parallel) (metis both_parallel_def parallel_append append_Nil2)
  have swap: "wp (bind_s (step ''adopt: copied'') (\<lambda>_. bind_s (rename_exchange ?n W) (\<lambda>_.
      bind_s (step ''adopt: swapped'') (\<lambda>_. removeAll ?n)))) (\<lambda>_. subvol_at W) ?T t" if "subvol_at ?n t" for t
    unfolding wp_bind [of "step ''adopt: copied''"] wp_step
    using wp_then_keeps [OF exchange_done [OF assms that], of "\<lambda>_. bind_s (step ''adopt: swapped'') (\<lambda>_. removeAll ?n)"] below
    by (simp add: keeps_bind keeps_step keeps_removeAll_at)
  have fill: "keeps (subvol_at ?n) (case from of
      Some f \<Rightarrow> bind_s (overlay ?n W) (\<lambda>_. bind_s (ok (lstat W)) (\<lambda>fi. chmod ?n (perm (attr_of fi))))
    | None \<Rightarrow> cp_tree W ?n)"
    unfolding chmod_def
    by (intro keeps_case_option keeps_cp_tree keeps_bind keeps_overlay keeps_ok keeps_lstat keeps_set_attr_subvol
        write_inv_subvol_below n) simp_all
  have rest: "wp (bind_s (case from of
      Some f \<Rightarrow> bind_s (overlay ?n W) (\<lambda>_. bind_s (ok (lstat W)) (\<lambda>fi. chmod ?n (perm (attr_of fi))))
    | None \<Rightarrow> cp_tree W ?n) (\<lambda>_. bind_s (step ''adopt: copied'') (\<lambda>_. bind_s (rename_exchange ?n W) (\<lambda>_.
      bind_s (step ''adopt: swapped'') (\<lambda>_. removeAll ?n))))) (\<lambda>_. subvol_at W) ?T t" if "subvol_at ?n t" for t
    by (rule wp_bind_keeps [OF fill that swap]) simp_all
  have "wp (case from of Some f \<Rightarrow> snapshotSubvolume f ?n False | None \<Rightarrow> createSubvolume ?n) (\<lambda>_. subvol_at ?n) ?T s"
    using snapshotSubvolume_done createSubvolume_done by (simp split: option.split)
  then show ?thesis
    unfolding adopt_def wp_bind [of "gets _"] wp_gets Let_def
    unfolding wp_bind [of "case from of None \<Rightarrow> createSubvolume _ | Some f \<Rightarrow> snapshotSubvolume f _ _"]
    by (rule wp_mono) (use rest in auto)
qed

lemma ws_path_both:
  "ws_path r i W \<Longrightarrow> both_parallel (adoptPath r i) W"
  using ws_path_parallel(5,6) [of r i W i] ws_path_nonempty [of r i W] by (simp add: both_parallel_def)

lemma makeWorkspace_done:
  assumes "ws_path (root s) i W"
  shows "wp (makeWorkspace i W from) (\<lambda>_. subvol_at W) (\<lambda>_ _. True) s"
proof -
  have make: "wp (bind_s (createSubvolume W) (\<lambda>_. chown W BoxUID BoxGID)) (\<lambda>_. subvol_at W) (\<lambda>_ _. True) t" for t
    by (rule wp_then_keeps [OF createSubvolume_done])
      (simp add: chown_def keeps_ok keeps_set_attr_subvol ws_path_nonempty [OF assms])
  have "wp (bind_s (if W \<noteq> livePath (root s) i then bind_s (mkdirAll 493 (butlast W)) (\<lambda>_. chown (butlast W) BoxUID BoxGID)
      else ret ()) (\<lambda>_. bind_s (createSubvolume W) (\<lambda>_. chown W BoxUID BoxGID))) (\<lambda>_. subvol_at W) (\<lambda>_ _. True) t" for t
    unfolding wp_bind [of "if _ then _ else _"] by (rule wp_mono [OF wp_True]) (simp_all add: make)
  moreover have "wp (adopt i W from) (\<lambda>_. subvol_at W) (\<lambda>_ _. True) (tick s)"
    by (rule adopt_done) (simp add: ws_path_both assms)
  ultimately show ?thesis
    by (auto simp: makeWorkspace_def lstat_def wp_bind [of "sys_read _"] wp_bind [of "gets _"] wp_sys_read wp_gets
        wp_case_sum wp_case_errno wp_raise wp_if wp_ret stat_at_Inr subvol_at_def
        split: option.split sum.split errno.split)
qed

lemma create_workspace_done:
  assumes "ws_path (root s) i W"
  shows "wp (create_workspace i W opts) (\<lambda>_. subvol_at W) (\<lambda>_ _. True) s"
proof -
  let ?J = "\<lambda>t. root t = root s"
  have "wp (case Fork opts of None \<Rightarrow> makeWorkspace i W g | Some src \<Rightarrow> forkWorkspace src W)
      (\<lambda>_. subvol_at W) (\<lambda>_ _. True) t" if "?J t" for g t
    using makeWorkspace_done [of t i W g] forkWorkspace_done [of W] ws_path_nonempty [OF assms] assms that
    by (simp split: option.split)
  then show ?thesis
    unfolding create_workspace_def
    by (intro wp_bind_keeps [of ?J] keeps_rules) (auto simp: tick_inv_def)
qed

section \<open>The marker of a create\<close>

definition create_marker :: "path \<Rightarrow> string \<Rightarrow> store \<Rightarrow> bool" where
  "create_marker r i s \<longleftrightarrow> root s = r \<and> (\<exists>a. lookup (disk s) (markerPath r i) = Some (File a []))"

lemma tick_inv_create_marker [simp]: "tick_inv (create_marker r i)"
  by (simp add: tick_inv_def create_marker_def)

lemma create_marker_root: "create_marker r i s \<Longrightarrow> root s = r"
  by (simp add: create_marker_def)

lemma write_inv_marker: "p \<parallel> markerPath r i \<Longrightarrow> write_inv p (create_marker r i)"
  by (auto simp: write_inv_def create_marker_def lookup_upd_parallel)

lemma fs_mkdir_file:
  assumes "lookup d p = Some (File a c)" "fs_mkdir m q d = Inr d'"
  shows "lookup d' p = Some (File a c)"
proof (cases "d' = d")
  case False
  then have new: "lookup d q = None" "has_parent d q" "d' = upd q (Some (Dir (root_attr\<lparr>mode := m\<rparr>) Plain [])) d"
    using assms(2) by (auto simp: fs_mkdir_def stat_at_ENOENT split: sum.splits if_splits)
  have "\<not> prefix q p" using new(1) assms(1) by (auto simp: prefix_def lookup_append)
  moreover have "\<not> prefix p q"
  proof
    assume "prefix p q"
    then obtain z where z: "q = p @ z" by (rule prefixE)
    with \<open>\<not> prefix q p\<close> have "z \<noteq> []" by auto
    then have "lookup d (butlast q) = lookup (File a c) (butlast z)"
      using assms(1) z by (simp add: butlast_append lookup_append)
    with new(2) show False by (cases "butlast z") (auto simp: has_parent_def)
  qed
  ultimately show ?thesis using assms(1) new(3) by (simp add: lookup_upd_parallel parallel_def)
qed (use assms in simp)

lemma mkdir_inv_marker: "mkdir_inv (create_marker r i)"
  unfolding mkdir_inv_def create_marker_def by (clarsimp, drule (1) fs_mkdir_file, simp)

lemma ws_marker_parallel:
  assumes "ws_path r i W"
  shows "W @ q \<parallel> markerPath r i" "adoptPath r i @ q \<parallel> markerPath r i" "W \<noteq> livePath r i \<Longrightarrow> butlast W \<parallel> markerPath r i"
  using assms by (auto simp: ws_path_def path_simps butlast_append)

lemma keeps_create_workspace:
  assumes "ws_path r i W"
  shows "keeps (create_marker r i) (create_workspace i W opts)"
  unfolding create_workspace_def
  by (intro keeps_rules keeps_forkWorkspace keeps_makeWorkspace [where r = r] write_inv_marker mkdir_inv_marker
      create_marker_root tick_inv_create_marker ws_marker_parallel [OF assms]
      ws_marker_parallel(1) [OF assms, of "[]", simplified])

section \<open>The caller's path\<close>

definition unchanged :: "store \<Rightarrow> store \<Rightarrow> bool" where
  "unchanged s t \<longleftrightarrow> disk t = disk s \<and> db t = db s \<and> root t = root s \<and> wld t = wld s"

lemma tick_inv_unchanged [simp]: "tick_inv (unchanged s)"
  by (simp add: tick_inv_def unchanged_def)

definition not_link_at :: "path \<Rightarrow> node \<Rightarrow> bool" where
  "not_link_at p d \<longleftrightarrow> (\<forall>n. lookup d p = Some n \<longrightarrow> \<not> is_link n)"

lemma refuse_link_wp:
  "wp (refuse_link p) (\<lambda>_ t. calm t \<longrightarrow> not_link_at p (disk t)) (\<lambda>_ _. True) s"
  by (auto simp: refuse_link_def lstat_def wp_rules not_link_at_def calm_faulty stat_at_Inr
      dest: stat_at_ENOENT split: option.split sum.split)

lemma keeps_refuse_link: "tick_inv I \<Longrightarrow> keeps I (refuse_link p)"
  unfolding refuse_link_def by (intro keeps_rules)

lemma refuse_links_wp:
  "wp (for_each refuse_link [p, q])
     (\<lambda>_ t. unchanged s t \<and> (calm s \<longrightarrow> not_link_at p (disk s) \<and> not_link_at q (disk s))) (\<lambda>_. unchanged s) s"
proof -
  have u: "unchanged s t \<Longrightarrow> calm t = calm s \<and> disk t = disk s" for t by (simp add: unchanged_def calm_def)
  have one: "wp (refuse_link z) (\<lambda>_ t. unchanged s t \<and> (calm s \<longrightarrow> not_link_at z (disk s))) (\<lambda>_. unchanged s) t"
    if "unchanged s t" for z t
    by (rule wp_mono [OF wp_conj [OF keeps_wpI [OF keeps_refuse_link [OF tick_inv_unchanged] that] refuse_link_wp]]) (use u in auto)
  have "wp (refuse_link p) (\<lambda>_. wp (refuse_link q)
      (\<lambda>_ t. unchanged s t \<and> (calm s \<longrightarrow> not_link_at p (disk s) \<and> not_link_at q (disk s))) (\<lambda>_. unchanged s))
      (\<lambda>_. unchanged s) s"
  proof (rule wp_mono [OF one])
    fix t assume t: "unchanged s t \<and> (calm s \<longrightarrow> not_link_at p (disk s))"
    show "wp (refuse_link q) (\<lambda>_ t. unchanged s t \<and> (calm s \<longrightarrow> not_link_at p (disk s) \<and> not_link_at q (disk s)))
        (\<lambda>_. unchanged s) t"
      by (rule wp_mono [OF one]) (use t in auto)
  qed (simp_all add: unchanged_def)
  then show ?thesis by (simp add: wp_bind wp_ret)
qed

lemma pathPart_not_dots: "pathPartPattern x \<Longrightarrow> x \<noteq> ''..''"
  by (auto simp: pathPartPattern_def alnum_def is_lower_def is_upper_def is_digit_def less_eq_char_def)

definition worktree_path :: "path \<Rightarrow> path \<Rightarrow> bool" where
  "worktree_path r W \<longleftrightarrow> (\<exists>a b. W = worktrees r @ [a, b] \<and> pathPartPattern a \<and> pathPartPattern b)"

lemma Rel_worktree:
  assumes "Rel (True, worktrees r) (Clean path) = Some parts" "length parts = 2"
    "pathPartPattern (parts ! 0)" "pathPartPattern (parts ! 1)"
  shows "Clean path = (True, snd (Clean path)) \<and> worktree_path r (snd (Clean path))"
proof -
  obtain a b where p: "parts = [a, b]" using assms(2) by (auto simp: length_Suc_conv numeral_2_eq_2)
  have abs: "Clean path = (True, snd (Clean path))"
    using assms(1) by (cases "Clean path") (auto simp: Rel_def Let_def split: if_splits)
  with assms(1) have "Rel (True, worktrees r) (True, snd (Clean path)) = Some parts" by simp
  then have "snd (Clean path) = worktrees r @ parts"
    by (rule Rel_below) (use assms(3) p pathPart_not_dots [of a] in simp)
  with abs assms(3,4) show ?thesis by (auto simp: p worktree_path_def)
qed

lemma checkWorkspace_wp:
  "wp (checkWorkspace path)
     (\<lambda>W t. unchanged s t \<and> Clean path = (True, W) \<and> worktree_path (root s) W \<and> q_EnvAt W (db s) = None \<and>
        (calm s \<longrightarrow> not_link_at W (disk s) \<and> not_link_at (butlast W) (disk s)))
     (\<lambda>_. unchanged s) s"
proof (cases "Rel (True, worktrees (root s)) (Clean path)")
  case (Some parts)
  show ?thesis
  proof (cases "length parts \<noteq> 2 \<or> \<not> pathPartPattern (parts ! 0) \<or> \<not> pathPartPattern (parts ! 1)")
    case False
    let ?W = "snd (Clean path)"
    have W: "Clean path = (True, ?W)" "worktree_path (root s) ?W" using Rel_worktree [OF Some] False by auto
    have "wp (for_each refuse_link [?W, butlast ?W]) (\<lambda>_. wp (bind_s (sql_query (q_EnvAt ?W)) (\<lambda>other. case other of
          Some _ \<Rightarrow> raise ErrInvalidPath | None \<Rightarrow> ret ?W))
        (\<lambda>W t. unchanged s t \<and> Clean path = (True, W) \<and> worktree_path (root s) W \<and> q_EnvAt W (db s) = None \<and>
          (calm s \<longrightarrow> not_link_at W (disk s) \<and> not_link_at (butlast W) (disk s))) (\<lambda>_. unchanged s)) (\<lambda>_. unchanged s) s"
      by (rule wp_mono [OF refuse_links_wp])
        (use W in \<open>auto simp: wp_rules unchanged_def split: option.split\<close>)
    then show ?thesis using Some False
      by (simp add: checkWorkspace_def wp_bind [of "gets _"] wp_bind [of "for_each _ _"] wp_gets del: for_each.simps)
  qed (simp add: checkWorkspace_def wp_rules Some unchanged_def)
qed (simp add: checkWorkspace_def wp_rules unchanged_def)



section \<open>Create\<close>

definition bare :: "path \<Rightarrow> string \<Rightarrow> store \<Rightarrow> bool" where
  "bare r i s \<longleftrightarrow> root s = r \<and> (\<forall>y. lookup (disk s) (envDir r i @ [y]) = None)"

lemma tick_inv_bare [simp]: "tick_inv (bare r i)"
  by (simp add: tick_inv_def bare_def)

lemma removal_inv_bare: "removal_inv q (bare r i)"
  by (simp add: removal_inv_def bare_def lookup_upd_None_mono)

lemma keeps_mkdir_bare: "keeps (bare r i) (mkdirAll m (envDir r i))"
  unfolding mkdirAll_def
proof (intro keeps_for_each keeps_ok keeps_sys_write tick_inv_bare)
  fix q s d assume q: "q \<in> set (tl (prefixes (envDir r i)))" and b: "bare r i s" and d: "fs_mkdir m q (disk s) = Inr d"
  obtain z where z: "envDir r i = q @ z"
    using q by (metis in_set_prefixes list.set_sel(2) prefixes.simps(1) tl_Nil empty_iff list.set(1) prefixE)
  show "bare r i (s\<lparr>disk := d\<rparr>)"
  proof (cases "d = disk s")
    case False
    then have "has_parent (disk s) q" "d = upd q (Some (Dir (root_attr\<lparr>mode := m\<rparr>) Plain [])) (disk s)"
      using d by (auto simp: fs_mkdir_def split: sum.splits if_splits)
    then have "lookup d (q @ z @ [y]) = None" for y
      by (cases z) (simp_all add: lookup_upd_below)
    then show ?thesis using b by (simp add: bare_def z)
  qed (use b in simp)
qed

lemma writeMarker_bare:
  assumes "bare r i s"
  shows "wp (writeMarker i []) (\<lambda>_. create_marker r i) (\<lambda>_. bare r i) s"
proof -
  have mk: "create_marker r i ((tick t)\<lparr>disk := d\<rparr>)"
    if "bare r i t" "fs_write [] (markerPath r i) (disk t) = Inr d" for t d
    using that lookup_upd_eq [of "disk t" "markerPath r i"] stat_at_Inr [of "disk t" "markerPath r i"]
    by (auto simp: create_marker_def bare_def fs_write_def markerPath_eq split: sum.splits node.splits if_splits)
  have "wp (bind_s (mkdirAll 493 (envDir r i)) (\<lambda>_. writeFile (markerPath r i) [])) (\<lambda>_. create_marker r i) (\<lambda>_. bare r i) s"
    by (rule wp_bind_keeps [OF keeps_mkdir_bare assms])
      (auto simp: writeFile_def wp_rules mk bare_def split: option.split sum.split)
  then show ?thesis using assms by (simp add: writeMarker_def wp_bind [of "gets _"] wp_gets bare_def)
qed

text \<open>What a create that stops leaves: a row, or something the next create or \<open>Reconcile\<close> clears.\<close>

definition row_or_garbage :: "path \<Rightarrow> string \<Rightarrow> store \<Rightarrow> bool" where
  "row_or_garbage r i t \<longleftrightarrow> q_Env i (db t) \<noteq> None \<or> create_marker r i t \<or> bare r i t"

definition created :: "path \<Rightarrow> string \<Rightarrow> Env \<Rightarrow> store \<Rightarrow> bool" where
  "created r i env t \<longleftrightarrow>
     (\<exists>e. q_Env i (db t) = Some e \<and> env = env_of r e) \<and> ws_path r i (Workspace env) \<and>
     subvol_at (Workspace env) t \<and> lookup (disk t) (markerPath r i) = None"

lemma q_InsertEnv_Some: "q_InsertEnv e x = Some y \<Longrightarrow> q_Env (eID e) y = Some e"
proof -
  have "find (\<lambda>r. eID r = eID e) es = None \<Longrightarrow> find (\<lambda>r. eID r = eID e) (es @ [e]) = Some e" for es
    by (induction es) (auto split: if_splits)
  then show "q_InsertEnv e x = Some y \<Longrightarrow> q_Env (eID e) y = Some e"
    by (auto simp: q_InsertEnv_def q_Env_def split: if_splits)
qed

lemma create_tail:
  assumes "ws_path r i W" "create_marker r i s" "subvol_at W s"
  shows "wp (bind_s (sql_exec (q_InsertEnv \<lparr>eID = i, eWorkspace = W, eGit = g, eCreatedAt = c, eBoxToken = tok\<rparr>)) (\<lambda>_.
      bind_s (step ''create: indexed'') (\<lambda>_. bind_s (ok (os_remove (markerPath r i))) (\<lambda>_.
      ret \<lparr>ID = i, Workspace = W, Claude = claudePath r i, Git = g, Created = c, BoxToken = tok\<rparr>))))
    (created r i) (\<lambda>_. row_or_garbage r i) s"
proof -
  let ?e = "\<lparr>eID = i, eWorkspace = W, eGit = g, eCreatedAt = c, eBoxToken = tok\<rparr>"
  let ?env = "\<lparr>ID = i, Workspace = W, Claude = claudePath r i, Git = g, Created = c, BoxToken = tok\<rparr>"
  have env: "env_of r ?e = ?env" by (simp add: env_of_def)
  have row: "row_or_garbage r i t" if "q_Env i (db t) = Some ?e" for t using that by (simp add: row_or_garbage_def)
  have done_: "created r i ?env t"
    if "q_Env i (db t) = Some ?e" "lookup (disk t) (markerPath r i) = None" "subvol_at W t" for t
    using that env assms(1) by (auto simp: created_def)
  have par: "markerPath r i \<parallel> W" using ws_path_parallel(8) [OF assms(1)] .
  have rem: "fs_remove (markerPath r i) d = Inr d' \<Longrightarrow> d' = upd (markerPath r i) None d" for d d'
    by (auto simp: fs_remove_def split: sum.splits if_splits)
  have rm: "wp (bind_s (ok (os_remove (markerPath r i))) (\<lambda>_. ret ?env)) (created r i) (\<lambda>_. row_or_garbage r i) t"
    if "q_Env i (db t) = Some ?e" "subvol_at W t" for t
    using that par
    by (auto simp: os_remove_def wp_rules row subvol_at_def lookup_removed lookup_upd_parallel
        intro!: done_ dest!: rem split: option.split sum.split)
  have "wp (bind_s (step ''create: indexed'') (\<lambda>_. bind_s (ok (os_remove (markerPath r i))) (\<lambda>_. ret ?env)))
      (created r i) (\<lambda>_. row_or_garbage r i) ((tick s)\<lparr>db := y\<rparr>)" if "q_InsertEnv ?e (db s) = Some y" for y
    unfolding wp_bind [of "step _"] wp_step
    using rm [of "(tick s)\<lparr>db := y\<rparr>"] q_InsertEnv_Some [OF that] assms(3)
    by (simp add: row subvol_at_def)
  then show ?thesis
    using assms(2)
    by (auto simp: wp_bind [of "sql_exec _"] wp_sql_exec row_or_garbage_def create_marker_def split: option.split)
qed

lemma create_filled:
  assumes "ws_path r i W" "create_marker r i s" "subvol_at W s"
  shows "wp (bind_s (step ''create: workspace made'') (\<lambda>_.
     bind_s (case Seed opts of None \<Rightarrow> ret () | Some ms \<Rightarrow> bind_s (untar W ms) (\<lambda>_. syncfs W)) (\<lambda>_.
     bind_s (repoGitDir W) (\<lambda>git. bind_s now_unix (\<lambda>t. bind_s rand_Text (\<lambda>tok.
     bind_s (sql_exec (q_InsertEnv \<lparr>eID = i, eWorkspace = W, eGit = git, eCreatedAt = t, eBoxToken = tok\<rparr>)) (\<lambda>_.
     bind_s (step ''create: indexed'') (\<lambda>_. bind_s (ok (os_remove (markerPath r i))) (\<lambda>_.
     ret \<lparr>ID = i, Workspace = W, Claude = claudePath r i, Git = git, Created = t, BoxToken = tok\<rparr>)))))))))
    (created r i) (\<lambda>_. row_or_garbage r i) s"
proof -
  let ?I = "\<lambda>t. create_marker r i t \<and> subvol_at W t"
  have tick: "tick_inv ?I" using tick_inv_create_marker tick_inv_subvol_at by (simp add: tick_inv_def)
  have below: "write_inv (W @ q) ?I" if "q \<noteq> []" for q
    using write_inv_marker [OF ws_marker_parallel(1) [OF assms(1)], of q] write_inv_subvol_below [OF that, of W]
    by (simp add: write_inv_def)
  have stop: "?I t \<Longrightarrow> row_or_garbage r i t" for t by (simp add: row_or_garbage_def)
  show ?thesis
    by (intro wp_bind_keeps [of ?I] keeps_rules keeps_untar keeps_syncfs tick below conjI assms create_tail stop)
      (auto simp: stop)
qed

lemma create_body:
  assumes "ws_path r i W" "bare r i s"
  shows "wp (bind_s (clearLeftovers i) (\<lambda>_. bind_s (writeMarker i []) (\<lambda>_. bind_s (step ''create: marked'') (\<lambda>_.
     bind_s (mkdirAll 493 (snapsDir r i)) (\<lambda>_. bind_s (mkdirAll 448 (claudePath r i)) (\<lambda>_.
     bind_s (chown (claudePath r i) BoxUID BoxGID) (\<lambda>_. bind_s (create_workspace i W opts) (\<lambda>_.
     bind_s (step ''create: workspace made'') (\<lambda>_.
     bind_s (case Seed opts of None \<Rightarrow> ret () | Some ms \<Rightarrow> bind_s (untar W ms) (\<lambda>_. syncfs W)) (\<lambda>_.
     bind_s (repoGitDir W) (\<lambda>git. bind_s now_unix (\<lambda>t. bind_s rand_Text (\<lambda>tok.
     bind_s (sql_exec (q_InsertEnv \<lparr>eID = i, eWorkspace = W, eGit = git, eCreatedAt = t, eBoxToken = tok\<rparr>)) (\<lambda>_.
     bind_s (step ''create: indexed'') (\<lambda>_. bind_s (ok (os_remove (markerPath r i))) (\<lambda>_.
     ret \<lparr>ID = i, Workspace = W, Claude = claudePath r i, Git = git, Created = t, BoxToken = tok\<rparr>))))))))))))))))
    (created r i) (\<lambda>_. row_or_garbage r i) s" (is "wp (bind_s _ (\<lambda>_. bind_s _ (\<lambda>_. ?rest))) _ _ _")
proof -
  have bare: "bare r i t \<Longrightarrow> row_or_garbage r i t" and mark: "create_marker r i t \<Longrightarrow> row_or_garbage r i t" for t
    by (simp_all add: row_or_garbage_def)
  have made: "wp (bind_s (create_workspace i W opts) (\<lambda>_. bind_s (step ''create: workspace made'') (\<lambda>_.
     bind_s (case Seed opts of None \<Rightarrow> ret () | Some ms \<Rightarrow> bind_s (untar W ms) (\<lambda>_. syncfs W)) (\<lambda>_.
     bind_s (repoGitDir W) (\<lambda>git. bind_s now_unix (\<lambda>t. bind_s rand_Text (\<lambda>tok.
     bind_s (sql_exec (q_InsertEnv \<lparr>eID = i, eWorkspace = W, eGit = git, eCreatedAt = t, eBoxToken = tok\<rparr>)) (\<lambda>_.
     bind_s (step ''create: indexed'') (\<lambda>_. bind_s (ok (os_remove (markerPath r i))) (\<lambda>_.
     ret \<lparr>ID = i, Workspace = W, Claude = claudePath r i, Git = git, Created = t, BoxToken = tok\<rparr>))))))))))
     (created r i) (\<lambda>_. row_or_garbage r i) t" if m: "create_marker r i t" for t
  proof -
    have "ws_path (root t) i W" using m assms(1) by (simp add: create_marker_def)
    note wp_conj [OF keeps_wpI [OF keeps_create_workspace [OF assms(1)] m] create_workspace_done [OF this]]
    then show ?thesis
      unfolding wp_bind [of "create_workspace _ _ _"]
      by (rule wp_mono) (use create_filled [OF assms(1)] mark in auto)
  qed
  have "claudePath r i \<parallel> markerPath r i" by (simp add: path_simps)
  then have rest: "wp ?rest (created r i) (\<lambda>_. row_or_garbage r i) t" if "create_marker r i t" for t
    using that
    by (intro wp_bind_keeps [of "create_marker r i"] keeps_step keeps_mkdirAll mkdir_inv_marker tick_inv_create_marker
        keeps_chown write_inv_marker made mark)
  show ?thesis
  proof (rule wp_bind_keeps [of "bare r i"])
    show "keeps (bare r i) (clearLeftovers i)" by (intro keeps_clearLeftovers removal_inv_bare) simp
    show "wp (bind_s (writeMarker i []) (\<lambda>_. ?rest)) (created r i) (\<lambda>_. row_or_garbage r i) t" if "bare r i t" for t
      unfolding wp_bind [of "writeMarker _ _"]
      by (rule wp_mono [OF writeMarker_bare [OF that]]) (use rest bare in auto)
  qed (use assms(2) bare in auto)
qed

lemma worktree_ws_path: "worktree_path r W \<Longrightarrow> ws_path r i W"
  by (auto simp: worktree_path_def ws_path_def worktrees_def)

lemma create_outcome:
  assumes "bare (root s) i s"
  shows "wp (create i opts) (created (root s) i) (\<lambda>_. row_or_garbage (root s) i) s"
proof -
  have live: "ws_path (root s) i (livePath (root s) i)" by (simp add: ws_path_def)
  have same: "unchanged s t \<Longrightarrow> bare (root s) i t" for t using assms by (simp add: unchanged_def bare_def)
  have "wp (if optWorkspace opts \<noteq> [] then checkWorkspace (optWorkspace opts) else ret (livePath (root s) i))
      (\<lambda>W t. ws_path (root s) i W \<and> bare (root s) i t) (\<lambda>_. bare (root s) i) s"
    using wp_mono [OF checkWorkspace_wp [of "optWorkspace opts" s]] same worktree_ws_path live assms
    by (auto simp: wp_ret)
  then show ?thesis
    unfolding create_def wp_bind [of "gets _"] wp_gets wp_bind [of "if _ then _ else _"]
    by (rule wp_mono) (use create_body in \<open>auto simp: row_or_garbage_def\<close>)
qed

text \<open>
  C9. Creating an environment is crash-safe. Wherever a create of a new environment stops, it has
  its row, or what it left is marked or empty, so that the next create or \<open>Reconcile\<close> clears it and
  never takes it for data. When it succeeds, the row describes the environment returned, its
  workspace is a subvolume at \<open>envs/<id>/live\<close> or at a worktree's path, and no marker is left.
\<close>

theorem Create_crash_safe:
  assumes "CheckEnvID i" "q_Env i (db s) = None" "bare (root s) i s" "Create i opts s = (res, t)"
  shows "row_or_garbage (root s) i t \<and> (\<forall>env. res = Inr env \<longrightarrow> created (root s) i env t)"
proof -
  have t: "bare (root s) i (tick s)" "bare (root s) i (tick (tick s))" using assms(3) by (simp_all add: bare_def)
  then have g: "row_or_garbage (root s) i s" "row_or_garbage (root s) i (tick s)" "row_or_garbage (root s) i (tick (tick s))"
    using assms(3) by (simp_all add: row_or_garbage_def)
  have "wp (create i opts) (created (root s) i) (\<lambda>_. row_or_garbage (root s) i) (tick (tick s))"
    using create_outcome [of "tick (tick s)" i opts] t by simp
  then have "wp (Create i opts) (created (root s) i) (\<lambda>_. row_or_garbage (root s) i) s"
    using assms(1,2) g
    by (auto simp: Create_def wp_bind wp_try wp_Get wp_case_sum wp_if wp_raise wp_checkFree split: option.split)
  then show ?thesis
    using assms(4) by (cases res) (auto simp: wp_def row_or_garbage_def created_def)
qed

theorem Create_crash_safe_witness:
  "row_or_garbage [''pool''] ''new'' (snd (Create ''new'' \<lparr>optWorkspace = [], Seed = None, From = None, Fork = None\<rparr> sample_store))"
proof -
  have "CheckEnvID ''new''"
    by (simp add: CheckEnvID_def envIDPattern_def lower_alnum_def is_lower_def is_digit_def less_eq_char_def)
  moreover have "q_Env ''new'' (db sample_store) = None" "bare [''pool''] ''new'' sample_store" "root sample_store = [''pool'']"
    by (simp_all add: sample_defs q_Env_def bare_def pool_paths)
  ultimately show ?thesis
    using Create_crash_safe [of "''new''" sample_store _ "fst (Create ''new'' _ sample_store)"
        "snd (Create ''new'' \<lparr>optWorkspace = [], Seed = None, From = None, Fork = None\<rparr> sample_store)"]
    by (metis prod.collapse)
qed

end
