(* ===== verification/ReconcileSafety.thy ===== *)
theory ReconcileSafety
  imports CreateSafety
begin

text \<open>
  Bringing an environment's index rows and disk together after a crash.
\<close>

section \<open>Snapshot rows\<close>

lemma unchanged_trans: "unchanged s t \<Longrightarrow> unchanged t u \<Longrightarrow> unchanged s u"
  by (simp add: unchanged_def)

lemma unchanged_refl [simp]: "unchanged s s" "unchanged s (tick t) = unchanged s t"
  by (simp_all add: unchanged_def)

lemma wp_tx_exec:
  "wp (tx_exec f tx) Q E = (\<lambda>s. (case faulty s of
        Some _ \<Rightarrow> E SQLError (tick s)
      | None \<Rightarrow> (case f tx of None \<Rightarrow> E SQLError (tick s) | Some x \<Rightarrow> Q x (tick s))))"
  by (rule ext) (simp add: wp_def tx_exec_def split: option.splits)

lemma tx_fold:
  assumes "unchanged s t"
  shows "wp (fold_s (\<lambda>x tx. bind_s (tx_exec (f x) tx) (\<lambda>tx. bind_s (step (g x)) (\<lambda>_. ret tx))) xs tx)
    (\<lambda>tx' u. fold_opt f xs tx = Some tx' \<and> unchanged s u) (\<lambda>_. unchanged s) t"
  using assms
proof (induction xs arbitrary: tx t)
  case Nil
  then show ?case by (simp add: wp_ret)
next
  case (Cons x xs)
  then show ?case
    by (auto simp: wp_bind wp_tx_exec wp_step wp_ret split: option.split intro!: wp_mono [OF Cons.IH])
qed

lemma indexRecovered_wp:
  assumes "unchanged s t"
  shows "wp (indexRecoveredSnapshots i missing stale tx)
    (\<lambda>tx' u. unchanged s u \<and> (\<exists>c m. fold_opt (\<lambda>x. q_KeepSnapshot i x c) missing tx = Some m \<and>
        fold_opt (\<lambda>x y. Some (q_DeleteSnapshot i x y)) stale m = Some tx')) (\<lambda>_. unchanged s) t"
proof -
  have "wp (fold_s (\<lambda>x tx. bind_s (tx_exec (q_KeepSnapshot i x c) tx)
      (\<lambda>tx. bind_s (step (''reconcile: indexed '' @ x)) (\<lambda>_. ret tx))) missing tx)
    (\<lambda>tx. wp (fold_s (\<lambda>x tx. bind_s (tx_exec (\<lambda>y. Some (q_DeleteSnapshot i x y)) tx)
        (\<lambda>tx. bind_s (step (''reconcile: unindexed '' @ x)) (\<lambda>_. ret tx))) stale tx)
      (\<lambda>tx' u. unchanged s u \<and> (\<exists>c m. fold_opt (\<lambda>x. q_KeepSnapshot i x c) missing tx0 = Some m \<and>
        fold_opt (\<lambda>x y. Some (q_DeleteSnapshot i x y)) stale m = Some tx')) (\<lambda>_. unchanged s)) (\<lambda>_. unchanged s) u"
    if "unchanged s u" "tx0 = tx" for u c tx0
    by (rule wp_mono [OF tx_fold [OF that(1)]]) (use that(2) in \<open>auto intro!: wp_mono [OF tx_fold]\<close>)
  from this [of "tick t" tx] assms show ?thesis
    by (simp add: indexRecoveredSnapshots_def wp_bind wp_now_unix)
qed

text \<open>Keys are pairs in the rows' interface.\<close>

lemma fold_keep_pairs:
  "fold_opt (\<lambda>x. q_KeepSnapshot i x c) xs d = fold_opt (\<lambda>k. (case k of (e, x) \<Rightarrow> q_KeepSnapshot e x) c) (map (Pair i) xs) d"
  by (induction xs arbitrary: d) (auto split: option.split)

lemma fold_del_pairs:
  "fold_opt (\<lambda>x y. Some (q_DeleteSnapshot i x y)) xs d =
   fold_opt (\<lambda>k d. Some ((case k of (e, x) \<Rightarrow> q_DeleteSnapshot e x) d)) (map (Pair i) xs) d"
  by (induction xs arbitrary: d) auto

text \<open>A snapshot on disk, as \<open>reconcileSnapshots\<close> counts them.\<close>

definition snap_on_disk :: "path \<Rightarrow> string \<Rightarrow> string \<Rightarrow> node \<Rightarrow> bool" where
  "snap_on_disk r i x d \<longleftrightarrow> snapIDPattern x \<and> (\<exists>n. lookup d (snapPath r i x) = Some n \<and> isSubvolume n)"

lemma on_disk_iff:
  assumes "fs_readDir (snapsDir r i) d = Inr es"
  shows "x \<in> set (on_disk es) \<longleftrightarrow> snap_on_disk r i x d"
proof -
  have p: "snapPath r i x = snapsDir r i @ [x]" by (simp add: pool_paths)
  from assms obtain n where n: "lookup d (snapsDir r i) = Some n" "is_dir n"
    and es: "es = map (\<lambda>x. (x, the (map_of (entries n) x))) (sort (remdups (map fst (entries n))))"
    by (auto simp: fs_readDir_def stat_at_Inr split: sum.splits if_splits)
  have "lookup d (snapPath r i x) = map_of (entries n) x"
    using n by (simp add: p lookup_append lookup_cons split: option.split)
  moreover have "x \<in> fst ` set (entries n) \<longleftrightarrow> map_of (entries n) x \<noteq> None"
    by (simp add: map_of_eq_None_iff)
  ultimately show ?thesis
    by (auto simp: on_disk_def es snap_on_disk_def image_iff)
qed

text \<open>The rows of \<open>i\<close> are its snapshots on disk, and the others' are as they were.\<close>

definition in_line :: "path \<Rightarrow> string \<Rightarrow> store \<Rightarrow> store \<Rightarrow> bool" where
  "in_line r i s t \<longleftrightarrow>
     (\<forall>x. q_HasSnapshot i x (db t) \<longleftrightarrow> snap_on_disk r i x (disk s)) \<and>
     (\<forall>j x. j \<noteq> i \<longrightarrow> q_HasSnapshot j x (db t) = q_HasSnapshot j x (db s)) \<and>
     (index_ok (db s) \<longrightarrow> index_ok (db t)) \<and> environments (db t) = environments (db s)"

lemma environments_keep:
  "fold_opt (\<lambda>x. q_KeepSnapshot i x c) xs d = Some d' \<Longrightarrow> environments d' = environments d"
  by (induction xs arbitrary: d) (auto simp: q_KeepSnapshot_def split: option.splits if_splits)

lemma environments_del:
  "fold_opt (\<lambda>x y. Some (q_DeleteSnapshot i x y)) xs d = Some d' \<Longrightarrow> environments d' = environments d"
  by (induction xs arbitrary: d) (auto simp: q_DeleteSnapshot_def)

lemma recovered_in_line:
  assumes "fold_opt (\<lambda>x. q_KeepSnapshot i x c) missing (db s) = Some m"
    and "fold_opt (\<lambda>x y. Some (q_DeleteSnapshot i x y)) stale m = Some (db t)"
    and "\<And>x. x \<in> set missing \<longleftrightarrow> snap_on_disk r i x (disk s) \<and> \<not> q_HasSnapshot i x (db s)"
    and "\<And>x. x \<in> set stale \<longleftrightarrow> \<not> snap_on_disk r i x (disk s) \<and> q_HasSnapshot i x (db s)"
  shows "in_line r i s t"
proof -
  note k = assms(1) [unfolded fold_keep_pairs] and d = assms(2) [unfolded fold_del_pairs]
  have 1: "q_HasSnapshot i x (db t) \<longleftrightarrow> snap_on_disk r i x (disk s)" for x
    using idx.recovered_has [OF k d, of "{i} \<times> UNIV" "\<lambda>(j, x). snap_on_disk r i x (disk s)" "(i, x)"] assms(3,4) by auto
  have 2: "q_HasSnapshot j x (db t) = q_HasSnapshot j x (db s)" if "j \<noteq> i" for j x
    using idx.recovered_other [OF k d, of "(j, x)"] that by auto
  have 3: "index_ok (db s) \<longrightarrow> index_ok (db t)" using idx.keep_all_inv [OF _ k] idx.del_all_inv [OF _ d] by blast
  show ?thesis
    using 1 2 3 environments_keep [OF assms(1)] environments_del [OF assms(2)] by (simp add: in_line_def)
qed

definition same_disk :: "store \<Rightarrow> store \<Rightarrow> bool" where
  "same_disk s t \<longleftrightarrow> disk t = disk s \<and> root t = root s \<and> wld t = wld s"

lemma in_line_tick [simp]: "in_line r i s (tick t) = in_line r i s t"
  by (simp add: in_line_def)

lemma in_line_unchanged: "unchanged s u \<Longrightarrow> in_line r i u t = in_line r i s t"
  by (simp add: in_line_def unchanged_def)

lemma reconcile_rows:
  assumes "unchanged s t" "fs_readDir (snapsDir (root s) i) (disk s) = Inr es"
    and "\<And>x. x \<in> set indexed \<longleftrightarrow> q_HasSnapshot i x (db s)"
  defines "missing \<equiv> filter (\<lambda>x. x \<notin> set indexed) (on_disk es)" and "stale \<equiv> filter (\<lambda>x. x \<notin> set (on_disk es)) indexed"
  shows "wp (if missing = [] \<and> stale = [] then ret () else bind_s (sql_query (\<lambda>x. x)) (\<lambda>tx.
      bind_s (indexRecoveredSnapshots i missing stale tx) (\<lambda>tx. bind_s (sql_exec (\<lambda>_. Some tx)) (\<lambda>_.
      step ''reconcile: snapshot rows committed''))))
    (\<lambda>_ u. same_disk s u \<and> in_line (root s) i s u)
    (\<lambda>_ u. unchanged s u \<or> same_disk s u \<and> in_line (root s) i s u) t"
proof -
  have miss: "x \<in> set missing \<longleftrightarrow> snap_on_disk (root s) i x (disk s) \<and> \<not> q_HasSnapshot i x (db s)" for x
    using on_disk_iff [OF assms(2), of x] assms(3) by (auto simp: missing_def)
  have st: "x \<in> set stale \<longleftrightarrow> \<not> snap_on_disk (root s) i x (disk s) \<and> q_HasSnapshot i x (db s)" for x
    using on_disk_iff [OF assms(2), of x] assms(3) by (auto simp: stale_def)
  have none: "in_line (root s) i s t" if "missing = []" "stale = []"
    using that miss st assms(1) by (auto simp: in_line_def unchanged_def)
  have commit: "in_line (root s) i s u"
    if "fold_opt (\<lambda>x. q_KeepSnapshot i x c) missing (db s) = Some m"
      "fold_opt (\<lambda>x y. Some (q_DeleteSnapshot i x y)) stale m = Some (db u)" for c m u
    by (rule recovered_in_line [OF that miss st])
  have rec: "wp (indexRecoveredSnapshots i missing stale (db s)) (\<lambda>tx. wp (bind_s (sql_exec (\<lambda>_. Some tx)) (\<lambda>_.
      step ''reconcile: snapshot rows committed'')) (\<lambda>_ u. same_disk s u \<and> in_line (root s) i s u)
      (\<lambda>_ u. unchanged s u \<or> same_disk s u \<and> in_line (root s) i s u))
      (\<lambda>_ u. unchanged s u \<or> same_disk s u \<and> in_line (root s) i s u) (tick t)"
    by (rule wp_mono [OF indexRecovered_wp [of s]])
      (use assms(1) commit in \<open>auto simp: wp_bind wp_sql_exec wp_step same_disk_def unchanged_def split: option.split\<close>)
  show ?thesis
    using none rec assms(1)
    by (auto simp: wp_if wp_ret wp_bind [of "sql_query _"] wp_bind [of "indexRecoveredSnapshots _ _ _ _"] wp_sql_query
        unchanged_def same_disk_def split: option.split)
qed

lemma reconcileSnapshots_wp:
  "wp (reconcileSnapshots i) (\<lambda>_ t. same_disk s t \<and> in_line (root s) i s t)
     (\<lambda>_ t. unchanged s t \<or> same_disk s t \<and> in_line (root s) i s t) s"
proof -
  let ?Q = "\<lambda>_ t. same_disk s t \<and> in_line (root s) i s t"
  let ?E = "\<lambda>_ t. unchanged s t \<or> same_disk s t \<and> in_line (root s) i s t"
  have rows: "wp (bind_s (ok (readDir (snapsDir (root s) i))) (\<lambda>es.
      let missing = filter (\<lambda>x. x \<notin> set indexed) (on_disk es); stale = filter (\<lambda>x. x \<notin> set (on_disk es)) indexed
      in if missing = [] \<and> stale = [] then ret ()
         else bind_s (sql_query (\<lambda>x. x)) (\<lambda>tx. bind_s (indexRecoveredSnapshots i missing stale tx) (\<lambda>tx.
              bind_s (sql_exec (\<lambda>_. Some tx)) (\<lambda>_. step ''reconcile: snapshot rows committed''))))) ?Q ?E t"
    if "unchanged s t" "\<And>x. x \<in> set indexed \<longleftrightarrow> q_HasSnapshot i x (db s)" for t indexed
  proof -
    have u: "disk t = disk s" "unchanged s (tick t)" using that(1) by (simp_all add: unchanged_def)
    note r = reconcile_rows [OF u(2) _ that(2)]
    show ?thesis
      unfolding wp_bind [of "ok _"] readDir_def wp_ok wp_sys_read Let_def u(1)
      using u(2) r by (auto split: option.split sum.split)
  qed
  have keep: "wp (Snapshots i) (\<lambda>snaps t. unchanged s t \<and> (\<forall>x. x \<in> set (map fst snaps) \<longleftrightarrow> q_HasSnapshot i x (db s)))
      (\<lambda>_. unchanged s) s"
    using set_q_Snapshots [of _ i "db s"]
    by (auto simp: Snapshots_def wp_rules image_image split: option.split)
  show ?thesis
    unfolding reconcileSnapshots_def wp_bind [of "Snapshots _"]
  proof (rule wp_mono [OF keep])
    fix snaps :: "(string \<times> int) list" and t
    assume h: "unchanged s t \<and> (\<forall>x. x \<in> set (map fst snaps) \<longleftrightarrow> q_HasSnapshot i x (db s))"
    then have u: "unchanged s t" and root: "root t = root s" by (simp_all add: unchanged_def)
    have "wp (bind_s (ok (readDir (snapsDir (root s) i))) (\<lambda>es.
      let missing = filter (\<lambda>x. x \<notin> set (map fst snaps)) (on_disk es); stale = filter (\<lambda>x. x \<notin> set (on_disk es)) (map fst snaps)
      in if missing = [] \<and> stale = [] then ret ()
         else bind_s (sql_query (\<lambda>x. x)) (\<lambda>tx. bind_s (indexRecoveredSnapshots i missing stale tx) (\<lambda>tx.
              bind_s (sql_exec (\<lambda>_. Some tx)) (\<lambda>_. step ''reconcile: snapshot rows committed''))))) ?Q ?E t"
      by (rule rows [OF u]) (use h in blast)
    then show "wp (let indexed = map fst snaps in bind_s (gets root) (\<lambda>r.
        bind_s (ok (readDir (snapsDir r i))) (\<lambda>es.
          let missing = filter (\<lambda>x. x \<notin> set indexed) (on_disk es); stale = filter (\<lambda>x. x \<notin> set (on_disk es)) indexed
          in if missing = [] \<and> stale = [] then ret ()
             else bind_s (sql_query (\<lambda>x. x)) (\<lambda>tx. bind_s (indexRecoveredSnapshots i missing stale tx) (\<lambda>tx.
                  bind_s (sql_exec (\<lambda>_. Some tx)) (\<lambda>_. step ''reconcile: snapshot rows committed'')))))) ?Q ?E t"
      unfolding Let_def [of "map fst snaps"] wp_bind [of "gets _"] wp_gets root .
  qed simp
qed

text \<open>
  C10. After a crash, the snapshot rows of an environment are brought in line with the disk in one
  transaction: when \<open>reconcileSnapshots\<close> succeeds, its rows are exactly its snapshots on disk, other
  environments' rows and the disk are as they were; when it fails, the rows are all old or all new.
\<close>

theorem reconcileSnapshots_atomic:
  assumes "reconcileSnapshots i s = (res, t)"
  shows "(unchanged s t \<or> same_disk s t \<and> in_line (root s) i s t) \<and>
    (res = Inr () \<longrightarrow> same_disk s t \<and> in_line (root s) i s t)"
  using reconcileSnapshots_wp [of i s] assms by (cases res) (auto simp: wp_def)

theorem reconcileSnapshots_atomic_witness:
  "unchanged sample_store (snd (reconcileSnapshots ''dev'' sample_store)) \<or>
   in_line [''pool''] ''dev'' sample_store (snd (reconcileSnapshots ''dev'' sample_store))"
  using reconcileSnapshots_atomic [OF prod.collapse [symmetric], of sample_store "''dev''"]
  by (auto simp: sample_store_def [THEN arg_cong, of root])

end
