(* ===== verification/StoreInvariant.thy ===== *)
theory StoreInvariant
  imports ReconcileSafety
begin

text \<open>
  The invariant of the store's index, over every sequence of operations and every pattern of
  failures: the schema's constraints, and that every row names a valid environment with a
  workspace in its place, or a valid snapshot.
\<close>

section \<open>The names a restore makes\<close>

lemma length_utoa: "n < 10 ^ Suc k \<Longrightarrow> length (utoa n) \<le> Suc k"
proof (induction k arbitrary: n)
  case 0
  then show ?case by (subst utoa.simps) simp
next
  case (Suc k)
  then have "n div 10 < 10 ^ Suc k" by (simp add: less_mult_imp_div_less)
  with Suc.IH [of "n div 10"] show ?case by (subst utoa.simps) simp
qed

lemma pad_digits: "list_all is_digit (pad w n)"
proof -
  have "is_digit CHR ''0''" by (simp add: is_digit_def)
  then show ?thesis using utoa_digits [of n] by (auto simp: pad_def list_all_iff)
qed

lemma length_pad_le: "n < 10 ^ Suc k \<Longrightarrow> length (pad w n) \<le> max w (Suc k)"
  using length_utoa [of n k] by (auto simp: pad_def)

lemma civil_bounds:
  assumes "civil days = (y, m, d)" "days < 200000"
  shows "y < 10 ^ 7" "m < 10 ^ 5" "d < 10 ^ 6"
proof -
  define z where "z = days + 719468"
  define doe where "doe = z mod 146097"
  define yoe where "yoe = (doe - doe div 1460 + doe div 36524 - doe div 146096) div 365"
  define doy where "doy = doe - (365 * yoe + yoe div 4 - yoe div 100)"
  define mp where "mp = (5 * doy + 2) div 153"
  note h = assms(1) [unfolded civil_def Let_def prod.inject, folded z_def, folded doe_def, folded yoe_def,
      folded doy_def, folded mp_def]
  have y: "y = yoe + z div 146097 * 400 + (if m \<le> 2 then 1 else 0)" using h by (elim conjE) (hypsubst, rule refl)
  have m: "m = (if mp < 10 then mp + 3 else mp - 9)" using h by (elim conjE) (hypsubst, rule refl)
  have d: "d = doy - (153 * mp + 2) div 5 + 1" using h by (elim conjE) (hypsubst, rule refl)
  have "doe < 146097" by (simp add: doe_def)
  moreover have "yoe \<le> 2 * doe" unfolding yoe_def by linarith
  moreover have "doy \<le> doe" by (simp add: doy_def)
  moreover have "mp \<le> 5 * doy + 2" by (simp add: mp_def)
  moreover have "z < 919468" using assms(2) by (simp add: z_def)
  moreover have "z div 146097 < 10" using \<open>z < 919468\<close> by linarith
  ultimately show "y < 10 ^ 7" "d < 10 ^ 6" by (simp_all add: y d split: if_splits)
  have "mp \<le> 4775" using \<open>doy \<le> doe\<close> \<open>doe < 146097\<close> unfolding mp_def by linarith
  then show "m < 10 ^ 5" unfolding m by auto
qed

lemma preRestoreTime_parts:
  assumes "0 \<le> t" "t < 2 ^ 63"
  shows "\<exists>y m d h mi se ns. preRestoreTime t = pad 4 y @ pad 2 m @ pad 2 d @ ''-'' @ pad 2 h @ pad 2 mi @ pad 2 se @ ''.'' @ pad 9 ns \<and>
    y < 10 ^ 7 \<and> m < 10 ^ 5 \<and> d < 10 ^ 6 \<and> h < 10 ^ 2 \<and> mi < 10 ^ 2 \<and> se < 10 ^ 2 \<and> ns < 10 ^ 9"
proof -
  let ?sec = "nat t div 1000000000"
  obtain y m d where c: "civil (?sec div 86400) = (y, m, d)" by (metis prod_cases3)
  have "nat t < 2 ^ 63" using assms by (simp add: nat_less_iff)
  then have "?sec div 86400 < 200000" by (simp add: less_mult_imp_div_less)
  note b = civil_bounds [OF c this]
  have 1: "k div 3600 < 10 ^ 2" if "k < 86400" for k :: nat using that by (simp add: div_less_iff_less_mult)
  have 2: "k mod 3600 div 60 < 10 ^ 2" for k :: nat
    using mod_less_divisor [of 3600 k] by (simp add: div_less_iff_less_mult)
  have 3: "k mod 60 < 10 ^ 2" for k :: nat
    using mod_less_divisor [of 60 k] by (simp add: order_less_trans)
  have 4: "k mod 1000000000 < 10 ^ 9" for k :: nat by simp
  have "?sec mod 86400 < 86400" by simp
  then show ?thesis
    unfolding preRestoreTime_def Let_def c prod.case using b 1 2 3 4 by blast
qed

lemma preRestoreName_valid:
  assumes "0 \<le> t" "t < 2 ^ 63"
  shows "snapIDPattern (preRestoreName t)"
proof -
  obtain y m d h mi se ns where p: "preRestoreTime t = pad 4 y @ pad 2 m @ pad 2 d @ ''-'' @ pad 2 h @ pad 2 mi @ pad 2 se @ ''.'' @ pad 9 ns"
    and b: "y < 10 ^ 7" "m < 10 ^ 5" "d < 10 ^ 6" "h < 10 ^ 2" "mi < 10 ^ 2" "se < 10 ^ 2" "ns < 10 ^ 9"
    using preRestoreTime_parts [OF assms] by blast
  have 7: "length (pad w n) \<le> w + 7" if "n < 10 ^ 7" for n w using length_pad_le [of n 6 w] that by simp
  have "n < 10 ^ 7" if "n < 10 ^ 2 \<or> n < 10 ^ 5 \<or> n < 10 ^ 6" for n :: nat using that by auto
  then have "length (pad 2 m) \<le> 2 + 7" "length (pad 2 d) \<le> 2 + 7" "length (pad 2 h) \<le> 2 + 7" "length (pad 2 mi) \<le> 2 + 7"
      "length (pad 2 se) \<le> 2 + 7"
    using b by (intro 7; blast)+
  moreover have "length (pad 4 y) \<le> 4 + 7" using b(1) by (rule 7)
  moreover have "length (pad 9 ns) \<le> 9" using length_pad_le [of ns 8 9] b(7) by simp
  ultimately have len: "length (preRestoreTime t) \<le> 100" by (simp add: p)
  have dig: "is_digit x \<Longrightarrow> alnum x" for x by (simp add: alnum_def)
  have pd: "list_all (\<lambda>x. alnum x \<or> x \<in> set ''._-'') (pad w n)" for w n
    using pad_digits [of w n] dig by (auto simp: list_all_iff)
  have "list_all (\<lambda>x. alnum x \<or> x \<in> set ''._-'') (preRestoreTime t)"
    unfolding p by (simp only: list_all_append pd) simp
  then show ?thesis using len
    by (simp add: snapIDPattern_def preRestoreName_def preRestorePrefix_def alnum_def is_lower_def is_upper_def is_digit_def
        less_eq_char_def)
qed

section \<open>The invariant\<close>

definition rows_wf :: "path \<Rightarrow> index \<Rightarrow> bool" where
  "rows_wf r x \<longleftrightarrow>
     index_ok x \<and>
     (\<forall>e\<in>set (environments x). CheckEnvID (eID e) \<and> (eWorkspace e = livePath r (eID e) \<or> worktree_path r (eWorkspace e))) \<and>
     (\<forall>q\<in>set (snapshots x). snapIDPattern (sID q))"

text \<open>The clock shows times that fit 64 bits of nanoseconds, as Go's do until 2262.\<close>

definition clock_ok :: "world \<Rightarrow> bool" where
  "clock_ok w \<longleftrightarrow> (\<forall>n. 0 \<le> times w n \<and> times w n < 2 ^ 63)"

definition store_inv :: "path \<Rightarrow> store \<Rightarrow> bool" where
  "store_inv r s \<longleftrightarrow> root s = r \<and> clock_ok (wld s) \<and> rows_wf r (db s)"

lemma store_inv_root: "store_inv r s \<Longrightarrow> root s = r"
  by (simp add: store_inv_def)

lemma store_inv_simps [simp]:
  "store_inv r (s\<lparr>disk := d\<rparr>) = store_inv r s" "store_inv r (tick s) = store_inv r s"
  by (simp_all add: store_inv_def)

lemma store_inv_rules [simp]:
  "tick_inv (store_inv r)" "write_inv p (store_inv r)" "removal_inv p (store_inv r)" "mkdir_inv (store_inv r)"
  by (simp_all add: tick_inv_def write_inv_def removal_inv_def mkdir_inv_def)

lemma keeps_store_write [simp]: "keeps (store_inv r) (sys_write f)"
  by (rule keeps_sys_write) simp_all

lemma keeps_store_exec:
  "(\<And>x y. rows_wf r x \<Longrightarrow> f x = Some y \<Longrightarrow> rows_wf r y) \<Longrightarrow> keeps (store_inv r) (sql_exec f)"
  by (rule keeps_sql_exec) (auto simp: store_inv_def)

lemma rows_wf_del: "rows_wf r x \<Longrightarrow> rows_wf r (q_DeleteSnapshot i y x)"
  using q_DeleteSnapshot_ok [of x i y] by (auto simp: rows_wf_def q_DeleteSnapshot_def)

lemma rows_wf_keep: "rows_wf r x \<Longrightarrow> snapIDPattern z \<Longrightarrow> q_KeepSnapshot i z c x = Some y \<Longrightarrow> rows_wf r y"
  using q_KeepSnapshot_ok [of x i z c y] by (auto simp: rows_wf_def q_KeepSnapshot_def split: if_splits)

lemma rows_wf_replace: "rows_wf r x \<Longrightarrow> snapIDPattern z \<Longrightarrow> q_ReplaceSnapshot i z c x = Some y \<Longrightarrow> rows_wf r y"
  using q_ReplaceSnapshot_ok [of x i z c y] by (auto simp: rows_wf_def q_ReplaceSnapshot_def split: if_splits)

lemma rows_wf_delete_env: "rows_wf r x \<Longrightarrow> rows_wf r (q_DeleteEnv i x)"
  using q_DeleteEnv_ok [of x i] by (auto simp: rows_wf_def q_DeleteEnv_def)

lemma rows_wf_git: "rows_wf r x \<Longrightarrow> rows_wf r (q_SetEnvGit g i x)"
  using q_SetEnvGit_ok [of x g i] by (auto simp: rows_wf_def q_SetEnvGit_def)

lemma rows_wf_insert:
  "rows_wf r x \<Longrightarrow> CheckEnvID (eID e) \<Longrightarrow> eWorkspace e = livePath r (eID e) \<or> worktree_path r (eWorkspace e) \<Longrightarrow>
   q_InsertEnv e x = Some y \<Longrightarrow> rows_wf r y"
  using q_InsertEnv_ok [of x e y] by (auto simp: rows_wf_def q_InsertEnv_def split: if_splits)

text \<open>A step whose result the rest relies on.\<close>

lemma keeps_bind_wp:
  assumes "\<And>s. I s \<Longrightarrow> wp m (\<lambda>x t. I t \<and> R x) (\<lambda>_. I) s" "\<And>x. R x \<Longrightarrow> keeps I (f x)"
  shows "keeps I (bind_s m f)"
  unfolding keeps_wp wp_bind
  by (intro allI impI, rule wp_mono [OF assms(1)]) (use assms(2) in \<open>auto simp: keeps_wp\<close>)

section \<open>Every operation keeps it\<close>

lemma inv_DeleteSnapshot: "keeps (store_inv r) (DeleteSnapshot i x)"
  by (rule keeps_DeleteSnapshot [where r = r]) (auto simp: store_inv_def rows_wf_del)

lemma inv_prunePreRestores: "keeps (store_inv r) (prunePreRestores i k)"
  unfolding prunePreRestores_def by (intro keeps_rules inv_DeleteSnapshot) simp_all

lemma inv_deleteSubvolumes: "keeps (store_inv r) (deleteSubvolumes ps)"
  by (rule keeps_deleteSubvolumes) simp_all

lemma inv_checkFree: "keeps (store_inv r) checkFree"
proof -
  have "keeps (store_inv r) sys_statfs" by (auto simp: keeps_def sys_statfs_def split: option.split)
  then show ?thesis unfolding checkFree_def by (intro keeps_rules)
qed

lemma inv_snapshot: "snapIDPattern x \<Longrightarrow> keeps (store_inv r) (snapshot env x)"
  unfolding snapshot_def snapshotSubvolume_def
  by (intro keeps_rules keeps_store_exec) (auto intro: rows_wf_keep rows_wf_replace)

lemma inv_Snapshot: "keeps (store_inv r) (Snapshot i x)"
  unfolding Snapshot_def by (intro keeps_rules inv_checkFree inv_snapshot) (auto simp: checkSnapID_def)

lemma keeps_time_bind:
  assumes "\<And>t. 0 \<le> t \<Longrightarrow> t < 2 ^ 63 \<Longrightarrow> keeps (store_inv r) (f t)"
  shows "keeps (store_inv r) (bind_s time_now f)"
  by (rule keeps_bind_wp [where R = "\<lambda>t. 0 \<le> t \<and> t < 2 ^ 63"])
    (use assms in \<open>auto simp: wp_time_now store_inv_def clock_ok_def\<close>)

lemma inv_restore: "keeps (store_inv r) (restore env x)"
  unfolding restore_def snapshotSubvolume_def rename_exchange_def
  by (intro keeps_time_bind keeps_rules inv_prunePreRestores inv_deleteSubvolumes inv_snapshot preRestoreName_valid) simp_all

lemma inv_Restore: "keeps (store_inv r) (Restore i x)"
  unfolding Restore_def by (intro keeps_rules inv_restore) simp_all

lemma inv_Prune: "keeps (store_inv r) (Prune i)"
  unfolding Prune_def by (intro keeps_rules inv_prunePreRestores inv_DeleteSnapshot) simp_all

lemma inv_BuildSource: "keeps (store_inv r) (BuildSource i src)"
  unfolding BuildSource_def listSource_def writeFile_def snapshotSubvolume_def
  by (intro keeps_rules inv_deleteSubvolumes) simp_all

lemma inv_StripSource: "keeps (store_inv r) (StripSource i)"
  unfolding StripSource_def strip_one_def os_remove_def by (intro keeps_rules) simp_all

lemma inv_clearLeftovers: "keeps (store_inv r) (clearLeftovers i)"
  by (rule keeps_clearLeftovers) simp_all

lemma inv_writeMarker: "keeps (store_inv r) (writeMarker i w)"
  unfolding writeMarker_def writeFile_def by (intro keeps_rules keeps_mkdirAll) simp_all

lemma inv_makeWorkspace: "keeps (store_inv r) (makeWorkspace i W f)"
  by (rule keeps_makeWorkspace [where r = r]) (simp_all add: store_inv_root)

lemma inv_create_workspace: "keeps (store_inv r) (create_workspace i W opts)"
  unfolding create_workspace_def
  by (intro keeps_rules inv_makeWorkspace keeps_forkWorkspace) simp_all

lemma inv_readopt: "keeps (store_inv r) (readopt env)"
  unfolding readopt_def
  by (intro keeps_rules inv_makeWorkspace keeps_store_exec) (auto simp: rows_wf_git)

lemma inv_checkWorkspace:
  "store_inv r s \<Longrightarrow> wp (checkWorkspace p) (\<lambda>W t. store_inv r t \<and> worktree_path r W) (\<lambda>_. store_inv r) s"
  by (rule wp_mono [OF checkWorkspace_wp]) (auto simp: store_inv_def unchanged_def)

lemma inv_create:
  assumes "CheckEnvID i"
  shows "keeps (store_inv r) (create i opts)"
proof -
  have ins: "keeps (store_inv r) (sql_exec (q_InsertEnv \<lparr>eID = i, eWorkspace = W, eGit = g, eCreatedAt = c, eBoxToken = tok\<rparr>))"
    if "W = livePath r i \<or> worktree_path r W" for W g c tok
    by (rule keeps_store_exec) (use that assms in \<open>auto elim!: rows_wf_insert\<close>)
  have path: "wp (if optWorkspace opts \<noteq> [] then checkWorkspace (optWorkspace opts) else ret (livePath r i))
      (\<lambda>W t. store_inv r t \<and> (W = livePath r i \<or> worktree_path r W)) (\<lambda>_. store_inv r) s" if "store_inv r s" for s
    using that by (auto simp: wp_ret intro!: wp_mono [OF inv_checkWorkspace])
  show ?thesis
    unfolding create_def os_remove_def chown_def
    by (intro keeps_gets_root [of _ r] keeps_bind_wp [OF path] keeps_bind [of _ "clearLeftovers _"] keeps_rules
        inv_clearLeftovers inv_writeMarker keeps_mkdirAll inv_create_workspace keeps_untar keeps_syncfs ins)
      (simp_all add: store_inv_root)
qed

lemma inv_Create: "keeps (store_inv r) (Create i opts)"
proof (cases "CheckEnvID i")
  case True
  show ?thesis
    unfolding Create_def by (intro keeps_rules inv_readopt inv_checkFree inv_create True) simp_all
next
  case False
  then have "Create i opts = raise ErrInvalidID"
    by (intro ext) (simp add: Create_def Get_def try_s_def bind_s_def raise_def)
  then show ?thesis by (simp add: keeps_raise)
qed

lemma inv_Delete: "keeps (store_inv r) (Delete i)"
  unfolding Delete_def
  by (intro keeps_rules inv_writeMarker inv_clearLeftovers keeps_store_exec) (auto simp: rows_wf_delete_env)

lemma inv_reconcileSnapshots: "keeps (store_inv r) (reconcileSnapshots i)"
proof -
  have "store_inv r t" if s: "store_inv r s" and d: "same_disk s t" and l: "in_line (root s) i s t" for s t
  proof -
    have "snapIDPattern (sID q)" if "q \<in> set (snapshots (db t))" for q
    proof -
      have h: "q_HasSnapshot (sEnv q) (sID q) (db t)" using that by (auto simp: q_HasSnapshot_iff)
      show ?thesis
      proof (cases "sEnv q = i")
        case True
        then show ?thesis using h l by (auto simp: in_line_def snap_on_disk_def)
      next
        case False
        then have "q_HasSnapshot (sEnv q) (sID q) (db s)" using h l by (auto simp: in_line_def)
        then show ?thesis using s by (auto simp: store_inv_def rows_wf_def q_HasSnapshot_iff)
      qed
    qed
    then show ?thesis using s d l by (auto simp: store_inv_def rows_wf_def same_disk_def in_line_def)
  qed
  note new = this
  have same: "unchanged s t \<Longrightarrow> store_inv r s \<Longrightarrow> store_inv r t" for s t by (simp add: store_inv_def unchanged_def)
  show ?thesis
    unfolding keeps_wp
    by (intro allI impI, rule wp_mono [OF reconcileSnapshots_wp]) (use new same in blast)+
qed

lemma keeps_case_store_error [keeps_rules]:
  assumes "keeps I m1" "keeps I m2" "keeps I m3" "keeps I m4" "keeps I m5" "\<And>e. keeps I (f e)" "keeps I m6" "\<And>n. keeps I (g n)"
  shows "keeps I (case x of ErrNotFound \<Rightarrow> m1 | ErrInvalidID \<Rightarrow> m2 | ErrInvalidPath \<Rightarrow> m3 | ErrPoolFull \<Rightarrow> m4
    | ErrUnindexed \<Rightarrow> m5 | Sys e \<Rightarrow> f e | SQLError \<Rightarrow> m6 | StoppedAt n \<Rightarrow> g n)"
  using assms by (cases x) simp_all

lemma inv_reconcile_env: "keeps (store_inv r) (reconcile_env i env)"
  unfolding reconcile_env_def os_remove_def
  by (intro keeps_rules inv_deleteSubvolumes keeps_removeAll_at inv_reconcileSnapshots inv_makeWorkspace
      inv_prunePreRestores) simp_all

lemma inv_reconcile_one: "keeps (store_inv r) (reconcile_one i lost)"
  unfolding reconcile_one_def by (intro keeps_rules inv_clearLeftovers inv_reconcile_env) simp_all

lemma inv_Reconcile: "keeps (store_inv r) Reconcile"
  unfolding Reconcile_def by (intro keeps_rules) (auto intro: inv_reconcile_one)

section \<open>Reachable stores\<close>

datatype store_op =
    OpCreate string CreateOptions
  | OpDelete string
  | OpSnapshot string string
  | OpDeleteSnapshot string string
  | OpRestore string string
  | OpPrune string
  | OpBuildSource string SnapshotRef
  | OpStripSource string
  | OpReconcile

fun run_op :: "store_op \<Rightarrow> store \<Rightarrow> store" where
  "run_op (OpCreate i opts) s = snd (Create i opts s)"
| "run_op (OpDelete i) s = snd (Delete i s)"
| "run_op (OpSnapshot i x) s = snd (Snapshot i x s)"
| "run_op (OpDeleteSnapshot i x) s = snd (DeleteSnapshot i x s)"
| "run_op (OpRestore i x) s = snd (Restore i x s)"
| "run_op (OpPrune i) s = snd (Prune i s)"
| "run_op (OpBuildSource i src) s = snd (BuildSource i src s)"
| "run_op (OpStripSource i) s = snd (StripSource i s)"
| "run_op OpReconcile s = snd (Reconcile s)"

text \<open>
  Between operations, users change files, and the world (what will fail, the clock) is another.
\<close>

inductive store_step :: "store \<Rightarrow> store \<Rightarrow> bool" where
  op: "store_step s (run_op p s)"
| files: "store_step s (s\<lparr>disk := d\<rparr>)"
| new_world: "clock_ok w \<Longrightarrow> store_step s (s\<lparr>wld := w\<rparr>)"

inductive_cases store_stepE: "store_step s t"

lemma store_step_inv: "store_step s t \<Longrightarrow> store_inv r s \<Longrightarrow> store_inv r t"
proof (induction rule: store_step.induct)
  case (op s p)
  then show ?case
    by (cases p) (auto intro: keepsD inv_Create inv_Delete inv_Snapshot inv_DeleteSnapshot inv_Restore inv_Prune
        inv_BuildSource inv_StripSource inv_Reconcile)
qed (simp_all add: store_inv_def)

text \<open>
  C11. The index is well-formed in every state the store can reach, whatever fails: IDs and
  workspaces are unique, every snapshot row belongs to an environment's row, every environment has
  a valid ID and a workspace at \<open>envs/<id>/live\<close> or at \<open>worktrees/<repo>/<name>\<close>, and every snapshot
  row has a valid name.
\<close>

theorem store_reachable_wf:
  assumes "store_step\<^sup>*\<^sup>* s t" "clock_ok (wld s)" "rows_wf (root s) (db s)"
  shows "root t = root s \<and> rows_wf (root s) (db t)"
proof -
  have "store_inv (root s) t"
    using assms(1) by induction (use assms(2,3) in \<open>simp_all add: store_inv_def [of _ s] store_step_inv\<close>)
  then show ?thesis by (simp add: store_inv_def)
qed

theorem store_reachable_wf_witness:
  "rows_wf [''pool''] (db (run_op OpReconcile (run_op (OpRestore ''dev'' ''turn-1'') sample_store)))"
proof -
  let ?t = "run_op OpReconcile (run_op (OpRestore ''dev'' ''turn-1'') sample_store)"
  have "store_step\<^sup>*\<^sup>* sample_store ?t"
    by (meson op rtranclp.rtrancl_into_rtrancl rtranclp.rtrancl_refl)
  moreover have "clock_ok (wld sample_store)" by (simp add: sample_store_def sample_world_def clock_ok_def second_def)
  moreover have "rows_wf (root sample_store) (db sample_store)"
    by (simp add: sample_defs rows_wf_def index_ok_def pool_paths snapIDPattern_def alnum_def is_lower_def is_upper_def
        is_digit_def less_eq_char_def CheckEnvID_def envIDPattern_def lower_alnum_def)
  ultimately have "rows_wf (root sample_store) (db ?t)" using store_reachable_wf by blast
  then show ?thesis by (simp add: sample_store_def [THEN arg_cong, of root])
qed

end
