(* ===== verification/Setup.thy ===== *)
theory Setup
  imports StoreBase
begin

text \<open>
  \<open>internal/setup\<close>: the files of a repository's setup contract, read as root from a workspace the
  agent writes (\<open>readFile\<close>), the guess made of a Node project (\<open>guess.go\<close>) and the golden key
  (\<open>setup.go\<close>).

  The decoders are packages the repository only calls (\<open>sigs.k8s.io/yaml\<close>, \<open>encoding/json\<close>,
  \<open>crypto/sha256\<close>): they are the fields of \<open>codecs\<close>. Reading one file is one system call of the
  model. \<open>os.Root\<close> and the kernel's \<open>lstat\<close> are one resolver, \<open>namei\<close>, with and without the
  restriction to a directory.
\<close>

section \<open>Resolving a path\<close>

datatype read_error =
    NotExist
  | NotDirectory
  | Escapes
  | TooManyLinks
  | BadName
  | IsSymlink
  | NotRegular
  | TooBig
  | ReadFault nat

definition bad_name :: "string \<Rightarrow> bool" where
  "bad_name c \<longleftrightarrow> char_of (0::nat) \<in> set c \<or> 255 < length c"

text \<open>
  \<open>namei t (Some base) n cur cs\<close> resolves the components \<open>cs\<close> from the directory \<open>cur\<close> as an
  \<open>os.Root\<close> opened at \<open>base\<close> does: a link that is absolute or leads above \<open>base\<close> is refused. With
  \<open>None\<close> it is the kernel's resolution. The last component is not followed. \<open>n\<close> bounds the links.
  One component is one \<open>hop\<close>.
\<close>

datatype hop = Stop "read_error + path" | Go nat path "string list"

definition hop_link :: "path option \<Rightarrow> nat \<Rightarrow> path \<Rightarrow> string \<Rightarrow> string \<Rightarrow> string list \<Rightarrow> hop" where
  "hop_link base n cur c l cs =
     (if cs = [] then Stop (Inr (cur @ [c]))
      else if n = 0 then Stop (Inl TooManyLinks)
      else if \<not> is_abs l then Go (n - 1) cur (split_on CHR ''/'' l @ cs)
      else if base = None then Go (n - 1) [] (split_on CHR ''/'' l @ cs)
      else Stop (Inl Escapes))"

definition hop_name :: "node \<Rightarrow> path option \<Rightarrow> nat \<Rightarrow> path \<Rightarrow> string \<Rightarrow> string list \<Rightarrow> hop" where
  "hop_name t base n cur c cs =
     (case lookup t cur of
        None \<Rightarrow> Stop (Inl NotExist)
      | Some d \<Rightarrow>
          if \<not> is_dir d then Stop (Inl NotDirectory)
          else (case map_of (entries d) c of
             None \<Rightarrow> Stop (Inl NotExist)
           | Some (Symlink b l) \<Rightarrow> hop_link base n cur c l cs
           | Some _ \<Rightarrow> Go n (cur @ [c]) cs))"

definition hop_of :: "node \<Rightarrow> path option \<Rightarrow> nat \<Rightarrow> path \<Rightarrow> string \<Rightarrow> string list \<Rightarrow> hop" where
  "hop_of t base n cur c cs =
     (if c = [] \<or> c = ''.'' then Go n cur cs
      else if c = ''..'' then (if base = Some cur then Stop (Inl Escapes) else Go n (butlast cur) cs)
      else if bad_name c then Stop (Inl BadName)
      else hop_name t base n cur c cs)"

lemma hop_of_decreases:
  "hop_of t base n cur c cs = Go m q ds \<Longrightarrow> m < n \<or> m = n \<and> length ds < Suc (length cs)"
  by (auto simp: hop_of_def hop_name_def hop_link_def split: if_splits option.splits node.splits)

function namei :: "node \<Rightarrow> path option \<Rightarrow> nat \<Rightarrow> path \<Rightarrow> string list \<Rightarrow> read_error + path" where
  "namei t base n cur [] = Inr cur"
| "namei t base n cur (c # cs) =
     (case hop_of t base n cur c cs of Stop r \<Rightarrow> r | Go m q ds \<Rightarrow> namei t base m q ds)"
  by pat_completeness auto
termination
  by (relation "inv_image (less_than <*lex*> less_than) (\<lambda>(t, base, n, cur, cs). (n, length cs))")
    (auto dest: hop_of_decreases)

declare namei.simps(2) [simp del]

text \<open>The links \<open>os.Root\<close> follows, and the kernel.\<close>

definition rootMaxSymlinks :: nat where "rootMaxSymlinks = 8"
definition kernelMaxSymlinks :: nat where "kernelMaxSymlinks = 40"

definition maxFile :: int where "maxFile = 16777216"

text \<open>\<open>readFile\<close>: \<open>os.OpenRoot(dir)\<close>, then \<open>O_NOFOLLOW\<close>, a regular file of at most \<open>maxFile\<close> bytes.\<close>

definition read_in :: "path \<Rightarrow> string \<Rightarrow> node \<Rightarrow> read_error + string" where
  "read_in dir p t =
     (case lookup t dir of
        None \<Rightarrow> Inl NotExist
      | Some (Dir a k es) \<Rightarrow>
          (case namei t (Some dir) rootMaxSymlinks dir (split_on CHR ''/'' p) of
             Inl e \<Rightarrow> Inl e
           | Inr q \<Rightarrow> (case lookup t q of
                 Some (File b c) \<Rightarrow> if maxFile < int (length c) then Inl TooBig else Inr c
               | Some (Symlink b l) \<Rightarrow> Inl IsSymlink
               | Some _ \<Rightarrow> Inl NotRegular
               | None \<Rightarrow> Inl NotExist))
      | Some _ \<Rightarrow> Inl NotDirectory)"

datatype setup_error =
    ErrNoContract
  | ReadError string read_error
  | BadYAML string
  | BadJSON string
  | OutsideInput string

type_synonym 'a setup_prog = "(store, setup_error, 'a) prog"

definition setup_readFile :: "path \<Rightarrow> string \<Rightarrow> (read_error + string) setup_prog" where
  "setup_readFile dir p s =
     (case faulty s of
        Some n \<Rightarrow> (Inr (Inl (ReadFault n)), tick s)
      | None \<Rightarrow> (Inr (read_in dir p (disk s)), tick s))"

text \<open>\<open>os.Lstat(filepath.Join(dir, p))\<close>: the kernel follows the links above the last component.\<close>

definition lstat_in :: "path \<Rightarrow> string \<Rightarrow> bool setup_prog" where
  "lstat_in dir p s =
     (case faulty s of
        Some n \<Rightarrow> (Inr False, tick s)
      | None \<Rightarrow> (Inr (case namei (disk s) None kernelMaxSymlinks dir (split_on CHR ''/'' p) of
                       Inl e \<Rightarrow> False
                     | Inr q \<Rightarrow> lookup (disk s) q \<noteq> None), tick s))"

section \<open>Files and keys\<close>

record compose_service =
  svcName :: string
  svcImage :: string
  svcEnvironment :: "((string \<times> string option) list + string option list) option"

record package =
  Scripts :: "(string \<times> string) list"
  Dependencies :: "(string \<times> string) list"
  DevDependencies :: "(string \<times> string) list"
  PackageManager :: string
  EnginesNode :: string

text \<open>
  The decoders of other packages: \<open>None\<close> is an error of the decoder. A YAML or JSON value of
  another type than the code asks for is \<open>None\<close> inside an environment.
\<close>

record codecs =
  sha256hex :: "string \<Rightarrow> string"
  yamlGoldenInputs :: "string \<Rightarrow> string list option"
  yamlServicePorts :: "string \<Rightarrow> (string \<times> int) list option"
  yamlCompose :: "string \<Rightarrow> compose_service list option"
  jsonPackage :: "string \<Rightarrow> package option"

definition setup_version :: string where "setup_version = ''fern-golden-2''"

definition ToolFiles :: "string list" where
  "ToolFiles = [''mise.toml'', ''.mise.toml'', ''.tool-versions'', ''.config/mise.toml'', ''.config/mise/config.toml'']"

definition contractFiles :: "string list" where
  "contractFiles =
     [''services.yaml'', ''.agents/setup'', ''.agents/prepare'', ''.fern/setup'', ''.fern/prepare''] @ ToolFiles"

definition lockFiles :: "string list" where
  "lockFiles =
     [''package-lock.json'', ''npm-shrinkwrap.json'', ''pnpm-lock.yaml'', ''yarn.lock'', ''bun.lock'', ''bun.lockb'',
      ''go.sum'', ''Cargo.lock'', ''uv.lock'', ''poetry.lock'', ''requirements.txt'', ''Gemfile.lock'', ''composer.lock'']"

definition fileSum :: "codecs \<Rightarrow> path \<Rightarrow> string \<Rightarrow> string setup_prog" where
  "fileSum co dir p =
     bind_s (setup_readFile dir p) (\<lambda>r. case r of
       Inl NotExist \<Rightarrow> ret ''missing''
     | Inl e \<Rightarrow> raise (ReadError p e)
     | Inr d \<Rightarrow> ret (sha256hex co d))"

definition nul :: string where "nul = [char_of (0::nat)]"

definition sum_line :: "string \<times> string \<Rightarrow> string" where
  "sum_line x = fst x @ nul @ snd x @ nul"

definition fileSums :: "codecs \<Rightarrow> path \<Rightarrow> string list \<Rightarrow> (string \<times> string) list setup_prog" where
  "fileSums co dir ps = fold_s (\<lambda>p xs. bind_s (fileSum co dir p) (\<lambda>h. ret (xs @ [(p, h)]))) ps []"

fun hasToolFiles_from :: "codecs \<Rightarrow> path \<Rightarrow> string list \<Rightarrow> bool setup_prog" where
  "hasToolFiles_from co dir [] = ret False"
| "hasToolFiles_from co dir (p # ps) =
     bind_s (fileSum co dir p) (\<lambda>h. if h \<noteq> ''missing'' then ret True else hasToolFiles_from co dir ps)"

definition hasToolFiles :: "codecs \<Rightarrow> path \<Rightarrow> bool setup_prog" where
  "hasToolFiles co dir = hasToolFiles_from co dir ToolFiles"

text \<open>\<open>goldenInputs\<close>: the inputs \<open>services.yaml\<close> lists, cleaned and inside the repository.\<close>

fun clean_text :: "fpath \<Rightarrow> string" where
  "clean_text (True, cs) = path_text cs"
| "clean_text (False, []) = ''.''"
| "clean_text (False, c # cs) = c @ concat (map ((#) CHR ''/'') cs)"

fun clean_inputs :: "string list \<Rightarrow> setup_error + string list" where
  "clean_inputs [] = Inr []"
| "clean_inputs (p # ps) =
     (if \<not> IsLocal (clean_text (Clean p)) then Inl (OutsideInput p)
      else case clean_inputs ps of Inl e \<Rightarrow> Inl e | Inr qs \<Rightarrow> Inr (clean_text (Clean p) # qs))"

definition goldenInputs :: "codecs \<Rightarrow> path \<Rightarrow> string list setup_prog" where
  "goldenInputs co dir =
     bind_s (setup_readFile dir ''services.yaml'') (\<lambda>r. case r of
       Inl NotExist \<Rightarrow> ret []
     | Inl e \<Rightarrow> raise (ReadError ''services.yaml'' e)
     | Inr d \<Rightarrow> (case yamlGoldenInputs co d of
           None \<Rightarrow> raise (BadYAML ''services.yaml'')
         | Some ps \<Rightarrow> (case clean_inputs ps of Inl e \<Rightarrow> raise e | Inr qs \<Rightarrow> ret qs)))"

section \<open>The guess of a Node project\<close>

record Guess =
  Services :: "string option"
  Tools :: "string option"
  Inputs :: "string list"

definition no_guess :: Guess where
  "no_guess = \<lparr>Services = None, Tools = None, Inputs = []\<rparr>"

definition guessInputs :: "string list" where
  "guessInputs =
     [''package.json'', ''.nvmrc'', ''.node-version'',
      ''docker-compose.yml'', ''docker-compose.yaml'', ''compose.yml'', ''compose.yaml'']"

record framework =
  fwPkg :: string
  fwArgs :: string
  fwPort :: int

definition frameworks :: "framework list" where
  "frameworks =
     [\<lparr>fwPkg = ''next'', fwArgs = ''-H 0.0.0.0 -p $PORT'', fwPort = 3000\<rparr>,
      \<lparr>fwPkg = ''nuxt'', fwArgs = ''--host 0.0.0.0 --port $PORT'', fwPort = 3000\<rparr>,
      \<lparr>fwPkg = ''astro'', fwArgs = ''--host 0.0.0.0 --port $PORT'', fwPort = 4321\<rparr>,
      \<lparr>fwPkg = ''vite'', fwArgs = ''--host 0.0.0.0 --port $PORT --strictPort'', fwPort = 5173\<rparr>,
      \<lparr>fwPkg = ''@tanstack/react-start'', fwArgs = ''--host 0.0.0.0 --port $PORT --strictPort'', fwPort = 3000\<rparr>,
      \<lparr>fwPkg = ''@sveltejs/kit'', fwArgs = ''--host 0.0.0.0 --port $PORT --strictPort'', fwPort = 5173\<rparr>,
      \<lparr>fwPkg = ''@react-router/dev'', fwArgs = ''--host 0.0.0.0 --port $PORT'', fwPort = 5173\<rparr>]"

record packageManager =
  pmName :: string
  pmLock :: string
  pmInstall :: string
  pmFresh :: string
  pmRun :: string
  pmDashdash :: bool
  pmTool :: bool

definition npm :: packageManager where
  "npm = \<lparr>pmName = ''npm'', pmLock = ''package-lock.json'',
     pmInstall = ''npm install --prefer-offline --no-audit --no-fund'',
     pmFresh = ''npm install --prefer-offline --no-audit --no-fund'',
     pmRun = ''npm run'', pmDashdash = True, pmTool = False\<rparr>"

definition packageManagers :: "packageManager list" where
  "packageManagers =
     [\<lparr>pmName = ''pnpm'', pmLock = ''pnpm-lock.yaml'',
        pmInstall = ''pnpm install --frozen-lockfile --prefer-offline'', pmFresh = ''pnpm install --prefer-offline'',
        pmRun = ''pnpm run'', pmDashdash = False, pmTool = True\<rparr>,
      \<lparr>pmName = ''bun'', pmLock = ''bun.lock'', pmInstall = ''bun install --frozen-lockfile'',
        pmFresh = ''bun install'', pmRun = ''bun run'', pmDashdash = False, pmTool = True\<rparr>,
      \<lparr>pmName = ''bun'', pmLock = ''bun.lockb'', pmInstall = ''bun install --frozen-lockfile'',
        pmFresh = ''bun install'', pmRun = ''bun run'', pmDashdash = False, pmTool = True\<rparr>,
      \<lparr>pmName = ''yarn'', pmLock = ''yarn.lock'', pmInstall = ''corepack yarn install'',
        pmFresh = ''corepack yarn install'', pmRun = ''corepack yarn run'', pmDashdash = False, pmTool = False\<rparr>,
      npm]"

definition version_char :: "char \<Rightarrow> bool" where
  "version_char c \<longleftrightarrow> alnum c \<or> c = CHR ''.'' \<or> c = CHR ''-''"

definition versionRE :: "string \<Rightarrow> bool" where
  "versionRE v \<longleftrightarrow> v \<noteq> [] \<and> length v \<le> 32 \<and> list_all version_char v"

text \<open>\<open>firstNumber.FindString\<close>: the leftmost, longest run of digits, or the empty string.\<close>

definition firstNumber :: "string \<Rightarrow> string" where
  "firstNumber s = takeWhile is_digit (dropWhile (\<lambda>c. \<not> is_digit c) s)"

definition identifierRE :: "string \<Rightarrow> bool" where
  "identifierRE v \<longleftrightarrow> v \<noteq> [] \<and> length v \<le> 63 \<and> list_all (\<lambda>c. alnum c \<or> c = CHR ''_'') v"

fun pick_locked :: "path \<Rightarrow> string \<Rightarrow> packageManager list \<Rightarrow> packageManager option setup_prog" where
  "pick_locked dir name [] = ret None"
| "pick_locked dir name (pm # pms) =
     bind_s (setup_readFile dir (pmLock pm)) (\<lambda>r.
       if (case r of Inl _ \<Rightarrow> False | Inr _ \<Rightarrow> True) \<and> (name = [] \<or> name = pmName pm) then ret (Some pm)
       else pick_locked dir name pms)"

definition pickPackageManager :: "path \<Rightarrow> string \<Rightarrow> (packageManager \<times> bool) setup_prog" where
  "pickPackageManager dir field =
     (let name = fst (cut_at CHR ''@'' field) in
      bind_s (pick_locked dir name packageManagers) (\<lambda>r. case r of
        Some pm \<Rightarrow> ret (pm, True)
      | None \<Rightarrow> (case find (\<lambda>pm. pmName pm = name) packageManagers of
            Some pm \<Rightarrow> ret (pm, False)
          | None \<Rightarrow> ret (last packageManagers, False))))"

fun node_file :: "path \<Rightarrow> string list \<Rightarrow> string option setup_prog" where
  "node_file dir [] = ret None"
| "node_file dir (p # ps) =
     bind_s (setup_readFile dir p) (\<lambda>r. case r of
       Inl _ \<Rightarrow> node_file dir ps
     | Inr d \<Rightarrow>
         (let t = trim_space d; v = (case cut_prefix t ''v'' of Some u \<Rightarrow> u | None \<Rightarrow> t) in
          if prefix ''lts'' v \<or> v = ''node'' then ret (Some ''lts'')
          else if versionRE v then ret (Some v)
          else node_file dir ps))"

definition nodeVersion :: "path \<Rightarrow> string \<Rightarrow> string setup_prog" where
  "nodeVersion dir engines =
     bind_s (node_file dir [''.nvmrc'', ''.node-version'']) (\<lambda>r. case r of
       Some v \<Rightarrow> ret v
     | None \<Rightarrow> ret (if firstNumber engines \<noteq> [] then firstNumber engines else ''lts''))"

record postgres =
  pgUser :: string
  pgPassword :: string
  pgDb :: string

text \<open>\<open>strings.Cut(s, ":-")\<close>, the default of \<open>${NAME:-default}\<close>.\<close>

fun cut_default :: "string \<Rightarrow> string option" where
  "cut_default (a # b # s) = (if a = CHR '':'' \<and> b = CHR ''-'' then Some s else cut_default (b # s))"
| "cut_default _ = None"

definition compose_value :: "string \<Rightarrow> string option" where
  "compose_value v =
     (case (if prefix ''${'' v then cut_default (trim_suffix v ''}'') else Some v) of
        None \<Rightarrow> None
      | Some w \<Rightarrow> if identifierRE w then Some w else None)"

definition compose_set :: "string \<Rightarrow> string \<Rightarrow> (string \<rightharpoonup> string) \<Rightarrow> (string \<rightharpoonup> string)" where
  "compose_set k v env = (case compose_value v of Some w \<Rightarrow> env(k \<mapsto> w) | None \<Rightarrow> env)"

definition composeEnv :: "((string \<times> string option) list + string option list) option \<Rightarrow> (string \<rightharpoonup> string)" where
  "composeEnv v =
     (case v of
        None \<Rightarrow> Map.empty
      | Some (Inl kvs) \<Rightarrow>
          fold (\<lambda>(k, val) env. case val of Some x \<Rightarrow> compose_set k x env | None \<Rightarrow> env) kvs Map.empty
      | Some (Inr items) \<Rightarrow>
          fold (\<lambda>item env. case item of
                  None \<Rightarrow> env
                | Some x \<Rightarrow> (case cut_at CHR ''='' x of (k, val, found) \<Rightarrow> if found then compose_set k val env else env))
            items Map.empty)"

definition or_default :: "string \<Rightarrow> string option \<Rightarrow> string" where
  "or_default d v = (case v of Some x \<Rightarrow> if x = [] then d else x | None \<Rightarrow> d)"

definition pg_of :: "(string \<rightharpoonup> string) \<Rightarrow> postgres" where
  "pg_of env =
     (let user = or_default ''postgres'' (env ''POSTGRES_USER'') in
      \<lparr>pgUser = user, pgPassword = or_default ''postgres'' (env ''POSTGRES_PASSWORD''),
       pgDb = or_default user (env ''POSTGRES_DB'')\<rparr>)"

definition image_base :: "string \<Rightarrow> string" where
  "image_base img = rev (takeWhile (\<lambda>c. c \<noteq> CHR ''/'') (rev img))"

definition runs_postgres :: "compose_service \<Rightarrow> bool" where
  "runs_postgres svc \<longleftrightarrow>
     prefix ''postgres'' (image_base (svcImage svc)) \<or> prefix ''postgis'' (image_base (svcImage svc))"

fun compose_in :: "codecs \<Rightarrow> path \<Rightarrow> string list \<Rightarrow> postgres option setup_prog" where
  "compose_in co dir [] = ret None"
| "compose_in co dir (p # ps) =
     bind_s (setup_readFile dir p) (\<lambda>r. case r of
       Inl NotExist \<Rightarrow> compose_in co dir ps
     | Inl e \<Rightarrow> raise (ReadError p e)
     | Inr d \<Rightarrow> (case yamlCompose co d of
           None \<Rightarrow> raise (BadYAML p)
         | Some svcs \<Rightarrow> (case find runs_postgres (sort_key svcName svcs) of
               Some svc \<Rightarrow> ret (Some (pg_of (composeEnv (svcEnvironment svc))))
             | None \<Rightarrow> compose_in co dir ps)))"

definition composePostgres :: "codecs \<Rightarrow> path \<Rightarrow> postgres option setup_prog" where
  "composePostgres co dir = compose_in co dir (drop 3 guessInputs)"

text \<open>The texts the guess is made of. \<open>nl\<close>, \<open>dq\<close>, \<open>sq\<close> and \<open>bs\<close> are the characters Isabelle's literals leave out.\<close>

definition nl :: string where "nl = [CHR 0x0A]"
definition dq :: string where "dq = [CHR 0x22]"
definition sq :: string where "sq = [CHR 0x27]"
definition bs :: string where "bs = [CHR 0x5C]"

definition postgresRun :: "postgres \<Rightarrow> string" where
  "postgresRun pg =
     ''set -e'' @ nl @
     ''PGDATA=.fern/pg'' @ nl @
     ''if [ ! -s $PGDATA/PG_VERSION ]; then rm -rf $PGDATA; mkdir -p .fern; initdb --no-sync -D $PGDATA -U postgres --auth=trust >/dev/null; fi'' @ nl @
     ''rm -f $PGDATA/postmaster.pid'' @ nl @
     ''postgres -D $PGDATA -k /tmp -c listen_addresses=127.0.0.1 &'' @ nl @
     ''if [ ! -e .fern/pg-ready ]; then until pg_isready -q -h 127.0.0.1; do sleep 0.2; done'' @ nl @
     ''psql -q -h 127.0.0.1 -U postgres -c '' @ dq @ ''DO '' @ bs @ ''$'' @ bs @ ''$BEGIN IF NOT EXISTS (SELECT FROM pg_roles WHERE rolname = ''
       @ sq @ pgUser pg @ sq @ '') THEN CREATE ROLE '' @ pgUser pg @ '' LOGIN SUPERUSER; END IF; END'' @ bs @ ''$'' @ bs @ ''$'' @ dq @ nl @
     ''(psql -q -h 127.0.0.1 -U postgres -tAc '' @ dq @ ''SELECT 1 FROM pg_database WHERE datname = '' @ sq @ pgDb pg @ sq @ dq
       @ '' | grep -q 1 || createdb -h 127.0.0.1 -U postgres -O '' @ pgUser pg @ '' '' @ pgDb pg @ '')'' @ nl @
     ''touch .fern/pg-ready; fi'' @ nl @
     ''wait''"

text \<open>
  \<open>json.Marshal\<close> of a string: quotes, backslashes and control characters escaped, and the three
  characters HTML gives a meaning. The texts quoted here are ASCII.
\<close>

definition hex_char :: "nat \<Rightarrow> char" where
  "hex_char d = (if d < 10 then char_of (48 + d) else char_of (87 + d))"

definition json_char :: "char \<Rightarrow> string" where
  "json_char c =
     (let n = (of_char c :: nat) in
      if n = 34 \<or> n = 92 then bs @ [c]
      else if n = 10 then bs @ ''n''
      else if n = 13 then bs @ ''r''
      else if n = 9 then bs @ ''t''
      else if n = 8 then bs @ ''b''
      else if n = 12 then bs @ ''f''
      else if n < 32 \<or> n = 60 \<or> n = 62 \<or> n = 38
        then bs @ ''u00'' @ [hex_char (n div 16), hex_char (n mod 16)]
      else [c])"

definition quote :: "string \<Rightarrow> string" where
  "quote s = dq @ concat (map json_char s) @ dq"

text \<open>\<open>%q\<close> of a version or a package manager's name, which need no escapes.\<close>

definition quoted_version :: "string \<Rightarrow> string" where
  "quoted_version v = dq @ v @ dq"

definition env_value :: "string \<Rightarrow> (string \<times> string) list \<Rightarrow> string" where
  "env_value k m = (case map_of m k of Some v \<Rightarrow> v | None \<Rightarrow> [])"

definition pick_framework :: "package \<Rightarrow> framework" where
  "pick_framework pkg =
     (case find (\<lambda>f. env_value (fwPkg f) (Dependencies pkg) \<noteq> [] \<or> env_value (fwPkg f) (DevDependencies pkg) \<noteq> []) frameworks of
        Some f \<Rightarrow> f
      | None \<Rightarrow> \<lparr>fwPkg = [], fwArgs = [], fwPort = 3000\<rparr>)"

definition run_line :: "packageManager \<Rightarrow> bool \<Rightarrow> framework \<Rightarrow> string" where
  "run_line pm locked fw =
     (if locked then pmInstall pm else pmFresh pm) @ '' && exec '' @ pmRun pm @ '' dev'' @
     (if fwArgs fw \<noteq> [] then (if pmDashdash pm then '' --'' else []) @ '' '' @ fwArgs fw else [])"

definition services_text :: "string \<Rightarrow> postgres option \<Rightarrow> int \<Rightarrow> string" where
  "services_text web0 pg port =
     (let web = (case pg of
            None \<Rightarrow> web0
          | Some d \<Rightarrow> ''export DATABASE_URL=${DATABASE_URL:-postgres://'' @ pgUser d @ '':'' @ pgPassword d
                      @ ''@localhost:5432/'' @ pgDb d @ ''}; '' @ web0) in
      ''# Fern'' @ sq @ ''s guess, from package.json: this repository has no services.yaml.'' @ nl @ ''services:'' @ nl @
      (case pg of
         None \<Rightarrow> []
       | Some d \<Rightarrow> ''  postgres:'' @ nl @ ''    run: '' @ quote (postgresRun d) @ nl
           @ ''    stop: pg_ctl stop -D .fern/pg -m fast'' @ nl
           @ ''    ready: test -e .fern/pg-ready && pg_isready -q -h 127.0.0.1'' @ nl) @
      ''  web:'' @ nl @ ''    run: '' @ quote web @ nl
        @ ''    ready: '' @ quote (''bash -c '' @ sq @ ''exec 3<>/dev/tcp/127.0.0.1/$PORT'' @ sq) @ nl
        @ ''    port: '' @ Itoa port @ nl)"

definition pm_version :: "packageManager \<Rightarrow> string \<Rightarrow> string" where
  "pm_version pm field =
     (case cut_at CHR ''@'' field of (name, ver, found) \<Rightarrow>
        let v = fst (cut_at CHR ''+'' ver) in
        if found \<and> name = pmName pm \<and> versionRE v then v else ''latest'')"

definition tools_text :: "packageManager \<Rightarrow> string \<Rightarrow> string \<Rightarrow> string" where
  "tools_text pm field node =
     ''# Fern'' @ sq @ ''s guess, from package.json.'' @ nl @ ''[tools]'' @ nl @ ''node = '' @ quoted_version node @ nl @
     (if pmTool pm then pmName pm @ '' = '' @ quoted_version (pm_version pm field) @ nl else [])"

definition guess_of :: "codecs \<Rightarrow> path \<Rightarrow> package \<Rightarrow> Guess setup_prog" where
  "guess_of co dir pkg =
     bind_s (pickPackageManager dir (PackageManager pkg)) (\<lambda>(pm, locked).
     bind_s (composePostgres co dir) (\<lambda>pg. let fw = pick_framework pkg in
     bind_s (nodeVersion dir (EnginesNode pkg)) (\<lambda>node.
     bind_s (hasToolFiles co dir) (\<lambda>has.
       ret \<lparr>Services = Some (services_text (run_line pm locked fw) pg (fwPort fw)),
            Tools = (if has then None else Some (tools_text pm (PackageManager pkg) node)),
            Inputs = guessInputs\<rparr>))))"

definition MakeGuess :: "codecs \<Rightarrow> path \<Rightarrow> Guess setup_prog" where
  "MakeGuess co dir =
     bind_s (setup_readFile dir ''services.yaml'') (\<lambda>r. case r of
       Inr _ \<Rightarrow> ret no_guess
     | Inl NotExist \<Rightarrow>
         bind_s (setup_readFile dir ''package.json'') (\<lambda>q. case q of
           Inl NotExist \<Rightarrow> ret no_guess
         | Inl e \<Rightarrow> raise (ReadError ''package.json'' e)
         | Inr d \<Rightarrow> (case jsonPackage co d of
               None \<Rightarrow> raise (BadJSON ''package.json'')
             | Some pkg \<Rightarrow> if env_value ''dev'' (Scripts pkg) = [] then ret no_guess else guess_of co dir pkg))
     | Inl e \<Rightarrow> raise (ReadError ''services.yaml'' e))"

section \<open>The golden key\<close>

definition has_contract :: "path \<Rightarrow> bool setup_prog" where
  "has_contract dir =
     fold_s (\<lambda>p has. bind_s (lstat_in dir p) (\<lambda>there. ret (has \<or> there))) contractFiles False"

definition key_text :: "string \<Rightarrow> (string \<times> string) list \<Rightarrow> string" where
  "key_text img hs = setup_version @ nul @ img @ nul @ concat (map sum_line hs)"

definition Key :: "codecs \<Rightarrow> path \<Rightarrow> string \<Rightarrow> string setup_prog" where
  "Key co dir img =
     bind_s (has_contract dir) (\<lambda>has.
     bind_s (MakeGuess co dir) (\<lambda>g.
       if Services g = None \<and> \<not> has then raise ErrNoContract
       else bind_s (goldenInputs co dir) (\<lambda>inputs.
         let ps = remdups_adj (sort (contractFiles @ lockFiles
                    @ (if Services g \<noteq> None then Inputs g else []) @ inputs)) in
         bind_s (fileSums co dir ps) (\<lambda>hs.
         ret (''golden-'' @ take 16 (sha256hex co (key_text img hs)))))))"

definition ToolsKey :: "codecs \<Rightarrow> path \<Rightarrow> string setup_prog" where
  "ToolsKey co dir =
     bind_s (hasToolFiles co dir) (\<lambda>has.
       if \<not> has then
         bind_s (MakeGuess co dir) (\<lambda>g. ret (case Tools g of None \<Rightarrow> [] | Some t \<Rightarrow> sha256hex co t))
       else bind_s (fileSums co dir ToolFiles) (\<lambda>hs. ret (sha256hex co (concat (map sum_line hs)))))"

definition ServicesFile :: "codecs \<Rightarrow> path \<Rightarrow> (string option \<times> bool) setup_prog" where
  "ServicesFile co dir =
     bind_s (setup_readFile dir ''services.yaml'') (\<lambda>r. case r of
       Inr d \<Rightarrow> ret (Some d, False)
     | Inl NotExist \<Rightarrow> bind_s (MakeGuess co dir) (\<lambda>g. ret (Services g, Services g \<noteq> None))
     | Inl e \<Rightarrow> raise (ReadError ''services.yaml'' e))"

definition PreviewPort :: "codecs \<Rightarrow> path \<Rightarrow> int setup_prog" where
  "PreviewPort co dir =
     bind_s (ServicesFile co dir) (\<lambda>(d, _). case d of
       None \<Rightarrow> ret 0
     | Some d \<Rightarrow> (case yamlServicePorts co d of
           None \<Rightarrow> raise (BadYAML ''services.yaml'')
         | Some ports \<Rightarrow>
             (case find (\<lambda>x. 0 < snd x \<and> snd x \<le> 65535) (sort_key fst ports) of
                Some x \<Rightarrow> ret (snd x)
              | None \<Rightarrow> ret 0)))"

end
