(* ===== verification/SetupLaws.thy ===== *)
theory SetupLaws
  imports Setup SampleStore
begin

text \<open>
  What the golden key of \<open>internal/setup\<close> depends on, what a guess can hold, and that equal keys mean
  equal contract files up to collisions of the hash.
\<close>

section \<open>Reads stay inside the directory\<close>

text \<open>Two states that agree on the directory, on what fails and on the clock.\<close>

definition agree :: "path \<Rightarrow> store \<Rightarrow> store \<Rightarrow> bool" where
  "agree dir s t \<longleftrightarrow> lookup (disk s) dir = lookup (disk t) dir \<and> wld s = wld t \<and> calls s = calls t"

text \<open>A program that cannot tell such states apart.\<close>

definition confined :: "path \<Rightarrow> (store, 'e, 'a) prog \<Rightarrow> bool" where
  "confined dir m \<longleftrightarrow>
     (\<forall>s t. agree dir s t \<longrightarrow> fst (m s) = fst (m t) \<and> agree dir (snd (m s)) (snd (m t)))"

named_theorems confined_rules

lemma confinedD:
  "confined dir m \<Longrightarrow> agree dir s t \<Longrightarrow> fst (m s) = fst (m t) \<and> agree dir (snd (m s)) (snd (m t))"
  by (simp add: confined_def)

lemma confined_ret [confined_rules]: "confined dir (ret x)"
  by (simp add: confined_def ret_def)

lemma confined_raise [confined_rules]: "confined dir (raise e)"
  by (simp add: confined_def raise_def)

lemma confined_bind [confined_rules]:
  assumes "confined dir m" "\<And>x. confined dir (f x)"
  shows "confined dir (bind_s m f)"
  unfolding confined_def
proof (intro allI impI)
  fix s t assume "agree dir s t"
  with assms(1) have *: "fst (m s) = fst (m t)" "agree dir (snd (m s)) (snd (m t))"
    by (auto dest: confinedD)
  show "fst (bind_s m f s) = fst (bind_s m f t) \<and> agree dir (snd (bind_s m f s)) (snd (bind_s m f t))"
  proof (cases "m s")
    case (Pair r u)
    obtain v where "m t = (r, v)" using * Pair by (cases "m t") simp
    then show ?thesis
      using * Pair assms(2) by (cases r) (auto simp: bind_s_def dest: confinedD)
  qed
qed

lemma confined_if [confined_rules]:
  "(b \<Longrightarrow> confined dir m) \<Longrightarrow> (\<not> b \<Longrightarrow> confined dir n) \<Longrightarrow> confined dir (if b then m else n)"
  by simp

lemma confined_case_sum [confined_rules]:
  "(\<And>a. confined dir (f a)) \<Longrightarrow> (\<And>b. confined dir (g b)) \<Longrightarrow>
   confined dir (case x of Inl a \<Rightarrow> f a | Inr b \<Rightarrow> g b)"
  by (cases x) simp_all

lemma confined_case_option [confined_rules]:
  "confined dir m \<Longrightarrow> (\<And>y. confined dir (f y)) \<Longrightarrow> confined dir (case x of None \<Rightarrow> m | Some y \<Rightarrow> f y)"
  by (cases x) simp_all

lemma confined_case_prod [confined_rules]:
  "(\<And>a b. confined dir (f a b)) \<Longrightarrow> confined dir (case x of (a, b) \<Rightarrow> f a b)"
  by (cases x) simp

lemma confined_case_read_error [confined_rules]:
  assumes "confined dir m1" "confined dir m2" "confined dir m3" "confined dir m4" "confined dir m5"
    "confined dir m6" "confined dir m7" "confined dir m8" "\<And>n. confined dir (f n)"
  shows "confined dir (case e of NotExist \<Rightarrow> m1 | NotDirectory \<Rightarrow> m2 | Escapes \<Rightarrow> m3 | TooManyLinks \<Rightarrow> m4
     | BadName \<Rightarrow> m5 | IsSymlink \<Rightarrow> m6 | NotRegular \<Rightarrow> m7 | TooBig \<Rightarrow> m8 | ReadFault n \<Rightarrow> f n)"
  using assms by (cases e) simp_all

lemma confined_let [confined_rules]:
  "(\<And>x. confined dir (f x)) \<Longrightarrow> confined dir (let x = v in f x)"
  by simp

lemma confined_fold_s [confined_rules]:
  "(\<And>x b. confined dir (f x b)) \<Longrightarrow> confined dir (fold_s f xs b)"
  by (induction xs arbitrary: b) (auto intro: confined_ret confined_bind)

lemma prefix_butlast: "prefix p q \<Longrightarrow> p \<noteq> q \<Longrightarrow> prefix p (butlast q)"
  by (cases q rule: rev_cases) auto

lemma lookup_agree:
  "lookup t dir = lookup u dir \<Longrightarrow> prefix dir q \<Longrightarrow> lookup t q = lookup u q"
  by (auto simp: prefix_def lookup_append)

lemma hop_of_agree:
  assumes "lookup t dir = lookup u dir" "prefix dir cur"
  shows "hop_of t (Some dir) n cur c cs = hop_of u (Some dir) n cur c cs"
    and "hop_of t (Some dir) n cur c cs = Go m q ds \<Longrightarrow> prefix dir q"
    and "hop_of t (Some dir) n cur c cs = Stop (Inr q) \<Longrightarrow> prefix dir q"
  using assms lookup_agree [OF assms] prefix_butlast [OF assms(2)]
  by (auto simp: hop_of_def hop_name_def hop_link_def split: if_splits option.splits node.splits)

lemma namei_agree:
  assumes "lookup t dir = lookup u dir" "prefix dir cur"
  shows "namei t (Some dir) n cur cs = namei u (Some dir) n cur cs
    \<and> (\<forall>q. namei t (Some dir) n cur cs = Inr q \<longrightarrow> prefix dir q)"
  using assms
proof (induction t "Some dir" n cur cs rule: namei.induct)
  case (2 t n cur c cs)
  show ?case
  proof (cases "hop_of t (Some dir) n cur c cs")
    case (Stop r)
    then show ?thesis using hop_of_agree(1,3) [OF "2.prems", of n c cs] by (auto simp: namei.simps(2))
  next
    case (Go m q ds)
    then have "prefix dir q" by (rule hop_of_agree(2) [OF "2.prems"])
    with Go "2.hyps" "2.prems" hop_of_agree(1) [OF "2.prems", of n c cs] show ?thesis
      by (simp add: namei.simps(2))
  qed
qed simp

lemma hop_of_kernel:
  assumes "n \<le> m"
  shows "hop_of t (Some dir) n cur c cs = Stop r \<Longrightarrow> r \<noteq> Inl Escapes \<Longrightarrow> r \<noteq> Inl TooManyLinks \<Longrightarrow>
      hop_of t None m cur c cs = Stop r"
    and "hop_of t (Some dir) n cur c cs = Go k q ds \<Longrightarrow> \<exists>k'\<ge>k. hop_of t None m cur c cs = Go k' q ds"
  using assms by (auto simp: hop_of_def hop_name_def hop_link_def split: if_splits option.splits node.splits)

lemma namei_kernel:
  assumes "namei t (Some dir) n cur cs \<noteq> Inl Escapes" "namei t (Some dir) n cur cs \<noteq> Inl TooManyLinks" "n \<le> m"
  shows "namei t None m cur cs = namei t (Some dir) n cur cs"
  using assms
proof (induction t "Some dir" n cur cs arbitrary: m rule: namei.induct)
  case (2 t n cur c cs)
  show ?case
  proof (cases "hop_of t (Some dir) n cur c cs")
    case (Stop r)
    then show ?thesis using "2.prems" hop_of_kernel(1) [OF "2.prems"(3) Stop] by (simp add: namei.simps(2))
  next
    case (Go k q ds)
    obtain k' where "k \<le> k'" "hop_of t None m cur c cs = Go k' q ds"
      using hop_of_kernel(2) [OF "2.prems"(3) Go] by blast
    with Go "2.hyps" [OF Go, of k'] "2.prems" show ?thesis by (simp add: namei.simps(2))
  qed
qed simp

text \<open>Every read of the package, the kernel's \<open>lstat\<close> apart.\<close>

lemma read_in_agree:
  assumes "lookup t dir = lookup u dir"
  shows "read_in dir p t = read_in dir p u"
proof -
  have "namei t (Some dir) n dir cs = namei u (Some dir) n dir cs
    \<and> (\<forall>q. namei t (Some dir) n dir cs = Inr q \<longrightarrow> lookup t q = lookup u q)" for n cs
    using namei_agree [OF assms, of dir n cs] lookup_agree [OF assms] by auto
  then show ?thesis using assms by (auto simp: read_in_def split: option.splits node.splits sum.splits)
qed

lemma agree_tick: "agree dir s t \<Longrightarrow> agree dir (tick s) (tick t)"
  by (simp add: agree_def)

lemma confined_readFile [confined_rules]: "confined dir (setup_readFile dir p)"
  unfolding confined_def
proof (intro allI impI)
  fix s t assume a: "agree dir s t"
  then have "faulty s = faulty t" "read_in dir p (disk s) = read_in dir p (disk t)"
    by (auto simp: agree_def faulty_def intro: read_in_agree)
  with a show "fst (setup_readFile dir p s) = fst (setup_readFile dir p t)
      \<and> agree dir (snd (setup_readFile dir p s)) (snd (setup_readFile dir p t))"
    by (auto simp: setup_readFile_def agree_tick split: option.split)
qed

lemma confined_fileSum [confined_rules]: "confined dir (fileSum co dir p)"
  unfolding fileSum_def by (intro confined_rules)

lemma confined_fileSums [confined_rules]: "confined dir (fileSums co dir ps)"
  unfolding fileSums_def by (intro confined_rules)

lemma confined_hasToolFiles [confined_rules]: "confined dir (hasToolFiles co dir)"
proof -
  have "confined dir (hasToolFiles_from co dir ps)" for ps
    by (induction ps) (auto intro!: confined_rules)
  then show ?thesis by (simp add: hasToolFiles_def)
qed

lemma confined_goldenInputs [confined_rules]: "confined dir (goldenInputs co dir)"
  unfolding goldenInputs_def by (intro confined_rules)

lemma confined_pickPackageManager [confined_rules]: "confined dir (pickPackageManager dir f)"
proof -
  have "confined dir (pick_locked dir name pms)" for name pms
    by (induction pms) (auto intro!: confined_rules)
  then show ?thesis unfolding pickPackageManager_def by (intro confined_rules)
qed

lemma confined_nodeVersion [confined_rules]: "confined dir (nodeVersion dir e)"
proof -
  have "confined dir (node_file dir ps)" for ps
    by (induction ps) (auto intro!: confined_rules)
  then show ?thesis unfolding nodeVersion_def by (intro confined_rules)
qed

lemma confined_composePostgres [confined_rules]: "confined dir (composePostgres co dir)"
proof -
  have "confined dir (compose_in co dir ps)" for ps
    by (induction ps) (auto intro!: confined_rules)
  then show ?thesis by (simp add: composePostgres_def)
qed

lemma confined_MakeGuess [confined_rules]: "confined dir (MakeGuess co dir)"
  unfolding MakeGuess_def guess_of_def by (intro confined_rules)

section \<open>The sums a key is made of\<close>

definition readable :: "path \<Rightarrow> node \<Rightarrow> string \<Rightarrow> bool" where
  "readable dir t p \<longleftrightarrow> (case read_in dir p t of Inr _ \<Rightarrow> True | Inl e \<Rightarrow> e = NotExist)"

definition sum_of :: "codecs \<Rightarrow> path \<Rightarrow> node \<Rightarrow> string \<Rightarrow> string" where
  "sum_of co dir t p = (case read_in dir p t of Inr d \<Rightarrow> sha256hex co d | Inl _ \<Rightarrow> ''missing'')"

lemma wp_readFile [wp_rules]:
  "wp (setup_readFile dir p) Q E = (\<lambda>s. case faulty s of
     Some n \<Rightarrow> Q (Inl (ReadFault n)) (tick s) | None \<Rightarrow> Q (read_in dir p (disk s)) (tick s))"
  by (rule ext) (simp add: wp_def setup_readFile_def split: option.split)

lemma wp_lstat_in [wp_rules]:
  "wp (lstat_in dir p) Q E = (\<lambda>s. case faulty s of
     Some n \<Rightarrow> Q False (tick s)
   | None \<Rightarrow> Q (case namei (disk s) None kernelMaxSymlinks dir (split_on CHR ''/'' p) of
                 Inl e \<Rightarrow> False | Inr q \<Rightarrow> lookup (disk s) q \<noteq> None) (tick s))"
  by (rule ext) (simp add: wp_def lstat_in_def split: option.split)

lemma wp_fileSum:
  "wp (fileSum co dir p) (\<lambda>h t. disk t = disk s \<and> h = sum_of co dir (disk s) p \<and> readable dir (disk s) p)
     (\<lambda>_ _. True) s"
proof (cases "faulty s")
  case None
  then show ?thesis
    by (cases "read_in dir p (disk s)")
      (auto simp: fileSum_def wp_rules sum_of_def readable_def wp_def ret_def raise_def split: read_error.split)
next
  case (Some n)
  then show ?thesis by (simp add: fileSum_def wp_rules)
qed

lemma wp_fileSums:
  "wp (fileSums co dir ps)
     (\<lambda>hs t. hs = map (\<lambda>p. (p, sum_of co dir (disk s) p)) ps \<and> (\<forall>p\<in>set ps. readable dir (disk s) p))
     (\<lambda>_ _. True) s"
  unfolding fileSums_def
proof (rule wp_fold_s [where I = "\<lambda>ys xs t. disk t = disk s \<and> (\<exists>zs. ps = zs @ ys
     \<and> xs = map (\<lambda>p. (p, sum_of co dir (disk s) p)) zs \<and> (\<forall>p\<in>set zs. readable dir (disk s) p))"])
  fix x ys b and t :: store
  assume "disk t = disk s \<and> (\<exists>zs. ps = zs @ x # ys
     \<and> b = map (\<lambda>p. (p, sum_of co dir (disk s) p)) zs \<and> (\<forall>p\<in>set zs. readable dir (disk s) p))"
  then obtain zs where z: "disk t = disk s" "ps = (zs @ [x]) @ ys"
    "b = map (\<lambda>p. (p, sum_of co dir (disk s) p)) zs" "\<forall>p\<in>set zs. readable dir (disk s) p" by auto
  show "wp (bind_s (fileSum co dir x) (\<lambda>h. ret (b @ [(x, h)])))
     (\<lambda>xs t. disk t = disk s \<and> (\<exists>zs. ps = zs @ ys
     \<and> xs = map (\<lambda>p. (p, sum_of co dir (disk s) p)) zs \<and> (\<forall>p\<in>set zs. readable dir (disk s) p))) (\<lambda>_ _. True) t"
    unfolding wp_bind wp_ret
    by (rule wp_mono [OF wp_fileSum [of co dir x t]]) (use z in \<open>auto intro!: exI [of _ "zs @ [x]"]\<close>)
qed auto

lemma keeps_case_read_error [keeps_rules]:
  assumes "keeps I m1" "keeps I m2" "keeps I m3" "keeps I m4" "keeps I m5" "keeps I m6" "keeps I m7" "keeps I m8"
    "\<And>n. keeps I (f n)"
  shows "keeps I (case e of NotExist \<Rightarrow> m1 | NotDirectory \<Rightarrow> m2 | Escapes \<Rightarrow> m3 | TooManyLinks \<Rightarrow> m4
     | BadName \<Rightarrow> m5 | IsSymlink \<Rightarrow> m6 | NotRegular \<Rightarrow> m7 | TooBig \<Rightarrow> m8 | ReadFault n \<Rightarrow> f n)"
  using assms by (cases e) simp_all

lemma keeps_disk_readFile [keeps_rules]: "keeps (\<lambda>s. disk s = d) (setup_readFile dir p)"
  by (simp add: keeps_wp wp_rules split: option.split)

lemma keeps_disk_lstat_in [keeps_rules]: "keeps (\<lambda>s. disk s = d) (lstat_in dir p)"
  by (simp add: keeps_wp wp_rules split: option.split)

lemma keeps_disk_tools [keeps_rules]: "keeps (\<lambda>s. disk s = d) (hasToolFiles co dir)"
proof -
  have "keeps (\<lambda>s. disk s = d) (hasToolFiles_from co dir ps)" for ps
    by (induction ps) (auto simp: fileSum_def intro!: keeps_rules)
  then show ?thesis by (simp add: hasToolFiles_def)
qed

lemma keeps_disk_MakeGuess [keeps_rules]: "keeps (\<lambda>s. disk s = d) (MakeGuess co dir)"
proof -
  have "keeps (\<lambda>s. disk s = d) (pick_locked dir name pms)" for name pms
    by (induction pms) (auto intro!: keeps_rules)
  moreover have "keeps (\<lambda>s. disk s = d) (node_file dir ps)" for ps
    by (induction ps) (auto intro!: keeps_rules)
  moreover have "keeps (\<lambda>s. disk s = d) (compose_in co dir ps)" for ps
    by (induction ps) (auto intro!: keeps_rules)
  ultimately show ?thesis
    unfolding MakeGuess_def guess_of_def pickPackageManager_def nodeVersion_def composePostgres_def
    by (intro keeps_rules)
qed

lemma keeps_disk_goldenInputs [keeps_rules]: "keeps (\<lambda>s. disk s = d) (goldenInputs co dir)"
  unfolding goldenInputs_def by (intro keeps_rules)

lemma keeps_disk_has_contract [keeps_rules]: "keeps (\<lambda>s. disk s = d) (has_contract dir)"
  unfolding has_contract_def by (intro keeps_rules)

section \<open>What a guess can hold\<close>

definition pg_safe :: "postgres \<Rightarrow> bool" where
  "pg_safe d \<longleftrightarrow> identifierRE (pgUser d) \<and> identifierRE (pgPassword d) \<and> identifierRE (pgDb d)"

definition env_safe :: "(string \<rightharpoonup> string) \<Rightarrow> bool" where
  "env_safe env \<longleftrightarrow> (\<forall>k w. env k = Some w \<longrightarrow> identifierRE w)"

lemma env_safe_set: "env_safe env \<Longrightarrow> env_safe (compose_set k v env)"
  by (auto simp: env_safe_def compose_set_def compose_value_def split: option.splits if_splits)

lemma fold_invariant: "I b \<Longrightarrow> (\<And>x b. I b \<Longrightarrow> I (f x b)) \<Longrightarrow> I (fold f xs b)"
  by (induction xs arbitrary: b) simp_all

lemma env_safe_composeEnv: "env_safe (composeEnv v)"
proof -
  have "env_safe Map.empty" by (simp add: env_safe_def)
  then have "env_safe (fold (\<lambda>(k, val) env. case val of Some x \<Rightarrow> compose_set k x env | None \<Rightarrow> env) kvs Map.empty)"
    and "env_safe (fold (\<lambda>item env. case item of None \<Rightarrow> env
        | Some x \<Rightarrow> (case cut_at CHR ''='' x of (k, val, found) \<Rightarrow> if found then compose_set k val env else env))
        items Map.empty)" for kvs items
    by (rule fold_invariant [where I = env_safe], auto intro: env_safe_set split: option.split prod.split)+
  with \<open>env_safe Map.empty\<close> show ?thesis by (auto simp: composeEnv_def split: option.split sum.split)
qed

lemma pg_safe_of: "env_safe env \<Longrightarrow> pg_safe (pg_of env)"
proof -
  assume "env_safe env"
  moreover have "identifierRE ''postgres''" by code_simp
  ultimately have "identifierRE (or_default d (env k))" if "identifierRE d" for d k
    using that by (auto simp: or_default_def env_safe_def split: option.split)
  then show ?thesis using \<open>identifierRE ''postgres''\<close> by (simp add: pg_safe_def pg_of_def Let_def)
qed

lemma wp_composePostgres:
  "wp (composePostgres co dir) (\<lambda>pg _. \<forall>d. pg = Some d \<longrightarrow> pg_safe d) (\<lambda>_ _. True) s"
proof -
  have "wp (compose_in co dir ps) (\<lambda>pg _. \<forall>d. pg = Some d \<longrightarrow> pg_safe d) (\<lambda>_ _. True) s" for ps s
  proof (induction ps arbitrary: s)
    case (Cons p ps)
    then show ?case
      by (auto simp: wp_rules pg_safe_of env_safe_composeEnv split: option.split sum.split read_error.split)
  qed (simp add: wp_rules)
  then show ?thesis by (simp add: composePostgres_def)
qed

definition version_text :: "string \<Rightarrow> bool" where
  "version_text v \<longleftrightarrow> list_all version_char v"

lemma version_RE_chars: "versionRE v \<Longrightarrow> version_text v"
  by (simp add: versionRE_def version_text_def)

lemma version_lts: "version_text ''lts''" "version_text ''latest''"
  by code_simp+

lemma version_firstNumber: "version_text (firstNumber e)"
  by (auto simp: version_text_def firstNumber_def list_all_iff version_char_def alnum_def dest: set_takeWhileD)

lemma wp_nodeVersion: "wp (nodeVersion dir e) (\<lambda>v _. version_text v) (\<lambda>_ _. True) s"
proof -
  have read: "wp (node_file dir ps) (\<lambda>r _. \<forall>v. r = Some v \<longrightarrow> version_text v) (\<lambda>_ _. True) s" for ps s
  proof (induction ps arbitrary: s)
    case (Cons p ps)
    then show ?case
      by (auto simp: wp_rules Let_def version_lts version_RE_chars split: option.split sum.split)
  qed (simp add: wp_rules)
  show ?thesis
    unfolding nodeVersion_def wp_bind
    by (rule wp_mono [OF read]) (auto simp: wp_rules version_lts version_firstNumber split: option.split)
qed

lemma wp_pickPackageManager:
  "wp (pickPackageManager dir f) (\<lambda>x _. fst x \<in> set packageManagers) (\<lambda>_ _. True) s"
proof -
  have lock: "wp (pick_locked dir name pms) (\<lambda>r _. \<forall>pm. r = Some pm \<longrightarrow> pm \<in> set pms) (\<lambda>_ _. True) s" for name pms s
  proof (induction pms arbitrary: s)
    case (Cons p pms)
    have "wp (pick_locked dir name pms) (\<lambda>r _. \<forall>pm. r = Some pm \<longrightarrow> pm = p \<or> pm \<in> set pms) (\<lambda>_ _. True) t" for t
      by (rule wp_mono [OF Cons.IH]) auto
    then show ?case by (auto simp: wp_rules split: option.split sum.split)
  qed (simp add: wp_rules)
  have "last packageManagers \<in> set packageManagers" by (simp add: packageManagers_def)
  then show ?thesis
    unfolding pickPackageManager_def Let_def wp_bind
    by (intro wp_mono [OF lock]) (auto simp: wp_rules find_Some_iff split: option.split)
qed

text \<open>
  The guess made of a repository is one of a fixed set of texts, filled in only with names and
  versions of plain characters.
\<close>

definition plain_guess :: "Guess \<Rightarrow> bool" where
  "plain_guess g \<longleftrightarrow> g = no_guess \<or>
     (\<exists>pm locked pkg pg node.
        pm \<in> set packageManagers \<and> (\<forall>d. pg = Some d \<longrightarrow> pg_safe d) \<and> version_text node
        \<and> version_text (pm_version pm (PackageManager pkg))
        \<and> Services g = Some (services_text (run_line pm locked (pick_framework pkg)) pg (fwPort (pick_framework pkg)))
        \<and> (Tools g = None \<or> Tools g = Some (tools_text pm (PackageManager pkg) node))
        \<and> Inputs g = guessInputs)"

lemma pm_version_chars: "version_text (pm_version pm f)"
  by (auto simp: pm_version_def Let_def version_lts version_RE_chars split: prod.split)

lemma wp_guess_of: "wp (guess_of co dir pkg) (\<lambda>g _. plain_guess g) (\<lambda>_ _. True) s"
proof -
  have tools: "wp (hasToolFiles co dir) (\<lambda>has _. plain_guess
       \<lparr>Services = Some (services_text (run_line (fst x) (snd x) (pick_framework pkg)) pg (fwPort (pick_framework pkg))),
        Tools = (if has then None else Some (tools_text (fst x) (PackageManager pkg) node)), Inputs = guessInputs\<rparr>)
       (\<lambda>_ _. True) t"
    if "fst x \<in> set packageManagers" "\<forall>d. pg = Some d \<longrightarrow> pg_safe d" "version_text node" for x pg node t
    by (rule wp_mono [OF wp_True])
      (use that in \<open>auto simp: plain_guess_def pm_version_chars intro!: exI [of _ "fst x"] exI [of _ "snd x"] exI [of _ pg] exI [of _ pkg] exI [of _ node]\<close>)
  show ?thesis
    unfolding guess_of_def Let_def wp_bind wp_case_prod wp_ret case_prod_beta
    by (rule wp_mono [OF wp_pickPackageManager], rule wp_mono [OF wp_composePostgres],
        rule wp_mono [OF wp_nodeVersion], rule tools, simp_all)
qed

lemma wp_MakeGuess: "wp (MakeGuess co dir) (\<lambda>g _. plain_guess g) (\<lambda>_ _. True) s"
proof -
  have "plain_guess no_guess" by (simp add: plain_guess_def)
  then show ?thesis
    by (auto simp: MakeGuess_def wp_rules wp_guess_of split: option.split sum.split read_error.split)
qed

text \<open>
  C12. A guess can't be used to inject anything: whatever a repository's \<open>package.json\<close>, \<open>.nvmrc\<close> and
  compose file hold, the \<open>services.yaml\<close> and the mise config \<open>MakeGuess\<close> makes are the fixed texts,
  with a database's role, password and name that are plain identifiers and with versions of
  letters, digits, dots and dashes.
\<close>

theorem MakeGuess_plain:
  "case fst (MakeGuess co dir s) of Inl _ \<Rightarrow> True | Inr g \<Rightarrow> plain_guess g"
  using wp_MakeGuess [of co dir s] by (auto simp: wp_def split: prod.splits sum.splits)

section \<open>The golden key\<close>

definition key_rest :: "codecs \<Rightarrow> path \<Rightarrow> string \<Rightarrow> bool \<Rightarrow> string setup_prog" where
  "key_rest co dir img has =
     bind_s (MakeGuess co dir) (\<lambda>g.
       if Services g = None \<and> \<not> has then raise ErrNoContract
       else bind_s (goldenInputs co dir) (\<lambda>inputs.
         let ps = remdups_adj (sort (contractFiles @ lockFiles
                    @ (if Services g \<noteq> None then Inputs g else []) @ inputs)) in
         bind_s (fileSums co dir ps) (\<lambda>hs.
         ret (''golden-'' @ take 16 (sha256hex co (key_text img hs))))))"

lemma Key_eq: "Key co dir img = bind_s (has_contract dir) (key_rest co dir img)"
  by (simp add: Key_def key_rest_def [abs_def])

lemma confined_key_rest [confined_rules]: "confined dir (key_rest co dir img has)"
  unfolding key_rest_def by (intro confined_rules)

text \<open>Inputs as the decoder gives them, without NUL.\<close>

definition plain_inputs :: "codecs \<Rightarrow> bool" where
  "plain_inputs co \<longleftrightarrow> (\<forall>d ps p. yamlGoldenInputs co d = Some ps \<longrightarrow> p \<in> set ps \<longrightarrow> char_of (0::nat) \<notin> set p)"

lemma set_split_on: "c' \<in> set w \<Longrightarrow> w \<in> set (split_on c s) \<Longrightarrow> c' \<in> set s"
proof (induction s arbitrary: w)
  case (Cons x xs)
  then show ?case by (cases "split_on c xs") (fastforce split: if_splits)+
qed simp

lemma set_clean_step: "set (clean_step r c acc) \<subseteq> insert ''..'' (insert c (set acc))"
  by (auto simp: clean_step_def split: list.splits if_splits)

lemma set_clean_fold: "set (fold (clean_step r) cs acc) \<subseteq> insert ''..'' (set cs \<union> set acc)"
proof (induction cs arbitrary: acc)
  case (Cons c cs)
  from Cons [of "clean_step r c acc"] set_clean_step [of r c acc] show ?case by auto
qed auto

lemma clean_text_plain:
  assumes "x \<notin> set p" "x \<noteq> CHR ''.''" "x \<noteq> CHR ''/''"
  shows "x \<notin> set (clean_text (Clean p))"
proof -
  have "x \<notin> set w" if "w \<in> set (snd (Clean p))" for w
    using that set_clean_fold [of "is_abs p" "split_on CHR ''/'' p" "[]"] set_split_on [of x w] assms
    by (auto simp: Clean_def clean_onto_def)
  with assms show ?thesis
    by (cases "Clean p" rule: clean_text.cases) (auto simp: path_text_def split: if_splits)
qed

lemma clean_inputs_Inr: "clean_inputs ps = Inr qs \<Longrightarrow> set qs = (\<lambda>p. clean_text (Clean p)) ` set ps"
  by (induction ps arbitrary: qs) (auto split: if_splits sum.splits)

lemma nul_char: "char_of (0::nat) \<noteq> CHR ''.''" "char_of (0::nat) \<noteq> CHR ''/''"
  by code_simp+

lemma wp_goldenInputs:
  "wp (goldenInputs co dir)
     (\<lambda>qs t. disk t = disk s \<and> (plain_inputs co \<longrightarrow> (\<forall>q\<in>set qs. char_of (0::nat) \<notin> set q))) (\<lambda>_ _. True) s"
  using clean_text_plain [OF _ nul_char]
  by (auto simp: goldenInputs_def wp_rules plain_inputs_def clean_inputs_Inr
      split: option.split sum.split read_error.split)

text \<open>What a key that was made says of the files below the directory.\<close>

definition key_of :: "codecs \<Rightarrow> path \<Rightarrow> string \<Rightarrow> node \<Rightarrow> (string \<times> string) list \<Rightarrow> string \<Rightarrow> bool" where
  "key_of co dir img t hs k \<longleftrightarrow>
     k = ''golden-'' @ take 16 (sha256hex co (key_text img hs))
     \<and> set contractFiles \<union> set lockFiles \<subseteq> fst ` set hs
     \<and> (\<forall>x\<in>set hs. readable dir t (fst x) \<and> snd x = sum_of co dir t (fst x))
     \<and> (plain_inputs co \<longrightarrow> (\<forall>x\<in>set hs. char_of (0::nat) \<notin> set (fst x)))"

lemma fixed_paths_plain:
  "\<forall>p \<in> set (contractFiles @ lockFiles @ guessInputs). char_of (0::nat) \<notin> set p"
  by code_simp

lemma wp_key_rest:
  "wp (key_rest co dir img has) (\<lambda>k _. \<exists>hs. key_of co dir img (disk s) hs k) (\<lambda>_ _. True) s"
proof -
  have sums: "wp (fileSums co dir ps) (\<lambda>hs _. \<exists>hs'. key_of co dir img (disk s) hs'
       (''golden-'' @ take 16 (sha256hex co (key_text img hs)))) (\<lambda>_ _. True) t"
    if "disk t = disk s" "set ps = set contractFiles \<union> set lockFiles \<union> A \<union> set qs" "\<forall>a\<in>A. a \<in> set guessInputs"
      "plain_inputs co \<longrightarrow> (\<forall>q\<in>set qs. char_of (0::nat) \<notin> set q)" for ps t A qs
    by (rule wp_mono [OF wp_fileSums])
      (use that fixed_paths_plain in \<open>auto simp: key_of_def image_def intro!: exI [of _ "map (\<lambda>p. (p, sum_of co dir (disk s) p)) ps"]\<close>)
  have inputs: "wp (goldenInputs co dir) (\<lambda>qs. wp (fileSums co dir (remdups_adj (sort (contractFiles @ lockFiles
           @ (if Services g \<noteq> None then Inputs g else []) @ qs))))
         (\<lambda>hs _. \<exists>hs'. key_of co dir img (disk s) hs' (''golden-'' @ take 16 (sha256hex co (key_text img hs)))) (\<lambda>_ _. True))
       (\<lambda>_ _. True) t" if "disk t = disk s" "plain_guess g" for g t
  proof (rule wp_mono [OF wp_goldenInputs])
    fix qs and t' :: store
    assume "disk t' = disk t \<and> (plain_inputs co \<longrightarrow> (\<forall>q\<in>set qs. char_of (0::nat) \<notin> set q))"
    with that show "wp (fileSums co dir (remdups_adj (sort (contractFiles @ lockFiles
           @ (if Services g \<noteq> None then Inputs g else []) @ qs))))
         (\<lambda>hs _. \<exists>hs'. key_of co dir img (disk s) hs' (''golden-'' @ take 16 (sha256hex co (key_text img hs)))) (\<lambda>_ _. True) t'"
      by (intro sums [where A = "if Services g \<noteq> None then set (Inputs g) else {}" and qs = qs])
        (auto simp: plain_guess_def no_guess_def)
  qed simp
  show ?thesis
    unfolding key_rest_def Let_def wp_bind wp_ret wp_if wp_raise
    by (rule wp_mono [OF wp_conj [OF wp_MakeGuess keeps_disk_MakeGuess [unfolded keeps_wp, rule_format, OF refl]]])
      (simp_all only: if_bool_eq_conj simp_thms inputs)
qed

text \<open>The contract's files that can be read are seen alike by \<open>lstat\<close> and through the root.\<close>

definition there :: "path \<Rightarrow> node \<Rightarrow> string \<Rightarrow> bool" where
  "there dir t p \<longleftrightarrow> (case namei t None kernelMaxSymlinks dir (split_on CHR ''/'' p) of
     Inl e \<Rightarrow> False | Inr q \<Rightarrow> lookup t q \<noteq> None)"

lemma namei_missing_dir:
  assumes "lookup t dir = None" "p \<noteq> []" "\<forall>c\<in>set (split_on CHR ''/'' p). c \<noteq> [] \<and> c \<noteq> ''.'' \<and> c \<noteq> ''..'' \<and> \<not> bad_name c"
  shows "namei t base n dir (split_on CHR ''/'' p) = Inl NotExist"
  using assms
  by (cases "split_on CHR ''/'' p") (auto simp: namei.simps(2) hop_of_def hop_name_def)

lemma there_agree:
  assumes l: "lookup t dir = lookup u dir" and r: "readable dir t p"
    and d: "lookup t dir \<noteq> None"
  shows "there dir t p = there dir u p"
proof -
  let ?cs = "split_on CHR ''/'' p"
  let ?r = "namei t (Some dir) rootMaxSymlinks dir ?cs"
  have ru: "readable dir u p" using r read_in_agree [OF l, of p] by (simp add: readable_def)
  have no: "?r \<noteq> Inl Escapes" "?r \<noteq> Inl TooManyLinks"
    using r d by (auto simp: readable_def read_in_def split: option.splits node.splits sum.splits)
  have same: "namei u (Some dir) rootMaxSymlinks dir ?cs = ?r"
    and below: "\<And>q. ?r = Inr q \<Longrightarrow> prefix dir q"
    using namei_agree [OF l, of dir rootMaxSymlinks ?cs] by auto
  have m: "rootMaxSymlinks \<le> kernelMaxSymlinks" by (simp add: rootMaxSymlinks_def kernelMaxSymlinks_def)
  have "namei t None kernelMaxSymlinks dir ?cs = ?r" "namei u None kernelMaxSymlinks dir ?cs = ?r"
    using namei_kernel [OF no m] namei_kernel [of u dir rootMaxSymlinks dir ?cs kernelMaxSymlinks] no same m by auto
  then show ?thesis
    using below lookup_agree [OF l] by (auto simp: there_def split: sum.split)
qed

lemma contract_names: "\<forall>p\<in>set contractFiles. p \<noteq> [] \<and>
    (\<forall>c\<in>set (split_on CHR ''/'' p). c \<noteq> [] \<and> c \<noteq> ''.'' \<and> c \<noteq> ''..'' \<and> \<not> bad_name c)"
  by code_simp

lemma there_contract:
  assumes "lookup t dir = lookup u dir" "readable dir t p" "p \<in> set contractFiles"
  shows "there dir t p = there dir u p"
proof (cases "lookup t dir")
  case None
  with assms contract_names show ?thesis
    using namei_missing_dir [of t dir p] namei_missing_dir [of u dir p] by (simp add: there_def)
next
  case (Some n)
  then show ?thesis by (intro there_agree [OF assms(1,2)]) simp
qed

lemma has_contract_agree:
  assumes "agree dir s t" "\<forall>p\<in>set contractFiles. readable dir (disk s) p"
  shows "fst (has_contract dir s) = fst (has_contract dir t) \<and> agree dir (snd (has_contract dir s)) (snd (has_contract dir t))"
proof -
  have one: "fst (lstat_in dir p s) = fst (lstat_in dir p t) \<and> agree dir (snd (lstat_in dir p s)) (snd (lstat_in dir p t))
      \<and> disk (snd (lstat_in dir p s)) = disk s"
    if "agree dir s t" "readable dir (disk s) p" "p \<in> set contractFiles" for s t p
  proof -
    have "faulty s = faulty t" "lookup (disk s) dir = lookup (disk t) dir" using that by (simp_all add: agree_def faulty_def)
    then show ?thesis using that there_contract [of "disk s" dir "disk t" p]
      by (auto simp: lstat_in_def there_def agree_tick split: option.split)
  qed
  have "fst (fold_s (\<lambda>p has. bind_s (lstat_in dir p) (\<lambda>there. ret (has \<or> there))) ps b s)
      = fst (fold_s (\<lambda>p has. bind_s (lstat_in dir p) (\<lambda>there. ret (has \<or> there))) ps b t)
    \<and> agree dir (snd (fold_s (\<lambda>p has. bind_s (lstat_in dir p) (\<lambda>there. ret (has \<or> there))) ps b s))
      (snd (fold_s (\<lambda>p has. bind_s (lstat_in dir p) (\<lambda>there. ret (has \<or> there))) ps b t))"
    if "agree dir s t" "\<forall>p\<in>set ps. readable dir (disk s) p" "set ps \<subseteq> set contractFiles" for ps b s t
    using that
  proof (induction ps arbitrary: b s t)
    case (Cons p ps)
    obtain r s' where s': "lstat_in dir p s = (r, s')" by (cases "lstat_in dir p s")
    obtain r' t' where t': "lstat_in dir p t = (r', t')" by (cases "lstat_in dir p t")
    have *: "r' = r" "agree dir s' t'" "disk s' = disk s" using one [of s t p] Cons.prems s' t' by auto
    then show ?case using Cons s' t' by (cases r) (auto simp: bind_s_def ret_def)
  qed (simp add: ret_def)
  then show ?thesis using assms by (simp add: has_contract_def)
qed

lemma Key_InrD:
  assumes "fst (Key co dir img s) = Inr k"
  obtains h s1 hs where "has_contract dir s = (Inr h, s1)" "fst (key_rest co dir img h s1) = Inr k"
    "disk s1 = disk s" "key_of co dir img (disk s) hs k"
proof -
  obtain r s1 where r: "has_contract dir s = (r, s1)" by (cases "has_contract dir s")
  with assms obtain h where h: "r = Inr h" "fst (key_rest co dir img h s1) = Inr k"
    by (cases r) (auto simp: Key_eq bind_s_def)
  have d: "disk s1 = disk s" using keepsD [OF keeps_disk_has_contract, of s "disk s" dir] r by simp
  obtain t where "key_rest co dir img h s1 = (Inr k, t)" using h(2) by (cases "key_rest co dir img h s1") simp
  from wp_InrD [OF wp_key_rest this] obtain hs where "key_of co dir img (disk s1) hs k" by blast
  with r h d show thesis using that by simp
qed

lemma Key_agree:
  assumes "lookup (disk s) dir = lookup (disk t) dir" "wld s = wld t" "calls s = calls t"
    and "fst (Key co dir img s) = Inr k"
  shows "fst (Key co dir img t) = Inr k"
proof -
  have a: "agree dir s t" using assms by (simp add: agree_def)
  obtain h s1 hs where s1: "has_contract dir s = (Inr h, s1)" "fst (key_rest co dir img h s1) = Inr k"
    and hs: "key_of co dir img (disk s) hs k" using Key_InrD [OF assms(4)] by metis
  have "\<forall>p\<in>set contractFiles. readable dir (disk s) p" using hs by (fastforce simp: key_of_def)
  from has_contract_agree [OF a this] s1 obtain t1 where t1: "has_contract dir t = (Inr h, t1)" "agree dir s1 t1"
    by (cases "has_contract dir t") auto
  then show ?thesis
    using s1 confinedD [OF confined_key_rest, of dir s1 t1 co img h] by (simp add: Key_eq bind_s_def)
qed

text \<open>
  C13. The golden key depends on the workspace only. The workspace is the agent's, and is read as
  root: two hosts that agree on the checkout's directory (and on which reads fail) get the same
  key, whatever the files outside it are and wherever the links inside it point.
\<close>

theorem Key_confined:
  assumes "lookup (disk s) dir = lookup (disk t) dir" "wld s = wld t" "calls s = calls t"
    and "fst (Key co dir img s) = Inr k"
  shows "fst (Key co dir img t) = Inr k"
  using assms by (rule Key_agree)

text \<open>Fields without NUL, each ended by one, can be told apart.\<close>

lemma nul_field:
  assumes "a @ nul @ x = b @ nul @ y" "char_of (0::nat) \<notin> set a" "char_of (0::nat) \<notin> set b"
  shows "a = b \<and> x = y"
  using assms
proof (induction a arbitrary: b)
  case Nil
  then show ?case by (cases b) (auto simp: nul_def)
next
  case (Cons c a)
  then show ?case by (cases b) (auto simp: nul_def)
qed

lemma sum_lines_inject:
  assumes "concat (map sum_line xs) = concat (map sum_line ys)"
    and "\<forall>x\<in>set xs \<union> set ys. char_of (0::nat) \<notin> set (fst x) \<and> char_of (0::nat) \<notin> set (snd x)"
  shows "xs = ys"
  using assms
proof (induction xs arbitrary: ys)
  case Nil
  then show ?case by (cases ys) (auto simp: sum_line_def nul_def)
next
  case (Cons x xs)
  then obtain y ys' where y: "ys = y # ys'" by (cases ys) (auto simp: sum_line_def nul_def)
  with Cons.prems have e: "fst x @ nul @ (snd x @ nul @ concat (map sum_line xs))
      = fst y @ nul @ (snd y @ nul @ concat (map sum_line ys'))" by (simp add: sum_line_def [of x] sum_line_def [of y])
  have f: "fst x = fst y" "snd x @ nul @ concat (map sum_line xs) = snd y @ nul @ concat (map sum_line ys')"
    using nul_field [OF e] Cons.prems(2) y by auto
  have "snd x = snd y" "concat (map sum_line xs) = concat (map sum_line ys')"
    using nul_field [OF f(2)] Cons.prems(2) y by auto
  with f(1) Cons.IH [of ys'] Cons.prems(2) y show ?case by (simp add: prod_eq_iff)
qed

lemma key_text_inject:
  assumes "key_text img xs = key_text img' ys" "char_of (0::nat) \<notin> set img" "char_of (0::nat) \<notin> set img'"
    and "\<forall>x\<in>set xs \<union> set ys. char_of (0::nat) \<notin> set (fst x) \<and> char_of (0::nat) \<notin> set (snd x)"
  shows "img = img' \<and> xs = ys"
proof -
  from assms(1) have "img @ nul @ concat (map sum_line xs) = img' @ nul @ concat (map sum_line ys)"
    by (simp add: key_text_def)
  from nul_field [OF this assms(2,3)] sum_lines_inject [OF _ assms(4)] show ?thesis by simp
qed

lemma hex64_plain: "hex64 (sha256hex co) \<Longrightarrow> char_of (0::nat) \<notin> set (sum_of co dir t p)"
proof -
  assume h: "hex64 (sha256hex co)"
  have "\<not> hex_digit (char_of (0::nat))" "char_of (0::nat) \<notin> set ''missing''" by code_simp+
  with h show ?thesis by (auto simp: sum_of_def hex64_def list_all_iff split: sum.split)
qed

text \<open>
  Two checkouts with the same golden key can share a golden snapshot: unless SHA-256 (its first
  16 hex digits) collides on the two texts that were hashed, the keys were made for the same image,
  and every contract file and lockfile is missing in both or has the same SHA-256 in both.
\<close>

theorem Key_same_contract:
  assumes "fst (Key co dir img s) = Inr k" "fst (Key co dir' img' s') = Inr k"
    and "hex64 (sha256hex co)" "plain_inputs co" "char_of (0::nat) \<notin> set img" "char_of (0::nat) \<notin> set img'"
  shows "\<exists>hs hs'. key_of co dir img (disk s) hs k \<and> key_of co dir' img' (disk s') hs' k \<and>
    (key_text img hs = key_text img' hs' \<longrightarrow>
       img = img' \<and> (\<forall>p \<in> set contractFiles \<union> set lockFiles. sum_of co dir (disk s) p = sum_of co dir' (disk s') p))"
proof -
  obtain hs where hs: "key_of co dir img (disk s) hs k" using Key_InrD [OF assms(1)] by metis
  obtain hs' where hs': "key_of co dir' img' (disk s') hs' k" using Key_InrD [OF assms(2)] by metis
  have plain: "\<forall>x\<in>set hs \<union> set hs'. char_of (0::nat) \<notin> set (fst x) \<and> char_of (0::nat) \<notin> set (snd x)"
    using hs hs' hex64_plain [OF assms(3)] assms(4) unfolding key_of_def by (metis UnE)
  have "img = img' \<and> hs = hs'" if "key_text img hs = key_text img' hs'"
    by (rule key_text_inject [OF that assms(5,6) plain])
  moreover have "sum_of co dir (disk s) p = sum_of co dir' (disk s') p"
    if "hs = hs'" "p \<in> set contractFiles \<union> set lockFiles" for p
    using hs hs' that by (fastforce simp: key_of_def)
  ultimately show ?thesis using hs hs' by blast
qed

section \<open>A checkout\<close>

definition sample_codecs :: codecs where
  "sample_codecs = \<lparr>sha256hex = (\<lambda>s. replicate 63 CHR ''0'' @ (if s = [] then ''0'' else ''1'')),
     yamlGoldenInputs = (\<lambda>_. Some [''seed.sql'']), yamlServicePorts = (\<lambda>_. Some [(''web'', 3000)]),
     yamlCompose = (\<lambda>_. Some []), jsonPackage = (\<lambda>_. None)\<rparr>"

definition checkout :: node where
  "checkout = Dir sample_attr (Subvol False)
     [(''services.yaml'', File sample_attr ''golden: {inputs: [seed.sql]}''), (''seed.sql'', File sample_attr ''x'')]"

definition checkout_store :: "(string \<times> node) list \<Rightarrow> store" where
  "checkout_store others = sample_store\<lparr>disk := Dir root_attr Plain ((''w'', checkout) # others)\<rparr>"

lemmas checkout_defs = sample_codecs_def checkout_def checkout_store_def

lemma checkout_key1: "fst (Key sample_codecs [''w''] ''img'' (checkout_store [])) = Inr (''golden-'' @ replicate 16 CHR ''0'')"
  by code_simp

lemma checkout_key: "fst (Key sample_codecs [''w''] ''img'' (checkout_store others)) = Inr (''golden-'' @ replicate 16 CHR ''0'')"
  by (rule Key_agree [OF _ _ _ checkout_key1]) (simp_all add: checkout_store_def)

theorem Key_confined_witness:
  "fst (Key sample_codecs [''w''] ''img'' (checkout_store [(''secret'', File root_attr ''s'')]))
    = Inr (''golden-'' @ replicate 16 CHR ''0'')"
  by (rule Key_confined [of "checkout_store []" _ "checkout_store [(''secret'', File root_attr ''s'')]"])
    (simp_all add: checkout_key, simp_all add: checkout_store_def)

theorem Key_same_contract_witness:
  "\<exists>hs hs'. key_of sample_codecs [''w''] ''img'' (disk (checkout_store [])) hs (''golden-'' @ replicate 16 CHR ''0'')
    \<and> key_of sample_codecs [''w''] ''img'' (disk (checkout_store [(''secret'', File root_attr ''s'')])) hs'
        (''golden-'' @ replicate 16 CHR ''0'')
    \<and> (key_text ''img'' hs = key_text ''img'' hs' \<longrightarrow> ''img'' = ''img'' \<and> (\<forall>p \<in> set contractFiles \<union> set lockFiles.
       sum_of sample_codecs [''w''] (disk (checkout_store [])) p
     = sum_of sample_codecs [''w''] (disk (checkout_store [(''secret'', File root_attr ''s'')])) p))"
proof (rule Key_same_contract)
  have "hex_digit CHR ''0''" "hex_digit CHR ''1''" by code_simp+
  then show "hex64 (sha256hex sample_codecs)" by (simp add: hex64_def sample_codecs_def list_all_iff)
  show "plain_inputs sample_codecs" unfolding plain_inputs_def sample_codecs_def by (auto simp: char_of_def)
  show "char_of (0::nat) \<notin> set ''img''" "char_of (0::nat) \<notin> set ''img''" by code_simp+
qed (simp_all add: checkout_key)

end
