(* ===== verification/Group.thy ===== *)
theory Group
  imports Setup StoreRecover
begin

text \<open>
  \<open>internal/actor\<close>: the state of a \<open>Group\<close> and of its actors, how a change reaches an actor (\<open>do\<close>,
  \<open>actorOf\<close>, \<open>Run\<close>), and what an actor does with its box: \<open>wake\<close>, \<open>stopBox\<close>, the idle times, the
  commands counted in it and the watch (\<open>actor.go\<close>, \<open>idle.go\<close>, \<open>exec.go\<close>, \<open>watch.go\<close>).

  An actor makes its changes one at a time, so a change is one program here, and a run of the daemon is
  a sequence of such programs; a change that waits for another actor's (a fork's, the agent
  box's) runs it in place. The actor of a change that is under way is in \<open>busy\<close>: a change
  waiting for it would wait for ever, which is the error \<open>Deadlock\<close>. An actor that is asleep with
  nothing left to do exits in a step of its own (\<open>actor_exit\<close>), since a message may come first,
  and \<open>Run\<close> hears of it in another (\<open>reap\<close>). Commands' cancel functions are numbers, and \<open>cancelled\<close>
  lists those called. Metrics and logs are left out, but for the pre-wakes' counter. The clock is
  the store's world's.
\<close>

section \<open>Boxes and drivers\<close>

datatype box_kind = KServices | KAgent | KBuilder

record Box =
  boxID :: string
  boxKind :: box_kind
  boxEnv :: Env

record 'd driver =
  drvWake :: "Box \<Rightarrow> 'd \<Rightarrow> (nat + string) \<times> 'd"
  drvSleep :: "string \<Rightarrow> 'd \<Rightarrow> (nat + unit) \<times> 'd"
  drvStates :: "'d \<Rightarrow> (nat + string list) \<times> 'd"

section \<open>State\<close>

record Config =
  idleAgent :: int
  idleHuman :: int
  idlePrewake :: int
  cfgImage :: string
  cfgAgents :: bool
  cfgWatcher :: bool
  cfgWoken :: "nat option"

record actor =
  gen :: nat
  addr :: string
  awake :: bool
  execs :: "(nat \<times> nat) list"
  jobs :: "(nat \<times> nat) list"
  nextNo :: nat
  lastOpened :: int
  lastClosed :: int
  lease :: "int option"
  prewoken :: bool
  watching :: bool
  crashes :: "int list"
  finished :: bool

record 'd group =
  gst :: store
  gdrv :: 'd
  drv :: "'d driver"
  cfg :: Config
  cdc :: codecs
  actors :: "string \<rightharpoonup> actor"
  pastCrashes :: "string \<rightharpoonup> int list"
  exited :: "(string \<times> actor) list"
  nextGen :: nat
  builds :: "string list"
  prewakes :: "string list"
  cancelled :: "nat list"
  woken :: "string list"
  prewakeResults :: "string list"
  touched :: "(string \<times> string \<times> string list) list"
  gone :: "string list"
  busy :: "string list"
  stopped :: bool

datatype group_error =
    StoreErr store_error
  | SetupErr setup_error
  | DriverErr nat
  | ErrCrashing
  | ErrTooManyForks
  | ErrStopped
  | CallerGone
  | Deadlock
  | OutOfFuel

type_synonym ('d, 'a) gp = "('d group, group_error, 'a) prog"

definition crashLimit :: nat where "crashLimit = 3"
definition crashWindow :: int where "crashWindow = 5 * 60 * second"
definition prewakeQueue :: nat where "prewakeQueue = 8"
definition zeroTime :: int where "zeroTime = - 62135596800 * second"

section \<open>Calls of the store, the driver and the clock\<close>

definition on_store :: "'a st \<Rightarrow> ('d, 'a) gp" where
  "on_store m g = (case m (gst g) of
     (Inl e, s) \<Rightarrow> (Inl (StoreErr e), g\<lparr>gst := s\<rparr>)
   | (Inr x, s) \<Rightarrow> (Inr x, g\<lparr>gst := s\<rparr>))"

definition on_setup :: "'a setup_prog \<Rightarrow> ('d, 'a) gp" where
  "on_setup m g = (case m (gst g) of
     (Inl e, s) \<Rightarrow> (Inl (SetupErr e), g\<lparr>gst := s\<rparr>)
   | (Inr x, s) \<Rightarrow> (Inr x, g\<lparr>gst := s\<rparr>))"

definition on_driver :: "('d driver \<Rightarrow> 'd \<Rightarrow> (nat + 'a) \<times> 'd) \<Rightarrow> ('d, 'a) gp" where
  "on_driver f g = (case f (drv g) (gdrv g) of
     (Inl e, d) \<Rightarrow> (Inl (DriverErr e), g\<lparr>gdrv := d\<rparr>)
   | (Inr x, d) \<Rightarrow> (Inr x, g\<lparr>gdrv := d\<rparr>))"

definition clock :: "('d, int) gp" where
  "clock = on_store time_now"

section \<open>Actors\<close>

definition new_actor :: "nat \<Rightarrow> int list \<Rightarrow> actor" where
  "new_actor n cs = \<lparr>gen = n, addr = [], awake = False, execs = [], jobs = [], nextNo = 0,
     lastOpened = zeroTime, lastClosed = zeroTime, lease = None, prewoken = False, watching = False,
     crashes = cs, finished = False\<rparr>"

definition actor_of :: "string \<Rightarrow> 'd group \<Rightarrow> actor" where
  "actor_of i g = (case actors g i of Some a \<Rightarrow> a | None \<Rightarrow> new_actor 0 [])"

definition set_actor :: "string \<Rightarrow> (actor \<Rightarrow> actor) \<Rightarrow> ('d, unit) gp" where
  "set_actor i f = modify (\<lambda>g. g\<lparr>actors := (actors g)(i := map_option f (actors g i))\<rparr>)"

text \<open>\<open>start\<close> in \<open>Run\<close>, and the first lines of \<open>run\<close>.\<close>

definition start_actor :: "string \<Rightarrow> bool \<Rightarrow> ('d, unit) gp" where
  "start_actor i up =
     bind_s (modify (\<lambda>g. g\<lparr>actors := (actors g)(i \<mapsto>
         new_actor (nextGen g) (case pastCrashes g i of Some cs \<Rightarrow> cs | None \<Rightarrow> [])),
       nextGen := Suc (nextGen g)\<rparr>)) (\<lambda>_.
     if up then
       bind_s clock (\<lambda>t1. bind_s clock (\<lambda>t2.
       set_actor i (\<lambda>a. a\<lparr>awake := True, lastOpened := t1, lastClosed := t2\<rparr>)))
     else ret ())"

text \<open>\<open>Run\<close>'s answer to a \<open>findRequest\<close>: an actor that is done is replaced.\<close>

definition find_actor :: "string \<Rightarrow> ('d, unit) gp" where
  "find_actor i =
     bind_s (gets (\<lambda>g. actors g i)) (\<lambda>a. case a of
       None \<Rightarrow> start_actor i False
     | Some a \<Rightarrow> if finished a then start_actor i False else ret ())"

definition actorOf :: "string \<Rightarrow> ('d, unit) gp" where
  "actorOf i =
     (if \<not> CheckEnvID (EnvOfBox i) then raise (StoreErr ErrInvalidID)
      else bind_s (gets stopped) (\<lambda>st. if st then raise ErrStopped else find_actor i))"

text \<open>What an actor's goroutine does is done before it takes the next message.\<close>

definition on_actor :: "string \<Rightarrow> ('d, 'a) gp \<Rightarrow> ('d, 'a) gp" where
  "on_actor i fn =
     bind_s (modify (\<lambda>g. g\<lparr>busy := i # busy g\<rparr>)) (\<lambda>_.
     bind_s (try_s fn) (\<lambda>r.
     bind_s (modify (\<lambda>g. g\<lparr>busy := tl (busy g)\<rparr>)) (\<lambda>_.
     case r of Inl e \<Rightarrow> raise e | Inr x \<Rightarrow> ret x)))"

text \<open>\<open>do\<close>: one change on the environment's actor.\<close>

definition do_change :: "string \<Rightarrow> ('d, 'a) gp \<Rightarrow> ('d, 'a) gp" where
  "do_change i fn =
     bind_s (actorOf i) (\<lambda>_.
     bind_s (gets busy) (\<lambda>b. if i \<in> set b then raise Deadlock else on_actor i fn))"

text \<open>\<open>recent\<close>: \<open>time.Since\<close> reads the clock for each.\<close>

fun recent :: "int list \<Rightarrow> ('d, int list) gp" where
  "recent [] = ret []"
| "recent (t # ts) =
     bind_s clock (\<lambda>now. bind_s (recent ts) (\<lambda>us.
     ret (if now - t \<ge> crashWindow then us else t # us)))"

text \<open>\<open>Run\<close>: an actor that is asleep with nothing running ends; then \<open>Run\<close> keeps its crashes.\<close>

definition actor_exit :: "string \<Rightarrow> ('d, unit) gp" where
  "actor_exit i =
     bind_s (gets (\<lambda>g. actors g i)) (\<lambda>a. case a of
       None \<Rightarrow> ret ()
     | Some a \<Rightarrow>
         if finished a \<or> awake a \<or> execs a \<noteq> [] \<or> jobs a \<noteq> [] then ret ()
         else modify (\<lambda>g. g\<lparr>actors := (actors g)(i \<mapsto> a\<lparr>watching := False, finished := True\<rparr>),
                            exited := exited g @ [(i, a)]\<rparr>))"

definition reap :: "('d, unit) gp" where
  "reap =
     bind_s (gets exited) (\<lambda>xs. case xs of
       [] \<Rightarrow> ret ()
     | (i, a) # rest \<Rightarrow>
         bind_s (modify (\<lambda>g. g\<lparr>actors := (case actors g i of
                        Some b \<Rightarrow> if gen b = gen a then (actors g)(i := None) else actors g
                      | None \<Rightarrow> actors g), exited := rest\<rparr>)) (\<lambda>_.
         bind_s (recent (crashes a)) (\<lambda>cs.
         modify (\<lambda>g. g\<lparr>pastCrashes := (pastCrashes g)(i := (if cs \<noteq> [] then Some cs else None))\<rparr>))))"

definition Run_start :: "('d, unit) gp" where
  "Run_start = bind_s (on_driver drvStates) (for_each (\<lambda>i. start_actor i True))"

text \<open>\<open>ctx.Done()\<close>: every actor ends, its box stays as it is.\<close>

definition shutdown :: "('d, unit) gp" where
  "shutdown = modify (\<lambda>g. g\<lparr>stopped := True,
     actors := (\<lambda>i. map_option (\<lambda>a. a\<lparr>watching := False, finished := True\<rparr>) (actors g i))\<rparr>)"

section \<open>Waking and stopping a box\<close>

definition boxOf :: "Config \<Rightarrow> string \<Rightarrow> Env \<Rightarrow> Box" where
  "boxOf c i env =
     (if IsBuilder i then \<lparr>boxID = i, boxKind = KBuilder, boxEnv = env\<lparr>Claude := []\<rparr>\<rparr>
      else if IsAgentBox i then \<lparr>boxID = i, boxKind = KAgent, boxEnv = env\<rparr>
      else if cfgAgents c then \<lparr>boxID = i, boxKind = KServices, boxEnv = env\<lparr>Claude := []\<rparr>\<rparr>
      else \<lparr>boxID = i, boxKind = KServices, boxEnv = env\<rparr>)"

definition endLease :: "string \<Rightarrow> string \<Rightarrow> ('d, unit) gp" where
  "endLease i result =
     bind_s (modify (\<lambda>g. if prewoken (actor_of i g)
         then g\<lparr>prewakeResults := prewakeResults g @ [result]\<rparr> else g)) (\<lambda>_.
     set_actor i (\<lambda>a. a\<lparr>lease := None, prewoken := False\<rparr>))"

definition watch :: "string \<Rightarrow> ('d, unit) gp" where
  "watch i =
     bind_s (gets cfg) (\<lambda>c.
       if \<not> cfgWatcher c \<or> \<not> cfgAgents c \<or> IsAgentBox i \<or> IsBuilder i then ret ()
       else set_actor i (\<lambda>a. a\<lparr>watching := True\<rparr>))"

definition tell_woken :: "string \<Rightarrow> ('d, unit) gp" where
  "tell_woken i =
     modify (\<lambda>g. case cfgWoken (cfg g) of
       None \<Rightarrow> g
     | Some cap \<Rightarrow> if EnvOfBox i = i \<and> \<not> IsBuilder i \<and> length (woken g) < cap
                  then g\<lparr>woken := woken g @ [i]\<rparr> else g)"

definition add_crash :: "string \<Rightarrow> ('d, unit) gp" where
  "add_crash i = bind_s clock (\<lambda>t. set_actor i (\<lambda>a. a\<lparr>crashes := crashes a @ [t]\<rparr>))"

text \<open>
  The part of \<open>wake\<close> that calls the driver. The box counts as awake first: a wake that fails half-way
  may leave it running.
\<close>

definition mark_awake :: "string \<Rightarrow> ('d, unit) gp" where
  "mark_awake i =
     bind_s (gets (\<lambda>g. awake (actor_of i g))) (\<lambda>up.
       if up then ret ()
       else bind_s clock (\<lambda>t1. bind_s clock (\<lambda>t2.
            set_actor i (\<lambda>a. a\<lparr>awake := True, lastOpened := t1, lastClosed := t2\<rparr>))))"

definition call_wake :: "string \<Rightarrow> Env \<Rightarrow> ('d, Env) gp" where
  "call_wake i env =
     bind_s (gets cfg) (\<lambda>c.
     bind_s (try_s (on_driver (\<lambda>d. drvWake d (boxOf c i env)))) (\<lambda>r. case r of
       Inl e \<Rightarrow> bind_s (add_crash i) (\<lambda>_. raise e)
     | Inr ad \<Rightarrow>
         bind_s (set_actor i (\<lambda>a. a\<lparr>addr := ad\<rparr>)) (\<lambda>_.
         bind_s (tell_woken i) (\<lambda>_.
         bind_s (watch i) (\<lambda>_. ret env)))))"

definition start_box :: "string \<Rightarrow> Env \<Rightarrow> ('d, Env) gp" where
  "start_box i env =
     bind_s (set_actor i (\<lambda>a. a\<lparr>addr := []\<rparr>)) (\<lambda>_.
     bind_s (mark_awake i) (\<lambda>_. call_wake i env))"

text \<open>Counts a death under a command, and how many crashes are recent.\<close>

definition count_crashes :: "string \<Rightarrow> string \<Rightarrow> ('d, nat) gp" where
  "count_crashes i stale =
     bind_s (if stale \<noteq> [] then add_crash i else ret ()) (\<lambda>_.
     bind_s (gets (\<lambda>g. crashes (actor_of i g))) (\<lambda>cs.
     bind_s (recent cs) (\<lambda>rs.
     bind_s (set_actor i (\<lambda>a. a\<lparr>crashes := rs\<rparr>)) (\<lambda>_. ret (length rs)))))"

definition wake :: "string \<Rightarrow> string \<Rightarrow> ('d, Env) gp" where
  "wake i stale =
     bind_s (on_store (Get (EnvOfBox i))) (\<lambda>env.
     bind_s (gets (\<lambda>g. addr (actor_of i g))) (\<lambda>ad.
       if ad \<noteq> [] \<and> ad \<noteq> stale then ret env
       else bind_s (count_crashes i stale) (\<lambda>n.
            if crashLimit \<le> n then raise ErrCrashing else start_box i env)))"

text \<open>The box is asleep: every command counted in it is cancelled.\<close>

definition cancel_all :: "string \<Rightarrow> ('d, unit) gp" where
  "cancel_all i =
     bind_s (modify (\<lambda>g. g\<lparr>cancelled := cancelled g @ map snd (execs (actor_of i g)) @ map snd (jobs (actor_of i g))\<rparr>)) (\<lambda>_.
     set_actor i (\<lambda>a. a\<lparr>awake := False, execs := [], jobs := []\<rparr>))"

definition stopBox :: "string \<Rightarrow> ('d, unit) gp" where
  "stopBox i =
     bind_s (set_actor i (\<lambda>a. a\<lparr>addr := [], watching := False\<rparr>)) (\<lambda>_.
     bind_s (on_driver (\<lambda>d. drvSleep d i)) (\<lambda>_.
     bind_s (endLease i ''wasted'') (\<lambda>_. cancel_all i)))"

section \<open>Idle times (idle.go)\<close>

definition later :: "int \<Rightarrow> int \<Rightarrow> int" where
  "later a b = (if a > b then a else b)"

definition deadline :: "Config \<Rightarrow> actor \<Rightarrow> int" where
  "deadline c a =
     (case lease a of
        Some l \<Rightarrow> if jobs a = [] then l else later (lastClosed a + idleAgent c) (lastOpened a + idleHuman c)
      | None \<Rightarrow> later (lastClosed a + idleAgent c) (lastOpened a + idleHuman c))"

text \<open>\<open>armIdle\<close>: when the timer fires, if it is set.\<close>

definition armIdle :: "Config \<Rightarrow> actor \<Rightarrow> int option" where
  "armIdle c a =
     (if \<not> awake a \<or> execs a \<noteq> [] \<or> idleAgent c = 0 \<or> idleHuman c = 0 then None else Some (deadline c a))"

definition sleepIfIdle :: "string \<Rightarrow> ('d, unit) gp" where
  "sleepIfIdle i =
     bind_s (gets (actor_of i)) (\<lambda>a.
       if \<not> awake a \<or> execs a \<noteq> [] then ret ()
       else bind_s clock (\<lambda>now. bind_s (gets cfg) (\<lambda>c.
         if now < deadline c a then ret ()
         else bind_s (try_s (stopBox i)) (\<lambda>r. case r of
                Inl _ \<Rightarrow> bind_s clock (\<lambda>t. set_actor i (\<lambda>a. a\<lparr>lastClosed := t\<rparr>))
              | Inr _ \<Rightarrow> ret ()))))"

text \<open>The timer of an actor fires.\<close>

definition idle_timer :: "string \<Rightarrow> ('d, unit) gp" where
  "idle_timer i =
     bind_s (gets (\<lambda>g. (actors g i, cfg g))) (\<lambda>(a, c). case a of
       None \<Rightarrow> ret ()
     | Some a \<Rightarrow> if finished a \<or> armIdle c a = None then ret () else on_actor i (sleepIfIdle i))"

definition Prewake :: "string \<Rightarrow> ('d, unit) gp" where
  "Prewake i =
     (if \<not> CheckEnvID (EnvOfBox i) then raise (StoreErr ErrInvalidID)
      else bind_s (gets cfg) (\<lambda>c.
        if idlePrewake c = 0 \<or> idleAgent c = 0 \<or> idleHuman c = 0 then ret ()
        else modify (\<lambda>g. if length (prewakes g) < prewakeQueue then g\<lparr>prewakes := prewakes g @ [i]\<rparr>
                         else g\<lparr>prewakeResults := prewakeResults g @ [''dropped'']\<rparr>)))"

definition set_lease :: "string \<Rightarrow> ('d, unit) gp" where
  "set_lease i =
     bind_s clock (\<lambda>t. bind_s (gets cfg) (\<lambda>c.
     set_actor i (\<lambda>a. a\<lparr>lease := Some (t + idlePrewake c)\<rparr>)))"

definition prewake :: "string \<Rightarrow> ('d, unit) gp" where
  "prewake i =
     bind_s (try_s (do_change i
       (bind_s (gets (\<lambda>g. awake (actor_of i g))) (\<lambda>up.
          if up then ret ''awake''
          else bind_s (set_lease i) (\<lambda>_.
               bind_s (try_s (wake i [])) (\<lambda>r. case r of
                 Inl e \<Rightarrow>
                   bind_s (set_actor i (\<lambda>a. if awake a then a else a\<lparr>lease := None\<rparr>)) (\<lambda>_. raise e)
               | Inr _ \<Rightarrow>
                   bind_s (set_lease i) (\<lambda>_.
                   bind_s (set_actor i (\<lambda>a. a\<lparr>prewoken := True\<rparr>)) (\<lambda>_. ret ''woken''))))))))
     (\<lambda>r. modify (\<lambda>g. g\<lparr>prewakeResults := prewakeResults g @
            [case r of
               Inr res \<Rightarrow> res
             | Inl e \<Rightarrow> if e = StoreErr ErrNotFound then ''unknown'' else ''error'']\<rparr>))"

text \<open>One turn of \<open>prewakeBoxes\<close>.\<close>

definition prewakeBoxes :: "('d, unit) gp" where
  "prewakeBoxes =
     bind_s (gets prewakes) (\<lambda>q. case q of
       [] \<Rightarrow> ret ()
     | i # rest \<Rightarrow> bind_s (modify (\<lambda>g. g\<lparr>prewakes := rest\<rparr>)) (\<lambda>_. prewake i))"

section \<open>Commands (exec.go)\<close>

datatype exec_kind = KExec | KJob | KPreview

text \<open>A counted command: its environment, the actor that counts it and its number.\<close>

record Exec =
  exAddr :: string
  exToken :: string
  exBox :: string
  exGen :: nat
  exNo :: nat

text \<open>\<open>endExec\<close> sends to the actor that counts the command, not to the environment's next one.\<close>

definition endExec :: "Exec \<Rightarrow> bool \<Rightarrow> int \<Rightarrow> ('d, unit) gp" where
  "endExec ex sleep d =
     bind_s (gets (\<lambda>g. actors g (exBox ex))) (\<lambda>a. case a of
       None \<Rightarrow> ret ()
     | Some a \<Rightarrow>
         if gen a \<noteq> exGen ex \<or> finished a then ret ()
         else if exNo ex \<in> fst ` set (jobs a) then
           set_actor (exBox ex) (\<lambda>a. a\<lparr>jobs := filter (\<lambda>x. fst x \<noteq> exNo ex) (jobs a)\<rparr>)
         else if exNo ex \<in> fst ` set (execs a) then
           bind_s (set_actor (exBox ex) (\<lambda>a. a\<lparr>execs := filter (\<lambda>x. fst x \<noteq> exNo ex) (execs a)\<rparr>)) (\<lambda>_.
           bind_s clock (\<lambda>t.
           set_actor (exBox ex) (\<lambda>a. a\<lparr>lastClosed := t,
             lease := (if sleep \<and> execs a = [] then Some (t + d) else lease a)\<rparr>)))
         else ret ())"

text \<open>\<open>gaveUp\<close>: the caller's context is done when the wake is.\<close>

definition exec :: "exec_kind \<Rightarrow> string \<Rightarrow> string \<Rightarrow> nat \<Rightarrow> bool \<Rightarrow> ('d, Exec) gp" where
  "exec kind i stale cancel gaveUp =
     bind_s (do_change i
       (bind_s (wake i stale) (\<lambda>env.
        bind_s (endLease i ''used'') (\<lambda>_.
        bind_s (set_actor i (\<lambda>a. a\<lparr>nextNo := Suc (nextNo a)\<rparr>)) (\<lambda>_.
        bind_s (set_actor i (\<lambda>a. if kind = KJob then a\<lparr>jobs := jobs a @ [(nextNo a, cancel)]\<rparr>
                                 else a\<lparr>execs := execs a @ [(nextNo a, cancel)]\<rparr>)) (\<lambda>_.
        bind_s clock (\<lambda>t.
        bind_s (set_actor i (\<lambda>a. a\<lparr>lastOpened := t\<rparr>)) (\<lambda>_.
        gets (\<lambda>g. \<lparr>exAddr = addr (actor_of i g), exToken = BoxToken env, exBox = i,
                   exGen = gen (actor_of i g), exNo = nextNo (actor_of i g)\<rparr>))))))))) (\<lambda>ex.
     if gaveUp then bind_s (endExec ex False 0) (\<lambda>_. raise CallerGone) else ret ex)"

definition group_Exec :: "string \<Rightarrow> string \<Rightarrow> nat \<Rightarrow> bool \<Rightarrow> ('d, Exec) gp" where
  "group_Exec = exec KExec"

definition Job :: "string \<Rightarrow> string \<Rightarrow> nat \<Rightarrow> bool \<Rightarrow> ('d, Exec) gp" where
  "Job = exec KJob"

definition Preview :: "string \<Rightarrow> nat \<Rightarrow> bool \<Rightarrow> ('d, Exec) gp" where
  "Preview i = exec KPreview i []"

definition Close :: "Exec \<Rightarrow> ('d, unit) gp" where
  "Close ex = endExec ex False 0"

definition CloseAndSleep :: "Exec \<Rightarrow> int \<Rightarrow> ('d, unit) gp" where
  "CloseAndSleep ex d = endExec ex True d"

section \<open>Edits passed on (watch.go)\<close>

definition touch :: "string \<Rightarrow> string list \<Rightarrow> ('d, unit) gp" where
  "touch i paths =
     bind_s (try_s (do_change i
       (bind_s (gets (\<lambda>g. addr (actor_of i g))) (\<lambda>ad.
          if ad = [] then ret None
          else bind_s (on_store (Get i)) (\<lambda>env.
               bind_s clock (\<lambda>t.
               bind_s (set_actor i (\<lambda>a. a\<lparr>lastOpened := t\<rparr>)) (\<lambda>_.
               ret (Some (ad, BoxToken env))))))))) (\<lambda>r. case r of
       Inr (Some (ad, tok)) \<Rightarrow> modify (\<lambda>g. g\<lparr>touched := touched g @ [(ad, tok, paths)]\<rparr>)
     | _ \<Rightarrow> ret ())"

end
