(* ===== verification/Driver.thy ===== *)
theory Driver
  imports Group
begin

text \<open>
  The contract of \<open>actor.Driver\<close> as a locale, the in-memory driver \<open>runsc.Fake\<close> of
  \<open>internal/runsc/fake.go\<close>, and the proof that it keeps the contract.
\<close>

section \<open>The contract\<close>

text \<open>
  \<open>up d i\<close>: box \<open>i\<close> may be running. A wake starts its own box at most and returns its address, which
  is not empty; a sleep that returns no error has stopped its box, and no sleep starts one; neither
  touches another box.
  \<open>States\<close> names every box that is up.
\<close>

locale box_driver =
  fixes dr :: "'d driver" and up :: "'d \<Rightarrow> string \<Rightarrow> bool" and ok_state :: "'d \<Rightarrow> bool"
  assumes wake_ok: "ok_state d \<Longrightarrow> drvWake dr b d = (r, d') \<Longrightarrow> ok_state d'"
    and wake_up: "ok_state d \<Longrightarrow> drvWake dr b d = (Inr a, d') \<Longrightarrow> up d' (boxID b) \<and> a \<noteq> []"
    and wake_other: "ok_state d \<Longrightarrow> drvWake dr b d = (r, d') \<Longrightarrow> i \<noteq> boxID b \<Longrightarrow> up d' i = up d i"
    and sleep_ok: "ok_state d \<Longrightarrow> drvSleep dr i d = (q, d') \<Longrightarrow> ok_state d'"
    and sleep_down: "ok_state d \<Longrightarrow> drvSleep dr i d = (Inr u, d') \<Longrightarrow> \<not> up d' i"
    and sleep_other: "ok_state d \<Longrightarrow> drvSleep dr i d = (q, d') \<Longrightarrow> j \<noteq> i \<Longrightarrow> up d' j = up d j"
    and sleep_starts_none: "ok_state d \<Longrightarrow> drvSleep dr i d = (q, d') \<Longrightarrow> up d' j \<Longrightarrow> up d j"
    and states_ok: "ok_state d \<Longrightarrow> drvStates dr d = (v, d') \<Longrightarrow> ok_state d' \<and> up d' = up d"
    and states_up: "ok_state d \<Longrightarrow> drvStates dr d = (Inr ids, d') \<Longrightarrow> up d i \<longleftrightarrow> i \<in> set ids"
begin

text \<open>No box is stopped by a wake that works.\<close>

lemma wake_stops_none: "ok_state d \<Longrightarrow> drvWake dr b d = (Inr a, d') \<Longrightarrow> up d j \<Longrightarrow> up d' j"
  using wake_up wake_other by metis

end

section \<open>The in-memory driver\<close>

record Fake =
  fkAddr :: string
  fkBoxes :: "string \<rightharpoonup> Box"
  fkUp :: "string list"
  fkFail :: "string \<rightharpoonup> nat"
  fkWakes :: nat

definition NewFake :: "string \<Rightarrow> Fake" where
  "NewFake ad = \<lparr>fkAddr = ad, fkBoxes = Map.empty, fkUp = [], fkFail = Map.empty, fkWakes = 0\<rparr>"

definition FailWakes :: "string \<Rightarrow> nat option \<Rightarrow> Fake \<Rightarrow> Fake" where
  "FailWakes i e f = f\<lparr>fkFail := (fkFail f)(i := e)\<rparr>"

definition fake_Wake :: "Box \<Rightarrow> Fake \<Rightarrow> (nat + string) \<times> Fake" where
  "fake_Wake b f =
     (case fkFail f (boxID b) of
        Some e \<Rightarrow> (Inl e, f)
      | None \<Rightarrow> (Inr (fkAddr f),
          f\<lparr>fkWakes := (if boxID b \<in> set (fkUp f) then fkWakes f else Suc (fkWakes f)),
            fkBoxes := (fkBoxes f)(boxID b \<mapsto> b), fkUp := List.insert (boxID b) (fkUp f)\<rparr>))"

definition fake_Sleep :: "string \<Rightarrow> Fake \<Rightarrow> (nat + unit) \<times> Fake" where
  "fake_Sleep i f = (Inr (), f\<lparr>fkUp := filter (\<lambda>j. j \<noteq> i) (fkUp f)\<rparr>)"

definition fake_States :: "Fake \<Rightarrow> (nat + string list) \<times> Fake" where
  "fake_States f = (Inr (fkUp f), f)"

definition Wakes :: "Fake \<Rightarrow> nat" where "Wakes f = fkWakes f"

definition Woken :: "string \<Rightarrow> Fake \<Rightarrow> Box option" where "Woken i f = fkBoxes f i"

definition fake :: "Fake driver" where
  "fake = \<lparr>drvWake = fake_Wake, drvSleep = fake_Sleep, drvStates = fake_States\<rparr>"

definition fake_up :: "Fake \<Rightarrow> string \<Rightarrow> bool" where "fake_up f i \<longleftrightarrow> i \<in> set (fkUp f)"

definition fake_ok :: "Fake \<Rightarrow> bool" where "fake_ok f \<longleftrightarrow> fkAddr f \<noteq> []"

lemmas fake_defs = fake_def fake_Wake_def fake_Sleep_def fake_States_def fake_up_def fake_ok_def

interpretation fk: box_driver fake fake_up fake_ok
  by unfold_locales (auto simp: fake_defs split: option.splits if_splits)

end
