(* ===== verification/GroupChanges.thy ===== *)
theory GroupChanges
  imports Group
begin

text \<open>
  The changes of an environment (\<open>changes.go\<close>), golden builds (\<open>golden.go\<close>) and the sweep
  (\<open>actor.go\<close>) of \<open>internal/actor\<close>, on the state of \<open>Group\<close>. The loops of \<open>buildGoldens\<close> and \<open>sweep\<close>
  are given by one turn each.

  \<open>Delete\<close> calls itself for an environment's forks. Its first argument bounds that depth: a fork's ID is
  longer than its source's and an ID has at most 63 characters, so \<open>deleteFuel\<close> is never used up
  (proved in \<open>GroupLaws\<close>).
\<close>

definition goldenSource :: string where "goldenSource = ''golden-source''"
definition buildQueue :: nat where "buildQueue = 16"
definition MaxForks :: nat where "MaxForks = 8"

definition no_options :: CreateOptions where
  "no_options = \<lparr>optWorkspace = [], Seed = None, From = None, Fork = None\<rparr>"

section \<open>Goldens\<close>

text \<open>\<open>filepath.Dir\<close> and \<open>filepath.Base\<close> of the cleaned path it gives.\<close>

definition go_Dir :: "string \<Rightarrow> fpath" where
  "go_Dir w = Clean (rev (dropWhile (\<lambda>c. c \<noteq> CHR ''/'') (rev w)))"

definition go_Base :: "fpath \<Rightarrow> string" where
  "go_Base p = (if snd p = [] then (if fst p then ''/'' else ''.'') else last (snd p))"

definition hasSnapshot :: "string \<Rightarrow> string \<Rightarrow> ('d, bool) gp" where
  "hasSnapshot i x =
     bind_s (try_s (on_store (HasSnapshot \<lparr>refEnv = i, refSnapshot = x\<rparr>))) (\<lambda>r.
     ret (case r of Inl _ \<Rightarrow> False | Inr b \<Rightarrow> b))"

definition golden :: "string \<Rightarrow> string \<Rightarrow> ('d, SnapshotRef option \<times> bool) gp" where
  "golden i workspace =
     bind_s (gets (\<lambda>g. (cdc g, cfg g))) (\<lambda>(co, c).
     bind_s (try_s (on_setup (Key co (snd (Clean workspace)) (cfgImage c)))) (\<lambda>r. case r of
       Inl _ \<Rightarrow> ret (None, False)
     | Inr key \<Rightarrow>
         let builder = builderID (sha256hex co) (go_Base (go_Dir workspace)) in
         bind_s (hasSnapshot builder key) (\<lambda>has.
         ret (if has then (Some \<lparr>refEnv = builder, refSnapshot = key\<rparr>, False) else (None, True)))))"

definition queueBuild :: "string \<Rightarrow> ('d, unit) gp" where
  "queueBuild src =
     bind_s (gets builds) (\<lambda>q.
       if length q < buildQueue then modify (\<lambda>g. g\<lparr>builds := builds g @ [src]\<rparr>)
       else bind_s (try_s (on_store (DeleteSnapshot src goldenSource))) (\<lambda>r. case r of
              Inl _ \<Rightarrow> ret ()
            | Inr _ \<Rightarrow>
                if BuilderOf src = None then ret ()
                else bind_s (try_s (on_store (Delete src))) (\<lambda>_. ret ())))"

section \<open>Changes\<close>

definition group_Create :: "string \<Rightarrow> CreateOptions \<Rightarrow> ('d, unit) gp" where
  "group_Create i opts0 = do_change i
     (bind_s (try_s (on_store (Get i))) (\<lambda>r.
      bind_s (if r = Inl (StoreErr ErrNotFound) \<and> optWorkspace opts0 \<noteq> [] \<and> Seed opts0 = None
              then bind_s (golden i (optWorkspace opts0)) (\<lambda>(ref, build). ret (opts0\<lparr>From := ref\<rparr>, build))
              else ret (opts0, False)) (\<lambda>(opts, build).
      bind_s (try_s (on_store (Create i opts))) (\<lambda>c.
      bind_s (case c of
                Inr _ \<Rightarrow> ret ()
              | Inl e \<Rightarrow> if From opts = None then raise e
                        else bind_s (on_store (Create i (opts\<lparr>From := None\<rparr>))) (\<lambda>_. ret ())) (\<lambda>_.
        if \<not> build then ret ()
        else bind_s (try_s (on_store (Snapshot i goldenSource))) (\<lambda>s. case s of
               Inl _ \<Rightarrow> ret ()
             | Inr _ \<Rightarrow> queueBuild i))))))"

definition forks :: "string \<Rightarrow> ('d, int list) gp" where
  "forks i =
     bind_s (on_store List) (\<lambda>envs.
     ret (concat (map (\<lambda>env. case ForkOf (ID env) of
                         Some (parent, n) \<Rightarrow> if parent = i then [n] else []
                       | None \<Rightarrow> []) envs)))"

definition stopAgent :: "string \<Rightarrow> ('d, unit) gp" where
  "stopAgent i = do_change (AgentBox i)
     (bind_s (gets (\<lambda>g. awake (actor_of (AgentBox i) g))) (\<lambda>up.
        if up then stopBox (AgentBox i) else ret ()))"

fun group_Delete :: "nat \<Rightarrow> string \<Rightarrow> ('d, unit) gp" where
  "group_Delete 0 i = raise OutOfFuel"
| "group_Delete (Suc n) i = do_change i
     (bind_s (on_store (Get i)) (\<lambda>_.
      bind_s (forks i) (\<lambda>fs.
      bind_s (for_each (\<lambda>f. bind_s (try_s (group_Delete n (ForkID i f))) (\<lambda>r. case r of
                Inl e \<Rightarrow> if e = StoreErr ErrNotFound then ret () else raise e
              | Inr _ \<Rightarrow> ret ())) fs) (\<lambda>_.
      bind_s (stopBox i) (\<lambda>_.
      bind_s (stopAgent i) (\<lambda>_.
      on_store (Delete i)))))))"

definition deleteFuel :: nat where "deleteFuel = 71"

lemma card_above_less: "(n::int) \<in> set fs \<Longrightarrow> card {m \<in> set fs. n + 1 \<le> m} < card {m \<in> set fs. n \<le> m}"
proof (rule psubset_card_mono)
  assume "n \<in> set fs"
  then have "n \<in> {m \<in> set fs. n \<le> m} - {m \<in> set fs. n + 1 \<le> m}" by simp
  moreover have "{m \<in> set fs. n + 1 \<le> m} \<subseteq> {m \<in> set fs. n \<le> m}" by auto
  ultimately show "{m \<in> set fs. n + 1 \<le> m} \<subset> {m \<in> set fs. n \<le> m}" by (metis DiffD1 DiffD2 psubsetI)
qed simp

text \<open>\<open>for n := 1; len(ids) < count; n++\<close>, with \<open>k\<close> forks still to make.\<close>

function fork_loop :: "string \<Rightarrow> SnapshotRef \<Rightarrow> int list \<Rightarrow> nat \<Rightarrow> int \<Rightarrow> ('d, string list) gp" where
  "fork_loop i src fs k n =
     (if k = 0 then ret []
      else if n \<in> set fs then fork_loop i src fs k (n + 1)
      else bind_s (group_Create (ForkID i n) (no_options\<lparr>Fork := Some src\<rparr>)) (\<lambda>_.
           bind_s (fork_loop i src fs (k - 1) (n + 1)) (\<lambda>ids. ret (ForkID i n # ids))))"
  by pat_completeness auto

termination
  by (relation "inv_image (less_than <*lex*> less_than)
      (\<lambda>(i, src, fs, k, n). (k, card {m \<in> set fs. n \<le> m}))") (auto intro: card_above_less)

declare fork_loop.simps [simp del]

definition group_Fork :: "string \<Rightarrow> string \<Rightarrow> int \<Rightarrow> ('d, string list) gp" where
  "group_Fork i snapID count =
     (if count < 1 \<or> int MaxForks < count then raise ErrTooManyForks
      else do_change i
        (bind_s (on_store (Get i)) (\<lambda>_.
         bind_s (forks i) (\<lambda>fs.
           if int MaxForks < int (length fs) + count then raise ErrTooManyForks
           else fork_loop i \<lparr>refEnv = i, refSnapshot = snapID\<rparr> fs (nat count) 1))))"

definition group_Snapshot :: "string \<Rightarrow> string \<Rightarrow> bool \<Rightarrow> ('d, unit) gp" where
  "group_Snapshot i snapID replace = do_change i
     (bind_s (if replace then on_store (DeleteSnapshot i snapID) else ret ()) (\<lambda>_.
      bind_s (on_store (Snapshot i snapID)) (\<lambda>_.
      bind_s (try_s (on_store (Prune i))) (\<lambda>_. ret ()))))"

definition group_DeleteSnapshot :: "string \<Rightarrow> string \<Rightarrow> ('d, unit) gp" where
  "group_DeleteSnapshot i snapID = do_change i (on_store (DeleteSnapshot i snapID))"

definition group_Restore :: "string \<Rightarrow> string \<Rightarrow> ('d, unit) gp" where
  "group_Restore i snapID = do_change i
     (bind_s (on_store (HasSnapshot \<lparr>refEnv = i, refSnapshot = snapID\<rparr>)) (\<lambda>has.
        if \<not> has then raise (StoreErr ErrNotFound)
        else bind_s (stopBox i) (\<lambda>_.
             bind_s (stopAgent i) (\<lambda>_.
             on_store (Restore i snapID)))))"

definition group_Sleep :: "string \<Rightarrow> ('d, unit) gp" where
  "group_Sleep i = do_change i
     (bind_s (on_store (Get (EnvOfBox i))) (\<lambda>_.
      bind_s (stopBox i) (\<lambda>_.
        if \<not> IsAgentBox i then stopAgent i else ret ())))"

definition group_Wake :: "string \<Rightarrow> ('d, unit) gp" where
  "group_Wake i = do_change i
     (bind_s (set_actor i (\<lambda>a. a\<lparr>crashes := []\<rparr>)) (\<lambda>_.
      bind_s (wake i []) (\<lambda>_.
      bind_s (endLease i ''used'') (\<lambda>_.
      bind_s clock (\<lambda>t.
      set_actor i (\<lambda>a. a\<lparr>lastOpened := t, lastClosed := t\<rparr>))))))"

section \<open>Golden builds\<close>

definition delete_quietly :: "string \<Rightarrow> ('d, unit) gp" where
  "delete_quietly i = bind_s (try_s (on_store (Delete i))) (\<lambda>_. ret ())"

definition Prebuild :: "string \<Rightarrow> (path \<times> node) list \<Rightarrow> ('d, unit) gp" where
  "Prebuild repo seed =
     bind_s (gets (\<lambda>g. (cdc g, cfg g))) (\<lambda>(co, c). let i = SourceID (sha256hex co) repo in
     do_change i
       (bind_s (hasSnapshot i goldenSource) (\<lambda>queued.
          if queued then ret ()
          else bind_s (try_s (on_store (Delete i))) (\<lambda>d.
            if d \<noteq> Inr () \<and> d \<noteq> Inl (StoreErr ErrNotFound) then raise (projl d)
            else bind_s (try_s (bind_s (on_store (Create i (no_options\<lparr>Seed := Some seed\<rparr>))) (\<lambda>env.
                           on_setup (Key co (Workspace env) (cfgImage c))))) (\<lambda>k.
              bind_s (case k of
                        Inl e \<Rightarrow> ret (e = SetupErr ErrNoContract)
                      | Inr key \<Rightarrow> hasSnapshot (builderID (sha256hex co) repo) key) (\<lambda>needless.
                if needless then on_store (Delete i)
                else bind_s (try_s (case k of Inl e \<Rightarrow> raise e | Inr _ \<Rightarrow> on_store (Snapshot i goldenSource))) (\<lambda>s.
                  case s of
                    Inl e \<Rightarrow> bind_s (delete_quietly i) (\<lambda>_. raise e)
                  | Inr _ \<Rightarrow> queueBuild i)))))))"

definition buildGolden :: "string \<Rightarrow> ('d, unit) gp" where
  "buildGolden src =
     bind_s (gets (\<lambda>g. (cdc g, cfg g))) (\<lambda>(co, c).
     bind_s (on_store (Get src)) (\<lambda>srcEnv.
     let i = (case BuilderOf src of
                Some b \<Rightarrow> b
              | None \<Rightarrow> builderID (sha256hex co) (go_Base (True, butlast (Workspace srcEnv)))) in
     do_change i
       (bind_s (on_store (Create i no_options)) (\<lambda>_.
        bind_s (stopBox i) (\<lambda>_.
        bind_s (on_store (BuildSource i \<lparr>refEnv = src, refSnapshot = goldenSource\<rparr>)) (\<lambda>_.
        bind_s (on_store (Get i)) (\<lambda>env.
        bind_s (on_setup (Key co (Workspace env) (cfgImage c))) (\<lambda>key.
        bind_s (hasSnapshot i key) (\<lambda>has.
          if has then ret ()
          else bind_s (try_s (wake i [])) (\<lambda>w.
               bind_s (try_s (stopBox i)) (\<lambda>x.
               bind_s (case w of Inl e \<Rightarrow> raise e | Inr _ \<Rightarrow> (case x of Inl e \<Rightarrow> raise e | Inr _ \<Rightarrow> ret ())) (\<lambda>_.
               bind_s (on_store (StripSource i)) (\<lambda>_.
               bind_s (on_store (Snapshot i key)) (\<lambda>_.
               bind_s (try_s (on_store (Prune i))) (\<lambda>_. ret ())))))))))))))))"

definition clearSources :: "SnapshotRef list \<Rightarrow> ('d, unit) gp" where
  "clearSources srcs =
     bind_s (try_s (on_store List)) (\<lambda>r. case r of
       Inl _ \<Rightarrow> ret ()
     | Inr envs \<Rightarrow> for_each (\<lambda>env.
         if BuilderOf (ID env) = None \<or> ID env \<in> refEnv ` set srcs then ret ()
         else bind_s (try_s (group_Delete deleteFuel (ID env))) (\<lambda>_. ret ())) envs)"

text \<open>\<open>buildGoldens\<close>: the builds the last daemon left, then one build.\<close>

definition buildGoldens_start :: "('d, unit) gp" where
  "buildGoldens_start =
     bind_s (try_s (on_store (Sources goldenSource))) (\<lambda>r.
     let srcs = (case r of Inl _ \<Rightarrow> [] | Inr xs \<Rightarrow> xs) in
     bind_s (for_each (\<lambda>src. queueBuild (refEnv src)) srcs) (\<lambda>_. clearSources srcs))"

definition build_one :: "string \<Rightarrow> ('d, unit) gp" where
  "build_one src =
     bind_s (try_s (buildGolden src)) (\<lambda>_.
     bind_s (try_s (group_DeleteSnapshot src goldenSource)) (\<lambda>_.
       if BuilderOf src = None then ret ()
       else bind_s (try_s (group_Delete deleteFuel src)) (\<lambda>_. ret ())))"

definition buildGoldens :: "('d, unit) gp" where
  "buildGoldens =
     bind_s (gets builds) (\<lambda>q. case q of
       [] \<Rightarrow> ret ()
     | src # rest \<Rightarrow> bind_s (modify (\<lambda>g. g\<lparr>builds := rest\<rparr>)) (\<lambda>_. build_one src))"

section \<open>The sweep\<close>

definition sweep :: "('d, unit) gp" where
  "sweep =
     bind_s (try_s (on_store Orphans)) (\<lambda>r. case r of
       Inl _ \<Rightarrow> ret ()
     | Inr ids \<Rightarrow>
         bind_s (gets gone) (\<lambda>before.
         bind_s (for_each (\<lambda>i. if i \<in> set before
                               then bind_s (try_s (group_Delete deleteFuel i)) (\<lambda>_. ret ()) else ret ()) ids) (\<lambda>_.
         modify (\<lambda>g. g\<lparr>gone := ids\<rparr>))))"

end
