(* ===== verification/GroupInv.thy ===== *)
theory GroupInv
  imports Driver GroupChanges
begin

text \<open>
  The invariant of a \<open>Group\<close>: every box that is up has a live actor that counts it as awake, so that
  its idle time will put it to sleep, and an actor of a box that is asleep counts no command, no
  address and no pre-wake. It is proved for every driver that keeps the contract \<open>box_driver\<close>.
\<close>

section \<open>The invariant\<close>

definition actor_ok :: "actor \<Rightarrow> bool" where
  "actor_ok a \<longleftrightarrow>
     (\<not> awake a \<longrightarrow> addr a = [] \<and> execs a = [] \<and> jobs a = [] \<and> \<not> prewoken a \<and> \<not> watching a)"

definition group_ok :: "'d driver \<Rightarrow> ('d \<Rightarrow> string \<Rightarrow> bool) \<Rightarrow> ('d \<Rightarrow> bool) \<Rightarrow> string list \<Rightarrow> 'd group \<Rightarrow> bool" where
  "group_ok dr up okd B g \<longleftrightarrow>
     drv g = dr \<and> okd (gdrv g) \<and> busy g = B
     \<and> (\<forall>b\<in>set B. \<exists>a. actors g b = Some a \<and> \<not> finished a)
     \<and> (\<not> stopped g \<longrightarrow> (\<forall>i. up (gdrv g) i \<longrightarrow> (\<exists>a. actors g i = Some a \<and> awake a \<and> \<not> finished a)))
     \<and> (\<forall>i a. actors g i = Some a \<longrightarrow> actor_ok a \<and> gen a < nextGen g)
     \<and> (\<forall>i a. (i, a) \<in> set (exited g) \<longrightarrow>
          gen a < nextGen g \<and> (\<forall>b. actors g i = Some b \<longrightarrow> gen b = gen a \<longrightarrow> finished b))"

lemma group_okI:
  assumes "drv g = dr" "okd (gdrv g)" "busy g = B"
    and "\<And>b. b \<in> set B \<Longrightarrow> \<exists>a. actors g b = Some a \<and> \<not> finished a"
    and "\<And>i. \<not> stopped g \<Longrightarrow> up (gdrv g) i \<Longrightarrow> \<exists>a. actors g i = Some a \<and> awake a \<and> \<not> finished a"
    and "\<And>i a. actors g i = Some a \<Longrightarrow> actor_ok a" "\<And>i a. actors g i = Some a \<Longrightarrow> gen a < nextGen g"
    and "\<And>i a. (i, a) \<in> set (exited g) \<Longrightarrow> gen a < nextGen g"
    and "\<And>i a b. (i, a) \<in> set (exited g) \<Longrightarrow> actors g i = Some b \<Longrightarrow> gen b = gen a \<Longrightarrow> finished b"
  shows "group_ok dr up okd B g"
  unfolding group_ok_def using assms by blast

lemma group_okD:
  assumes "group_ok dr up okd B g"
  shows "drv g = dr" "okd (gdrv g)" "busy g = B"
    and "\<And>b. b \<in> set B \<Longrightarrow> \<exists>a. actors g b = Some a \<and> \<not> finished a"
    and "\<And>i. \<not> stopped g \<Longrightarrow> up (gdrv g) i \<Longrightarrow> \<exists>a. actors g i = Some a \<and> awake a \<and> \<not> finished a"
    and "\<And>i a. actors g i = Some a \<Longrightarrow> actor_ok a" "\<And>i a. actors g i = Some a \<Longrightarrow> gen a < nextGen g"
    and "\<And>i a. (i, a) \<in> set (exited g) \<Longrightarrow> gen a < nextGen g"
    and "\<And>i a b. (i, a) \<in> set (exited g) \<Longrightarrow> actors g i = Some b \<Longrightarrow> gen b = gen a \<Longrightarrow> finished b"
  using assms unfolding group_ok_def by blast+

text \<open>One actor replaced by a live one.\<close>

lemma group_ok_put:
  assumes g: "group_ok dr up okd B g" and "actor_ok a" "\<not> finished a" "gen a < n" "nextGen g \<le> n"
    and awake: "\<not> stopped g \<Longrightarrow> up (gdrv g) i \<Longrightarrow> awake a"
    and old: "\<And>x. (i, x) \<in> set (exited g) \<Longrightarrow> gen a \<noteq> gen x"
  shows "group_ok dr up okd B (g\<lparr>actors := (actors g)(i \<mapsto> a), nextGen := n\<rparr>)"
proof (rule group_okI)
  fix j x y assume "(j, x) \<in> set (exited (g\<lparr>actors := (actors g)(i \<mapsto> a), nextGen := n\<rparr>))"
    "actors (g\<lparr>actors := (actors g)(i \<mapsto> a), nextGen := n\<rparr>) j = Some y" "gen y = gen x"
  with old group_okD(9) [OF g] show "finished y" by (cases "j = i") auto
next
  fix j assume "\<not> stopped (g\<lparr>actors := (actors g)(i \<mapsto> a), nextGen := n\<rparr>)"
    "up (gdrv (g\<lparr>actors := (actors g)(i \<mapsto> a), nextGen := n\<rparr>)) j"
  with awake group_okD(5) [OF g] assms(3)
  show "\<exists>b. actors (g\<lparr>actors := (actors g)(i \<mapsto> a), nextGen := n\<rparr>) j = Some b \<and> awake b \<and> \<not> finished b"
    by (cases "j = i") auto
next
  fix j x
  show "actors (g\<lparr>actors := (actors g)(i \<mapsto> a), nextGen := n\<rparr>) j = Some x \<Longrightarrow>
      gen x < nextGen (g\<lparr>actors := (actors g)(i \<mapsto> a), nextGen := n\<rparr>)"
    using assms(4,5) group_okD(7) [OF g, of j x] by (auto split: if_splits)
  show "(j, x) \<in> set (exited (g\<lparr>actors := (actors g)(i \<mapsto> a), nextGen := n\<rparr>)) \<Longrightarrow>
      gen x < nextGen (g\<lparr>actors := (actors g)(i \<mapsto> a), nextGen := n\<rparr>)"
    using assms(5) group_okD(8) [OF g, of j x] by auto
qed (use assms group_okD(1-4) [OF g] group_okD(6) [OF g] in \<open>auto split: if_splits\<close>)

lemma group_ok_put_live:
  assumes g: "group_ok dr up okd B g" and a: "actors g i = Some a" "\<not> finished a"
    and b: "actor_ok b" "\<not> finished b" "gen b = gen a" "\<not> stopped g \<Longrightarrow> up (gdrv g) i \<Longrightarrow> awake b"
  shows "group_ok dr up okd B (g\<lparr>actors := (actors g)(i \<mapsto> b)\<rparr>)"
proof -
  have "group_ok dr up okd B (g\<lparr>actors := (actors g)(i \<mapsto> b), nextGen := nextGen g\<rparr>)"
    using a group_okD(7,9) [OF g] by (intro group_ok_put g b) (auto simp: b(3))
  then show ?thesis by simp
qed

section \<open>Rules of the group's primitives\<close>

lemma wp_on_store [wp_rules]:
  "wp (on_store m) Q E = (\<lambda>g. wp m (\<lambda>x s. Q x (g\<lparr>gst := s\<rparr>)) (\<lambda>e s. E (StoreErr e) (g\<lparr>gst := s\<rparr>)) (gst g))"
  by (rule ext) (auto simp: wp_def on_store_def split: prod.splits sum.splits)

lemma wp_on_setup [wp_rules]:
  "wp (on_setup m) Q E = (\<lambda>g. wp m (\<lambda>x s. Q x (g\<lparr>gst := s\<rparr>)) (\<lambda>e s. E (SetupErr e) (g\<lparr>gst := s\<rparr>)) (gst g))"
  by (rule ext) (auto simp: wp_def on_setup_def split: prod.splits sum.splits)

lemma wp_on_driver [wp_rules]:
  "wp (on_driver f) Q E = (\<lambda>g. case f (drv g) (gdrv g) of
     (Inl e, d) \<Rightarrow> E (DriverErr e) (g\<lparr>gdrv := d\<rparr>) | (Inr x, d) \<Rightarrow> Q x (g\<lparr>gdrv := d\<rparr>))"
  by (rule ext) (auto simp: wp_def on_driver_def split: prod.splits sum.splits)

lemma wp_set_actor [wp_rules]:
  "wp (set_actor i f) Q E = (\<lambda>g. Q () (g\<lparr>actors := (actors g)(i := map_option f (actors g i))\<rparr>))"
  by (rule ext) (simp add: set_actor_def wp_rules)

lemma wp_clock [wp_rules]:
  "wp clock Q E = (\<lambda>g. Q (times (wld (gst g)) (calls (gst g))) (g\<lparr>gst := tick (gst g)\<rparr>))"
  by (rule ext) (simp add: clock_def wp_rules)

text \<open>What changes neither actors, driver, exits nor \<open>busy\<close> keeps the invariant.\<close>

lemma group_ok_gst [simp]: "group_ok dr up okd B (g\<lparr>gst := s\<rparr>) = group_ok dr up okd B g"
  by (simp add: group_ok_def)

lemma group_ok_other [simp]:
  "group_ok dr up okd B (g\<lparr>prewakeResults := a\<rparr>) = group_ok dr up okd B g"
  "group_ok dr up okd B (g\<lparr>prewakes := q\<rparr>) = group_ok dr up okd B g"
  "group_ok dr up okd B (g\<lparr>builds := q\<rparr>) = group_ok dr up okd B g"
  "group_ok dr up okd B (g\<lparr>woken := q\<rparr>) = group_ok dr up okd B g"
  "group_ok dr up okd B (g\<lparr>touched := b\<rparr>) = group_ok dr up okd B g"
  "group_ok dr up okd B (g\<lparr>cancelled := c\<rparr>) = group_ok dr up okd B g"
  "group_ok dr up okd B (g\<lparr>gone := q\<rparr>) = group_ok dr up okd B g"
  "group_ok dr up okd B (g\<lparr>pastCrashes := d\<rparr>) = group_ok dr up okd B g"
  by (simp_all add: group_ok_def)

lemma keeps_on_store [keeps_rules]: "keeps (group_ok dr up okd B) (on_store m)"
  by (simp add: keeps_wp wp_rules) (simp add: wp_def split: prod.split sum.split)

lemma keeps_on_setup [keeps_rules]: "keeps (group_ok dr up okd B) (on_setup m)"
  by (simp add: keeps_wp wp_rules) (simp add: wp_def split: prod.split sum.split)

lemma keeps_clock [keeps_rules]: "keeps (group_ok dr up okd B) clock"
  unfolding clock_def by (rule keeps_on_store)

lemma keeps_modify: "(\<And>g. I g \<Longrightarrow> I (f g)) \<Longrightarrow> keeps I (modify f)"
  by (simp add: keeps_wp wp_rules)

text \<open>An update of one actor that leaves its box's state.\<close>

definition same_life :: "(actor \<Rightarrow> actor) \<Rightarrow> bool" where
  "same_life f \<longleftrightarrow> (\<forall>a. awake (f a) = awake a \<and> finished (f a) = finished a \<and> gen (f a) = gen a)"

lemma group_ok_set_actor:
  assumes "group_ok dr up okd B g" "same_life f"
    and "\<And>a. actors g i = Some a \<Longrightarrow> actor_ok (f a)"
  shows "group_ok dr up okd B (g\<lparr>actors := (actors g)(i := map_option f (actors g i))\<rparr>)"
  using assms unfolding group_ok_def same_life_def
  by (cases "actors g i") (fastforce split: if_splits)+

lemma actor_ok_awake: "awake a \<Longrightarrow> actor_ok a"
  by (simp add: actor_ok_def)

lemma keeps_set_actor [keeps_rules]:
  assumes "same_life f" "\<And>a. actor_ok a \<Longrightarrow> actor_ok (f a)"
  shows "keeps (group_ok dr up okd B) (set_actor i f)"
  unfolding keeps_wp wp_set_actor
proof (intro allI impI)
  fix g assume g: "group_ok dr up okd B g"
  then show "group_ok dr up okd B (g\<lparr>actors := (actors g)(i := map_option f (actors g i))\<rparr>)"
    by (rule group_ok_set_actor [OF _ assms(1)]) (use g assms(2) in \<open>simp add: group_ok_def\<close>)
qed

text \<open>The invariant while box \<open>i\<close>, whose change is under way, is awake.\<close>

definition awake_ok :: "'d driver \<Rightarrow> ('d \<Rightarrow> string \<Rightarrow> bool) \<Rightarrow> ('d \<Rightarrow> bool) \<Rightarrow> string list \<Rightarrow> string \<Rightarrow> 'd group \<Rightarrow> bool" where
  "awake_ok dr up okd B i g \<longleftrightarrow> group_ok dr up okd B g \<and> i \<in> set B \<and> awake (actor_of i g)"

lemma awake_ok_D: "awake_ok dr up okd B i g \<Longrightarrow> group_ok dr up okd B g"
  by (simp add: awake_ok_def)

lemma awake_ok_actor:
  assumes "awake_ok dr up okd B i g"
  obtains a where "actors g i = Some a" "awake a" "\<not> finished a"
  using assms by (auto simp: awake_ok_def group_ok_def actor_of_def split: option.splits)

lemma actor_of_update [simp]:
  "actor_of i (g\<lparr>gst := s\<rparr>) = actor_of i g" "actor_of i (g\<lparr>gdrv := d\<rparr>) = actor_of i g"
  "actor_of i (g\<lparr>woken := q\<rparr>) = actor_of i g" "actor_of i (g\<lparr>prewakeResults := q\<rparr>) = actor_of i g"
  "actor_of i (g\<lparr>cancelled := c\<rparr>) = actor_of i g"
  by (simp_all add: actor_of_def)

lemma keeps_awake_set [keeps_rules]:
  assumes "same_life f"
  shows "keeps (awake_ok dr up okd B i) (set_actor i f)"
  unfolding keeps_wp wp_set_actor
proof (intro allI impI)
  fix g assume a: "awake_ok dr up okd B i g"
  then obtain x where x: "actors g i = Some x" "awake x" by (rule awake_ok_actor)
  have "group_ok dr up okd B (g\<lparr>actors := (actors g)(i := map_option f (actors g i))\<rparr>)"
    using x assms by (intro group_ok_set_actor awake_ok_D [OF a]) (auto simp: same_life_def intro: actor_ok_awake)
  then show "awake_ok dr up okd B i (g\<lparr>actors := (actors g)(i := map_option f (actors g i))\<rparr>)"
    using a x assms by (simp add: awake_ok_def actor_of_def same_life_def)
qed

lemma keeps_awake_on_store [keeps_rules]: "keeps (awake_ok dr up okd B i) (on_store m)"
  by (simp add: keeps_wp wp_rules) (simp add: wp_def awake_ok_def split: prod.split sum.split)

lemma keeps_awake_clock [keeps_rules]: "keeps (awake_ok dr up okd B i) clock"
  unfolding clock_def by (rule keeps_awake_on_store)

lemma keeps_awake_tell_woken [keeps_rules]: "keeps (awake_ok dr up okd B i) (tell_woken j)"
  by (auto simp: keeps_wp wp_rules tell_woken_def awake_ok_def split: option.split)

lemma keeps_awake_endLease [keeps_rules]: "keeps (awake_ok dr up okd B i) (endLease i r)"
  unfolding endLease_def
  by (intro keeps_rules keeps_modify) (auto simp: awake_ok_def same_life_def)

lemma keeps_awake_watch [keeps_rules]: "keeps (awake_ok dr up okd B i) (watch i)"
  unfolding watch_def by (intro keeps_rules) (auto simp: same_life_def)

lemma keeps_awake_add_crash [keeps_rules]: "keeps (awake_ok dr up okd B i) (add_crash i)"
  unfolding add_crash_def by (intro keeps_rules) (auto simp: same_life_def)

lemma keeps_add_crash [keeps_rules]: "keeps (group_ok dr up okd B) (add_crash i)"
  unfolding add_crash_def by (intro keeps_rules) (auto simp: same_life_def actor_ok_def)

lemma keeps_endLease [keeps_rules]: "keeps (group_ok dr up okd B) (endLease i r)"
  unfolding endLease_def by (intro keeps_rules keeps_modify) (auto simp: same_life_def actor_ok_def)

lemma keeps_recent [keeps_rules]: "keeps (group_ok dr up okd B) (recent ts)"
  by (induction ts) (auto intro!: keeps_rules)

lemma keeps_set_lease [keeps_rules]: "keeps (group_ok dr up okd B) (set_lease i)"
  unfolding set_lease_def by (intro keeps_rules) (auto simp: same_life_def actor_ok_def)

section \<open>Changes keep the invariant, for every driver\<close>

context box_driver
begin

lemma find_actor_live:
  assumes "group_ok dr up ok_state B g"
  shows "wp (find_actor i) (\<lambda>_ h. group_ok dr up ok_state B h \<and> (\<exists>a. actors h i = Some a \<and> \<not> finished a))
    (\<lambda>_ _. False) g"
proof (cases "\<exists>a. actors g i = Some a \<and> \<not> finished a")
  case True
  with assms show ?thesis by (auto simp: find_actor_def wp_rules)
next
  case False
  let ?n = "new_actor (nextGen g) (case pastCrashes g i of Some cs \<Rightarrow> cs | None \<Rightarrow> [])"
  have "wp (find_actor i) Q E g = Q () (g\<lparr>actors := (actors g)(i \<mapsto> ?n), nextGen := Suc (nextGen g)\<rparr>)" for Q E
    using False by (cases "actors g i") (auto simp: find_actor_def start_actor_def wp_rules)
  moreover have "group_ok dr up ok_state B (g\<lparr>actors := (actors g)(i \<mapsto> ?n), nextGen := Suc (nextGen g)\<rparr>)"
  proof (rule group_ok_put [OF assms])
    show "awake ?n" if "\<not> stopped g" "up (gdrv g) i"
      using False group_okD(5) [OF assms that] by blast
    show "gen ?n \<noteq> gen x" if "(i, x) \<in> set (exited g)" for x
      using group_okD(8) [OF assms that] by (simp add: new_actor_def)
  qed (simp_all add: new_actor_def actor_ok_def)
  ultimately show ?thesis by (simp add: new_actor_def)
qed

lemma wp_on_actor:
  assumes "keeps (group_ok dr up ok_state (i # B)) fn"
    and g: "group_ok dr up ok_state B g" "\<exists>a. actors g i = Some a \<and> \<not> finished a"
  shows "wp (on_actor i fn) (\<lambda>_. group_ok dr up ok_state B) (\<lambda>_. group_ok dr up ok_state B) g"
proof -
  have "group_ok dr up ok_state (i # B) (g\<lparr>busy := i # busy g\<rparr>)"
    using g by (auto simp: group_ok_def)
  from keeps_wpD [OF assms(1) this]
  have "wp fn (\<lambda>_ k. group_ok dr up ok_state B (k\<lparr>busy := tl (busy k)\<rparr>))
      (\<lambda>_ k. group_ok dr up ok_state B (k\<lparr>busy := tl (busy k)\<rparr>)) (g\<lparr>busy := i # busy g\<rparr>)"
    by (rule wp_mono) (auto simp: group_ok_def)
  then show ?thesis by (simp add: on_actor_def wp_rules)
qed

lemma keeps_do_change:
  assumes "keeps (group_ok dr up ok_state (i # B)) fn"
  shows "keeps (group_ok dr up ok_state B) (do_change i fn)"
  unfolding keeps_wp
proof (intro allI impI)
  fix g assume g: "group_ok dr up ok_state B g"
  have "wp (find_actor i) (\<lambda>_ h. wp (if i \<in> set (busy h) then raise Deadlock else on_actor i fn)
       (\<lambda>_. group_ok dr up ok_state B) (\<lambda>_. group_ok dr up ok_state B) h) (\<lambda>_. group_ok dr up ok_state B) g"
    by (rule wp_mono [OF find_actor_live [OF g]]) (auto simp: wp_raise intro: wp_on_actor [OF assms])
  then show "wp (do_change i fn) (\<lambda>_. group_ok dr up ok_state B) (\<lambda>_. group_ok dr up ok_state B) g"
    unfolding do_change_def actorOf_def wp_bind wp_if wp_raise wp_gets using g by simp
qed

text \<open>A wake, from a change of the box's own actor.\<close>

lemma keeps_awake_driver_wake:
  "boxID b = i \<Longrightarrow> keeps (awake_ok dr up ok_state B i) (on_driver (\<lambda>d. drvWake d b))"
  unfolding keeps_wp wp_on_driver
proof (intro allI impI)
  fix g assume i: "boxID b = i" and g: "awake_ok dr up ok_state B i g"
  obtain a where a: "actors g i = Some a" "awake a" "\<not> finished a" using g by (rule awake_ok_actor)
  obtain r d' where d: "drvWake dr b (gdrv g) = (r, d')" by (cases "drvWake dr b (gdrv g)")
  have ok: "ok_state (gdrv g)" and dr: "drv g = dr" using g by (auto simp: awake_ok_def group_ok_def)
  have "awake_ok dr up ok_state B i (g\<lparr>gdrv := d'\<rparr>)"
    using g a wake_ok [OF ok d] wake_other [OF ok d] i unfolding awake_ok_def group_ok_def
    by (simp add: actor_of_def) metis
  then show "case drvWake (drv g) b (gdrv g) of
       (Inl e, d) \<Rightarrow> awake_ok dr up ok_state B i (g\<lparr>gdrv := d\<rparr>) | (Inr x, d) \<Rightarrow> awake_ok dr up ok_state B i (g\<lparr>gdrv := d\<rparr>)"
    by (simp add: dr d split: sum.split)
qed

lemma boxID_boxOf [simp]: "boxID (boxOf c i env) = i"
  by (simp add: boxOf_def)

lemma wp_mark_awake:
  assumes g: "group_ok dr up ok_state B g" and i: "i \<in> set B"
  shows "wp (mark_awake i) (\<lambda>_. awake_ok dr up ok_state B i) (\<lambda>_ _. False) g"
proof -
  obtain a where a: "actors g i = Some a" "\<not> finished a" using g i by (auto simp: group_ok_def)
  have "awake_ok dr up ok_state B i (g\<lparr>gst := s, actors := (actors g)(i \<mapsto> a\<lparr>awake := True, lastOpened := t1, lastClosed := t2\<rparr>)\<rparr>)" for s t1 t2
    using group_ok_put_live [of dr up ok_state B "g\<lparr>gst := s\<rparr>" i a] g i a
    unfolding awake_ok_def by (simp add: actor_ok_awake actor_of_def)
  with g i a show ?thesis
    by (simp add: mark_awake_def wp_rules) (simp add: actor_of_def awake_ok_def)
qed

lemma keeps_call_wake: "keeps (awake_ok dr up ok_state B i) (call_wake i env)"
  unfolding call_wake_def by (intro keeps_rules keeps_awake_driver_wake) (simp_all add: same_life_def)

lemma wp_start_box:
  assumes "group_ok dr up ok_state B g" "i \<in> set B"
  shows "wp (start_box i env) (\<lambda>_. awake_ok dr up ok_state B i) (\<lambda>_. awake_ok dr up ok_state B i) g"
proof -
  let ?g = "g\<lparr>actors := (actors g)(i := map_option (\<lambda>a. a\<lparr>addr := []\<rparr>) (actors g i))\<rparr>"
  have "group_ok dr up ok_state B ?g"
    using assms(1) by (intro group_ok_set_actor) (auto simp: same_life_def actor_ok_def group_ok_def)
  from wp_mark_awake [OF this assms(2)]
  have "wp (mark_awake i) (\<lambda>_. wp (call_wake i env) (\<lambda>_. awake_ok dr up ok_state B i) (\<lambda>_. awake_ok dr up ok_state B i))
      (\<lambda>_. awake_ok dr up ok_state B i) ?g"
    by (rule wp_mono) (use keeps_call_wake in \<open>simp_all add: keeps_wp\<close>)
  then show ?thesis by (simp add: start_box_def wp_rules)
qed

lemma wp_wake:
  assumes "group_ok dr up ok_state B g" "i \<in> set B"
  shows "wp (wake i stale) (\<lambda>_. awake_ok dr up ok_state B i) (\<lambda>_. group_ok dr up ok_state B) g"
  unfolding wake_def
proof (rule wp_keeps_bind [OF keeps_on_store assms(1)])
  fix env h assume h: "group_ok dr up ok_state B h"
  have known: "awake_ok dr up ok_state B i h" if "addr (actor_of i h) \<noteq> []"
    using that h assms(2) group_okD(6) [OF h] by (auto simp: awake_ok_def actor_of_def actor_ok_def new_actor_def split: option.splits)
  have "keeps (group_ok dr up ok_state B) (count_crashes i stale)"
    unfolding count_crashes_def by (intro keeps_rules) (simp_all add: same_life_def actor_ok_def)
  then have died: "wp (bind_s (count_crashes i stale) (\<lambda>n. if crashLimit \<le> n then raise ErrCrashing else start_box i env))
     (\<lambda>_. awake_ok dr up ok_state B i) (\<lambda>_. group_ok dr up ok_state B) h"
  proof (rule wp_keeps_bind [of "group_ok dr up ok_state B", OF _ h])
    fix n k assume "group_ok dr up ok_state B k"
    with wp_mono [OF wp_start_box [OF this assms(2)], of "\<lambda>_. awake_ok dr up ok_state B i" "\<lambda>_. group_ok dr up ok_state B" env]
    show "wp (if crashLimit \<le> n then raise ErrCrashing else start_box i env)
       (\<lambda>_. awake_ok dr up ok_state B i) (\<lambda>_. group_ok dr up ok_state B) k"
      by (simp add: wp_rules awake_ok_D)
  qed simp
  show "wp (bind_s (gets (\<lambda>g. addr (actor_of i g))) (\<lambda>ad. if ad \<noteq> [] \<and> ad \<noteq> stale then ret env
       else bind_s (count_crashes i stale) (\<lambda>n. if crashLimit \<le> n then raise ErrCrashing else start_box i env)))
     (\<lambda>_. awake_ok dr up ok_state B i) (\<lambda>_. group_ok dr up ok_state B) h"
    unfolding wp_bind [of "gets _"] wp_gets wp_if wp_ret using known died by simp
qed simp

lemma keeps_wake: "i \<in> set B \<Longrightarrow> keeps (group_ok dr up ok_state B) (wake i stale)"
  unfolding keeps_wp by (auto intro!: wp_mono [OF wp_wake] dest: awake_ok_D)

text \<open>A stop. On success the box is down and its actor counts nothing.\<close>

lemma wp_stop_tail:
  assumes g: "group_ok dr up ok_state B g" and i: "i \<in> set B" and down: "\<not> up (gdrv g) i"
    and a: "actors g i = Some a" "addr a = []" "\<not> watching a" "\<not> finished a"
  shows "wp (bind_s (endLease i r) (\<lambda>_. cancel_all i))
    (\<lambda>_ h. group_ok dr up ok_state B h \<and> \<not> up (gdrv h) i) (\<lambda>_ _. False) g"
proof -
  let ?b = "a\<lparr>lease := None, prewoken := False, awake := False, execs := [], jobs := []\<rparr>"
  have "group_ok dr up ok_state B (g\<lparr>actors := (actors g)(i \<mapsto> ?b)\<rparr>)"
    using a down by (intro group_ok_put_live [OF g a(1)]) (auto simp: actor_ok_def)
  then have "group_ok dr up ok_state B (g\<lparr>cancelled := c, actors := (actors g)(i \<mapsto> ?b)\<rparr>)"
    "group_ok dr up ok_state B (g\<lparr>prewakeResults := p, cancelled := c, actors := (actors g)(i \<mapsto> ?b)\<rparr>)" for c p
    by (simp_all add: group_ok_def)
  then show ?thesis
    using a down by (simp add: endLease_def cancel_all_def wp_rules actor_of_def)
qed

lemma wp_stopBox:
  assumes g: "group_ok dr up ok_state B g" and i: "i \<in> set B"
  shows "wp (stopBox i) (\<lambda>_ h. group_ok dr up ok_state B h \<and> \<not> up (gdrv h) i) (\<lambda>_. group_ok dr up ok_state B) g"
proof -
  let ?f = "\<lambda>a. a\<lparr>addr := [], watching := False\<rparr>"
  let ?g = "g\<lparr>actors := (actors g)(i := map_option ?f (actors g i))\<rparr>"
  have g1: "group_ok dr up ok_state B ?g"
    using g by (intro group_ok_set_actor) (auto simp: same_life_def actor_ok_def group_ok_def)
  obtain a where a: "actors g i = Some a" "\<not> finished a" using group_okD(4) [OF g i] by blast
  obtain r d where d: "drvSleep dr i (gdrv g) = (r, d)" by (cases "drvSleep dr i (gdrv g)")
  have ok: "ok_state (gdrv g)" and dr: "drv g = dr" using g by (auto simp: group_ok_def)
  have g2: "group_ok dr up ok_state B (?g\<lparr>gdrv := d\<rparr>)"
  proof (rule group_okI)
    fix j assume "\<not> stopped (?g\<lparr>gdrv := d\<rparr>)" "up (gdrv (?g\<lparr>gdrv := d\<rparr>)) j"
    then show "\<exists>a. actors (?g\<lparr>gdrv := d\<rparr>) j = Some a \<and> awake a \<and> \<not> finished a"
      using group_okD(5) [OF g1, of j] sleep_starts_none [OF ok d, of j] by simp
  qed (use group_okD(1,3,4,6-9) [OF g1] sleep_ok [OF ok d] in simp_all)
  show ?thesis
  proof (cases r)
    case (Inl e)
    with g2 show ?thesis by (simp add: stopBox_def wp_rules dr d)
  next
    case (Inr u)
    have "wp (bind_s (endLease i ''wasted'') (\<lambda>_. cancel_all i))
       (\<lambda>_ h. group_ok dr up ok_state B h \<and> \<not> up (gdrv h) i) (\<lambda>_ _. False) (?g\<lparr>gdrv := d\<rparr>)"
      using sleep_down [OF ok, of i u d] d Inr a by (intro wp_stop_tail [OF g2 i, of "?f a"]) auto
    then have "wp (bind_s (endLease i ''wasted'') (\<lambda>_. cancel_all i))
       (\<lambda>_ h. group_ok dr up ok_state B h \<and> \<not> up (gdrv h) i) (\<lambda>_. group_ok dr up ok_state B) (?g\<lparr>gdrv := d\<rparr>)"
      by (rule wp_mono) auto
    with Inr show ?thesis unfolding stopBox_def wp_bind [of "set_actor _ _"] wp_bind [of "on_driver _"] wp_set_actor wp_on_driver
      by (simp add: dr d)
  qed
qed

lemma keeps_stopBox: "i \<in> set B \<Longrightarrow> keeps (group_ok dr up ok_state B) (stopBox i)"
  unfolding keeps_wp by (auto intro!: wp_mono [OF wp_stopBox])

lemma keeps_sleepIfIdle: "i \<in> set B \<Longrightarrow> keeps (group_ok dr up ok_state B) (sleepIfIdle i)"
  unfolding sleepIfIdle_def
  by (intro keeps_rules keeps_stopBox) (simp_all add: same_life_def actor_ok_def)

text \<open>Every change, with the changes it waits for.\<close>

lemmas keeps_change = keeps_do_change keeps_wake keeps_stopBox

lemma keeps_stopAgent [keeps_rules]: "keeps (group_ok dr up ok_state B) (stopAgent i)"
  unfolding stopAgent_def by (intro keeps_rules keeps_change) simp

lemma keeps_hasSnapshot [keeps_rules]: "keeps (group_ok dr up ok_state B) (hasSnapshot i x)"
  unfolding hasSnapshot_def by (intro keeps_rules)

lemma keeps_golden [keeps_rules]: "keeps (group_ok dr up ok_state B) (golden i w)"
  unfolding golden_def by (intro keeps_rules)

lemma keeps_queueBuild [keeps_rules]: "keeps (group_ok dr up ok_state B) (queueBuild i)"
  unfolding queueBuild_def by (intro keeps_rules keeps_modify) simp

lemma keeps_forks [keeps_rules]: "keeps (group_ok dr up ok_state B) (forks i)"
  unfolding forks_def by (intro keeps_rules)

lemma keeps_group_Create [keeps_rules]: "keeps (group_ok dr up ok_state B) (group_Create i opts)"
  unfolding group_Create_def by (intro keeps_rules keeps_change)

lemma keeps_group_Delete [keeps_rules]: "keeps (group_ok dr up ok_state B) (group_Delete n i)"
proof (induction n arbitrary: i B)
  case (Suc n)
  show ?case unfolding group_Delete.simps by (intro keeps_rules keeps_change Suc) simp
qed (simp add: keeps_rules)

lemma keeps_fork_loop [keeps_rules]: "keeps (group_ok dr up ok_state B) (fork_loop i src fs k n)"
proof (induction i src fs k n rule: fork_loop.induct)
  case (1 i src fs k n)
  then show ?case by (subst fork_loop.simps) (intro keeps_rules; simp)
qed

lemma keeps_group_Fork [keeps_rules]: "keeps (group_ok dr up ok_state B) (group_Fork i x c)"
  unfolding group_Fork_def by (intro keeps_rules keeps_change)

lemma keeps_group_Snapshot [keeps_rules]: "keeps (group_ok dr up ok_state B) (group_Snapshot i x r)"
  unfolding group_Snapshot_def by (intro keeps_rules keeps_change)

lemma keeps_group_DeleteSnapshot [keeps_rules]: "keeps (group_ok dr up ok_state B) (group_DeleteSnapshot i x)"
  unfolding group_DeleteSnapshot_def by (intro keeps_rules keeps_change)

lemma keeps_group_Restore [keeps_rules]: "keeps (group_ok dr up ok_state B) (group_Restore i x)"
  unfolding group_Restore_def by (intro keeps_rules keeps_change) simp

lemma keeps_group_Sleep [keeps_rules]: "keeps (group_ok dr up ok_state B) (group_Sleep i)"
  unfolding group_Sleep_def by (intro keeps_rules keeps_change) simp

lemma keeps_group_Wake [keeps_rules]: "keeps (group_ok dr up ok_state B) (group_Wake i)"
  unfolding group_Wake_def by (intro keeps_rules keeps_change) (simp_all add: same_life_def actor_ok_def)

lemma keeps_Prebuild [keeps_rules]: "keeps (group_ok dr up ok_state B) (Prebuild r seed)"
  unfolding Prebuild_def delete_quietly_def Let_def by (intro keeps_rules keeps_change)

lemma keeps_buildGolden [keeps_rules]: "keeps (group_ok dr up ok_state B) (buildGolden src)"
  unfolding buildGolden_def Let_def by (intro keeps_rules keeps_change) simp_all

lemma keeps_clearSources [keeps_rules]: "keeps (group_ok dr up ok_state B) (clearSources srcs)"
  unfolding clearSources_def by (intro keeps_rules)

lemma keeps_buildGoldens_start [keeps_rules]: "keeps (group_ok dr up ok_state B) buildGoldens_start"
  unfolding buildGoldens_start_def Let_def by (intro keeps_rules)

lemma keeps_buildGoldens [keeps_rules]: "keeps (group_ok dr up ok_state B) buildGoldens"
  unfolding buildGoldens_def build_one_def by (intro keeps_rules keeps_modify) simp

lemma keeps_sweep [keeps_rules]: "keeps (group_ok dr up ok_state B) sweep"
  unfolding sweep_def by (intro keeps_rules keeps_modify) simp

lemma keeps_Prewake [keeps_rules]: "keeps (group_ok dr up ok_state B) (Prewake i)"
  unfolding Prewake_def by (intro keeps_rules keeps_modify) simp

lemma keeps_endExec [keeps_rules]: "keeps (group_ok dr up ok_state B) (endExec ex b d)"
  unfolding endExec_def by (intro keeps_rules) (auto simp: same_life_def actor_ok_def)

lemma wp_awake_group: "keeps (awake_ok dr up ok_state B i) m \<Longrightarrow> awake_ok dr up ok_state B i g \<Longrightarrow>
    wp m (\<lambda>_. group_ok dr up ok_state B) (\<lambda>_. group_ok dr up ok_state B) g"
  by (rule wp_mono [OF keeps_wpD [of "awake_ok dr up ok_state B i"]]) (auto dest: awake_ok_D)

text \<open>A wake followed by what counts on the box being awake.\<close>

lemma keeps_wake_bind:
  assumes "i \<in> set B" "\<And>env. keeps (awake_ok dr up ok_state B i) (f env)"
  shows "keeps (group_ok dr up ok_state B) (bind_s (wake i stale) f)"
  unfolding keeps_wp wp_bind
proof (intro allI impI)
  fix g assume "group_ok dr up ok_state B g"
  from wp_wake [OF this assms(1)]
  show "wp (wake i stale) (\<lambda>env. wp (f env) (\<lambda>_. group_ok dr up ok_state B) (\<lambda>_. group_ok dr up ok_state B))
     (\<lambda>_. group_ok dr up ok_state B) g"
    by (rule wp_mono) (use wp_awake_group [OF assms(2)] in auto)
qed

lemma keeps_exec [keeps_rules]: "keeps (group_ok dr up ok_state B) (exec k i stale c gu)"
  unfolding exec_def
  by (intro keeps_rules keeps_do_change keeps_wake_bind) (simp_all add: same_life_def)

lemma keeps_touch [keeps_rules]: "keeps (group_ok dr up ok_state B) (touch i ps)"
  unfolding touch_def
  by (intro keeps_rules keeps_change keeps_modify) (simp_all add: same_life_def actor_ok_def)

lemma keeps_awake_gets_set_lease [keeps_rules]: "keeps (awake_ok dr up ok_state B i) (set_lease i)"
  unfolding set_lease_def by (intro keeps_rules) (auto simp: same_life_def)

lemma keeps_try_wake_bind:
  assumes "i \<in> set B" "\<And>env. keeps (awake_ok dr up ok_state B i) (f (Inr env))"
    and "\<And>e. keeps (group_ok dr up ok_state B) (f (Inl e))"
  shows "keeps (group_ok dr up ok_state B) (bind_s (try_s (wake i stale)) f)"
  unfolding keeps_wp wp_bind wp_try
proof (intro allI impI)
  fix g assume "group_ok dr up ok_state B g"
  from wp_wake [OF this assms(1)]
  show "wp (wake i stale)
     (\<lambda>x. wp (f (Inr x)) (\<lambda>_. group_ok dr up ok_state B) (\<lambda>_. group_ok dr up ok_state B))
     (\<lambda>e. wp (f (Inl e)) (\<lambda>_. group_ok dr up ok_state B) (\<lambda>_. group_ok dr up ok_state B)) g"
    by (rule wp_mono) (use wp_awake_group [OF assms(2)] keeps_wpD [OF assms(3)] in auto)
qed

lemma keeps_prewake [keeps_rules]: "keeps (group_ok dr up ok_state B) (prewake i)"
  unfolding prewake_def
  by (intro keeps_do_change keeps_modify keeps_rules keeps_try_wake_bind)
    (auto simp: same_life_def actor_ok_def intro!: keeps_rules)

lemma keeps_prewakeBoxes [keeps_rules]: "keeps (group_ok dr up ok_state B) prewakeBoxes"
  unfolding prewakeBoxes_def by (intro keeps_rules keeps_modify) simp

text \<open>The steps of \<open>Run\<close> and of the actors themselves, between changes.\<close>

lemma keeps_idle_timer: "keeps (group_ok dr up ok_state []) (idle_timer i)"
  unfolding keeps_wp idle_timer_def
  by (auto simp: wp_rules intro!: wp_on_actor keeps_sleepIfIdle split: option.split)

lemma keeps_actor_exit: "keeps (group_ok dr up ok_state []) (actor_exit i)"
  unfolding keeps_wp
proof (intro allI impI)
  fix g assume g: "group_ok dr up ok_state [] g"
  have "group_ok dr up ok_state [] (g\<lparr>actors := (actors g)(i \<mapsto> a\<lparr>watching := False, finished := True\<rparr>),
      exited := exited g @ [(i, a)]\<rparr>)" (is "group_ok _ _ _ _ ?h") if a: "actors g i = Some a" "\<not> awake a" for a
  proof (rule group_okI)
    fix j assume "\<not> stopped ?h" "up (gdrv ?h) j"
    then show "\<exists>b. actors ?h j = Some b \<and> awake b \<and> \<not> finished b"
      using group_okD(5) [OF g, of j] a by (cases "j = i") auto
  next
    fix j x y assume "(j, x) \<in> set (exited ?h)" "actors ?h j = Some y" "gen y = gen x"
    then show "finished y" using group_okD(9) [OF g, of j x y] by (auto split: if_splits)
  qed (use a group_okD(1-3,6-8) [OF g] in \<open>auto simp: actor_ok_def split: if_splits\<close>)
  with g show "wp (actor_exit i) (\<lambda>_. group_ok dr up ok_state []) (\<lambda>_. group_ok dr up ok_state []) g"
    by (auto simp: actor_exit_def wp_rules split: option.split)
qed

lemma keeps_reap: "keeps (group_ok dr up ok_state []) reap"
  unfolding keeps_wp
proof (intro allI impI)
  fix g assume g: "group_ok dr up ok_state [] g"
  have "group_ok dr up ok_state [] (g\<lparr>actors := (case actors g i of
        Some b \<Rightarrow> if gen b = gen a then (actors g)(i := None) else actors g | None \<Rightarrow> actors g), exited := rest\<rparr>)"
    (is "group_ok _ _ _ _ ?h") if x: "exited g = (i, a) # rest" for i a rest
  proof -
    have sub: "actors g j = Some b" if "actors ?h j = Some b" for j b
      using that by (auto split: option.splits if_splits)
    have ex: "(j, y) \<in> set (exited g)" if "(j, y) \<in> set (exited ?h)" for j y using that x by simp
    have fin: "finished b" if "actors g i = Some b" "gen b = gen a" for b
      using group_okD(9) [OF g _ that] x by simp
    have live: "\<exists>b. actors ?h j = Some b \<and> awake b \<and> \<not> finished b" if "\<not> stopped g" "up (gdrv g) j" for j
    proof -
      from group_okD(5) [OF g that] obtain b where "actors g j = Some b" "awake b" "\<not> finished b" by blast
      then show ?thesis using fin by (cases "j = i") (auto split: option.split)
    qed
    show ?thesis
    proof (rule group_okI)
      fix j y b
      show "(j, y) \<in> set (exited ?h) \<Longrightarrow> actors ?h j = Some b \<Longrightarrow> gen b = gen y \<Longrightarrow> finished b"
        using group_okD(9) [OF g ex sub] by blast
      show "actors ?h j = Some b \<Longrightarrow> actor_ok b" using group_okD(6) [OF g sub] by blast
      show "actors ?h j = Some b \<Longrightarrow> gen b < nextGen ?h" using group_okD(7) [OF g sub, of j b] by simp
      show "(j, y) \<in> set (exited ?h) \<Longrightarrow> gen y < nextGen ?h" using group_okD(8) [OF g ex, of j y] by simp
    qed (use live group_okD(1-3) [OF g] in simp_all)
  qed
  with g show "wp reap (\<lambda>_. group_ok dr up ok_state []) (\<lambda>_. group_ok dr up ok_state []) g"
    unfolding reap_def
    by (auto simp: wp_bind [of "gets _"] wp_gets intro!: wp_keeps_bind [of "group_ok dr up ok_state []"]
        keeps_wpD keeps_rules keeps_modify simp: wp_rules split: list.split)
qed

lemma keeps_shutdown: "keeps (group_ok dr up ok_state []) shutdown"
  unfolding shutdown_def
  by (rule keeps_modify, rule group_okI) (auto simp: group_ok_def actor_ok_def)

end

end
