(* ===== verification/GroupRun.thy ===== *)
theory GroupRun
  imports GroupInv SampleStore
begin

text \<open>
  Runs of the daemon: \<open>Run\<close>'s start, then any sequence of changes, commands, timers, turns of the
  background loops, exits of actors, deaths of boxes and writes to the disk by others.
\<close>

section \<open>Steps\<close>

datatype group_op =
    OpCreate string CreateOptions
  | OpDelete string
  | OpFork string string int
  | OpSnapshot string string bool
  | OpDeleteSnapshot string string
  | OpRestore string string
  | OpSleep string
  | OpWake string
  | OpExec exec_kind string string nat bool
  | OpEnd Exec bool int
  | OpTouch string "string list"
  | OpPrewake string
  | OpPrewakeBoxes
  | OpPrebuild string "(path \<times> node) list"
  | OpBuildStart
  | OpBuild
  | OpSweep
  | OpIdle string
  | OpExit string
  | OpReap
  | OpShutdown

definition dropped :: "('d, 'a) gp \<Rightarrow> ('d, unit) gp" where
  "dropped m = bind_s m (\<lambda>_. ret ())"

fun group_prog :: "group_op \<Rightarrow> ('d, unit) gp" where
  "group_prog (OpCreate i opts) = group_Create i opts"
| "group_prog (OpDelete i) = group_Delete deleteFuel i"
| "group_prog (OpFork i x n) = dropped (group_Fork i x n)"
| "group_prog (OpSnapshot i x r) = group_Snapshot i x r"
| "group_prog (OpDeleteSnapshot i x) = group_DeleteSnapshot i x"
| "group_prog (OpRestore i x) = group_Restore i x"
| "group_prog (OpSleep i) = group_Sleep i"
| "group_prog (OpWake i) = group_Wake i"
| "group_prog (OpExec k i st c gu) = dropped (exec k i st c gu)"
| "group_prog (OpEnd ex b d) = endExec ex b d"
| "group_prog (OpTouch i ps) = touch i ps"
| "group_prog (OpPrewake i) = Prewake i"
| "group_prog OpPrewakeBoxes = prewakeBoxes"
| "group_prog (OpPrebuild r seed) = Prebuild r seed"
| "group_prog OpBuildStart = buildGoldens_start"
| "group_prog OpBuild = buildGoldens"
| "group_prog OpSweep = sweep"
| "group_prog (OpIdle i) = idle_timer i"
| "group_prog (OpExit i) = actor_exit i"
| "group_prog OpReap = reap"
| "group_prog OpShutdown = shutdown"

text \<open>A new \<open>Group\<close>, before \<open>Run\<close>.\<close>

definition new_group :: "'d driver \<Rightarrow> ('d \<Rightarrow> bool) \<Rightarrow> 'd group \<Rightarrow> bool" where
  "new_group dr okd g \<longleftrightarrow> drv g = dr \<and> okd (gdrv g) \<and> actors g = Map.empty \<and> exited g = [] \<and> busy g = [] \<and> \<not> stopped g"

inductive group_reach :: "'d driver \<Rightarrow> ('d \<Rightarrow> string \<Rightarrow> bool) \<Rightarrow> ('d \<Rightarrow> bool) \<Rightarrow> 'd group \<Rightarrow> bool" for dr up okd where
  started: "new_group dr okd g0 \<Longrightarrow> Run_start g0 = (Inr (), g) \<Longrightarrow> group_reach dr up okd g"
| change: "group_reach dr up okd g \<Longrightarrow> group_reach dr up okd (snd (group_prog op g))"
| died: "group_reach dr up okd g \<Longrightarrow> okd d \<Longrightarrow> (\<And>i. up d i \<Longrightarrow> up (gdrv g) i) \<Longrightarrow> group_reach dr up okd (g\<lparr>gdrv := d\<rparr>)"
| wrote: "group_reach dr up okd g \<Longrightarrow> group_reach dr up okd (g\<lparr>gst := s\<rparr>)"

section \<open>The invariant of every run\<close>

lemma group_ok_widen:
  assumes g: "group_ok dr up okd B g"
    and "\<And>i. up' (gdrv g) i \<Longrightarrow> up (gdrv g) i \<or> (\<exists>a. actors g i = Some a \<and> awake a \<and> \<not> finished a)"
  shows "group_ok dr up' okd B g"
  by (rule group_okI) (use group_okD [OF g] assms(2) in blast)+

lemma wp_start_actor:
  assumes "group_ok dr (\<lambda>_ j. j \<in> P) okd [] g"
  shows "wp (start_actor i True) (\<lambda>_. group_ok dr (\<lambda>_ j. j \<in> insert i P) okd []) (\<lambda>_ _. False) g"
proof -
  let ?a = "\<lambda>t1 t2. (new_actor (nextGen g) (case pastCrashes g i of Some cs \<Rightarrow> cs | None \<Rightarrow> []))
     \<lparr>awake := True, lastOpened := t1, lastClosed := t2\<rparr>"
  have "group_ok dr (\<lambda>_ j. j \<in> insert i P) okd []
     (g\<lparr>nextGen := Suc (nextGen g), gst := s, actors := (actors g)(i \<mapsto> ?a t1 t2)\<rparr>)" (is "group_ok _ _ _ _ ?h") for s t1 t2
  proof -
    have "group_ok dr (\<lambda>_ j. j \<in> P) okd [] (g\<lparr>actors := (actors g)(i \<mapsto> ?a t1 t2), nextGen := Suc (nextGen g)\<rparr>)"
    proof (rule group_ok_put [OF assms])
      show "gen (?a t1 t2) \<noteq> gen x" if "(i, x) \<in> set (exited g)" for x
        using group_okD(8) [OF assms that] by (simp add: new_actor_def)
    qed (simp_all add: new_actor_def actor_ok_def)
    then have "group_ok dr (\<lambda>_ j. j \<in> P) okd [] ?h" by (simp add: group_ok_def)
    then show ?thesis by (rule group_ok_widen) (auto simp: new_actor_def)
  qed
  then show ?thesis by (simp add: start_actor_def wp_rules)
qed

context box_driver
begin

lemma Run_start_ok:
  assumes "new_group dr ok_state g" "Run_start g = (Inr (), h)"
  shows "group_ok dr up ok_state [] h"
proof -
  have ok: "ok_state (gdrv g)" and dr: "drv g = dr" using assms(1) by (auto simp: new_group_def)
  obtain ids d where d: "drvStates dr (gdrv g) = (Inr ids, d)"
    using assms(2) dr by (cases "drvStates dr (gdrv g)"; cases "fst (drvStates dr (gdrv g))")
      (auto simp: Run_start_def bind_s_def on_driver_def)
  have "wp (for_each (\<lambda>i. start_actor i True) ids) (\<lambda>_ k. group_ok dr (\<lambda>_ j. j \<in> set ids) ok_state [] k \<and> gdrv k = d)
     (\<lambda>_ _. False) (g\<lparr>gdrv := d\<rparr>)"
  proof (rule wp_for_each [where I = "\<lambda>ys k. \<exists>zs. ids = zs @ ys \<and> group_ok dr (\<lambda>_ j. j \<in> set zs) ok_state [] k \<and> gdrv k = d"])
    show "\<exists>zs. ids = zs @ ids \<and> group_ok dr (\<lambda>_ j. j \<in> set zs) ok_state [] (g\<lparr>gdrv := d\<rparr>) \<and> gdrv (g\<lparr>gdrv := d\<rparr>) = d"
      using assms(1) states_ok [OF ok d] by (auto simp: new_group_def group_ok_def)
  next
    fix x ys k assume "\<exists>zs. ids = zs @ x # ys \<and> group_ok dr (\<lambda>_ j. j \<in> set zs) ok_state [] k \<and> gdrv k = d"
    then obtain zs where z: "ids = zs @ x # ys" "group_ok dr (\<lambda>_ j. j \<in> set zs) ok_state [] k" "gdrv k = d" by blast
    have "keeps (\<lambda>k. gdrv k = d) (start_actor x True)"
      by (simp add: keeps_wp start_actor_def wp_rules)
    from wp_conj [OF wp_start_actor [OF z(2), of x] keeps_wpD [OF this z(3)]]
    show "wp (start_actor x True) (\<lambda>_ k. \<exists>zs. ids = zs @ ys \<and> group_ok dr (\<lambda>_ j. j \<in> set zs) ok_state [] k \<and> gdrv k = d) (\<lambda>_ _. False) k"
      by (rule wp_mono) (use z(1) in \<open>auto intro!: exI [of _ "zs @ [x]"] simp: group_ok_def\<close>)
  qed auto
  then have "wp Run_start (\<lambda>_ k. group_ok dr (\<lambda>_ j. j \<in> set ids) ok_state [] k \<and> gdrv k = d) (\<lambda>_ _. False) g"
    by (simp add: Run_start_def wp_rules dr d)
  from wp_InrD [OF this assms(2)] states_up [OF ok d] states_ok [OF ok d]
  show ?thesis by (auto simp: group_ok_def)
qed

lemma keeps_group_prog: "keeps (group_ok dr up ok_state []) (group_prog op)"
  by (cases op) (simp_all add: dropped_def keeps_rules keeps_idle_timer keeps_actor_exit keeps_reap keeps_shutdown)

lemma group_reach_ok: "group_reach dr up ok_state g \<Longrightarrow> group_ok dr up ok_state [] g"
proof (induction rule: group_reach.induct)
  case (started g0 g)
  then show ?case by (rule Run_start_ok)
next
  case (died g d)
  then show ?case by (auto simp: group_ok_def)
qed (simp_all add: keepsD [OF keeps_group_prog])

end

text \<open>
  No box is lost with the in-memory driver. In every state a daemon can reach, whatever fails, a box that is up has a live
  actor that counts it as awake; with idle times set, its idle timer is armed or a command runs in
  it. An actor of a box that is not awake has no command, no address and no watch.
\<close>

theorem no_lost_box:
  assumes "group_reach fake fake_up fake_ok g" "\<not> stopped g"
  shows "(fake_up (gdrv g) i \<longrightarrow> (\<exists>a. actors g i = Some a \<and> awake a \<and> \<not> finished a \<and>
      (idleAgent (cfg g) \<noteq> 0 \<and> idleHuman (cfg g) \<noteq> 0 \<longrightarrow> armIdle (cfg g) a \<noteq> None \<or> execs a \<noteq> [])))
    \<and> (\<forall>a. actors g i = Some a \<and> \<not> awake a \<longrightarrow> execs a = [] \<and> jobs a = [] \<and> addr a = [] \<and> \<not> watching a)"
proof -
  have g: "group_ok fake fake_up fake_ok [] g" using assms(1) by (rule fk.group_reach_ok)
  have "\<exists>a. actors g i = Some a \<and> awake a \<and> \<not> finished a" if "fake_up (gdrv g) i"
    using group_okD(5) [OF g assms(2) that] .
  then show ?thesis using group_okD(6) [OF g, of i] by (auto simp: armIdle_def actor_ok_def)
qed

section \<open>A daemon\<close>

definition sample_cfg :: Config where
  "sample_cfg = \<lparr>idleAgent = 60 * second, idleHuman = 600 * second, idlePrewake = 120 * second, cfgImage = ''img'',
     cfgAgents = True, cfgWatcher = True, cfgWoken = Some 4\<rparr>"

definition plain_codecs :: codecs where
  "plain_codecs = \<lparr>sha256hex = (\<lambda>_. replicate 64 CHR ''0''), yamlGoldenInputs = (\<lambda>_. Some []), yamlServicePorts = (\<lambda>_. Some []),
     yamlCompose = (\<lambda>_. Some []), jsonPackage = (\<lambda>_. None)\<rparr>"

text \<open>Box \<open>dev\<close> was left awake by an earlier daemon.\<close>

definition sample_fake :: Fake where
  "sample_fake = \<lparr>fkAddr = ''10.0.0.1:80'', fkBoxes = Map.empty, fkUp = [''dev''], fkFail = Map.empty, fkWakes = 1\<rparr>"

definition sample_group :: "Fake group" where
  "sample_group = \<lparr>gst = sample_store, gdrv = sample_fake, drv = fake, cfg = sample_cfg, cdc = plain_codecs,
     actors = Map.empty, pastCrashes = Map.empty, exited = [], nextGen = 0, builds = [], prewakes = [], cancelled = [],
     woken = [], prewakeResults = [], touched = [], gone = [], busy = [], stopped = False\<rparr>"

definition sample_started :: "Fake group" where
  "sample_started = snd (Run_start sample_group)"

lemma sample_reach: "group_reach fake fake_up fake_ok sample_started"
  unfolding sample_started_def
proof (rule group_reach.started [of _ _ sample_group])
  show "new_group fake fake_ok sample_group"
    by (simp add: new_group_def sample_group_def fake_ok_def sample_fake_def)
  have "fst (Run_start sample_group) = Inr ()" by code_simp
  then show "Run_start sample_group = (Inr (), snd (Run_start sample_group))"
    by (cases "Run_start sample_group") simp
qed

theorem no_lost_box_witness:
  "fake_up (gdrv sample_started) ''dev'' \<and>
   (\<exists>a. actors sample_started ''dev'' = Some a \<and> awake a \<and> \<not> finished a
      \<and> (armIdle (cfg sample_started) a \<noteq> None \<or> execs a \<noteq> []))"
proof -
  have "\<not> stopped sample_started" "fake_up (gdrv sample_started) ''dev''"
    "idleAgent (cfg sample_started) \<noteq> 0 \<and> idleHuman (cfg sample_started) \<noteq> 0" by code_simp+
  with no_lost_box [OF sample_reach this(1), of "''dev''"] show ?thesis by blast
qed

end
