(* ===== verification/GroupFrame.thy ===== *)
theory GroupFrame
  imports GroupRun
begin

text \<open>
  Invariants of a group that every step keeps because its primitives do: a locale with one law per
  primitive, whose client lemmas go once through every change, and three interpretations: what
  each box is given, the bounds of the queues, and what never changes.
\<close>

section \<open>The interface\<close>

locale group_frame =
  fixes I :: "'d group \<Rightarrow> bool"
  assumes disk: "I g \<Longrightarrow> I (g\<lparr>gst := s\<rparr>)"
    and set_actor: "keeps I (set_actor i f)"
    and start: "keeps I (start_actor i b)"
    and busy: "I g \<Longrightarrow> I (g\<lparr>busy := bl\<rparr>)"
    and exits: "I g \<Longrightarrow> I (g\<lparr>actors := as, exited := es\<rparr>)"
    and shut: "I g \<Longrightarrow> I (g\<lparr>stopped := True, actors := as\<rparr>)"
    and past: "I g \<Longrightarrow> I (g\<lparr>pastCrashes := p\<rparr>)"
    and results: "I g \<Longrightarrow> I (g\<lparr>prewakeResults := r\<rparr>)"
    and cancel: "I g \<Longrightarrow> I (g\<lparr>cancelled := cs\<rparr>)"
    and touches: "I g \<Longrightarrow> I (g\<lparr>touched := ts\<rparr>)"
    and sweeps: "I g \<Longrightarrow> I (g\<lparr>gone := xs\<rparr>)"
    and queue_build: "I g \<Longrightarrow> length (builds g) < buildQueue \<Longrightarrow> I (g\<lparr>builds := builds g @ [x]\<rparr>)"
    and take_build: "I g \<Longrightarrow> builds g = x # xs \<Longrightarrow> I (g\<lparr>builds := xs\<rparr>)"
    and queue_prewake: "I g \<Longrightarrow> length (prewakes g) < prewakeQueue \<Longrightarrow> I (g\<lparr>prewakes := prewakes g @ [x]\<rparr>)"
    and take_prewake: "I g \<Longrightarrow> prewakes g = x # xs \<Longrightarrow> I (g\<lparr>prewakes := xs\<rparr>)"
    and tell: "I g \<Longrightarrow> cfgWoken (cfg g) = Some cap \<Longrightarrow> length (woken g) < cap \<Longrightarrow> I (g\<lparr>woken := woken g @ [x]\<rparr>)"
    and wakes: "I g \<Longrightarrow> I (snd (on_driver (\<lambda>d. drvWake d (boxOf (cfg g) i env)) g))"
    and sleeps: "keeps I (on_driver (\<lambda>d. drvSleep d i))"
begin

lemma on_store: "keeps I (on_store m)"
  by (auto simp: keeps_def on_store_def disk split: prod.split sum.split)

lemma on_setup: "keeps I (on_setup m)"
  by (auto simp: keeps_def on_setup_def disk split: prod.split sum.split)

lemma clock: "keeps I clock"
  unfolding clock_def by (rule on_store)

lemma results_if: "keeps I (modify (\<lambda>g. if c g then g\<lparr>prewakeResults := r g\<rparr> else g))"
  by (rule keeps_modify) (simp add: results)

lemmas primitives = on_store on_setup set_actor start clock sleeps results_if

lemma endLease: "keeps I (endLease i r)"
  unfolding endLease_def by (intro keeps_rules primitives)

lemma recent: "keeps I (recent ts)"
  by (induction ts) (auto intro!: keeps_rules primitives)

lemma add_crash: "keeps I (add_crash i)"
  unfolding add_crash_def by (intro keeps_rules primitives)

lemma tell_woken: "keeps I (tell_woken i)"
  unfolding tell_woken_def by (rule keeps_modify) (auto intro: tell split: option.split)

lemma wake_bind:
  assumes "\<And>r. keeps I (f r)"
  shows "keeps I (bind_s (gets cfg) (\<lambda>c. bind_s (try_s (on_driver (\<lambda>d. drvWake d (boxOf c i env)))) f))"
  unfolding keeps_def
proof (intro allI impI)
  fix g assume g: "I g"
  obtain r h where h: "on_driver (\<lambda>d. drvWake d (boxOf (cfg g) i env)) g = (r, h)" by (cases "on_driver (\<lambda>d. drvWake d (boxOf (cfg g) i env)) g")
  with wakes [OF g, of i env] have "I h" by simp
  then show "I (snd (bind_s (gets cfg) (\<lambda>c. bind_s (try_s (on_driver (\<lambda>d. drvWake d (boxOf c i env)))) f) g))"
    using h keepsD [OF assms] by (simp add: bind_s_def gets_def try_s_def)
qed

lemma wake: "keeps I (wake i stale)"
  unfolding wake_def start_box_def mark_awake_def call_wake_def watch_def count_crashes_def
  by (intro wake_bind keeps_rules primitives recent add_crash tell_woken)

lemma stopBox: "keeps I (stopBox i)"
  unfolding stopBox_def cancel_all_def
  by (intro keeps_rules primitives endLease keeps_modify cancel)

lemma on_actor: "keeps I fn \<Longrightarrow> keeps I (on_actor i fn)"
  unfolding on_actor_def by (intro keeps_rules keeps_modify busy)

lemma do_change: "keeps I fn \<Longrightarrow> keeps I (do_change i fn)"
  unfolding do_change_def actorOf_def find_actor_def by (intro keeps_rules primitives on_actor)

lemmas box_rules = wake stopBox endLease do_change on_actor

lemma hasSnapshot: "keeps I (hasSnapshot i x)"
  unfolding hasSnapshot_def by (intro keeps_rules primitives)

lemma queueBuild: "keeps I (queueBuild i)"
  unfolding keeps_wp
proof (intro allI impI)
  fix g assume g: "I g"
  have "keeps I (bind_s (try_s (on_store (DeleteSnapshot i goldenSource))) (\<lambda>r. case r of
              Inl _ \<Rightarrow> ret ()
            | Inr _ \<Rightarrow> if BuilderOf i = None then ret () else bind_s (try_s (on_store (Delete i))) (\<lambda>_. ret ())))"
    by (intro keeps_rules primitives)
  from keeps_wpD [OF this g] g show "wp (queueBuild i) (\<lambda>_. I) (\<lambda>_. I) g"
    unfolding queueBuild_def wp_bind [of "gets _"] wp_gets by (simp add: wp_modify queue_build)
qed

lemma golden: "keeps I (golden i w)"
  unfolding golden_def by (intro keeps_rules primitives hasSnapshot)

lemma group_Create: "keeps I (group_Create i opts)"
  unfolding group_Create_def by (intro keeps_rules primitives box_rules golden queueBuild)

lemma forks: "keeps I (forks i)"
  unfolding forks_def by (intro keeps_rules primitives)

lemma stopAgent: "keeps I (stopAgent i)"
  unfolding stopAgent_def by (intro keeps_rules box_rules)

lemma group_Delete: "keeps I (group_Delete n i)"
proof (induction n arbitrary: i)
  case (Suc n)
  show ?case unfolding group_Delete.simps by (intro keeps_rules primitives box_rules forks stopAgent Suc)
qed (simp add: keeps_rules)

lemma fork_loop: "keeps I (fork_loop i src fs k n)"
proof (induction i src fs k n rule: fork_loop.induct)
  case (1 i src fs k n)
  then show ?case by (subst fork_loop.simps) (intro keeps_rules group_Create; simp)
qed

lemma endExec: "keeps I (endExec ex b d)"
  unfolding endExec_def by (intro keeps_rules primitives)

lemma prewake: "keeps I (prewake i)"
  unfolding prewake_def set_lease_def by (intro keeps_modify results keeps_rules primitives box_rules)

lemma buildGolden: "keeps I (buildGolden src)"
  unfolding buildGolden_def Let_def by (intro keeps_rules primitives box_rules hasSnapshot)

lemma clearSources: "keeps I (clearSources srcs)"
  unfolding clearSources_def by (intro keeps_rules primitives group_Delete)

lemma Prewake: "keeps I (Prewake i)"
  unfolding Prewake_def by (intro keeps_rules keeps_modify) (simp add: results queue_prewake)

lemma prewakeBoxes: "keeps I prewakeBoxes"
  unfolding keeps_wp
proof (intro allI impI)
  fix g assume "I g"
  then show "wp prewakeBoxes (\<lambda>_. I) (\<lambda>_. I) g"
    unfolding prewakeBoxes_def
    by (auto simp: wp_bind wp_gets wp_ret wp_modify intro: take_prewake keeps_wpD [OF prewake] split: list.split)
qed

lemma build_one: "keeps I (build_one src)"
  unfolding build_one_def group_DeleteSnapshot_def
  by (intro keeps_rules primitives box_rules buildGolden group_Delete)

lemma buildGoldens: "keeps I buildGoldens"
  unfolding keeps_wp
proof (intro allI impI)
  fix g assume "I g"
  then show "wp buildGoldens (\<lambda>_. I) (\<lambda>_. I) g"
    unfolding buildGoldens_def
    by (auto simp: wp_bind wp_gets wp_ret wp_modify intro: take_build keeps_wpD [OF build_one] split: list.split)
qed

lemma reap: "keeps I reap"
  unfolding reap_def
  by (intro keeps_rules recent keeps_modify past exits)

lemma actor_exit: "keeps I (actor_exit i)"
  unfolding actor_exit_def by (intro keeps_rules keeps_modify exits)

lemma shutdown: "keeps I shutdown"
  unfolding shutdown_def by (intro keeps_modify shut)

text \<open>Every step of a run.\<close>

lemma group_prog: "keeps I (group_prog op)"
proof (cases op)
  case (OpFork i x n)
  show ?thesis unfolding OpFork group_prog.simps dropped_def group_Fork_def
    by (intro keeps_rules primitives box_rules forks fork_loop)
next
  case (OpExec k i st c gu)
  show ?thesis unfolding OpExec group_prog.simps dropped_def exec_def
    by (intro keeps_rules primitives box_rules endExec)
next
  case (OpPrebuild r seed)
  show ?thesis unfolding OpPrebuild group_prog.simps Prebuild_def delete_quietly_def Let_def
    by (intro keeps_rules primitives box_rules hasSnapshot queueBuild)
next
  case OpBuildStart
  show ?thesis unfolding OpBuildStart group_prog.simps buildGoldens_start_def Let_def
    by (intro keeps_rules primitives queueBuild clearSources)
next
  case OpSweep
  show ?thesis unfolding OpSweep group_prog.simps sweep_def
    by (intro keeps_rules primitives group_Delete keeps_modify sweeps)
next
  case (OpTouch i ps)
  show ?thesis unfolding OpTouch group_prog.simps touch_def
    by (intro keeps_rules primitives box_rules keeps_modify touches)
next
  case (OpIdle i)
  show ?thesis unfolding OpIdle group_prog.simps idle_timer_def sleepIfIdle_def
    by (intro keeps_rules primitives box_rules)
qed (simp_all add: group_Create group_Delete endExec Prewake prewakeBoxes buildGoldens reap actor_exit shutdown
      group_Snapshot_def group_DeleteSnapshot_def group_Restore_def group_Sleep_def group_Wake_def
      keeps_rules primitives box_rules stopAgent)

lemma Run_start: "I g \<Longrightarrow> keeps I (on_driver drvStates) \<Longrightarrow> I (snd (Run_start g))"
  unfolding Run_start_def by (rule keepsD) (intro keeps_rules primitives)

end

section \<open>What each box is given\<close>

text \<open>
  A box as \<open>boxOf\<close> may make it: a golden builder runs as a builder, without Claude; an agent box runs
  Claude and no services; with agent boxes, an environment's own box gets no Claude.
\<close>

definition box_allowed :: "Config \<Rightarrow> Box \<Rightarrow> bool" where
  "box_allowed c b \<longleftrightarrow>
     (IsBuilder (boxID b) \<longrightarrow> boxKind b = KBuilder \<and> Claude (boxEnv b) = [])
     \<and> (\<not> IsBuilder (boxID b) \<and> IsAgentBox (boxID b) \<longrightarrow> boxKind b = KAgent)
     \<and> (\<not> IsBuilder (boxID b) \<and> \<not> IsAgentBox (boxID b) \<longrightarrow> boxKind b = KServices \<and> (cfgAgents c \<longrightarrow> Claude (boxEnv b) = []))"

definition boxes_allowed :: "Config \<Rightarrow> Fake group \<Rightarrow> bool" where
  "boxes_allowed c g \<longleftrightarrow> drv g = fake \<and> cfg g = c \<and> (\<forall>i b. Woken i (gdrv g) = Some b \<longrightarrow> boxID b = i \<and> box_allowed c b)"

lemma box_allowed_boxOf: "box_allowed c (boxOf c i env)"
  by (simp add: box_allowed_def boxOf_def)

lemma boxID_of: "boxID (boxOf c i env) = i"
  by (simp add: boxOf_def)

interpretation ba: group_frame "boxes_allowed c" for c
proof
  fix g :: "Fake group" and i env assume "boxes_allowed c g"
  then show "boxes_allowed c (snd (on_driver (\<lambda>d. drvWake d (boxOf (cfg g) i env)) g))"
    using box_allowed_boxOf [of c i env]
    by (auto simp: boxes_allowed_def on_driver_def fake_def fake_Wake_def Woken_def boxID_of split: option.splits)
next
  fix i show "keeps (boxes_allowed c) (on_driver (\<lambda>d. drvSleep d i))"
    by (auto simp: keeps_def boxes_allowed_def on_driver_def fake_def fake_Sleep_def Woken_def)
qed (auto simp: boxes_allowed_def keeps_wp wp_rules start_actor_def)

section \<open>Bounds\<close>

definition queues_bounded :: "'d group \<Rightarrow> bool" where
  "queues_bounded g \<longleftrightarrow> length (builds g) \<le> buildQueue \<and> length (prewakes g) \<le> prewakeQueue
     \<and> (\<forall>cap. cfgWoken (cfg g) = Some cap \<longrightarrow> length (woken g) \<le> cap)"

interpretation qb: group_frame queues_bounded
  by unfold_locales (auto simp: queues_bounded_def keeps_wp wp_rules start_actor_def on_driver_def
      split: prod.splits sum.splits)

section \<open>Properties\<close>

definition run_ops :: "group_op list \<Rightarrow> 'd group \<Rightarrow> 'd group" where
  "run_ops ops g = fold (\<lambda>op g. snd (group_prog op g)) ops g"

context group_frame
begin

lemma run_ops: "I g \<Longrightarrow> I (run_ops ops g)"
  unfolding run_ops_def by (induction ops arbitrary: g) (simp_all add: keepsD [OF group_prog])

end



text \<open>
  The queues are bounded: in every run at most \<open>buildQueue\<close> golden builds and \<open>prewakeQueue\<close>
  pre-wakes wait, and \<open>Woken\<close> never holds more than its channel takes.
\<close>

theorem queues_stay_bounded:
  assumes "builds g = []" "prewakes g = []" "woken g = []"
  shows "queues_bounded (run_ops ops (snd (Run_start g)))"
proof -
  have "keeps queues_bounded (on_driver drvStates)"
    by (auto simp: keeps_def queues_bounded_def on_driver_def split: prod.split sum.split)
  then show ?thesis using assms by (intro qb.run_ops qb.Run_start) (simp_all add: queues_bounded_def)
qed

theorem queues_stay_bounded_witness:
  "queues_bounded (run_ops [OpPrewake ''dev'', OpPrewake ''dev'', OpBuildStart, OpPrewakeBoxes] sample_started)"
  unfolding sample_started_def
  by (rule queues_stay_bounded) (simp_all add: sample_group_def)

end
