(* ===== verification/GroupWaits.thy ===== *)
theory GroupWaits
  imports GroupFrame
begin

text \<open>
  Changes never wait for each other in a circle, and \<open>Delete\<close>'s recursion through forks of forks ends.
  A change of box \<open>i\<close> waits only for boxes with longer names: its forks' and its agent box's.
\<close>

section \<open>Waiting for longer names only\<close>

text \<open>
  \<open>waits_up k m\<close>: run while the boxes in \<open>busy\<close> have names shorter than \<open>k\<close>, \<open>m\<close> neither deadlocks nor uses up
  its fuel, and leaves \<open>busy\<close> as it was.
\<close>

definition no_wait :: "group_error \<Rightarrow> bool" where
  "no_wait e \<longleftrightarrow> e \<noteq> Deadlock \<and> e \<noteq> OutOfFuel"

definition waits_up :: "nat \<Rightarrow> ('d, 'a) gp \<Rightarrow> bool" where
  "waits_up k m \<longleftrightarrow> (\<forall>g. (\<forall>b\<in>set (busy g). length b < k) \<longrightarrow>
     wp m (\<lambda>_ h. busy h = busy g) (\<lambda>e h. busy h = busy g \<and> no_wait e) g)"

named_theorems waits_rules

lemma no_wait_simps [simp]:
  "no_wait (StoreErr a)" "no_wait (SetupErr b)" "no_wait (DriverErr n)" "no_wait ErrCrashing" "no_wait ErrTooManyForks"
  "no_wait ErrStopped" "no_wait CallerGone" "\<not> no_wait Deadlock" "\<not> no_wait OutOfFuel"
  by (simp_all add: no_wait_def)

lemma waits_upD:
  assumes "waits_up k m" "\<forall>b\<in>set (busy g). length b < k"
  shows "wp m (\<lambda>_ h. busy h = busy g) (\<lambda>e h. busy h = busy g \<and> no_wait e) g"
  using assms by (simp add: waits_up_def)

lemma waits_ret [waits_rules]: "waits_up k (ret x)"
  by (simp add: waits_up_def wp_rules)

lemma waits_raise [waits_rules]: "no_wait e \<Longrightarrow> waits_up k (raise e)"
  by (simp add: waits_up_def wp_rules)

lemma waits_gets [waits_rules]: "waits_up k (gets f)"
  by (simp add: waits_up_def wp_rules)

lemma waits_modify [waits_rules]: "(\<And>g. busy (f g) = busy g) \<Longrightarrow> waits_up k (modify f)"
  by (simp add: waits_up_def wp_rules)

text \<open>The result of \<open>m\<close> may be used: an error in it is one \<open>m\<close> may return.\<close>

lemma waits_bind [waits_rules]:
  assumes "waits_up k m" "\<And>x. waits_up k (f x)"
  shows "waits_up k (bind_s m f)"
  unfolding waits_up_def wp_bind
proof (intro allI impI)
  fix g :: "'a group" assume g: "\<forall>b\<in>set (busy g). length b < k"
  show "wp m (\<lambda>x. wp (f x) (\<lambda>_ h. busy h = busy g) (\<lambda>e h. busy h = busy g \<and> no_wait e)) (\<lambda>e h. busy h = busy g \<and> no_wait e) g"
    by (rule wp_mono [OF waits_upD [OF assms(1) g]]) (use waits_upD [OF assms(2)] g in metis)+
qed

lemma waits_try_bind [waits_rules]:
  assumes "waits_up k m" "\<And>x. (\<And>e. x = Inl e \<Longrightarrow> no_wait e) \<Longrightarrow> waits_up k (f x)"
  shows "waits_up k (bind_s (try_s m) f)"
  unfolding waits_up_def wp_bind wp_try
proof (intro allI impI)
  fix g :: "'a group" assume g: "\<forall>b\<in>set (busy g). length b < k"
  show "wp m (\<lambda>x. wp (f (Inr x)) (\<lambda>_ h. busy h = busy g) (\<lambda>e h. busy h = busy g \<and> no_wait e))
      (\<lambda>e. wp (f (Inl e)) (\<lambda>_ h. busy h = busy g) (\<lambda>e h. busy h = busy g \<and> no_wait e)) g"
  proof (rule wp_mono [OF waits_upD [OF assms(1) g]])
    fix x and h :: "'a group" assume h: "busy h = busy g"
    show "wp (f (Inr x)) (\<lambda>_ h. busy h = busy g) (\<lambda>e h. busy h = busy g \<and> no_wait e) h"
      using waits_upD [OF assms(2) [of "Inr x"], of h] g h by simp
  next
    fix e and h :: "'a group" assume h: "busy h = busy g \<and> no_wait e"
    then show "wp (f (Inl e)) (\<lambda>_ h. busy h = busy g) (\<lambda>e h. busy h = busy g \<and> no_wait e) h"
      using waits_upD [OF assms(2) [of "Inl e"], of h] g by simp
  qed
qed

lemma waits_if [waits_rules]:
  "(b \<Longrightarrow> waits_up k m) \<Longrightarrow> (\<not> b \<Longrightarrow> waits_up k n) \<Longrightarrow> waits_up k (if b then m else n)"
  by simp

lemma waits_case_option [waits_rules]:
  "waits_up k m \<Longrightarrow> (\<And>y. waits_up k (f y)) \<Longrightarrow> waits_up k (case x of None \<Rightarrow> m | Some y \<Rightarrow> f y)"
  by (cases x) simp_all

lemma waits_case_sum [waits_rules]:
  "(\<And>a. x = Inl a \<Longrightarrow> waits_up k (f a)) \<Longrightarrow> (\<And>b. x = Inr b \<Longrightarrow> waits_up k (g b)) \<Longrightarrow>
   waits_up k (case x of Inl a \<Rightarrow> f a | Inr b \<Rightarrow> g b)"
  by (cases x) simp_all

lemma waits_let [waits_rules]: "(\<And>x. waits_up k (f x)) \<Longrightarrow> waits_up k (let x = v in f x)"
  by simp

lemma waits_case_prod [waits_rules]: "(\<And>a b. waits_up k (f a b)) \<Longrightarrow> waits_up k (case x of (a, b) \<Rightarrow> f a b)"
  by (cases x) simp

lemma waits_case_list [waits_rules]:
  "waits_up k m \<Longrightarrow> (\<And>y ys. waits_up k (f y ys)) \<Longrightarrow> waits_up k (case xs of [] \<Rightarrow> m | y # ys \<Rightarrow> f y ys)"
  by (cases xs) simp_all

lemma waits_for_each [waits_rules]: "(\<And>x. waits_up k (f x)) \<Longrightarrow> waits_up k (for_each f xs)"
  by (induction xs) (auto intro: waits_ret waits_bind)

lemma waits_on_store [waits_rules]: "waits_up k (on_store m)"
  by (auto simp: waits_up_def wp_def on_store_def split: prod.split sum.split)

lemma waits_on_setup [waits_rules]: "waits_up k (on_setup m)"
  by (auto simp: waits_up_def wp_def on_setup_def split: prod.split sum.split)

lemma waits_on_driver [waits_rules]: "waits_up k (on_driver f)"
  by (auto simp: waits_up_def wp_def on_driver_def split: prod.split sum.split)

lemma waits_set_actor [waits_rules]: "waits_up k (set_actor i f)"
  by (simp add: waits_up_def wp_rules)

lemma waits_clock [waits_rules]: "waits_up k clock"
  unfolding clock_def by (rule waits_on_store)

lemma waits_start_actor [waits_rules]: "waits_up k (start_actor i b)"
  unfolding start_actor_def by (intro waits_rules) simp

lemma waits_actorOf [waits_rules]: "waits_up k (actorOf i)"
  unfolding actorOf_def find_actor_def by (intro waits_rules) simp_all

text \<open>An actor's name goes on \<open>busy\<close> for the change.\<close>

lemma waits_on_actor:
  assumes "waits_up (Suc (length i)) fn" "\<forall>b\<in>set (busy g). length b \<le> length i"
  shows "wp (on_actor i fn) (\<lambda>_ h. busy h = busy g) (\<lambda>e h. busy h = busy g \<and> no_wait e) g"
proof -
  have "wp fn (\<lambda>_ h. busy h = i # busy g) (\<lambda>e h. busy h = i # busy g \<and> no_wait e) (g\<lparr>busy := i # busy g\<rparr>)"
    using waits_upD [OF assms(1), of "g\<lparr>busy := i # busy g\<rparr>"] assms(2) by (auto simp: less_Suc_eq_le)
  then show ?thesis by (simp add: on_actor_def wp_rules) (erule wp_mono; simp)
qed

lemma waits_do_change [waits_rules]:
  assumes "k \<le> length i" "CheckEnvID (EnvOfBox i) \<Longrightarrow> waits_up (Suc (length i)) fn"
  shows "waits_up k (do_change i fn)"
proof (cases "CheckEnvID (EnvOfBox i)")
  case False
  then show ?thesis by (simp add: do_change_def actorOf_def waits_up_def wp_rules)
next
  case True
  show ?thesis unfolding waits_up_def
  proof (intro allI impI)
    fix g :: "'a group" assume g: "\<forall>b\<in>set (busy g). length b < k"
    have "wp (actorOf i) (\<lambda>x. wp (bind_s (gets busy) (\<lambda>b. if i \<in> set b then raise Deadlock else on_actor i fn))
        (\<lambda>_ h. busy h = busy g) (\<lambda>e h. busy h = busy g \<and> no_wait e)) (\<lambda>e h. busy h = busy g \<and> no_wait e) g"
    proof (rule wp_mono [OF waits_upD [OF waits_actorOf g]])
      fix x and h :: "'a group" assume h: "busy h = busy g"
      have "i \<notin> set (busy h)" using g h assms(1) by auto
      moreover have "\<forall>b\<in>set (busy h). length b \<le> length i" using g h assms(1) by fastforce
      ultimately show "wp (bind_s (gets busy) (\<lambda>b. if i \<in> set b then raise Deadlock else on_actor i fn))
          (\<lambda>_ h. busy h = busy g) (\<lambda>e h. busy h = busy g \<and> no_wait e) h"
        using waits_on_actor [OF assms(2) [OF True], of h] h by (simp add: wp_rules)
    qed
    then show "wp (do_change i fn) (\<lambda>_ h. busy h = busy g) (\<lambda>e h. busy h = busy g \<and> no_wait e) g"
      by (simp add: do_change_def wp_bind)
  qed
qed

section \<open>Every change\<close>

lemma waits_endLease [waits_rules]: "waits_up k (endLease i r)"
  unfolding endLease_def by (intro waits_rules) simp

lemma waits_recent [waits_rules]: "waits_up k (recent ts)"
  by (induction ts) (auto intro!: waits_rules)

lemma waits_wake [waits_rules]: "waits_up k (wake i stale)"
  unfolding wake_def count_crashes_def add_crash_def start_box_def mark_awake_def call_wake_def tell_woken_def watch_def
  by (intro waits_rules) (simp_all split: option.split)

lemma waits_stopBox [waits_rules]: "waits_up k (stopBox i)"
  unfolding stopBox_def cancel_all_def by (intro waits_rules) simp

lemma waits_set_lease [waits_rules]: "waits_up k (set_lease i)"
  unfolding set_lease_def by (intro waits_rules)

lemma waits_hasSnapshot [waits_rules]: "waits_up k (hasSnapshot i x)"
  unfolding hasSnapshot_def by (intro waits_rules)

lemma waits_queueBuild [waits_rules]: "waits_up k (queueBuild src)"
  unfolding queueBuild_def by (intro waits_rules) simp

lemma waits_golden [waits_rules]: "waits_up k (golden i w)"
  unfolding golden_def by (intro waits_rules)

lemma waits_delete_quietly [waits_rules]: "waits_up k (delete_quietly i)"
  unfolding delete_quietly_def by (intro waits_rules)

lemma length_ForkID: "length i < length (ForkID i f)"
  by (simp add: ForkID_def forkInfix_def)

lemma length_AgentBox: "length i < length (AgentBox i)"
  by (simp add: AgentBox_def agentSuffix_def)

lemma length_box: "CheckEnvID (EnvOfBox i) \<Longrightarrow> length i \<le> 69"
proof -
  assume "CheckEnvID (EnvOfBox i)"
  then have "length (EnvOfBox i) \<le> 63" by (simp add: CheckEnvID_def envIDPattern_length)
  then show ?thesis by (simp add: EnvOfBox_def trim_suffix_def cut_suffix_def agentSuffix_def split: if_splits)
qed

lemma waits_stopAgent [waits_rules]: "k \<le> Suc (length i) \<Longrightarrow> waits_up k (stopAgent i)"
  unfolding stopAgent_def using length_AgentBox [of i] by (intro waits_rules) simp

lemma waits_forks [waits_rules]: "waits_up k (forks i)"
  unfolding forks_def by (intro waits_rules)

lemma waits_group_Create [waits_rules]: "k \<le> length i \<Longrightarrow> waits_up k (group_Create i opts)"
  unfolding group_Create_def by (intro waits_rules)

lemma waits_group_Delete [waits_rules]:
  "k \<le> length i \<Longrightarrow> 0 < n \<Longrightarrow> deleteFuel \<le> n + length i \<Longrightarrow> waits_up k (group_Delete n i :: ('d, unit) gp)"
proof (induction n arbitrary: i k)
  case (Suc n)
  have "waits_up (Suc (length i)) (group_Delete n (ForkID i f) :: ('d, unit) gp)" if "CheckEnvID (EnvOfBox i)" for f
    by (rule Suc.IH) (use Suc.prems length_ForkID [of i f] length_box [OF that] in \<open>auto simp: deleteFuel_def\<close>)
  with Suc.prems(1) show ?case unfolding group_Delete.simps by (auto intro!: waits_rules)
qed simp

lemma waits_fork_loop [waits_rules]: "k \<le> Suc (length i) \<Longrightarrow> waits_up k (fork_loop i src fs m n)"
proof (induction i src fs m n rule: fork_loop.induct)
  case (1 i src fs m n)
  then show ?case
    by (subst fork_loop.simps) (use length_ForkID [of i n] in \<open>auto intro!: waits_rules simp: Suc_le_eq\<close>)
qed

lemma waits_group_prog: "waits_up 0 (group_prog op)"
proof (cases op)
  case (OpIdle i)
  show ?thesis unfolding OpIdle group_prog.simps idle_timer_def waits_up_def
  proof (intro allI impI)
    fix g :: "'a group" assume g: "\<forall>b\<in>set (busy g). length b < 0"
    have "waits_up k (sleepIfIdle i :: ('a, unit) gp)" for k
      unfolding sleepIfIdle_def by (intro waits_rules)
    from waits_on_actor [OF this, of g] g
    show "wp (bind_s (gets (\<lambda>g. (actors g i, cfg g)))
        (\<lambda>(a, c). case a of None \<Rightarrow> ret () | Some a \<Rightarrow> if finished a \<or> armIdle c a = None then ret () else on_actor i (sleepIfIdle i)))
        (\<lambda>_ h. busy h = busy g) (\<lambda>e h. busy h = busy g \<and> no_wait e) g"
      by (auto simp: wp_rules split: option.split)
  qed
next
  case (OpPrewake i)
  show ?thesis unfolding OpPrewake group_prog.simps Prewake_def by (intro waits_rules) simp_all
next
  case (OpPrebuild r seed)
  have projl: "no_wait (projl d)" if "\<And>e. d = Inl e \<Longrightarrow> no_wait e" "d \<noteq> Inr ()" for d :: "group_error + unit"
    using that by (cases d) auto
  show ?thesis unfolding OpPrebuild group_prog.simps Prebuild_def by (intro waits_rules) (auto intro: projl)
qed (auto simp: dropped_def group_Fork_def group_Snapshot_def group_DeleteSnapshot_def group_Restore_def group_Sleep_def
      group_Wake_def exec_def endExec_def touch_def prewakeBoxes_def prewake_def buildGoldens_start_def
      clearSources_def buildGoldens_def build_one_def buildGolden_def sweep_def actor_exit_def reap_def shutdown_def deleteFuel_def
      intro!: waits_rules split: option.split)

section \<open>Delete's recursion\<close>

text \<open>A box whose name is too long has no change, so what the change would do does not matter.\<close>

lemma do_change_invalid: "\<not> CheckEnvID (EnvOfBox i) \<Longrightarrow> do_change i fn = raise (StoreErr ErrInvalidID)"
  by (rule ext) (simp add: do_change_def actorOf_def bind_s_def raise_def)

lemma group_Delete_fuel:
  "0 < n \<Longrightarrow> 0 < m \<Longrightarrow> deleteFuel \<le> n + length i \<Longrightarrow> deleteFuel \<le> m + length i \<Longrightarrow>
   (group_Delete n i :: ('d, unit) gp) = group_Delete m i"
proof (induction n arbitrary: i m)
  case (Suc n)
  obtain l where m: "m = Suc l" using Suc.prems by (cases m) auto
  show ?case
  proof (cases "CheckEnvID (EnvOfBox i)")
    case True
    have "(group_Delete n (ForkID i f) :: ('d, unit) gp) = group_Delete l (ForkID i f)" for f
      by (rule Suc.IH) (use Suc.prems m length_ForkID [of i f] length_box [OF True] in \<open>auto simp: deleteFuel_def\<close>)
    then show ?thesis by (simp add: m)
  qed (simp add: m do_change_invalid)
qed simp

section \<open>Properties\<close>



text \<open>
  C18. \<open>Delete\<close> ends, however forks are nested: it satisfies the recursive equation of its source, in which each
  fork is deleted by \<open>Delete\<close> itself with no bound on the depth, because an ID has at most 63 characters.
\<close>

theorem Delete_terminates:
  fixes g :: "'d group"
  assumes "busy g = []"
  shows "(group_Delete deleteFuel i :: ('d, unit) gp) = do_change i
     (bind_s (on_store (Get i)) (\<lambda>_.
      bind_s (forks i) (\<lambda>fs.
      bind_s (for_each (\<lambda>f. bind_s (try_s (group_Delete deleteFuel (ForkID i f))) (\<lambda>r. case r of
                Inl e \<Rightarrow> if e = StoreErr ErrNotFound then ret () else raise e
              | Inr _ \<Rightarrow> ret ())) fs) (\<lambda>_.
      bind_s (stopBox i) (\<lambda>_.
      bind_s (stopAgent i) (\<lambda>_.
      on_store (Delete i)))))))
    \<and> fst (group_Delete deleteFuel i g) \<noteq> Inl OutOfFuel"
proof -
  have eq: "(group_Delete deleteFuel i :: ('d, unit) gp) = group_Delete (Suc deleteFuel) i"
    by (rule group_Delete_fuel) (simp_all add: deleteFuel_def)
  have "fst (group_Delete deleteFuel i g) \<noteq> Inl OutOfFuel"
    using waits_upD [OF waits_group_Delete [of 0 i deleteFuel], of g] assms
    by (auto simp: deleteFuel_def wp_def no_wait_def split: prod.splits sum.splits)
  then show ?thesis by (intro conjI trans [OF eq group_Delete.simps(2)])
qed

theorem Delete_terminates_witness:
  "group_Delete deleteFuel ''dev'' sample_group = do_change ''dev''
     (bind_s (on_store (Get ''dev'')) (\<lambda>_.
      bind_s (forks ''dev'') (\<lambda>fs.
      bind_s (for_each (\<lambda>f. bind_s (try_s (group_Delete deleteFuel (ForkID ''dev'' f))) (\<lambda>r. case r of
                Inl e \<Rightarrow> if e = StoreErr ErrNotFound then ret () else raise e
              | Inr _ \<Rightarrow> ret ())) fs) (\<lambda>_.
      bind_s (stopBox ''dev'') (\<lambda>_.
      bind_s (stopAgent ''dev'') (\<lambda>_.
      on_store (Delete ''dev''))))))) sample_group
    \<and> fst (group_Delete deleteFuel ''dev'' sample_group) \<noteq> Inl OutOfFuel"
proof -
  have "busy sample_group = []" by (simp add: sample_group_def)
  from Delete_terminates [OF this, of "''dev''"] show ?thesis by metis
qed

end
