(* ===== verification/GroupLaws.thy ===== *)
theory GroupLaws
  imports GroupWaits StoreCalm
begin

text \<open>
  What single changes of the group promise: the numbers of forks, when the idle timer stops a box, the limit on
  crashes, and that the disk of a box changes only while its boxes are down.
\<close>

section \<open>A change on a live actor\<close>

definition live :: "string \<Rightarrow> actor \<Rightarrow> 'd group \<Rightarrow> bool" where
  "live i a g \<longleftrightarrow> CheckEnvID (EnvOfBox i) \<and> \<not> stopped g \<and> i \<notin> set (busy g) \<and> actors g i = Some a \<and> \<not> finished a"

lemma wp_do_change_live:
  assumes "live i a g"
  shows "wp (do_change i fn) Q E g = wp fn (\<lambda>x h. Q x (h\<lparr>busy := tl (busy h)\<rparr>)) (\<lambda>e h. E e (h\<lparr>busy := tl (busy h)\<rparr>)) (g\<lparr>busy := i # busy g\<rparr>)"
  using assms by (simp add: live_def do_change_def actorOf_def find_actor_def on_actor_def wp_rules)

lemma wp_do_change:
  assumes "\<And>h. gst h = gst g \<Longrightarrow> gdrv h = gdrv g \<Longrightarrow> drv h = drv g \<Longrightarrow> cfg h = cfg g \<Longrightarrow>
      wp fn (\<lambda>x k. Q x (k\<lparr>busy := tl (busy k)\<rparr>)) (\<lambda>_ _. True) h"
  shows "wp (do_change i fn) Q (\<lambda>_ _. True) g"
proof -
  have "wp (actorOf i) (\<lambda>_ h. gst h = gst g \<and> gdrv h = gdrv g \<and> drv h = drv g \<and> cfg h = cfg g) (\<lambda>_ _. True) g"
    by (simp add: actorOf_def find_actor_def start_actor_def wp_rules split: option.split)
  then show ?thesis unfolding do_change_def wp_bind
  proof (rule wp_mono)
    fix x and h :: "'a group" assume h: "gst h = gst g \<and> gdrv h = gdrv g \<and> drv h = drv g \<and> cfg h = cfg g"
    show "wp (gets busy) (\<lambda>b. wp (if i \<in> set b then raise Deadlock else on_actor i fn) Q (\<lambda>_ _. True)) (\<lambda>_ _. True) h"
      using assms [of "h\<lparr>busy := i # busy h\<rparr>"] h by (simp add: wp_rules on_actor_def)
  qed simp
qed

section \<open>Forks\<close>

text \<open>The lowest \<open>k\<close> numbers from \<open>n\<close> to \<open>m\<close> that are not taken.\<close>

definition lowest_free :: "int list \<Rightarrow> nat \<Rightarrow> int \<Rightarrow> int \<Rightarrow> int list" where
  "lowest_free fs k n m = take k (filter (\<lambda>x. x \<notin> set fs) [n..m])"

lemma free_step:
  assumes "k \<le> length (filter (\<lambda>x. x \<notin> set fs) [n..m])" "0 < k"
  shows "n \<in> set fs \<Longrightarrow> k \<le> length (filter (\<lambda>x. x \<notin> set fs) [n + 1..m]) \<and> lowest_free fs k n m = lowest_free fs k (n + 1) m"
    and "n \<notin> set fs \<Longrightarrow> k - 1 \<le> length (filter (\<lambda>x. x \<notin> set fs) [n + 1..m]) \<and> lowest_free fs k n m = n # lowest_free fs (k - 1) (n + 1) m"
proof -
  have "n \<le> m" using assms by (cases "n \<le> m") auto
  then have "[n..m] = n # [n + 1..m]" by (rule upto_rec1)
  with assms show "n \<in> set fs \<Longrightarrow> k \<le> length (filter (\<lambda>x. x \<notin> set fs) [n + 1..m]) \<and> lowest_free fs k n m = lowest_free fs k (n + 1) m"
    and "n \<notin> set fs \<Longrightarrow> k - 1 \<le> length (filter (\<lambda>x. x \<notin> set fs) [n + 1..m]) \<and> lowest_free fs k n m = n # lowest_free fs (k - 1) (n + 1) m"
    by (cases k; simp add: lowest_free_def)+
qed

lemma wp_fork_loop:
  fixes g :: "'d group"
  shows "k \<le> length (filter (\<lambda>x. x \<notin> set fs) [n..m]) \<Longrightarrow>
   wp (fork_loop i src fs k n) (\<lambda>ids _. ids = map (ForkID i) (lowest_free fs k n m)) (\<lambda>_ _. True) g"
proof (induction i src fs k n arbitrary: g rule: fork_loop.induct)
  case (1 i src fs k n g)
  show ?case
  proof (cases "k = 0")
    case True
    then show ?thesis by (subst fork_loop.simps) (simp add: wp_rules lowest_free_def)
  next
    case False
    note free = free_step [OF "1.prems"]
    show ?thesis
    proof (cases "n \<in> set fs")
      case True
      with "1.IH"(1) [OF False True] free(1) False show ?thesis by (subst fork_loop.simps) simp
    next
      case out: False
      have "wp (fork_loop i src fs (k - 1) (n + 1)) (\<lambda>ids _. ForkID i n # ids = map (ForkID i) (lowest_free fs k n m)) (\<lambda>_ _. True) h"
        for h :: "'d group"
        by (rule wp_mono [OF "1.IH"(2) [OF False out]]) (use free(2) False out in auto)
      note rest = this
      have "wp (group_Create (ForkID i n) (no_options\<lparr>Fork := Some src\<rparr>))
          (\<lambda>_. wp (fork_loop i src fs (k - 1) (n + 1)) (\<lambda>ids _. ForkID i n # ids = map (ForkID i) (lowest_free fs k n m)) (\<lambda>_ _. True))
          (\<lambda>_ _. True) g"
        by (rule wp_mono [OF wp_True]) (rule rest, simp)
      with False out show ?thesis by (subst fork_loop.simps) (simp add: wp_rules)
    qed
  qed
qed

lemma free_enough: "k \<le> length (filter (\<lambda>x. x \<notin> set fs) [1..int (k + length fs)])"
proof -
  have "length (filter (\<lambda>x. x \<notin> set fs) [1..int (k + length fs)]) = card ({1..int (k + length fs)} - set fs)"
    by (simp add: distinct_card [symmetric] set_diff_eq)
  moreover have "card {1..int (k + length fs)} - card (set fs) \<le> card ({1..int (k + length fs)} - set fs)"
    by (rule diff_card_le_card_Diff) simp
  ultimately show ?thesis using card_length [of fs] by simp
qed

text \<open>The numbers of the forks of \<open>i\<close> in the index.\<close>

definition fork_numbers :: "string \<Rightarrow> index \<Rightarrow> int list" where
  "fork_numbers i x = concat (map (\<lambda>e. case ForkOf (eID e) of Some (p, n) \<Rightarrow> if p = i then [n] else [] | None \<Rightarrow> []) (q_Envs x))"

lemma wp_forks: "wp (forks i) Q E g = (case faulty (gst g) of
     Some _ \<Rightarrow> E (StoreErr SQLError) (g\<lparr>gst := tick (gst g)\<rparr>)
   | None \<Rightarrow> Q (fork_numbers i (db (gst g))) (g\<lparr>gst := tick (gst g)\<rparr>))"
  by (simp add: forks_def wp_rules fork_numbers_def env_of_def comp_def cong: option.case_cong)

lemma group_Fork_wp:
  "wp (group_Fork i x count) (\<lambda>ids _. let fs = fork_numbers i (db (gst g)) in
      1 \<le> count \<and> CheckEnvID i \<and> int (length fs) + count \<le> int MaxForks
      \<and> ids = map (ForkID i) (lowest_free fs (nat count) 1 (count + int (length fs)))) (\<lambda>_ _. True) g"
proof (cases "count < 1 \<or> int MaxForks < count")
  case False
  let ?fs = "fork_numbers i (db (gst g))"
  have "wp (bind_s (on_store (Get i)) (\<lambda>_. bind_s (forks i) (\<lambda>fs. if int MaxForks < int (length fs) + count then raise ErrTooManyForks
           else fork_loop i \<lparr>refEnv = i, refSnapshot = x\<rparr> fs (nat count) 1)))
     (\<lambda>ids _. 1 \<le> count \<and> CheckEnvID i \<and> int (length ?fs) + count \<le> int MaxForks
       \<and> ids = map (ForkID i) (lowest_free ?fs (nat count) 1 (count + int (length ?fs)))) (\<lambda>_ _. True) h"
    if "gst h = gst g" for h :: "'a group"
  proof -
    have "wp (fork_loop i \<lparr>refEnv = i, refSnapshot = x\<rparr> ?fs (nat count) 1)
       (\<lambda>ids _. ids = map (ForkID i) (lowest_free ?fs (nat count) 1 (count + int (length ?fs)))) (\<lambda>_ _. True) k" for k :: "'a group"
      using free_enough [of "nat count" ?fs] False by (intro wp_fork_loop) simp
    with that False show ?thesis
      by (auto simp: wp_rules wp_forks split: option.split elim!: wp_mono)
  qed
  with False show ?thesis unfolding group_Fork_def Let_def by (auto intro!: wp_do_change)
qed (auto simp: group_Fork_def wp_rules)

lemma lowest_free_facts:
  "set (lowest_free fs k n m) \<subseteq> {n..m} - set fs" "distinct (lowest_free fs k n m)"
  by (auto simp: lowest_free_def dest!: in_set_takeD)

lemma ForkID_in_index:
  assumes "i \<noteq> []" "1 \<le> n" "n < 2 ^ 63" "e \<in> set (environments x)" "eID e = ForkID i n"
  shows "n \<in> set (fork_numbers i x)"
proof -
  have "ForkOf (eID e) = Some (i, n)" using ForkOf_ForkID assms by simp
  with assms(4) show ?thesis by (force simp: fork_numbers_def q_Envs_def)
qed

lemma ForkOf_small: "i \<noteq> [] \<Longrightarrow> n \<in> {1..8} \<Longrightarrow> ForkOf (ForkID i n) = Some (i, n)"
  by (rule ForkOf_ForkID) auto

lemma inj_ForkID:
  assumes "i \<noteq> []"
  shows "inj_on (ForkID i) {1..8}"
proof (rule inj_onI)
  fix n m :: int assume nm: "n \<in> {1..8}" "m \<in> {1..8}" "ForkID i n = ForkID i m"
  have "Some (i, n) = Some (i, m)"
    unfolding ForkOf_small [OF assms nm(1), symmetric] ForkOf_small [OF assms nm(2), symmetric] by (rule arg_cong [OF nm(3)])
  then show "n = m" by simp
qed

lemma Fork_ids:
  fixes g :: "'d group"
  assumes "group_Fork i x count g = (Inr ids, h)" and "fs = fork_numbers i (db (gst g))"
  shows "ids = map (ForkID i) (lowest_free fs (nat count) 1 (count + int (length fs)))
    \<and> int (length ids) = count \<and> int (length fs) + count \<le> int MaxForks
    \<and> distinct ids \<and> set ids \<inter> eID ` set (environments (db (gst g))) = {}"
proof -
  from wp_InrD [OF group_Fork_wp assms(1)]
  have c: "1 \<le> count" "CheckEnvID i" "int (length fs) + count \<le> 8"
    and ids: "ids = map (ForkID i) (lowest_free fs (nat count) 1 (count + int (length fs)))"
    by (simp_all add: Let_def assms(2) MaxForks_def)
  let ?ns = "lowest_free fs (nat count) 1 (count + int (length fs))"
  have i: "i \<noteq> []" using c(2) by (auto simp: CheckEnvID_def envIDPattern_def)
  have ns: "set ?ns \<subseteq> {1..8} - set fs" using lowest_free_facts(1) [of fs "nat count" 1 "count + int (length fs)"] c(3) by force
  have "length ?ns = nat count" using free_enough [of "nat count" fs] c(1) by (simp add: lowest_free_def)
  moreover have "distinct ids"
    using inj_on_subset [OF inj_ForkID [OF i]] ns by (simp add: ids distinct_map lowest_free_facts(2) Diff_subset [THEN subset_trans [OF ns]])
  moreover have "set ids \<inter> eID ` set (environments (db (gst g))) = {}"
    using ns ForkID_in_index [OF i] by (force simp: ids assms(2))
  ultimately show ?thesis using c by (simp add: ids MaxForks_def)
qed

text \<open>
  C19. \<open>Fork\<close> makes exactly \<open>count\<close> forks: their numbers are the lowest from 1 that no fork of the environment has
  (the reference is a search of the whole range), no environment had one of the IDs, no two are the
  same, and an environment never gets more than \<open>MaxForks\<close> forks. A count out of range is refused before anything
  is done.
\<close>

theorem Fork_lowest_numbers:
  "if count < 1 \<or> int MaxForks < count then group_Fork i x count g = (Inl ErrTooManyForks, g)
   else case group_Fork i x count g of
     (Inl e, _) \<Rightarrow> True
   | (Inr ids, _) \<Rightarrow>
       let fs = fork_numbers i (db (gst g)) in
       ids = map (ForkID i) (lowest_free fs (nat count) 1 (count + int (length fs)))
       \<and> int (length ids) = count \<and> int (length fs) + count \<le> int MaxForks
       \<and> distinct ids \<and> set ids \<inter> eID ` set (environments (db (gst g))) = {}"
proof (cases "count < 1 \<or> int MaxForks < count")
  case True
  then show ?thesis by (simp add: group_Fork_def raise_def)
next
  case False
  show ?thesis
  proof (cases "group_Fork i x count g")
    case (Pair r h)
    with False Fork_ids [of i x count g _ h, OF _ refl] show ?thesis by (cases r) (simp_all add: Let_def)
  qed
qed

section \<open>The idle timer\<close>

lemma idle_timer_eq:
  assumes "actors g i = Some a" "\<not> finished a" "armIdle (cfg g) a \<noteq> None"
  shows "wp (idle_timer i) Q E g = wp (sleepIfIdle i) (\<lambda>x h. Q x (h\<lparr>busy := tl (busy h)\<rparr>)) (\<lambda>e h. E e (h\<lparr>busy := tl (busy h)\<rparr>))
    (g\<lparr>busy := i # busy g\<rparr>)"
  using assms by (auto simp: idle_timer_def on_actor_def wp_rules)

lemma wp_stopBox_eq:
  assumes "actors g i = Some a" "drvSleep (drv g) i (gdrv g) = (r, d)"
  shows "wp (stopBox i) Q E g = (case r of
      Inl e \<Rightarrow> E (DriverErr e) (g\<lparr>actors := (actors g)(i \<mapsto> a\<lparr>addr := [], watching := False\<rparr>), gdrv := d\<rparr>)
    | Inr _ \<Rightarrow> Q () (g\<lparr>gdrv := d,
          prewakeResults := (if prewoken a then prewakeResults g @ [''wasted''] else prewakeResults g),
          cancelled := cancelled g @ map snd (execs a) @ map snd (jobs a),
          actors := (actors g)(i \<mapsto> a\<lparr>addr := [], watching := False, lease := None, prewoken := False,
            awake := False, execs := [], jobs := []\<rparr>)\<rparr>))"
  using assms
  by (cases r; cases "prewoken a") (simp_all add: stopBox_def endLease_def cancel_all_def wp_rules actor_of_def)

text \<open>
  C20. The idle timer stops a box exactly when it is due. While a command runs in the box, or before its deadline,
  nothing happens to it; once the deadline has passed with no command running, the driver is told to
  stop it, every background job in it is cancelled and it is asleep; if the stop fails the box
  stays counted as awake and its deadline moves, so the stop is tried again.
\<close>

theorem idle_timer_due:
  assumes "actors g i = Some a" "\<not> finished a" "armIdle (cfg g) a \<noteq> None"
    and "idle_timer i g = (r, h)" and "now = times (wld (gst g)) (calls (gst g))"
  shows "r = Inr () \<and> awake a \<and> execs a = []
    \<and> (if now < deadline (cfg g) a then actors h = actors g \<and> gdrv h = gdrv g
       else (case drvSleep (drv g) i (gdrv g) of
         (Inr _, d) \<Rightarrow> gdrv h = d \<and> \<not> awake (actor_of i h) \<and> jobs (actor_of i h) = []
            \<and> cancelled h = cancelled g @ map snd (jobs a)
       | (Inl _, d) \<Rightarrow> gdrv h = d \<and> awake (actor_of i h) \<and> cancelled h = cancelled g
            \<and> lastClosed (actor_of i h) = times (wld (gst g)) (Suc (calls (gst g)))
            \<and> armIdle (cfg g) (actor_of i h) \<noteq> None))" (is "_ \<and> _ \<and> _ \<and> ?P h")
proof -
  have a: "awake a" "execs a = []" "idleAgent (cfg g) \<noteq> 0" "idleHuman (cfg g) \<noteq> 0"
    using assms(3) by (auto simp: armIdle_def split: if_splits)
  obtain q d where d: "drvSleep (drv g) i (gdrv g) = (q, d)" by (cases "drvSleep (drv g) i (gdrv g)")
  let ?g = "g\<lparr>busy := i # busy g, gst := tick (gst g)\<rparr>"
  have act: "actors ?g i = Some a" "drvSleep (drv ?g) i (gdrv ?g) = (q, d)" using assms(1) d by simp_all
  have "wp (idle_timer i) (\<lambda>_. ?P) (\<lambda>_ _. False) g"
  proof (cases "now < deadline (cfg g) a")
    case True
    with a assms(1,5) show ?thesis
      by (simp add: idle_timer_eq [OF assms(1-3)] sleepIfIdle_def wp_rules actor_of_def)
  next
    case False
    with a assms(1,5) show ?thesis
      by (cases q) (simp_all add: idle_timer_eq [OF assms(1-3)] sleepIfIdle_def wp_bind wp_gets wp_clock wp_if wp_try wp_case_sum
          wp_ret wp_set_actor wp_stopBox_eq [OF act] actor_of_def d armIdle_def)
  qed
  with assms(4) a(1,2) show ?thesis by (cases r) (auto dest: wp_InrD wp_InlD)
qed

text \<open>A daemon whose box \<open>dev\<close> runs a job and has been idle for long; two deaths are recent.\<close>

definition idle_actor :: actor where
  "idle_actor = (new_actor 0 [86399 * 100 * second, 86399 * 100 * second])
     \<lparr>awake := True, addr := ''10.0.0.1:80'', lastOpened := 0, lastClosed := 0, jobs := [(1, 7)]\<rparr>"

definition idle_group :: "Fake group" where
  "idle_group = sample_group\<lparr>actors := [''dev'' \<mapsto> idle_actor]\<rparr>"

lemmas idle_defs = idle_group_def idle_actor_def sample_group_def sample_cfg_def sample_fake_def new_actor_def

theorem idle_timer_due_witness:
  "\<not> awake (actor_of ''dev'' (snd (idle_timer ''dev'' idle_group)))
    \<and> cancelled (snd (idle_timer ''dev'' idle_group)) = [7] \<and> gdrv (snd (idle_timer ''dev'' idle_group)) = sample_fake\<lparr>fkUp := []\<rparr>"
proof -
  have a: "actors idle_group ''dev'' = Some idle_actor" "\<not> finished idle_actor" "armIdle (cfg idle_group) idle_actor \<noteq> None"
    by (simp_all add: idle_defs armIdle_def second_def)
  have d: "drvSleep (drv idle_group) ''dev'' (gdrv idle_group) = (Inr (), sample_fake\<lparr>fkUp := []\<rparr>)"
    by (simp add: idle_defs fake_def fake_Sleep_def)
  have t: "\<not> times (wld (gst idle_group)) (calls (gst idle_group)) < deadline (cfg idle_group) idle_actor"
    by (simp add: idle_defs sample_store_def sample_world_def deadline_def later_def second_def)
  have j: "cancelled idle_group @ map snd (jobs idle_actor) = [7]" by (simp add: idle_defs)
  from idle_timer_due [OF a prod.collapse [symmetric] refl] show ?thesis by (simp add: d t j)
qed

section \<open>Crashes\<close>

text \<open>A crash that no reading of the clock puts out of the window.\<close>

definition fresh :: "world \<Rightarrow> int \<Rightarrow> bool" where
  "fresh w t \<longleftrightarrow> (\<forall>n. times w n - t < crashWindow)"

lemma recent_wp:
  "wp (recent ts) (\<lambda>rs h. length (filter (fresh (wld (gst g))) ts) \<le> length rs
      \<and> (\<exists>n. h = g\<lparr>gst := (tick ^^ n) (gst g)\<rparr>)) (\<lambda>_ _. False) g"
proof (induction ts arbitrary: g)
  case Nil
  show ?case by (simp add: wp_rules) (metis funpow_0 group.update_convs(1) group.surjective)
next
  case (Cons t ts)
  let ?now = "times (wld (gst g)) (calls (gst g))"
  have "wp (recent ts) (\<lambda>us h. length (filter (fresh (wld (gst g))) (t # ts)) \<le> length (if ?now - t \<ge> crashWindow then us else t # us)
      \<and> (\<exists>n. h = g\<lparr>gst := (tick ^^ n) (gst g)\<rparr>)) (\<lambda>_ _. False) (g\<lparr>gst := tick (gst g)\<rparr>)"
  proof (rule wp_mono [OF Cons.IH], safe)
    fix us :: "int list" and n assume us: "length (filter (fresh (wld (gst (g\<lparr>gst := tick (gst g)\<rparr>)))) ts) \<le> length us"
    have "\<not> fresh (wld (gst g)) t" if "?now - t \<ge> crashWindow"
      using that unfolding fresh_def by (metis not_le)
    then show "length (filter (fresh (wld (gst g))) (t # ts)) \<le> length (if ?now - t \<ge> crashWindow then us else t # us)"
      using us by auto
    show "\<exists>m. g\<lparr>gst := tick (gst g), gst := (tick ^^ n) (gst (g\<lparr>gst := tick (gst g)\<rparr>))\<rparr> = g\<lparr>gst := (tick ^^ m) (gst g)\<rparr>"
      by (rule exI [of _ "Suc n"]) (simp add: funpow_swap1)
  qed
  then show ?case by (simp add: wp_rules)
qed

lemma tick_funpow [simp]:
  "wld ((tick ^^ n) s) = wld s" "db ((tick ^^ n) s) = db s" "root ((tick ^^ n) s) = root s" "disk ((tick ^^ n) s) = disk s"
  by (induction n) simp_all

text \<open>The box has an actor that takes changes, and its environment can be read.\<close>

definition at_hand :: "string \<Rightarrow> actor \<Rightarrow> 'd group \<Rightarrow> bool" where
  "at_hand i a g \<longleftrightarrow> live i a g \<and> calm (gst g) \<and> q_Env (EnvOfBox i) (db (gst g)) \<noteq> None"

text \<open>How many crashes count for a command that found the box dead at \<open>stale\<close>.\<close>

definition crashes_counted :: "string \<Rightarrow> actor \<Rightarrow> 'd group \<Rightarrow> nat" where
  "crashes_counted stale a g = length (filter (fresh (wld (gst g))) (crashes a)) + (if stale = [] then 0 else 1)"

lemma count_crashes_wp:
  assumes "actors g i = Some a" "\<forall>n m. times (wld (gst g)) n - times (wld (gst g)) m < crashWindow"
  shows "wp (count_crashes i stale) (\<lambda>n h. crashes_counted stale a g \<le> n
      \<and> (\<exists>m cs. h = g\<lparr>gst := (tick ^^ m) (gst g), actors := (actors g)(i \<mapsto> a\<lparr>crashes := cs\<rparr>)\<rparr>)) (\<lambda>_ _. False) g"
proof (cases "stale = []")
  case True
  have "wp (recent (crashes a)) (\<lambda>rs h. crashes_counted stale a g \<le> length rs
      \<and> (\<exists>m cs. h\<lparr>actors := (actors h)(i := map_option (\<lambda>a. a\<lparr>crashes := rs\<rparr>) (actors h i))\<rparr>
            = g\<lparr>gst := (tick ^^ m) (gst g), actors := (actors g)(i \<mapsto> a\<lparr>crashes := cs\<rparr>)\<rparr>)) (\<lambda>_ _. False) g"
    by (rule wp_mono [OF recent_wp]) (use True assms(1) in \<open>force simp: crashes_counted_def\<close>)+
  with True assms(1) show ?thesis by (simp add: count_crashes_def wp_rules actor_of_def)
next
  case False
  let ?t = "times (wld (gst g)) (calls (gst g))"
  let ?a = "a\<lparr>crashes := crashes a @ [?t]\<rparr>"
  let ?g = "g\<lparr>gst := tick (gst g), actors := (actors g)(i \<mapsto> ?a)\<rparr>"
  have f: "fresh (wld (gst g)) ?t" using assms(2) by (simp add: fresh_def)
  have "wp (recent (crashes ?a)) (\<lambda>rs h. crashes_counted stale a g \<le> length rs
      \<and> (\<exists>m cs. h\<lparr>actors := (actors h)(i := map_option (\<lambda>a. a\<lparr>crashes := rs\<rparr>) (actors h i))\<rparr>
            = g\<lparr>gst := (tick ^^ m) (gst g), actors := (actors g)(i \<mapsto> a\<lparr>crashes := cs\<rparr>)\<rparr>)) (\<lambda>_ _. False) ?g"
  proof (rule wp_mono [OF recent_wp], safe)
    fix rs :: "int list" and n assume "length (filter (fresh (wld (gst ?g))) (crashes ?a)) \<le> length rs"
    then show "crashes_counted stale a g \<le> length rs" using False f by (simp add: crashes_counted_def)
    let ?h = "?g\<lparr>gst := (tick ^^ n) (gst ?g)\<rparr>"
    show "\<exists>m cs. ?h\<lparr>actors := (actors ?h)(i := map_option (\<lambda>a. a\<lparr>crashes := rs\<rparr>) (actors ?h i))\<rparr>
            = g\<lparr>gst := (tick ^^ m) (gst g), actors := (actors g)(i \<mapsto> a\<lparr>crashes := cs\<rparr>)\<rparr>"
      by (rule exI [of _ "Suc n"], rule exI [of _ rs]) (simp add: funpow_swap1)
  qed
  with False assms(1) show ?thesis by (simp add: count_crashes_def add_crash_def wp_rules actor_of_def)
qed

lemma wake_crashing:
  assumes "CheckEnvID (EnvOfBox i)" "faulty (gst g) = None" "actors g i = Some a" "q_Env (EnvOfBox i) (db (gst g)) = Some e"
    and "addr a = [] \<or> addr a = stale" "crashLimit \<le> crashes_counted stale a g"
    and "\<forall>n m. times (wld (gst g)) n - times (wld (gst g)) m < crashWindow"
  shows "wp (wake i stale) (\<lambda>_ _. False)
    (\<lambda>e h. e = ErrCrashing \<and> (\<exists>m cs. h = g\<lparr>gst := (tick ^^ m) (gst g), actors := (actors g)(i \<mapsto> a\<lparr>crashes := cs\<rparr>)\<rparr>)) g"
proof -
  let ?g = "g\<lparr>gst := tick (gst g)\<rparr>"
  let ?E = "\<lambda>e h. e = ErrCrashing \<and> (\<exists>m cs. h = g\<lparr>gst := (tick ^^ m) (gst g), actors := (actors g)(i \<mapsto> a\<lparr>crashes := cs\<rparr>)\<rparr>)"
  have "wp (count_crashes i stale) (\<lambda>n h. wp (if crashLimit \<le> n then raise ErrCrashing else start_box i (env_of (root (gst g)) e))
       (\<lambda>_ _. False) ?E h) ?E ?g"
  proof (rule wp_mono [OF count_crashes_wp [of _ i a]], goal_cases)
    case (3 n h)
    then obtain m cs where h: "h = ?g\<lparr>gst := (tick ^^ m) (gst ?g), actors := (actors ?g)(i \<mapsto> a\<lparr>crashes := cs\<rparr>)\<rparr>" by blast
    have "h = g\<lparr>gst := (tick ^^ Suc m) (gst g), actors := (actors g)(i \<mapsto> a\<lparr>crashes := cs\<rparr>)\<rparr>"
      by (simp add: h funpow_swap1)
    moreover have "crashLimit \<le> n" using 3 assms(6) by (simp add: crashes_counted_def)
    ultimately show ?case by (simp only: wp_if wp_raise if_True) blast
  qed (use assms(3,7) in auto)
  moreover have "\<not> (addr a \<noteq> [] \<and> addr a \<noteq> stale)" using assms(5) by auto
  ultimately show ?thesis
    by (auto simp: wake_def wp_bind wp_on_store wp_Get wp_gets wp_if [of "_ \<and> _"] actor_of_def assms(1-4))
qed

lemma exec_crashing:
  assumes "at_hand i a g" "addr a = [] \<or> addr a = stale" "crashLimit \<le> crashes_counted stale a g"
    and "\<forall>n m. times (wld (gst g)) n - times (wld (gst g)) m < crashWindow"
  shows "wp (exec kind i stale c gu) (\<lambda>_ _. False)
    (\<lambda>e h. e = ErrCrashing \<and> (\<exists>m cs. h = g\<lparr>gst := (tick ^^ m) (gst g), actors := (actors g)(i \<mapsto> a\<lparr>crashes := cs\<rparr>)\<rparr>)) g"
proof -
  have l: "live i a g" and c: "CheckEnvID (EnvOfBox i)" "faulty (gst g) = None" and a: "actors g i = Some a"
    using assms(1) by (auto simp: at_hand_def live_def calm_def faulty_def)
  obtain e where e: "q_Env (EnvOfBox i) (db (gst g)) = Some e" using assms(1) by (auto simp: at_hand_def)
  let ?g = "g\<lparr>busy := i # busy g\<rparr>"
  have "wp (wake i stale) (\<lambda>_ _. False)
    (\<lambda>e h. e = ErrCrashing \<and> (\<exists>m cs. h = ?g\<lparr>gst := (tick ^^ m) (gst ?g), actors := (actors ?g)(i \<mapsto> a\<lparr>crashes := cs\<rparr>)\<rparr>)) ?g"
    by (rule wake_crashing) (use c a e assms(2-4) in \<open>simp_all add: crashes_counted_def\<close>)
  then show ?thesis
    unfolding exec_def wp_bind [of "do_change _ _"] wp_do_change_live [OF l] wp_bind [of "wake _ _"]
    by (rule wp_mono) force+
qed

text \<open>
  C21. The crash limit: a command for a box that is not known to be up (or was found dead at the address it is known
  by), after \<open>crashLimit\<close> deaths or failed wakes within \<open>crashWindow\<close>, the one just found included, fails with
  \<open>ErrCrashing\<close>. The driver is not called, so nothing is paid for another wake, and no command is counted.
\<close>

theorem exec_crash_limit:
  assumes "at_hand i a g" "addr a = [] \<or> addr a = stale" "crashLimit \<le> crashes_counted stale a g"
    and "\<forall>n m. times (wld (gst g)) n - times (wld (gst g)) m < crashWindow"
  shows "fst (exec kind i stale c gu g) = Inl ErrCrashing
    \<and> gdrv (snd (exec kind i stale c gu g)) = gdrv g
    \<and> execs (actor_of i (snd (exec kind i stale c gu g))) = execs a
    \<and> jobs (actor_of i (snd (exec kind i stale c gu g))) = jobs a"
proof (cases "exec kind i stale c gu g")
  case (Pair r h)
  with exec_crashing [OF assms, of kind c gu] show ?thesis
    by (cases r) (auto simp: wp_def actor_of_def)
qed

lemma idle_at_hand: "at_hand ''dev'' idle_actor idle_group"
proof -
  have "CheckEnvID (EnvOfBox ''dev'')" by code_simp
  then show ?thesis
    by (simp add: at_hand_def live_def calm_def idle_group_def sample_group_def sample_store_def sample_world_def q_Env_def
        sample_row_def idle_actor_def new_actor_def EnvOfBox_def trim_suffix_def cut_suffix_def agentSuffix_def suffix_def)
qed

lemma idle_clock: "\<forall>n m. times (wld (gst idle_group)) n - times (wld (gst idle_group)) m < crashWindow"
  by (simp add: idle_group_def sample_group_def sample_store_def sample_world_def crashWindow_def second_def)

lemma idle_crashes: "crashLimit \<le> crashes_counted ''10.0.0.1:80'' idle_actor idle_group"
  by (simp add: crashes_counted_def idle_group_def idle_actor_def new_actor_def fresh_def crashLimit_def sample_group_def
      sample_store_def sample_world_def crashWindow_def second_def)

theorem exec_crash_limit_witness:
  "fst (exec KExec ''dev'' ''10.0.0.1:80'' 1 False idle_group) = Inl ErrCrashing
    \<and> gdrv (snd (exec KExec ''dev'' ''10.0.0.1:80'' 1 False idle_group)) = sample_fake"
proof -
  have "addr idle_actor = ''10.0.0.1:80''" "gdrv idle_group = sample_fake" by (simp_all add: idle_defs)
  with exec_crash_limit [OF idle_at_hand _ idle_crashes idle_clock, of KExec 1 False] show ?thesis by simp
qed

text \<open>
  C23. A person's \<open>Wake\<close> should give a box that keeps crashing another try. It does not when the box died under its commands:
  the command that reached the limit left the dead address in \<open>addr\<close>, and \<open>wake\<close> takes that for a box that is up.
  \<open>Wake\<close> succeeds and the driver is not called.
\<close>

theorem Wake_after_crashing:
  assumes "at_hand i a g" "addr a = stale" "stale \<noteq> []" "crashLimit \<le> crashes_counted stale a g"
    and "\<forall>n m. times (wld (gst g)) n - times (wld (gst g)) m < crashWindow"
  shows "fst (group_Wake i (snd (exec kind i stale c gu g))) = Inr ()
    \<and> gdrv (snd (group_Wake i (snd (exec kind i stale c gu g)))) = gdrv g"
proof -
  have "wp (group_Wake i) (\<lambda>_ k. gdrv k = gdrv g) (\<lambda>_ _. False) h"
    if h: "h = g\<lparr>gst := (tick ^^ m) (gst g), actors := (actors g)(i \<mapsto> a\<lparr>crashes := cs\<rparr>)\<rparr>" for h m cs
  proof -
    obtain e where e: "q_Env (EnvOfBox i) (db (gst g)) = Some e" using assms(1) by (auto simp: at_hand_def)
    have l: "live i (a\<lparr>crashes := cs\<rparr>) h" and c: "CheckEnvID (EnvOfBox i)" "\<And>k. faulty ((tick ^^ k) (gst g)) = None"
      using assms(1) by (auto simp: h at_hand_def live_def calm_def faulty_def)
    show ?thesis unfolding group_Wake_def wp_do_change_live [OF l] wake_def
      using assms(2,3) c e by (simp add: h wp_rules endLease_def actor_of_def)
  qed
  moreover have "\<exists>m cs. snd (exec kind i stale c gu g) = g\<lparr>gst := (tick ^^ m) (gst g), actors := (actors g)(i \<mapsto> a\<lparr>crashes := cs\<rparr>)\<rparr>"
    using exec_crashing [OF assms(1) disjI2 [OF assms(2)] assms(4,5), of kind c gu]
    by (cases "exec kind i stale c gu g") (simp add: wp_def split: sum.splits)
  ultimately have "wp (group_Wake i) (\<lambda>_ k. gdrv k = gdrv g) (\<lambda>_ _. False) (snd (exec kind i stale c gu g))" by blast
  then show ?thesis by (auto simp: wp_def split: prod.splits sum.splits)
qed

theorem Wake_after_crashing_witness:
  "fst (group_Wake ''dev'' (snd (exec KExec ''dev'' ''10.0.0.1:80'' 1 False idle_group))) = Inr ()
    \<and> gdrv (snd (group_Wake ''dev'' (snd (exec KExec ''dev'' ''10.0.0.1:80'' 1 False idle_group)))) = sample_fake"
proof -
  have "addr idle_actor = ''10.0.0.1:80''" "gdrv idle_group = sample_fake" by (simp_all add: idle_defs)
  with Wake_after_crashing [OF idle_at_hand _ _ idle_crashes idle_clock, of KExec 1 False] show ?thesis by simp
qed

text \<open>
  The next actor of a box should go on counting its crashes. It does not when a change asks for the actor after the last
  one has ended and before \<open>Run\<close> has heard of it: the new actor starts from the crashes \<open>Run\<close> knew, and what
  the last one counted is not in its list.
\<close>

lemma crashes_lost:
  assumes "actors g i = Some a" "\<not> finished a" "\<not> awake a" "execs a = []" "jobs a = []" "pastCrashes g i = None"
  shows "crashes (actor_of i (snd (find_actor i (snd (actor_exit i g))))) = []"
  using assms
  by (simp add: actor_exit_def find_actor_def start_actor_def bind_s_def gets_def modify_def ret_def actor_of_def new_actor_def)

end
