(* ===== verification/GroupStops.thy ===== *)
theory GroupStops
  imports GroupLaws
begin

text \<open>
  \<open>Restore\<close> and \<open>Sleep\<close> stop the boxes of an environment, and a restore touches the disk only once they are down and
  the commands counted in them are cancelled.
\<close>

section \<open>Stopping both boxes\<close>

definition commands :: "string \<Rightarrow> 'd group \<Rightarrow> nat set" where
  "commands i g = (case actors g i of None \<Rightarrow> {}
     | Some a \<Rightarrow> if finished a then {} else snd ` set (execs a) \<union> snd ` set (jobs a))"

lemma commands_simps [simp]:
  "commands i (g\<lparr>busy := b\<rparr>) = commands i g" "commands i (g\<lparr>gst := s\<rparr>) = commands i g"
  by (simp_all add: commands_def)

text \<open>What a stop of box \<open>i\<close> leaves alone: the disk, the other actors, and what was cancelled before.\<close>

definition stop_frame :: "string \<Rightarrow> 'd group \<Rightarrow> 'd group \<Rightarrow> bool" where
  "stop_frame i g h \<longleftrightarrow> gst h = gst g \<and> stopped h = stopped g \<and> set (cancelled g) \<subseteq> set (cancelled h)
     \<and> (\<forall>j. j \<noteq> i \<longrightarrow> actors h j = actors g j)"

lemma stopBox_frame:
  assumes "actors g i = Some a" "\<not> finished a"
  shows "wp (stopBox i) (\<lambda>_ h. stop_frame i g h \<and> commands i g \<subseteq> set (cancelled h)) (\<lambda>_. stop_frame i g) g"
proof -
  obtain r d where d: "drvSleep (drv g) i (gdrv g) = (r, d)" by (cases "drvSleep (drv g) i (gdrv g)")
  show ?thesis using assms
    by (cases r) (auto simp: wp_stopBox_eq [OF assms(1) d] stop_frame_def commands_def)
qed

text \<open>The state in which a change of box \<open>i\<close> starts, its actor found or started.\<close>

definition found :: "string \<Rightarrow> 'd group \<Rightarrow> 'd group \<Rightarrow> bool" where
  "found i g h \<longleftrightarrow> stop_frame i g h \<and> gdrv h = gdrv g \<and> cancelled h = cancelled g \<and> commands i h = commands i g"

lemma found_refl [simp]: "found i g g"
  by (simp add: found_def stop_frame_def)

lemma found_busy [simp]: "found i g (h\<lparr>busy := b\<rparr>) = found i g h"
  by (simp add: found_def stop_frame_def)

lemma found_commands: "found i g h \<Longrightarrow> commands j h = commands j g"
  by (cases "j = i") (auto simp: found_def stop_frame_def commands_def)

lemma find_actor_frame: "wp (find_actor i) (\<lambda>_. found i g) (\<lambda>_ _. False) g"
  by (auto simp: find_actor_def start_actor_def wp_rules found_def stop_frame_def commands_def new_actor_def split: option.split)

text \<open>Both boxes of \<open>i\<close> are down, and every command they had in \<open>g\<close> is cancelled.\<close>

definition both_stopped :: "('d \<Rightarrow> string \<Rightarrow> bool) \<Rightarrow> string \<Rightarrow> 'd group \<Rightarrow> 'd group \<Rightarrow> bool" where
  "both_stopped up i g h \<longleftrightarrow> \<not> up (gdrv h) i \<and> \<not> up (gdrv h) (AgentBox i)
     \<and> commands i g \<union> commands (AgentBox i) g \<subseteq> set (cancelled h)"

definition restore_kept :: "('d \<Rightarrow> string \<Rightarrow> bool) \<Rightarrow> string \<Rightarrow> string \<Rightarrow> 'd group \<Rightarrow> 'd group \<Rightarrow> bool" where
  "restore_kept up i x g h \<longleftrightarrow>
     (disk (gst h) = disk (gst g) \<and> db (gst h) = db (gst g) \<and> (q_HasSnapshot i x (db (gst g)) \<or> gdrv h = gdrv g))
     \<or> (q_HasSnapshot i x (db (gst g)) \<and> both_stopped up i g h)"

context box_driver
begin

lemma stopBox_down:
  assumes "group_ok dr up ok_state B g" "i \<in> set B"
  shows "wp (stopBox i) (\<lambda>_ h. group_ok dr up ok_state B h \<and> \<not> up (gdrv h) i \<and> stop_frame i g h \<and> commands i g \<subseteq> set (cancelled h)
      \<and> (\<forall>j. up (gdrv h) j \<longrightarrow> up (gdrv g) j)) (\<lambda>_. stop_frame i g) g"
proof -
  obtain a where a: "actors g i = Some a" "\<not> finished a" using group_okD(4) [OF assms] by blast
  obtain r d where d: "drvSleep dr i (gdrv g) = (r, d)" by (cases "drvSleep dr i (gdrv g)")
  have dr: "drv g = dr" "ok_state (gdrv g)" using assms(1) by (auto simp: group_ok_def)
  have "wp (stopBox i) (\<lambda>_ h. gdrv h = d) (\<lambda>_ h. gdrv h = d) g"
    using d by (cases r) (simp_all add: dr wp_stopBox_eq [OF a(1), of r d])
  from wp_conj [OF wp_conj [OF wp_stopBox [OF assms] stopBox_frame [OF a]] this]
  show ?thesis by (rule wp_mono) (use sleep_starts_none [OF dr(2) d] in auto)
qed

lemma wp_do_change_found:
  assumes g: "group_ok dr up ok_state B g"
    and err: "\<And>e h. found i g h \<Longrightarrow> E e h"
    and fn: "\<And>h. group_ok dr up ok_state (i # B) h \<Longrightarrow> found i g h \<Longrightarrow>
        wp fn (\<lambda>x k. Q x (k\<lparr>busy := tl (busy k)\<rparr>)) (\<lambda>e k. E e (k\<lparr>busy := tl (busy k)\<rparr>)) h"
  shows "wp (do_change i fn) Q E g"
proof -
  have "wp (if i \<in> set (busy h) then raise Deadlock else on_actor i fn) Q E h"
    if h: "group_ok dr up ok_state B h" "actors h i = Some a" "\<not> finished a" "found i g h" for h a
  proof -
    have "group_ok dr up ok_state (i # B) (h\<lparr>busy := i # busy h\<rparr>)" using h(1-3) by (auto simp: group_ok_def)
    then show ?thesis using fn [of "h\<lparr>busy := i # busy h\<rparr>"] h(4) err by (simp add: on_actor_def wp_rules)
  qed
  then have "wp (find_actor i) (\<lambda>_ h. wp (if i \<in> set (busy h) then raise Deadlock else on_actor i fn) Q E h) E g"
    by (intro wp_mono [OF wp_conj [OF find_actor_live [OF g] find_actor_frame]]) blast+
  then show ?thesis unfolding do_change_def actorOf_def wp_bind wp_if wp_raise wp_gets using err by simp
qed

lemma stopAgent_down:
  assumes g: "group_ok dr up ok_state B g" "\<not> stopped g"
  shows "wp (stopAgent i) (\<lambda>_ h. \<not> up (gdrv h) (AgentBox i) \<and> stop_frame (AgentBox i) g h \<and> commands (AgentBox i) g \<subseteq> set (cancelled h)
      \<and> (\<forall>j. up (gdrv h) j \<longrightarrow> up (gdrv g) j)) (\<lambda>_. stop_frame (AgentBox i) g) g" (is "wp _ ?Q ?E _")
  unfolding stopAgent_def
proof (rule wp_do_change_found [OF g(1)])
  let ?i = "AgentBox i"
  fix h assume h: "group_ok dr up ok_state (?i # B) h" "found ?i g h"
  obtain a where a: "actors h ?i = Some a" "\<not> finished a" using group_okD(4) [OF h(1), of ?i] by auto
  show "wp (bind_s (gets (\<lambda>g. awake (actor_of ?i g))) (\<lambda>up. if up then stopBox ?i else ret ()))
      (\<lambda>x k. ?Q x (k\<lparr>busy := tl (busy k)\<rparr>)) (\<lambda>x k. ?E x (k\<lparr>busy := tl (busy k)\<rparr>)) h"
  proof (cases "awake a")
    case True
    have "wp (stopBox ?i) (\<lambda>x k. ?Q x (k\<lparr>busy := tl (busy k)\<rparr>)) (\<lambda>x k. ?E x (k\<lparr>busy := tl (busy k)\<rparr>)) h"
      by (rule wp_mono [OF stopBox_down [OF h(1)]]) (use h(2) in \<open>auto simp: found_def stop_frame_def\<close>)
    with True a show ?thesis by (simp add: wp_bind wp_gets actor_of_def)
  next
    case False
    then have "\<not> up (gdrv h) ?i" using group_okD(5) [OF h(1), of ?i] a h(2) g(2) by (auto simp: found_def stop_frame_def)
    moreover have "commands ?i h = {}" using False group_okD(6) [OF h(1) a(1)] a by (simp add: commands_def actor_ok_def)
    ultimately show ?thesis using False a h(2) by (simp add: wp_rules actor_of_def found_def stop_frame_def)
  qed
qed (simp add: found_def)

lemma stop_both:
  assumes g: "group_ok dr up ok_state B g" "i \<in> set B" "\<not> stopped g"
  shows "wp (bind_s (stopBox i) (\<lambda>_. stopAgent i)) (\<lambda>_ h. both_stopped up i g h \<and> gst h = gst g) (\<lambda>_ h. gst h = gst g) g"
  unfolding wp_bind
proof (rule wp_mono [OF stopBox_down [OF g(1,2)]])
  fix x and h :: "'d group"
  assume h: "group_ok dr up ok_state B h \<and> \<not> up (gdrv h) i \<and> stop_frame i g h \<and> commands i g \<subseteq> set (cancelled h) \<and> (\<forall>j. up (gdrv h) j \<longrightarrow> up (gdrv g) j)"
  have "AgentBox i \<noteq> i" using length_AgentBox [of i] by force
  with h have "actors h (AgentBox i) = actors g (AgentBox i)" by (simp add: stop_frame_def)
  then have "\<not> stopped h" "commands (AgentBox i) h = commands (AgentBox i) g"
    using g(3) h by (auto simp: stop_frame_def commands_def)
  with h show "wp (stopAgent i) (\<lambda>_ h. both_stopped up i g h \<and> gst h = gst g) (\<lambda>_ h. gst h = gst g) h"
    by (intro wp_mono [OF stopAgent_down]) (auto simp: both_stopped_def stop_frame_def)
qed (auto simp: stop_frame_def)

lemma group_Restore_wp:
  assumes g: "group_ok dr up ok_state [] g" "\<not> stopped g"
  shows "wp (group_Restore i x) (\<lambda>_. restore_kept up i x g) (\<lambda>_. restore_kept up i x g) g"
  unfolding group_Restore_def
proof (rule wp_do_change_found [OF g(1)])
  fix h assume h: "group_ok dr up ok_state [i] h" "found i g h"
  let ?P = "\<lambda>_ k. restore_kept up i x g (k\<lparr>busy := tl (busy k)\<rparr>)"
  let ?h = "h\<lparr>gst := tick (gst h)\<rparr>"
  have same: "gst h = gst g" "gdrv h = gdrv g" "stopped h = stopped g" using h(2) by (auto simp: found_def stop_frame_def)
  have "wp (bind_s (bind_s (stopBox i) (\<lambda>_. stopAgent i)) (\<lambda>_. on_store (Restore i x))) ?P ?P ?h"
    if q: "q_HasSnapshot i x (db (gst g))"
    unfolding wp_bind [of "bind_s (stopBox i) (\<lambda>_. stopAgent i)"]
  proof (rule wp_mono [OF stop_both [of "[i]"]])
    fix y k assume k: "both_stopped up i ?h k \<and> gst k = gst ?h"
    then have "restore_kept up i x g (k\<lparr>busy := b, gst := s\<rparr>)" for b s
      using q found_commands [OF h(2)] by (simp add: restore_kept_def both_stopped_def)
    then have "restore_kept up i x g (k\<lparr>gst := s, busy := b\<rparr>)" for b s by (simp add: restore_kept_def both_stopped_def)
    then show "wp (on_store (Restore i x)) ?P ?P k" by (simp add: wp_on_store) (simp add: wp_def split: prod.split sum.split)
  qed (use h(1) same g(2) q in \<open>auto simp: restore_kept_def\<close>)
  moreover have "wp (bind_s (bind_s (stopBox i) (\<lambda>_. stopAgent i)) (\<lambda>_. on_store (Restore i x))) ?P ?P k
      = wp (bind_s (stopBox i) (\<lambda>_. bind_s (stopAgent i) (\<lambda>_. on_store (Restore i x)))) ?P ?P k" for k
    by (simp add: wp_bind)
  ultimately show "wp (bind_s (on_store (HasSnapshot \<lparr>refEnv = i, refSnapshot = x\<rparr>)) (\<lambda>has. if \<not> has then raise (StoreErr ErrNotFound)
      else bind_s (stopBox i) (\<lambda>_. bind_s (stopAgent i) (\<lambda>_. on_store (Restore i x))))) ?P ?P h"
    using same
    unfolding HasSnapshot_def wp_bind [of "on_store _"] wp_on_store wp_if wp_raise wp_sql_query
    by (auto simp: restore_kept_def split: option.split)
qed (auto simp: restore_kept_def found_def stop_frame_def)

end

section \<open>Properties\<close>



end
