(* ===== verification/Hibernate.thy ===== *)
theory Hibernate
  imports Ids
begin

text \<open>
  \<open>internal/hibernate\<close>: the stand-in for a Claude that its SDK keeps open. \<open>stream.go\<close> follows the conversation and says when
  Claude has nothing to do and how to start it again; \<open>hibernate.go\<close> stops it and starts it.

  A line's JSON is read by the parameter \<open>json\<close>, \<open>json.Unmarshal\<close> into \<open>message\<close>: None for a line that is not such an
  object. \<open>Run\<close>'s loop is given by one step per case of its \<open>select\<close>; the goroutine that passes Claude's lines on adds
  one more. A Claude process is what was given to it: its argv, the setup lines, the SDK's lines, its signals.
\<close>

section \<open>The conversation (stream.go)\<close>

definition replayed :: "string list" where
  "replayed = [''initialize'', ''mcp_set_servers'', ''set_model'', ''set_permission_mode'', ''set_max_thinking_tokens'',
     ''apply_flag_settings'', ''update_settings'', ''set_mcp_permission_mode_override'', ''set_cwd'', ''channel_enable'',
     ''set_chrome_browser_hints'']"

record message =
  msType :: string
  msSubtype :: string
  msSession :: string
  msRequestID :: string
  msRequest :: "string option"
  msResponse :: "string option"
  msTaskID :: string
  msTasks :: nat

type_synonym unmarshal = "string \<Rightarrow> message option"

record stream =
  session :: string
  smBusy :: bool
  toClaude :: "string set"
  toSDK :: "string set"
  tasks :: nat
  running :: "string set"
  setupLines :: "string \<rightharpoonup> string"
  swallow :: "string set"
  lastLine :: int

definition newStream :: stream where
  "newStream = \<lparr>session = [], smBusy = False, toClaude = {}, toSDK = {}, tasks = 0, running = {}, setupLines = Map.empty,
     swallow = {}, lastLine = 0\<rparr>"

definition stream_In :: "unmarshal \<Rightarrow> int \<Rightarrow> string \<Rightarrow> stream \<Rightarrow> stream" where
  "stream_In json now line s0 = (let s = s0\<lparr>lastLine := now\<rparr> in
     case json line of
       None \<Rightarrow> s
     | Some m \<Rightarrow>
         if msType m = ''user'' then s\<lparr>smBusy := True\<rparr>
         else if msType m = ''control_request'' then
           (let t = s\<lparr>toClaude := insert (msRequestID m) (toClaude s)\<rparr> in
            case msRequest m of
              Some sub \<Rightarrow> if sub \<in> set replayed then t\<lparr>setupLines := (setupLines t)(sub \<mapsto> line)\<rparr> else t
            | None \<Rightarrow> t)
         else if msType m = ''control_cancel_request'' then s\<lparr>toClaude := toClaude s - {msRequestID m}\<rparr>
         else if msType m = ''control_response'' then
           (case msResponse m of Some r \<Rightarrow> s\<lparr>toSDK := toSDK s - {r}\<rparr> | None \<Rightarrow> s)
         else s)"

definition system_line :: "message \<Rightarrow> stream \<Rightarrow> stream" where
  "system_line m s =
     (if msSubtype m = ''init'' then s\<lparr>session := msSession m\<rparr>
      else if msSubtype m = ''background_tasks_changed'' then s\<lparr>tasks := msTasks m\<rparr>
      else if msSubtype m = ''task_started'' then s\<lparr>running := insert (msTaskID m) (running s)\<rparr>
      else if msSubtype m = ''task_notification'' then s\<lparr>running := running s - {msTaskID m}\<rparr>
      else s)"

definition stream_Out :: "unmarshal \<Rightarrow> int \<Rightarrow> string \<Rightarrow> stream \<Rightarrow> bool \<times> stream" where
  "stream_Out json now line s0 = (let s = s0\<lparr>lastLine := now\<rparr> in
     case json line of
       None \<Rightarrow> (True, s)
     | Some m \<Rightarrow>
         if msType m = ''system'' then (True, system_line m s)
         else if msType m = ''result'' then (True, s\<lparr>smBusy := False\<rparr>)
         else if msType m = ''control_request'' then (True, s\<lparr>toSDK := insert (msRequestID m) (toSDK s)\<rparr>)
         else if msType m = ''control_response'' then
           (case msResponse m of
              None \<Rightarrow> (True, s)
            | Some r \<Rightarrow>
                (let t = s\<lparr>toClaude := toClaude s - {r}\<rparr> in
                 if r \<in> swallow t then (False, t\<lparr>swallow := swallow t - {r}\<rparr>) else (True, t)))
         else (True, s))"

definition idle_now :: "stream \<Rightarrow> bool" where
  "idle_now s \<longleftrightarrow> session s \<noteq> [] \<and> \<not> smBusy s \<and> toClaude s = {} \<and> toSDK s = {} \<and> tasks s = 0 \<and> running s = {}"

definition idleSince :: "stream \<Rightarrow> int \<times> bool" where
  "idleSince s = (lastLine s, idle_now s)"

text \<open>\<open>sessionFlags\<close>: whether the flag takes a value.\<close>

definition sessionFlags :: "string \<Rightarrow> bool option" where
  "sessionFlags = map_of [(''--session-id'', True), (''--resume'', True), (''-r'', True), (''--resume-session-at'', True),
     (''--resume-drops-turn'', True), (''--fork-session'', False), (''--continue'', False), (''-c'', False)]"

text \<open>\<open>strings.Cut(a, "=")\<close>: what comes before, and whether there is one.\<close>

definition flag_name :: "string \<Rightarrow> string" where
  "flag_name a = takeWhile (\<lambda>c. c \<noteq> CHR ''='') a"

definition has_value :: "string \<Rightarrow> bool" where
  "has_value a \<longleftrightarrow> CHR ''='' \<in> set a"

text \<open>The arguments after \<open>argv[0]\<close>.\<close>

fun resume_rest :: "string list \<Rightarrow> string list" where
  "resume_rest [] = []"
| "resume_rest (a # as) =
     (case sessionFlags (flag_name a) of
        None \<Rightarrow> a # resume_rest as
      | Some takesValue \<Rightarrow>
          if takesValue \<and> \<not> has_value a then (case as of [] \<Rightarrow> [] | _ # bs \<Rightarrow> resume_rest bs)
          else resume_rest as)"

definition resumeArgs :: "string list \<Rightarrow> string \<Rightarrow> string list" where
  "resumeArgs argv sess =
     (case argv of [] \<Rightarrow> [] | a # as \<Rightarrow> a # resume_rest as) @ [''--resume='' @ sess]"

text \<open>\<open>restart\<close>: the lines go in the order of \<open>replayed\<close>.\<close>

fun replay :: "unmarshal \<Rightarrow> string list \<Rightarrow> stream \<Rightarrow> string list \<times> stream" where
  "replay json [] s = ([], s)"
| "replay json (sub # subs) s =
     (case setupLines s sub of
        None \<Rightarrow> replay json subs s
      | Some line \<Rightarrow>
          let t = (case json line of
                     Some m \<Rightarrow> s\<lparr>swallow := insert (msRequestID m) (swallow s), toClaude := insert (msRequestID m) (toClaude s)\<rparr>
                   | None \<Rightarrow> s);
              (ls, u) = replay json subs t
          in (line # ls, u))"

definition stream_restart :: "unmarshal \<Rightarrow> string list \<Rightarrow> stream \<Rightarrow> (string list \<times> string list) \<times> stream" where
  "stream_restart json argv s =
     (let (ls, t) = replay json replayed (s\<lparr>tasks := 0, running := {}, toClaude := {}, toSDK := {}\<rparr>)
      in ((resumeArgs argv (session t), ls), t))"

text \<open>\<open>filepath.Base\<close>.\<close>

definition base_name :: "string \<Rightarrow> string" where
  "base_name p =
     (if p = [] then ''.''
      else let t = dropWhile (\<lambda>c. c = CHR ''/'') (rev p)
           in if t = [] then ''/'' else rev (takeWhile (\<lambda>c. c \<noteq> CHR ''/'') t))"

fun hasFlag :: "string list \<Rightarrow> string \<Rightarrow> string \<Rightarrow> bool" where
  "hasFlag [] name v = False"
| "hasFlag (a # as) name v \<longleftrightarrow>
     a = name @ ''='' @ v \<or> (a = name \<and> (case as of [] \<Rightarrow> False | b # _ \<Rightarrow> b = v)) \<or> hasFlag as name v"

definition isStreamingClaude :: "string list \<Rightarrow> bool" where
  "isStreamingClaude argv \<longleftrightarrow>
     (case argv of [] \<Rightarrow> False | a # _ \<Rightarrow> base_name a = ''claude'')
     \<and> hasFlag argv ''--input-format'' ''stream-json'' \<and> hasFlag argv ''--output-format'' ''stream-json''"

section \<open>Stopping and starting (hibernate.go)\<close>

record claude =
  clArgv :: "string list"
  clSetup :: "string list"
  clIn :: "string list"
  clClosed :: bool
  clSigs :: "int list"
  clCut :: bool

record hibernator =
  hArgv :: "string list"
  hIdle :: int
  hSt :: stream
  hC :: "claude option"
  hPast :: "claude list"
  hWaiting :: "string list"
  hEof :: bool
  hStopping :: "int option"
  hEnding :: bool
  hCode :: int
  hOut :: "string list"

definition stopTimeout :: int where "stopTimeout = 10 * 1000000000"
definition SIGTERM :: int where "SIGTERM = 15"

text \<open>\<open>Applies\<close>, and \<open>Run\<close>'s first line: any other command just runs.\<close>

definition Applies :: "bool \<Rightarrow> string list \<Rightarrow> bool" where
  "Applies tty argv \<longleftrightarrow> \<not> tty \<and> isStreamingClaude argv"

definition hibernates :: "int \<Rightarrow> bool \<Rightarrow> bool \<Rightarrow> string list \<Rightarrow> bool" where
  "hibernates idle hasStdin tty argv \<longleftrightarrow> \<not> (idle \<le> 0 \<or> \<not> hasStdin \<or> \<not> Applies tty argv)"

definition start_claude :: "string list \<Rightarrow> string list \<Rightarrow> claude" where
  "start_claude argv setup_lines = \<lparr>clArgv = argv, clSetup = setup_lines, clIn = [], clClosed = False, clSigs = [], clCut = False\<rparr>"

definition new_hibernator :: "string list \<Rightarrow> int \<Rightarrow> hibernator" where
  "new_hibernator argv idle = \<lparr>hArgv = argv, hIdle = idle, hSt = newStream, hC = Some (start_claude argv []), hPast = [],
     hWaiting = [], hEof = False, hStopping = None, hEnding = False, hCode = 0, hOut = []\<rparr>"

definition hib_restart :: "unmarshal \<Rightarrow> hibernator \<Rightarrow> hibernator" where
  "hib_restart json h =
     (let ((argv, ls), st) = stream_restart json (hArgv h) (hSt h)
      in h\<lparr>hSt := st, hC := Some (start_claude argv ls)\<rparr>)"

definition on_claude :: "(claude \<Rightarrow> claude) \<Rightarrow> hibernator \<Rightarrow> hibernator" where
  "on_claude f h = h\<lparr>hC := map_option f (hC h)\<rparr>"

definition send :: "unmarshal \<Rightarrow> int \<Rightarrow> string \<Rightarrow> hibernator \<Rightarrow> hibernator" where
  "send json now line h = on_claude (\<lambda>c. c\<lparr>clIn := clIn c @ [line]\<rparr>) (h\<lparr>hSt := stream_In json now line (hSt h)\<rparr>)"

definition close_stdin :: "hibernator \<Rightarrow> hibernator" where
  "close_stdin h = on_claude (\<lambda>c. c\<lparr>clClosed := True\<rparr>) (h\<lparr>hEnding := True\<rparr>)"

datatype hib_event =
    EvLine string
  | EvEOF
  | EvSignal int
  | EvExited int "nat option"
  | EvTick
  | EvOut string

text \<open>The left result is what \<open>Run\<close> returns.\<close>

definition step_line :: "unmarshal \<Rightarrow> int \<Rightarrow> string \<Rightarrow> hibernator \<Rightarrow> hibernator" where
  "step_line json now line h =
     (if hStopping h \<noteq> None then h\<lparr>hWaiting := hWaiting h @ [line]\<rparr>
      else send json now line (if hC h = None then hib_restart json h else h))"

definition step_eof :: "hibernator \<Rightarrow> (int \<times> nat option) + hibernator" where
  "step_eof h0 = (let h = h0\<lparr>hEof := True\<rparr> in
     if hC h = None then Inl (0, None)
     else if hStopping h = None then Inr (close_stdin h)
     else Inr h)"

definition step_signal :: "int \<Rightarrow> hibernator \<Rightarrow> (int \<times> nat option) + hibernator" where
  "step_signal sig h =
     (if hC h = None then Inl (hCode h, None)
      else Inr (on_claude (\<lambda>c. c\<lparr>clSigs := clSigs c @ [sig]\<rparr>) (h\<lparr>hEnding := True\<rparr>)))"

definition step_exited :: "unmarshal \<Rightarrow> int \<Rightarrow> int \<Rightarrow> nat option \<Rightarrow> hibernator \<Rightarrow> (int \<times> nat option) + hibernator" where
  "step_exited json now code err h =
     (if hStopping h = None \<or> hEnding h then Inl (code, err)
      else
        let h1 = h\<lparr>hPast := hPast h @ (case hC h of Some c \<Rightarrow> [c] | None \<Rightarrow> []), hC := None, hStopping := None,
                   hCode := (if err \<noteq> None then 128 + SIGTERM else code)\<rparr>;
            h2 = (if hWaiting h1 \<noteq> [] then (fold (send json now) (hWaiting h1) (hib_restart json h1))\<lparr>hWaiting := []\<rparr> else h1)
        in if hEof h2 then (if hC h2 = None then Inl (0, None) else Inr (close_stdin h2)) else Inr h2)"

definition step_tick :: "int \<Rightarrow> hibernator \<Rightarrow> hibernator" where
  "step_tick now h =
     (if hC h = None \<or> hEnding h then h
      else case hStopping h of
        Some t \<Rightarrow> if now - t \<ge> stopTimeout then on_claude (\<lambda>c. c\<lparr>clCut := True\<rparr>) h else h
      | None \<Rightarrow>
          (case idleSince (hSt h) of
             (since, ok) \<Rightarrow>
               if ok \<and> now - since \<ge> hIdle h
               then on_claude (\<lambda>c. c\<lparr>clSigs := clSigs c @ [SIGTERM]\<rparr>) (h\<lparr>hStopping := Some now\<rparr>) else h))"

definition step_out :: "unmarshal \<Rightarrow> int \<Rightarrow> string \<Rightarrow> hibernator \<Rightarrow> hibernator" where
  "step_out json now line h =
     (case stream_Out json now line (hSt h) of
        (keep, st) \<Rightarrow> h\<lparr>hSt := st, hOut := (if keep then hOut h @ [line] else hOut h)\<rparr>)"

fun hib_step :: "unmarshal \<Rightarrow> int \<Rightarrow> hib_event \<Rightarrow> hibernator \<Rightarrow> (int \<times> nat option) + hibernator" where
  "hib_step json now (EvLine l) h = Inr (step_line json now l h)"
| "hib_step json now EvEOF h = step_eof h"
| "hib_step json now (EvSignal sig) h = step_signal sig h"
| "hib_step json now (EvExited code err) h = step_exited json now code err h"
| "hib_step json now EvTick h = Inr (step_tick now h)"
| "hib_step json now (EvOut l) h = Inr (step_out json now l h)"

section \<open>Whole lines\<close>

text \<open>
  \<open>lineWriter\<close>. \<open>keep\<close> has a state, the stream; \<open>lwFail n\<close>: the \<open>n\<close>-th write to \<open>w\<close> fails.
\<close>

record 's line_writer =
  lwBuf :: string
  lwSt :: 's
  lwOut :: "string list"
  lwFail :: "nat \<Rightarrow> bool"

definition put_out :: "string \<Rightarrow> 's line_writer \<Rightarrow> 's line_writer option" where
  "put_out x l = (if lwFail l (length (lwOut l)) then None else Some (l\<lparr>lwOut := lwOut l @ [x]\<rparr>))"

text \<open>One line of the loop of \<open>Write\<close>, and the loop over what is left; None when a write fails.\<close>

definition pass_line :: "(string \<Rightarrow> 's \<Rightarrow> bool \<times> 's) \<Rightarrow> string \<Rightarrow> 's line_writer \<Rightarrow> 's line_writer option" where
  "pass_line keep line l =
     (let (ok, st) = keep line (lwSt l); l' = l\<lparr>lwSt := st\<rparr>
      in if ok then put_out (line @ ''\<newline>'') l' else Some l')"

function write_lines :: "(string \<Rightarrow> 's \<Rightarrow> bool \<times> 's) \<Rightarrow> string \<Rightarrow> 's line_writer \<Rightarrow> 's line_writer option" where
  "write_lines keep rest l =
     (if CHR ''\<newline>'' \<notin> set rest then Some (l\<lparr>lwBuf := rest\<rparr>)
      else case pass_line keep (takeWhile (\<lambda>c. c \<noteq> CHR ''\<newline>'') rest) l of
        None \<Rightarrow> None
      | Some l' \<Rightarrow> write_lines keep (tl (dropWhile (\<lambda>c. c \<noteq> CHR ''\<newline>'') rest)) l')"
  by pat_completeness auto
termination
proof (relation "measure (\<lambda>(keep, rest, l). length rest)", goal_cases)
  case (2 keep rest l l')
  then have "dropWhile (\<lambda>c. c \<noteq> CHR ''\<newline>'') rest \<noteq> []" by auto
  then have "length (tl (dropWhile (\<lambda>c. c \<noteq> CHR ''\<newline>'') rest)) < length (dropWhile (\<lambda>c. c \<noteq> CHR ''\<newline>'') rest)" by simp
  also have "\<dots> \<le> length rest" by (rule length_dropWhile_le)
  finally show ?case by simp
qed simp

declare write_lines.simps [simp del]

definition lw_Write :: "(string \<Rightarrow> 's \<Rightarrow> bool \<times> 's) \<Rightarrow> string \<Rightarrow> 's line_writer \<Rightarrow> 's line_writer option" where
  "lw_Write keep p l = write_lines keep (lwBuf l @ p) l"

definition lw_flush :: "(string \<Rightarrow> 's \<Rightarrow> bool \<times> 's) \<Rightarrow> 's line_writer \<Rightarrow> 's line_writer option" where
  "lw_flush keep l =
     (if lwBuf l = [] then Some l
      else let (ok, st) = keep (lwBuf l) (lwSt l); l' = l\<lparr>lwSt := st\<rparr>
           in if \<not> ok then Some l' else map_option (\<lambda>l. l\<lparr>lwBuf := []\<rparr>) (put_out (lwBuf l) l'))"

end
