(* ===== verification/HibernateLaws.thy ===== *)
theory HibernateLaws
  imports Hibernate
begin

text \<open>
  What the SDK can rely on while its Claude is stopped and started behind its back: every line reaches a Claude, once and in
  order, the next Claude is set up as the last one was, only answers to that set-up are kept from the SDK, and Claude
  is stopped only with nothing to do.
\<close>

section \<open>Runs\<close>

fun hib_run :: "unmarshal \<Rightarrow> (int \<times> hib_event) list \<Rightarrow> hibernator \<Rightarrow> (int \<times> nat option) + hibernator" where
  "hib_run json [] h = Inr h"
| "hib_run json ((now, ev) # evs) h = (case hib_step json now ev h of Inl r \<Rightarrow> Inl r | Inr h' \<Rightarrow> hib_run json evs h')"

fun sdk_lines :: "(int \<times> hib_event) list \<Rightarrow> string list" where
  "sdk_lines [] = []"
| "sdk_lines ((now, ev) # evs) = (case ev of EvLine l \<Rightarrow> [l] | _ \<Rightarrow> []) @ sdk_lines evs"

text \<open>The lines the Claudes got, one process after another.\<close>

definition sent :: "hibernator \<Rightarrow> string list" where
  "sent h = concat (map clIn (hPast h)) @ (case hC h of Some c \<Rightarrow> clIn c | None \<Rightarrow> [])"

text \<open>The newest of the SDK's lines that set up \<open>sub\<close>.\<close>

definition sets_up :: "unmarshal \<Rightarrow> string \<Rightarrow> string \<Rightarrow> bool" where
  "sets_up json sub line \<longleftrightarrow> sub \<in> set replayed
     \<and> (case json line of Some m \<Rightarrow> msType m = ''control_request'' \<and> msRequest m = Some sub | None \<Rightarrow> False)"

definition newest :: "unmarshal \<Rightarrow> string list \<Rightarrow> string \<Rightarrow> string option" where
  "newest json ls sub = (case filter (sets_up json sub) ls of [] \<Rightarrow> None | xs \<Rightarrow> Some (last xs))"

lemma newest_append: "newest json (ls @ [l]) sub = (if sets_up json sub l then Some l else newest json ls sub)"
  by (cases "filter (sets_up json sub) ls") (simp_all add: newest_def)

lemma newest_SomeD: "newest json ls sub = Some l \<Longrightarrow> l \<in> set ls \<and> sets_up json sub l"
proof -
  assume n: "newest json ls sub = Some l"
  then have "filter (sets_up json sub) ls \<noteq> []" "l = last (filter (sets_up json sub) ls)"
    by (auto simp: newest_def split: list.splits)
  then have "l \<in> set (filter (sets_up json sub) ls)" using last_in_set by metis
  then show ?thesis by simp
qed

text \<open>The IDs of the SDK's requests among \<open>ls\<close> that set a session up.\<close>

definition setup_ids :: "unmarshal \<Rightarrow> string list \<Rightarrow> string set" where
  "setup_ids json ls = {msRequestID m | m l sub. l \<in> set ls \<and> json l = Some m \<and> sets_up json sub l}"

section \<open>What each part keeps\<close>

lemma In_setupLines: "setupLines (stream_In json now l s) = (\<lambda>sub. if sets_up json sub l then Some l else setupLines s sub)"
  by (rule ext) (auto simp: stream_In_def sets_up_def Let_def split: option.split)

lemma In_swallow [simp]: "swallow (stream_In json now l s) = swallow s"
  by (auto simp: stream_In_def Let_def split: option.split)

lemma Out_setupLines [simp]: "setupLines (snd (stream_Out json now l s)) = setupLines s"
  by (auto simp: stream_Out_def system_line_def Let_def split: option.split)

lemma Out_swallow: "swallow (snd (stream_Out json now l s)) \<subseteq> swallow s"
  by (auto simp: stream_Out_def system_line_def Let_def split: option.split)

definition replay_ids :: "unmarshal \<Rightarrow> (string \<rightharpoonup> string) \<Rightarrow> string list \<Rightarrow> string set" where
  "replay_ids json f subs = (\<Union>sub\<in>set subs. case f sub of
     None \<Rightarrow> {} | Some l \<Rightarrow> (case json l of None \<Rightarrow> {} | Some m \<Rightarrow> {msRequestID m}))"

lemma replay_result:
  "fst (replay json subs s) = List.map_filter (setupLines s) subs
   \<and> setupLines (snd (replay json subs s)) = setupLines s \<and> session (snd (replay json subs s)) = session s
   \<and> swallow (snd (replay json subs s)) = swallow s \<union> replay_ids json (setupLines s) subs
   \<and> toClaude (snd (replay json subs s)) = toClaude s \<union> replay_ids json (setupLines s) subs"
proof (induction json subs s rule: replay.induct)
  case (2 json sub subs s)
  show ?case
  proof (cases "setupLines s sub")
    case None
    with 2(1) show ?thesis by (simp add: map_filter_simps replay_ids_def)
  next
    case (Some l)
    with 2(2) [OF Some refl] show ?thesis
      by (cases "json l") (auto simp: Let_def map_filter_simps replay_ids_def split: prod.splits)
  qed
qed (simp add: map_filter_simps replay_ids_def)

lemma replay_ids_newest: "replay_ids json (newest json ls) subs \<subseteq> setup_ids json ls"
proof
  fix x assume "x \<in> replay_ids json (newest json ls) subs"
  then obtain sub l m where "newest json ls sub = Some l" "json l = Some m" "x = msRequestID m"
    by (auto simp: replay_ids_def split: option.splits)
  then show "x \<in> setup_ids json ls" using newest_SomeD by (fastforce simp: setup_ids_def)
qed

section \<open>The invariant\<close>

definition hib_core :: "unmarshal \<Rightarrow> string list \<Rightarrow> hibernator \<Rightarrow> bool" where
  "hib_core json argv h \<longleftrightarrow> hArgv h = argv \<and> setupLines (hSt h) = newest json (sent h) \<and> swallow (hSt h) \<subseteq> setup_ids json (sent h)"

definition hib_inv :: "unmarshal \<Rightarrow> string list \<Rightarrow> string list \<Rightarrow> hibernator \<Rightarrow> bool" where
  "hib_inv json argv ls h \<longleftrightarrow> hib_core json argv h \<and> ls = sent h @ hWaiting h
     \<and> (hStopping h \<noteq> None \<longrightarrow> hC h \<noteq> None) \<and> (hWaiting h \<noteq> [] \<longrightarrow> hStopping h \<noteq> None)"

lemma sent_simps [simp]:
  "sent (h\<lparr>hSt := st\<rparr>) = sent h" "sent (h\<lparr>hWaiting := w\<rparr>) = sent h" "sent (h\<lparr>hEof := e\<rparr>) = sent h" "sent (h\<lparr>hEnding := e\<rparr>) = sent h"
  "sent (h\<lparr>hStopping := p\<rparr>) = sent h" "sent (h\<lparr>hOut := q\<rparr>) = sent h" "sent (h\<lparr>hCode := c\<rparr>) = sent h"
  by (simp_all add: sent_def)

lemma hib_core_simps [simp]:
  "hib_core json argv (h\<lparr>hWaiting := w\<rparr>) = hib_core json argv h" "hib_core json argv (h\<lparr>hEof := e\<rparr>) = hib_core json argv h"
  "hib_core json argv (h\<lparr>hEnding := e\<rparr>) = hib_core json argv h" "hib_core json argv (h\<lparr>hStopping := p\<rparr>) = hib_core json argv h"
  "hib_core json argv (h\<lparr>hCode := c\<rparr>) = hib_core json argv h" "hib_core json argv (h\<lparr>hOut := q\<rparr>) = hib_core json argv h"
  by (simp_all add: hib_core_def)

lemma on_claude_core [simp]:
  assumes "\<And>c. clIn (f c) = clIn c"
  shows "sent (on_claude f h) = sent h" "hib_core json argv (on_claude f h) = hib_core json argv h"
proof -
  show "sent (on_claude f h) = sent h" using assms by (simp add: sent_def on_claude_def split: option.split)
  then show "hib_core json argv (on_claude f h) = hib_core json argv h" by (simp add: hib_core_def) (simp add: on_claude_def)
qed

lemma on_claude_simps [simp]:
  "hWaiting (on_claude f h) = hWaiting h" "hStopping (on_claude f h) = hStopping h" "hEof (on_claude f h) = hEof h"
  "hC (on_claude f h) = map_option f (hC h)"
  by (simp_all add: on_claude_def)

lemma setup_ids_append: "setup_ids json ls \<subseteq> setup_ids json (ls @ ks)"
  by (auto simp: setup_ids_def)

lemma hib_restart_result:
  "hib_restart json h = h\<lparr>hSt := hSt (hib_restart json h),
     hC := Some (start_claude (resumeArgs (hArgv h) (session (hSt h))) (List.map_filter (setupLines (hSt h)) replayed))\<rparr>
   \<and> setupLines (hSt (hib_restart json h)) = setupLines (hSt h)
   \<and> swallow (hSt (hib_restart json h)) = swallow (hSt h) \<union> replay_ids json (setupLines (hSt h)) replayed
   \<and> toClaude (hSt (hib_restart json h)) = replay_ids json (setupLines (hSt h)) replayed"
  using replay_result [of json replayed "(hSt h)\<lparr>tasks := 0, running := {}, toClaude := {}, toSDK := {}\<rparr>"]
  by (auto simp: hib_restart_def stream_restart_def Let_def split: prod.splits)

lemma restart_core:
  assumes "hib_core json argv h" "hC h = None"
  shows "hib_core json argv (hib_restart json h) \<and> sent (hib_restart json h) = sent h"
proof -
  obtain k where k: "k = hSt (hib_restart json h)" by blast
  note r = hib_restart_result [of json h, folded k]
  then have h: "hib_restart json h = h\<lparr>hSt := k,
     hC := Some (start_claude (resumeArgs (hArgv h) (session (hSt h))) (List.map_filter (setupLines (hSt h)) replayed))\<rparr>" by blast
  have "sent (hib_restart json h) = sent h" using assms(2) by (simp add: h sent_def start_claude_def)
  moreover have "swallow k \<subseteq> setup_ids json (sent h)"
    using r assms(1) replay_ids_newest [of json "sent h" replayed] by (auto simp: hib_core_def)
  moreover have "setupLines k = newest json (sent h)" using r assms(1) by (simp add: hib_core_def)
  ultimately show ?thesis using assms(1) by (simp add: hib_core_def) (simp add: h)
qed

lemma restart_simps [simp]:
  "hC (hib_restart json h) \<noteq> None" "hStopping (hib_restart json h) = hStopping h" "hWaiting (hib_restart json h) = hWaiting h"
  "hEof (hib_restart json h) = hEof h"
  by (auto simp: hib_restart_def split: prod.split)

lemma send_simps [simp]:
  "hStopping (send json now l h) = hStopping h" "hWaiting (send json now l h) = hWaiting h" "hEof (send json now l h) = hEof h"
  "hC (send json now l h) = None \<longleftrightarrow> hC h = None"
  by (auto simp: send_def)

lemma send_core:
  assumes "hib_core json argv h" "hC h \<noteq> None"
  shows "hib_core json argv (send json now l h) \<and> sent (send json now l h) = sent h @ [l]"
proof -
  obtain c where c: "hC h = Some c" using assms(2) by blast
  then have s: "sent (send json now l h) = sent h @ [l]" by (simp add: send_def sent_def on_claude_def)
  have "setupLines (hSt (send json now l h)) = newest json (sent h @ [l])"
    using assms(1) by (rule_tac ext) (simp add: send_def on_claude_def In_setupLines newest_append hib_core_def)
  moreover have "swallow (hSt (send json now l h)) \<subseteq> setup_ids json (sent h @ [l])"
    using assms(1) setup_ids_append [of json "sent h" "[l]"] by (simp add: send_def on_claude_def hib_core_def) blast
  moreover have "hArgv (send json now l h) = argv" using assms(1) by (simp add: send_def on_claude_def hib_core_def)
  ultimately show ?thesis by (simp add: hib_core_def s)
qed

lemma sends_core:
  "hib_core json argv h \<Longrightarrow> hC h \<noteq> None \<Longrightarrow>
   hib_core json argv (fold (send json now) ls h) \<and> sent (fold (send json now) ls h) = sent h @ ls
   \<and> hC (fold (send json now) ls h) \<noteq> None \<and> hStopping (fold (send json now) ls h) = hStopping h"
proof (induction ls arbitrary: h)
  case (Cons l ls)
  note c = send_core [OF Cons.prems, of now l]
  have "hC (send json now l h) \<noteq> None" using Cons.prems(2) by (simp only: send_simps(4) not_False_eq_True)
  from Cons.IH [OF conjunct1 [OF c] this] c show ?case by (simp del: not_None_eq)
qed simp

section \<open>Every step keeps it\<close>

lemma step_line_inv: "hib_inv json argv ls h \<Longrightarrow> hib_inv json argv (ls @ [l]) (step_line json now l h)"
proof -
  assume h: "hib_inv json argv ls h"
  show ?thesis
  proof (cases "hStopping h")
    case None
    let ?g = "if hC h = None then hib_restart json h else h"
    have "hib_core json argv ?g \<and> sent ?g = sent h" "hC ?g \<noteq> None" using restart_core [of json argv h] h by (auto simp: hib_inv_def)
    with send_core [of json argv ?g now l] h None show ?thesis by (simp add: step_line_def hib_inv_def split: if_splits)
  qed (use h in \<open>simp add: step_line_def hib_inv_def\<close>)
qed

lemma step_out_inv: "hib_inv json argv ls h \<Longrightarrow> hib_inv json argv ls (step_out json now l h)"
  using Out_setupLines [of json now l "hSt h"] Out_swallow [of json now l "hSt h"]
  by (cases "stream_Out json now l (hSt h)") (auto simp: step_out_def hib_inv_def hib_core_def)

lemma step_exited_inv:
  assumes h: "hib_inv json argv ls h" and r: "step_exited json now code err h = Inr k"
  shows "hib_inv json argv ls k"
proof -
  obtain c where c: "hC h = Some c" and st: "hStopping h \<noteq> None" "\<not> hEnding h"
    using h r by (auto simp: step_exited_def hib_inv_def split: if_splits)
  let ?h1 = "h\<lparr>hPast := hPast h @ [c], hC := None, hStopping := None, hCode := (if err \<noteq> None then 128 + SIGTERM else code)\<rparr>"
  let ?h2 = "if hWaiting ?h1 \<noteq> [] then (fold (send json now) (hWaiting ?h1) (hib_restart json ?h1))\<lparr>hWaiting := []\<rparr> else ?h1"
  have s1: "sent ?h1 = sent h" by (simp add: sent_def c)
  then have h1: "hib_core json argv ?h1" using h by (simp add: hib_inv_def hib_core_def)
  have h2: "hib_core json argv ?h2 \<and> sent ?h2 = sent h @ hWaiting h \<and> hStopping ?h2 = None \<and> hWaiting ?h2 = []"
    using restart_core [OF h1] s1 h1 sends_core [of json argv "hib_restart json ?h1" now "hWaiting h"] by simp
  have "k = ?h2 \<or> (hC ?h2 \<noteq> None \<and> k = close_stdin ?h2)"
    using r st by (auto simp: step_exited_def Let_def c split: if_splits)
  then show ?thesis using h2 h by (auto simp: hib_inv_def close_stdin_def)
qed

lemma hib_step_inv:
  assumes "hib_inv json argv ls h" "hib_step json now ev h = Inr k"
  shows "hib_inv json argv (ls @ (case ev of EvLine l \<Rightarrow> [l] | _ \<Rightarrow> [])) k"
proof (cases ev)
  case EvEOF
  with assms show ?thesis by (auto simp: step_eof_def Let_def hib_inv_def close_stdin_def split: if_splits)
next
  case (EvSignal s)
  with assms show ?thesis by (auto simp: step_signal_def hib_inv_def split: if_splits)
next
  case EvTick
  with assms show ?thesis by (auto simp: step_tick_def hib_inv_def split: if_splits option.splits prod.splits)
qed (use assms step_line_inv step_out_inv step_exited_inv in auto)

lemma hib_run_inv: "hib_inv json argv ls h \<Longrightarrow> hib_run json evs h = Inr k \<Longrightarrow> hib_inv json argv (ls @ sdk_lines evs) k"
proof (induction json evs h arbitrary: ls rule: hib_run.induct)
  case (2 json now ev evs h)
  then obtain g where "hib_step json now ev h = Inr g" "hib_run json evs g = Inr k" by (auto split: sum.splits)
  with 2 hib_step_inv [OF 2(2)] show ?case by fastforce
qed simp

lemma new_hibernator_inv: "hib_inv json argv [] (new_hibernator argv idle)"
  by (auto simp: hib_inv_def hib_core_def new_hibernator_def sent_def start_claude_def newStream_def newest_def)

section \<open>Properties\<close>

lemma steps_same [simp]:
  "hOut (on_claude f h) = hOut h" "hIdle (on_claude f h) = hIdle h" "hOut (send json now l h) = hOut h" "hIdle (send json now l h) = hIdle h"
  "hOut (hib_restart json h) = hOut h" "hIdle (hib_restart json h) = hIdle h" "hOut (close_stdin h) = hOut h" "hIdle (close_stdin h) = hIdle h"
  "hStopping (close_stdin h) = hStopping h"
  by (simp_all add: on_claude_def send_def hib_restart_def close_stdin_def split: prod.split)

lemma sends_same [simp]: "hOut (fold (send json now) ls h) = hOut h" "hIdle (fold (send json now) ls h) = hIdle h"
  "hStopping (fold (send json now) ls h) = hStopping h"
  by (induction ls arbitrary: h) simp_all

lemma step_exited_same:
  "step_exited json now code err h = Inr k \<Longrightarrow> hOut k = hOut h \<and> hIdle k = hIdle h \<and> hStopping k = None"
  by (auto simp: step_exited_def Let_def split: if_splits)

lemma hib_step_same:
  assumes "hib_step json now ev h = Inr k"
  shows "hIdle k = hIdle h" "(case ev of EvOut l \<Rightarrow> True | _ \<Rightarrow> hOut k = hOut h)"
    and "hStopping h \<noteq> None \<or> hStopping k = None \<or> (ev = EvTick \<and> idle_now (hSt h) \<and> hIdle h \<le> now - lastLine (hSt h))"
  using assms step_exited_same [of json now _ _ h k]
  by (cases ev; auto simp: step_line_def step_eof_def step_signal_def step_tick_def step_out_def idleSince_def Let_def
      split: if_splits option.splits prod.splits)+

lemma hib_run_idle: "hib_run json evs h = Inr k \<Longrightarrow> hIdle k = hIdle h"
  by (induction json evs h rule: hib_run.induct) (auto simp: hib_step_same(1) split: sum.splits)

lemma Out_hidden:
  "fst (stream_Out json now l s) \<or> (\<exists>m r. json l = Some m \<and> msType m = ''control_response'' \<and> msResponse m = Some r \<and> r \<in> swallow s)"
  by (auto simp: stream_Out_def Let_def split: option.split if_splits)




section \<open>A conversation\<close>

definition plain_message :: message where
  "plain_message = \<lparr>msType = [], msSubtype = [], msSession = [], msRequestID = [], msRequest = None, msResponse = None, msTaskID = [], msTasks = 0\<rparr>"

definition sample_json :: unmarshal where
  "sample_json l =
     (if l = ''init'' then Some (plain_message\<lparr>msType := ''control_request'', msRequestID := ''r1'', msRequest := Some ''initialize''\<rparr>)
      else if l = ''hello'' then Some (plain_message\<lparr>msType := ''user''\<rparr>) else None)"

lemmas sample_run = hib_step.simps step_line_def new_hibernator_def newStream_def send_def on_claude_def start_claude_def sent_def
  sample_json_def plain_message_def




section \<open>Whole lines\<close>

lemma write_lines_no_newline: "CHR ''\<newline>'' \<notin> set x \<Longrightarrow> write_lines keep x l = Some (l\<lparr>lwBuf := x\<rparr>)"
  by (subst write_lines.simps) simp

lemma pass_line_buf: "pass_line keep x (l\<lparr>lwBuf := b\<rparr>) = map_option (\<lambda>l. l\<lparr>lwBuf := b\<rparr>) (pass_line keep x l)"
  by (cases "keep x (lwSt l)") (simp add: pass_line_def put_out_def Let_def)

lemma write_lines_buf: "write_lines keep x (l\<lparr>lwBuf := b\<rparr>) = write_lines keep x l"
proof (induction keep x l arbitrary: b rule: write_lines.induct)
  case (1 keep x l)
  show ?case
  proof (cases "CHR ''\<newline>'' \<in> set x")
    case True
    with "1.IH" show ?thesis by (subst (1 2) write_lines.simps) (auto simp: pass_line_buf split: option.split)
  qed (simp add: write_lines_no_newline)
qed

lemma write_lines_append:
  "write_lines keep (x @ y) l = Option.bind (write_lines keep x l) (\<lambda>l'. write_lines keep (lwBuf l' @ y) l')"
proof (induction keep x l rule: write_lines.induct)
  case (1 keep x l)
  show ?case
  proof (cases "CHR ''\<newline>'' \<in> set x")
    case False
    then show ?thesis by (simp add: write_lines_no_newline write_lines_buf)
  next
    case True
    have t: "takeWhile (\<lambda>c. c \<noteq> CHR ''\<newline>'') (x @ y) = takeWhile (\<lambda>c. c \<noteq> CHR ''\<newline>'') x"
      using True by (simp add: takeWhile_append1 [of "CHR ''\<newline>''"])
    have d: "tl (dropWhile (\<lambda>c. c \<noteq> CHR ''\<newline>'') (x @ y)) = tl (dropWhile (\<lambda>c. c \<noteq> CHR ''\<newline>'') x) @ y"
      using True by (simp add: dropWhile_append1 [of "CHR ''\<newline>''"])
    show ?thesis
      using "1.IH" True by (subst (1 2) write_lines.simps) (auto simp: t d split: option.split)
  qed
qed

fun lw_Writes :: "(string \<Rightarrow> 's \<Rightarrow> bool \<times> 's) \<Rightarrow> string list \<Rightarrow> 's line_writer \<Rightarrow> 's line_writer option" where
  "lw_Writes keep [] l = Some l"
| "lw_Writes keep (p # ps) l = Option.bind (lw_Write keep p l) (lw_Writes keep ps)"

lemma write_lines_clean: "write_lines keep x l = Some l' \<Longrightarrow> CHR ''\<newline>'' \<notin> set (lwBuf l')"
proof (induction keep x l rule: write_lines.induct)
  case (1 keep x l)
  then show ?case by (subst (asm) (2) write_lines.simps) (auto split: if_splits option.splits)
qed

lemma lw_Writes_concat:
  "CHR ''\<newline>'' \<notin> set (lwBuf l) \<Longrightarrow> lw_Writes keep ps l = write_lines keep (lwBuf l @ concat ps) l"
proof (induction ps arbitrary: l)
  case Nil
  then show ?case by (simp add: write_lines_no_newline)
next
  case (Cons p ps)
  have "lw_Writes keep (p # ps) l = Option.bind (write_lines keep (lwBuf l @ p) l) (\<lambda>l'. write_lines keep (lwBuf l' @ concat ps) l')"
    by (simp add: lw_Write_def) (rule bind_option_cong, auto intro!: Cons.IH dest: write_lines_clean)
  then show ?case using write_lines_append [of keep "lwBuf l @ p" "concat ps" l] by simp
qed

text \<open>The reference: the lines of a text one after another, and what is left.\<close>

fun pass_lines :: "(string \<Rightarrow> 's \<Rightarrow> bool \<times> 's) \<Rightarrow> string list \<Rightarrow> 's line_writer \<Rightarrow> 's line_writer option" where
  "pass_lines keep [] l = Some l"
| "pass_lines keep [r] l = Some (l\<lparr>lwBuf := r\<rparr>)"
| "pass_lines keep (x # y # xs) l = Option.bind (pass_line keep x l) (pass_lines keep (y # xs))"

lemma cut_at_newline: "c \<in> set x \<Longrightarrow> x = takeWhile (\<lambda>d. d \<noteq> c) x @ c # tl (dropWhile (\<lambda>d. d \<noteq> c) x)"
  by (induction x) auto

lemma write_lines_split: "write_lines keep x l = pass_lines keep (split_on CHR ''\<newline>'' x) l"
proof (induction keep x l rule: write_lines.induct)
  case (1 keep x l)
  show ?case
  proof (cases "CHR ''\<newline>'' \<in> set x")
    case False
    then show ?thesis by (simp add: write_lines_no_newline split_on_no_sep)
  next
    case True
    let ?a = "takeWhile (\<lambda>c. c \<noteq> CHR ''\<newline>'') x" and ?b = "tl (dropWhile (\<lambda>c. c \<noteq> CHR ''\<newline>'') x)"
    have "x = ?a @ CHR ''\<newline>'' # ?b" using True by (rule cut_at_newline)
    moreover have "CHR ''\<newline>'' \<notin> set ?a" by (auto dest: set_takeWhileD)
    ultimately have s: "split_on CHR ''\<newline>'' x = ?a # split_on CHR ''\<newline>'' ?b" using split_on_cons_sep by metis
    obtain y ys where y: "split_on CHR ''\<newline>'' ?b = y # ys" by (cases "split_on CHR ''\<newline>'' ?b") simp_all
    have "write_lines keep x l = Option.bind (pass_line keep ?a l) (write_lines keep ?b)"
      using True by (subst write_lines.simps) (simp split: option.split)
    also have "\<dots> = Option.bind (pass_line keep ?a l) (pass_lines keep (y # ys))"
      using "1.IH" True unfolding y [symmetric] by (intro bind_option_cong) auto
    finally show ?thesis unfolding s y pass_lines.simps .
  qed
qed

text \<open>
  The SDK gets whole lines whatever pieces Claude's output comes in: any sequence of \<open>Write\<close>s does what splitting the
  whole output at its newlines does, each line offered to \<open>keep\<close> once, in order, and the start of an unended line
  left in the buffer; a write that fails stops both at the same line.
\<close>

theorem lineWriter_lines:
  assumes "lwBuf l = []"
  shows "lw_Writes keep ps l = pass_lines keep (split_on CHR ''\<newline>'' (concat ps)) l"
  using lw_Writes_concat [of l keep ps] assms by (simp add: write_lines_split)

theorem lineWriter_lines_witness:
  "map_option lwOut (lw_Writes (\<lambda>line n. (line \<noteq> ''b'', n + 1)) [''a'', ''\<newline>b\<newline>c'', ''\<newline>'']
     \<lparr>lwBuf = [], lwSt = 0 :: nat, lwOut = [], lwFail = (\<lambda>_. False)\<rparr>) = Some [''a\<newline>'', ''c\<newline>'']"
  by (subst lineWriter_lines) (simp_all add: pass_line_def put_out_def)

end
