(* ===== verification/Crypt.thy ===== *)
theory Crypt
  imports GoStrings "HOL-Library.Word"
begin

text \<open>
  \<open>internal/backup/crypt.go\<close>: the encryption of a backup's stream, in chunks that are sealed one by one. AES-GCM is a
  parameter, \<open>aead\<close>; what the code relies on of it is \<open>gcm_like\<close>. An \<open>io.Reader\<close> is a record of the bytes it still has
  and the error, if any, it ends with instead of the end of the file.
\<close>

section \<open>Readers\<close>

type_synonym byte = "8 word"

datatype crypt_error = EOF | ErrKey | ReadErr nat | BadKey

record reader =
  rData :: "byte list"
  rErr :: "nat option"

text \<open>\<open>full\<close>, and \<open>io.ReadFull\<close> as its caller sees it: a short read is an error of its own.\<close>

definition full :: "nat \<Rightarrow> reader \<Rightarrow> (crypt_error + byte list) \<times> reader" where
  "full n r =
     (case rErr r of
        Some e \<Rightarrow> if length (rData r) < n then (Inl (ReadErr e), r\<lparr>rData := []\<rparr>)
                  else (Inr (take n (rData r)), r\<lparr>rData := drop n (rData r)\<rparr>)
      | None \<Rightarrow> (Inr (take n (rData r)), r\<lparr>rData := drop n (rData r)\<rparr>))"

definition ReadFull :: "nat \<Rightarrow> reader \<Rightarrow> byte list option \<times> reader" where
  "ReadFull n r =
     (if length (rData r) < n then (None, r\<lparr>rData := []\<rparr>)
      else (Some (take n (rData r)), r\<lparr>rData := drop n (rData r)\<rparr>))"

section \<open>Keys and nonces\<close>

definition chunkSize :: nat where "chunkSize = 65536"
definition KeySize :: nat where "KeySize = 32"

record aead =
  Seal :: "byte list \<Rightarrow> byte list \<Rightarrow> byte list"
  Open :: "byte list \<Rightarrow> byte list \<Rightarrow> byte list option"
  Overhead :: nat

definition hex_val :: "char \<Rightarrow> byte option" where
  "hex_val c =
     (if CHR ''0'' \<le> c \<and> c \<le> CHR ''9'' then Some (of_nat (of_char c - 48))
      else if CHR ''a'' \<le> c \<and> c \<le> CHR ''f'' then Some (of_nat (of_char c - 87))
      else if CHR ''A'' \<le> c \<and> c \<le> CHR ''F'' then Some (of_nat (of_char c - 55))
      else None)"

fun DecodeString :: "string \<Rightarrow> byte list option" where
  "DecodeString [] = Some []"
| "DecodeString [c] = None"
| "DecodeString (c # d # s) =
     (case (hex_val c, hex_val d, DecodeString s) of
        (Some x, Some y, Some ys) \<Rightarrow> Some ((x * 16 + y) # ys)
      | _ \<Rightarrow> None)"

definition ParseKey :: "string \<Rightarrow> byte list option" where
  "ParseKey s =
     (case DecodeString (trim_space s) of
        Some key \<Rightarrow> if length key = KeySize then Some key else None
      | None \<Rightarrow> None)"

text \<open>\<open>aes.NewCipher\<close> takes keys of 16, 24 and 32 bytes.\<close>

definition newAEAD :: "(byte list \<Rightarrow> aead) \<Rightarrow> byte list \<Rightarrow> crypt_error + aead" where
  "newAEAD gcm key = (if length key \<in> {16, 24, 32} then Inr (gcm key) else Inl BadKey)"

definition PutUint32 :: "32 word \<Rightarrow> byte list" where
  "PutUint32 n = map (\<lambda>s. ucast (drop_bit s n)) [24, 16, 8, 0]"

definition nonceFor :: "byte list \<Rightarrow> 32 word \<Rightarrow> bool \<Rightarrow> byte list" where
  "nonceFor pre n fin = take 7 pre @ PutUint32 n @ [if fin then 1 else 0]"

section \<open>Chunks\<close>

text \<open>\<open>chCur\<close> is \<open>cur[:n]\<close> once it has been read.\<close>

record chunks =
  chR :: reader
  chSize :: nat
  chCur :: "byte list"
  chRead :: bool
  chLast :: bool

definition newChunks :: "reader \<Rightarrow> nat \<Rightarrow> chunks" where
  "newChunks r sz = \<lparr>chR = r, chSize = sz, chCur = [], chRead = False, chLast = False\<rparr>"

text \<open>The look-ahead: the piece in \<open>cur\<close> goes out once the next has begun.\<close>

definition next_ahead :: "chunks \<Rightarrow> (crypt_error + byte list \<times> bool) \<times> chunks" where
  "next_ahead c =
     (case full (chSize c) (chR c) of
        (Inl e, r) \<Rightarrow> (Inl e, c\<lparr>chR := r\<rparr>)
      | (Inr m, r) \<Rightarrow>
          let fin = (length (chCur c) < chSize c \<or> m = []) in
          if fin then (Inr (chCur c, True), c\<lparr>chR := r, chLast := True\<rparr>)
          else (Inr (chCur c, False), c\<lparr>chR := r, chCur := m\<rparr>))"

definition chunks_next :: "chunks \<Rightarrow> (crypt_error + byte list \<times> bool) \<times> chunks" where
  "chunks_next c =
     (if chLast c then (Inl EOF, c)
      else if chRead c then next_ahead c
      else (case full (chSize c) (chR c) of
          (Inl e, r) \<Rightarrow> (Inl e, c\<lparr>chR := r\<rparr>)
        | (Inr x, r) \<Rightarrow> next_ahead (c\<lparr>chR := r, chCur := x, chRead := True\<rparr>)))"

section \<open>Encrypt\<close>

record sealer =
  seAead :: aead
  sePrefix :: "byte list"
  seChunks :: chunks
  seI :: "32 word"
  sePending :: "byte list"

text \<open>\<open>pre\<close> is what \<open>rand.Read\<close> gave.\<close>

definition Encrypt :: "(byte list \<Rightarrow> aead) \<Rightarrow> byte list \<Rightarrow> byte list \<Rightarrow> reader \<Rightarrow> crypt_error + sealer" where
  "Encrypt gcm pre key r =
     (case newAEAD gcm key of
        Inl e \<Rightarrow> Inl e
      | Inr a \<Rightarrow> Inr \<lparr>seAead = a, sePrefix = pre, seChunks = newChunks r chunkSize, seI = 0, sePending = pre\<rparr>)"

definition sealer_Read :: "nat \<Rightarrow> sealer \<Rightarrow> (crypt_error + byte list) \<times> sealer" where
  "sealer_Read k s =
     (if sePending s = [] then
        (case chunks_next (seChunks s) of
           (Inl e, c) \<Rightarrow> (Inl e, s\<lparr>seChunks := c\<rparr>)
         | (Inr (chunk, fin), c) \<Rightarrow>
             let out = Seal (seAead s) (nonceFor (sePrefix s) (seI s) fin) chunk in
             (Inr (take k out), s\<lparr>seChunks := c, seI := seI s + 1, sePending := drop k out\<rparr>))
      else (Inr (take k (sePending s)), s\<lparr>sePending := drop k (sePending s)\<rparr>))"

section \<open>Decrypt\<close>

text \<open>\<open>opChunks\<close> is None while \<open>prefix\<close> is nil.\<close>

record opener =
  opAead :: aead
  opR :: reader
  opPrefix :: "byte list"
  opChunks :: "chunks option"
  opI :: "32 word"
  opPending :: "byte list"

definition Decrypt :: "(byte list \<Rightarrow> aead) \<Rightarrow> byte list \<Rightarrow> reader \<Rightarrow> crypt_error + opener" where
  "Decrypt gcm key r =
     (case newAEAD gcm key of
        Inl e \<Rightarrow> Inl e
      | Inr a \<Rightarrow> Inr \<lparr>opAead = a, opR = r, opPrefix = [], opChunks = None, opI = 0, opPending = []\<rparr>)"

definition open_next :: "nat \<Rightarrow> opener \<Rightarrow> chunks \<Rightarrow> (crypt_error + byte list) \<times> opener" where
  "open_next k s c =
     (if opPending s = [] then
        (case chunks_next c of
           (Inl e, c') \<Rightarrow> (Inl e, s\<lparr>opChunks := Some c'\<rparr>)
         | (Inr (chunk, fin), c') \<Rightarrow>
             (case Open (opAead s) (nonceFor (opPrefix s) (opI s) fin) chunk of
                None \<Rightarrow> (Inl ErrKey, s\<lparr>opChunks := Some c'\<rparr>)
              | Some plain \<Rightarrow>
                  if plain = [] then (Inl EOF, s\<lparr>opChunks := Some c', opI := opI s + 1\<rparr>)
                  else (Inr (take k plain), s\<lparr>opChunks := Some c', opI := opI s + 1, opPending := drop k plain\<rparr>)))
      else (Inr (take k (opPending s)), s\<lparr>opPending := drop k (opPending s)\<rparr>))"

definition opener_Read :: "nat \<Rightarrow> opener \<Rightarrow> (crypt_error + byte list) \<times> opener" where
  "opener_Read k s =
     (case opChunks s of
        Some c \<Rightarrow> open_next k s c
      | None \<Rightarrow>
          (case ReadFull 7 (opR s) of
             (None, r) \<Rightarrow> (Inl ErrKey, s\<lparr>opR := r\<rparr>)
           | (Some p, r) \<Rightarrow>
               let c = newChunks r (chunkSize + Overhead (opAead s)) in
               open_next k (s\<lparr>opR := r, opPrefix := p, opChunks := Some c\<rparr>) c))"

section \<open>Reading to the end\<close>

text \<open>
  \<open>io.Copy\<close> and its like: reads with buffers of \<open>sizes n\<close> bytes until an error, which is \<open>EOF\<close> at the end. What does not
  end is \<open>None\<close>.
\<close>

partial_function (option) readAll ::
  "(nat \<Rightarrow> 's \<Rightarrow> (crypt_error + byte list) \<times> 's) \<Rightarrow> (nat \<Rightarrow> nat) \<Rightarrow> nat \<Rightarrow> 's \<Rightarrow> (byte list \<times> crypt_error) option" where
  "readAll rd sizes n s =
     (case rd (sizes n) s of
        (Inl e, _) \<Rightarrow> Some ([], e)
      | (Inr xs, t) \<Rightarrow> Option.bind (readAll rd sizes (Suc n) t) (\<lambda>(ys, e). Some (xs @ ys, e)))"

end
