(* ===== verification/Backup.thy ===== *)
theory Backup
  imports Crypt GroupChanges
begin

text \<open>
  \<open>internal/backup\<close>: the client of the object store (\<open>s3.go\<close>), making a backup (\<open>backup.go\<close>) and receiving the
  workspaces of one (\<open>state.go\<close>).

  The service is a parameter: its answers to the client's requests, over a state of its own; signing and the HTTP
  transport are part of it. So are the \<open>btrfs\<close> command (what \<open>send\<close> writes, the generations it prints), gzip, JSON and
  the state archive. The snapshots go through the \<open>Group\<close>. A stream that \<open>Encrypt\<close> makes is read to its end and then
  uploaded.
\<close>

section \<open>The object store (s3.go)\<close>

datatype s3_error = ErrNoObject | S3Failed nat

record 'b s3_service =
  svStart :: "string \<Rightarrow> 'b \<Rightarrow> (s3_error + string) \<times> 'b"
  svPart :: "string \<Rightarrow> string \<Rightarrow> nat \<Rightarrow> byte list \<Rightarrow> 'b \<Rightarrow> (s3_error + string) \<times> 'b"
  svFinish :: "string \<Rightarrow> string \<Rightarrow> (nat \<times> string) list \<Rightarrow> 'b \<Rightarrow> (s3_error + unit) \<times> 'b"
  svAbort :: "string \<Rightarrow> string \<Rightarrow> 'b \<Rightarrow> (s3_error + unit) \<times> 'b"
  svGet :: "string \<Rightarrow> 'b \<Rightarrow> (s3_error + byte list) \<times> 'b"
  svList :: "string \<Rightarrow> string \<Rightarrow> 'b \<Rightarrow> (s3_error + string list \<times> string option) \<times> 'b"
  svDelete :: "string \<Rightarrow> 'b \<Rightarrow> (s3_error + unit) \<times> 'b"

definition partSize :: nat where "partSize = 16777216"

datatype backup_error =
    S3Err s3_error
  | ReadFailed nat
  | GroupErr group_error
  | CommandFailed nat
  | BadManifest
  | CryptErr crypt_error
  | NotInPool
  | BadObject
  | NoBackup
  | PoolInUse
  | IndexPanic

text \<open>The programs here keep a list of errors, as \<open>errors.Join\<close> does; a call's error is a list of one.\<close>

type_synonym ('b, 'a) s3_prog = "('b, backup_error list, 'a) prog"

definition request :: "('b \<Rightarrow> (s3_error + 'a) \<times> 'b) \<Rightarrow> ('b, 'a) s3_prog" where
  "request f b = (case f b of (Inl e, c) \<Rightarrow> (Inl [S3Err e], c) | (Inr x, c) \<Rightarrow> (Inr x, c))"

text \<open>\<open>abort\<close> does not look at its answer.\<close>

definition s3_abort :: "'b s3_service \<Rightarrow> string \<Rightarrow> string \<Rightarrow> ('b, unit) s3_prog" where
  "s3_abort sv key up = bind_s (try_s (request (svAbort sv key up))) (\<lambda>_. ret ())"

text \<open>The loop of \<open>Put\<close> from part \<open>n\<close> on. The error of the reader comes in place of a part it cuts short.\<close>

function put_parts :: "'b s3_service \<Rightarrow> string \<Rightarrow> string \<Rightarrow> nat \<Rightarrow> (nat \<times> string) list \<Rightarrow> nat \<Rightarrow> reader \<Rightarrow> ('b, (nat \<times> string) list \<times> nat) s3_prog" where
  "put_parts sv key up n parts len r =
     (let buf = take partSize (rData r); rest = r\<lparr>rData := drop partSize (rData r)\<rparr> in
      if length buf < partSize \<and> rErr r \<noteq> None then
        bind_s (s3_abort sv key up) (\<lambda>_. raise [ReadFailed (the (rErr r))])
      else if buf = [] \<and> 1 < n then ret (parts, len)
      else
        bind_s (try_s (request (svPart sv key up n buf))) (\<lambda>a. case a of
          Inl e \<Rightarrow> bind_s (s3_abort sv key up) (\<lambda>_. raise e)
        | Inr tag \<Rightarrow>
            if length buf < partSize then ret (parts @ [(n, tag)], len + length buf)
            else put_parts sv key up (Suc n) (parts @ [(n, tag)]) (len + length buf) rest))"
  by pat_completeness auto
termination
  by (relation "measure (\<lambda>(sv, key, up, n, parts, len, r). length (rData r))") (auto simp: partSize_def not_less)

declare put_parts.simps [simp del]

definition S3_Put :: "'b s3_service \<Rightarrow> string \<Rightarrow> reader \<Rightarrow> ('b, nat) s3_prog" where
  "S3_Put sv key r =
     bind_s (request (svStart sv key)) (\<lambda>up.
     bind_s (put_parts sv key up 1 [] 0 r) (\<lambda>(parts, len).
     bind_s (try_s (request (svFinish sv key up parts))) (\<lambda>a. case a of
       Inl e \<Rightarrow> bind_s (s3_abort sv key up) (\<lambda>_. raise e)
     | Inr _ \<Rightarrow> ret len)))"

definition S3_Get :: "'b s3_service \<Rightarrow> string \<Rightarrow> ('b, byte list) s3_prog" where
  "S3_Get sv key = request (svGet sv key)"

text \<open>\<open>List\<close>'s loop over at most \<open>pages\<close> pages: a service may go on giving tokens.\<close>

fun list_pages :: "nat \<Rightarrow> 'b s3_service \<Rightarrow> string \<Rightarrow> string \<Rightarrow> ('b, string list) s3_prog" where
  "list_pages 0 sv pre token = raise [S3Err (S3Failed 0)]"
| "list_pages (Suc k) sv pre token =
     bind_s (request (svList sv pre token)) (\<lambda>(keys, more). case more of
       None \<Rightarrow> ret keys
     | Some t \<Rightarrow> bind_s (list_pages k sv pre t) (\<lambda>ks. ret (keys @ ks)))"

definition S3_List :: "nat \<Rightarrow> 'b s3_service \<Rightarrow> string \<Rightarrow> ('b, string list) s3_prog" where
  "S3_List pages sv pre = list_pages pages sv pre []"

definition S3_Delete :: "'b s3_service \<Rightarrow> string \<Rightarrow> ('b, unit) s3_prog" where
  "S3_Delete sv key =
     bind_s (try_s (request (svDelete sv key))) (\<lambda>a. case a of
       Inl e \<Rightarrow> if e = [S3Err ErrNoObject] then ret () else raise e
     | Inr _ \<Rightarrow> ret ())"

section \<open>Manifests\<close>

record Send =
  sdSnapshot :: string
  sdKey :: string
  sdSize :: nat

record EnvBackup =
  ebWorkspace :: string
  ebGeneration :: nat
  ebChain :: "Send list"

record Manifest =
  mfTime :: int
  mfState :: string
  mfEnvs :: "(string \<times> EnvBackup) list"

definition no_backup :: EnvBackup where
  "no_backup = \<lparr>ebWorkspace = [], ebGeneration = 0, ebChain = []\<rparr>"

definition snapPrefix :: string where "snapPrefix = ''fern-backup-''"
definition maxChain :: nat where "maxChain = 7 * 24"

text \<open>
  What the code uses and this does not model. \<open>bcSend p n t\<close> is what \<open>btrfs send\<close> writes of the snapshot \<open>n\<close> with the
  tree \<open>t\<close>, from the parent snapshot \<open>p\<close> (its name and its tree) if there is one; \<open>bcReceive\<close> is \<open>btrfs receive\<close>: the folder of
  snapshots after the stream, None when it fails.
\<close>

record backup_codecs =
  bcGcm :: "byte list \<Rightarrow> aead"
  bcKey :: "byte list"
  bcMarshal :: "Manifest \<Rightarrow> byte list"
  bcDecode :: "byte list \<Rightarrow> Manifest option"
  bcGzip :: "byte list \<Rightarrow> byte list"
  bcGunzip :: "byte list \<Rightarrow> byte list option"
  bcSend :: "(string \<times> node) option \<Rightarrow> string \<Rightarrow> node \<Rightarrow> byte list"
  bcReceive :: "byte list \<Rightarrow> (string \<rightharpoonup> node) \<Rightarrow> (string \<rightharpoonup> node) option"

text \<open>What the commands do, by the number of the call: whether it fails, what it prints, the random prefix, the archive.\<close>

record backup_world =
  bwFail :: "nat \<Rightarrow> bool"
  bwGen :: "nat \<Rightarrow> nat"
  bwRand :: "nat \<Rightarrow> byte list"
  bwArchive :: "nat \<Rightarrow> byte list"

record ('d, 'b) backer =
  bkGroup :: "'d group"
  bkSvc :: 'b
  bkSv :: "'b s3_service"
  bkCd :: backup_codecs
  bkPrefix :: string
  bkPages :: nat
  bkWorld :: backup_world
  bkN :: nat

type_synonym ('d, 'b, 'a) bp = "(('d, 'b) backer, backup_error list, 'a) prog"

definition on_group :: "('d, 'a) gp \<Rightarrow> ('d, 'b, 'a) bp" where
  "on_group m k = (case m (bkGroup k) of
     (Inl e, g) \<Rightarrow> (Inl [GroupErr e], k\<lparr>bkGroup := g\<rparr>)
   | (Inr x, g) \<Rightarrow> (Inr x, k\<lparr>bkGroup := g\<rparr>))"

definition on_s3 :: "('b s3_service \<Rightarrow> ('b, 'a) s3_prog) \<Rightarrow> ('d, 'b, 'a) bp" where
  "on_s3 f k = (case f (bkSv k) (bkSvc k) of (r, b) \<Rightarrow> (r, k\<lparr>bkSvc := b\<rparr>))"

text \<open>A command: its number tells whether it fails.\<close>

definition command :: "('d, 'b, nat) bp" where
  "command k = (if bwFail (bkWorld k) (bkN k) then (Inl [CommandFailed (bkN k)], k\<lparr>bkN := Suc (bkN k)\<rparr>)
     else (Inr (bkN k), k\<lparr>bkN := Suc (bkN k)\<rparr>))"

definition generation :: "('d, 'b, nat) bp" where
  "generation = bind_s command (\<lambda>n. gets (\<lambda>k. bwGen (bkWorld k) n))"

definition nodePrefix :: "string \<Rightarrow> string" where
  "nodePrefix node = (case snd (Clean (''fern/'' @ node)) of [] \<Rightarrow> [] | a # as \<Rightarrow> a @ concat (map ((#) CHR ''/'') as)) @ ''/''"

definition manifest_key :: "string \<Rightarrow> string" where
  "manifest_key pre = pre @ ''manifest.json''"

section \<open>Uploads\<close>

text \<open>Encrypting needs the random prefix. The stream is what \<open>Encrypt\<close>'s reader gives to the end.\<close>

definition encrypt_all :: "reader \<Rightarrow> ('d, 'b, reader) bp" where
  "encrypt_all r = bind_s command (\<lambda>n. bind_s (gets (\<lambda>k. (bkCd k, bkWorld k))) (\<lambda>(cd, w).
     case Encrypt (bcGcm cd) (bwRand w n) (bcKey cd) r of
       Inl e \<Rightarrow> raise [CryptErr e]
     | Inr s \<Rightarrow> (case readAll sealer_Read (\<lambda>_. partSize) 0 s of
         Some (xs, EOF) \<Rightarrow> ret \<lparr>rData = xs, rErr = None\<rparr>
       | Some (xs, _) \<Rightarrow> ret \<lparr>rData = xs, rErr = Some n\<rparr>
       | None \<Rightarrow> raise [CryptErr ErrKey])))"

text \<open>\<open>put\<close>: a failed source gives an error where the compressor's pipe ends.\<close>

definition put :: "string \<Rightarrow> byte list \<Rightarrow> nat option \<Rightarrow> ('d, 'b, nat) bp" where
  "put key xs err = bind_s (gets bkCd) (\<lambda>cd.
     bind_s (encrypt_all \<lparr>rData = bcGzip cd xs, rErr = err\<rparr>) (\<lambda>enc. on_s3 (\<lambda>sv. S3_Put sv key enc)))"

definition save :: "Manifest \<Rightarrow> ('d, 'b, unit) bp" where
  "save m = bind_s (gets (\<lambda>k. (bkCd k, bkPrefix k))) (\<lambda>(cd, pre).
     bind_s (encrypt_all \<lparr>rData = bcMarshal cd m, rErr = None\<rparr>) (\<lambda>enc.
     bind_s (on_s3 (\<lambda>sv. S3_Put sv (manifest_key pre) enc)) (\<lambda>_. ret ())))"

text \<open>\<open>readManifest\<close>: the decoder takes the first value of the stream.\<close>

definition decrypt_all :: "backup_codecs \<Rightarrow> byte list \<Rightarrow> (backup_error list + byte list \<times> crypt_error)" where
  "decrypt_all cd xs = (case Decrypt (bcGcm cd) (bcKey cd) \<lparr>rData = xs, rErr = None\<rparr> of
     Inl e \<Rightarrow> Inl [CryptErr e]
   | Inr s \<Rightarrow> (case readAll opener_Read (\<lambda>_. partSize) 0 s of Some r \<Rightarrow> Inr r | None \<Rightarrow> Inl [CryptErr ErrKey]))"

definition empty_manifest :: Manifest where
  "empty_manifest = \<lparr>mfTime = 0, mfState = [], mfEnvs = []\<rparr>"

definition readManifest :: "backup_codecs \<Rightarrow> string \<Rightarrow> 'b s3_service \<Rightarrow> ('b, Manifest) s3_prog" where
  "readManifest cd pre sv =
     bind_s (try_s (S3_Get sv (manifest_key pre))) (\<lambda>a. case a of
       Inl e \<Rightarrow> if e = [S3Err ErrNoObject] then ret empty_manifest else raise e
     | Inr xs \<Rightarrow>
         (case decrypt_all cd xs of
            Inl e \<Rightarrow> raise e
          | Inr (plain, _) \<Rightarrow> (case bcDecode cd plain of None \<Rightarrow> raise [BadManifest] | Some m \<Rightarrow> ret m)))"

definition manifest :: "('d, 'b, Manifest) bp" where
  "manifest = bind_s (gets (\<lambda>k. (bkCd k, bkPrefix k))) (\<lambda>(cd, pre). on_s3 (readManifest cd pre))"

section \<open>A workspace\<close>

text \<open>
  \<open>send\<close>: a \<open>btrfs send\<close> that fails ends its output early, and the upload of what came is not undone. The trees are read
  where the store has the snapshots; without one of them the command fails.
\<close>

definition snap_tree :: "string \<Rightarrow> string \<Rightarrow> store \<Rightarrow> node option" where
  "snap_tree i x s = lookup (disk s) (snapPath (root s) i x)"

definition parent_tree :: "string \<Rightarrow> string option \<Rightarrow> store \<Rightarrow> (string \<times> node) option option" where
  "parent_tree i parent s = (case parent of
     None \<Rightarrow> Some None
   | Some p \<Rightarrow> map_option (\<lambda>t. Some (p, t)) (snap_tree i p s))"

definition send_snapshot :: "string \<Rightarrow> string \<Rightarrow> string option \<Rightarrow> string \<Rightarrow> ('d, 'b, nat) bp" where
  "send_snapshot i x parent key =
     bind_s (gets (\<lambda>k. (snap_tree i x (gst (bkGroup k)), parent_tree i parent (gst (bkGroup k)), bkCd k))) (\<lambda>(t, p, cd).
     bind_s (try_s command) (\<lambda>c. case (c, t, p) of
       (Inr _, Some tree, Some from) \<Rightarrow> put key (bcSend cd from x tree) None
     | _ \<Rightarrow> bind_s (gets (\<lambda>k. bwArchive (bkWorld k) (bkN k))) (\<lambda>cut.
            bind_s (put key cut None) (\<lambda>_. raise [CommandFailed 0]))))"

text \<open>\<open>env\<close>: the snapshots of earlier backups go, but for the parent of this send.\<close>

definition delete_leftovers :: "string \<Rightarrow> string option \<Rightarrow> (string \<times> int) list \<Rightarrow> ('d, 'b, unit) bp" where
  "delete_leftovers i parent snaps =
     for_each (\<lambda>s. if \<not> prefix snapPrefix (fst s) \<or> Some (fst s) = parent then ret ()
                   else on_group (group_DeleteSnapshot i (fst s))) snaps"

definition chain_parent :: "EnvBackup \<Rightarrow> string option" where
  "chain_parent eb = (let n = length (ebChain eb) in
     if 0 < n \<and> n < maxChain then Some (sdSnapshot (last (ebChain eb))) else None)"

definition own_snapshots :: "string list \<Rightarrow> string set" where
  "own_snapshots xs = set (filter (prefix snapPrefix) xs)"

definition env_key :: "string \<Rightarrow> string \<Rightarrow> string \<Rightarrow> string" where
  "env_key pre i x = pre @ ''envs/'' @ i @ ''/'' @ x"

definition rel_text :: "string list \<Rightarrow> string" where
  "rel_text p = (case p of [] \<Rightarrow> ''.'' | a # as \<Rightarrow> a @ concat (map ((#) CHR ''/'') as))"

text \<open>The end of \<open>env\<close>, after the send.\<close>

definition env_done :: "Env \<Rightarrow> EnvBackup \<Rightarrow> string option \<Rightarrow> Send \<Rightarrow> ('d, 'b, EnvBackup) bp" where
  "env_done e eb parent sd =
     bind_s generation (\<lambda>taken.
     bind_s (case parent of
               None \<Rightarrow> ret [sd]
             | Some p \<Rightarrow> bind_s (try_s (on_group (group_DeleteSnapshot (ID e) p))) (\<lambda>_. ret (ebChain eb @ [sd]))) (\<lambda>chain.
     bind_s (gets (\<lambda>k. root (gst (bkGroup k)))) (\<lambda>pool.
       case Rel (True, pool) (True, Workspace e) of
         None \<Rightarrow> raise [NotInPool]
       | Some rel \<Rightarrow>
           if \<not> IsLocal (rel_text rel) then raise [NotInPool]
           else ret \<lparr>ebWorkspace = rel_text rel, ebGeneration = taken, ebChain = chain\<rparr>)))"

definition backup_env :: "Env \<Rightarrow> EnvBackup \<Rightarrow> ('d, 'b, EnvBackup) bp" where
  "backup_env e eb =
     bind_s generation (\<lambda>gen.
       if ebChain eb \<noteq> [] \<and> gen = ebGeneration eb then ret eb
       else
         bind_s (on_group (on_store (Snapshots (ID e)))) (\<lambda>snaps.
         let parent = chain_parent eb in
         bind_s (delete_leftovers (ID e) parent snaps) (\<lambda>_.
         let parent = (if parent \<in> Some ` own_snapshots (map fst snaps) then parent else None) in
         bind_s (on_group clock) (\<lambda>now.
         bind_s (gets bkPrefix) (\<lambda>pre.
         let name = snapPrefix @ Itoa now; key = env_key pre (ID e) name in
         bind_s (on_group (group_Snapshot (ID e) name False)) (\<lambda>_.
         bind_s (try_s (send_snapshot (ID e) name parent key)) (\<lambda>r. case r of
           Inl err \<Rightarrow> bind_s (try_s (on_group (group_DeleteSnapshot (ID e) name))) (\<lambda>_. raise err)
         | Inr n \<Rightarrow> env_done e eb parent \<lparr>sdSnapshot = name, sdKey = key, sdSize = n\<rparr>)))))))"

section \<open>A backup\<close>

definition backup_of :: "Manifest \<Rightarrow> string \<Rightarrow> EnvBackup" where
  "backup_of m i = (case map_of (mfEnvs m) i of Some eb \<Rightarrow> eb | None \<Rightarrow> no_backup)"

definition set_backup :: "string \<Rightarrow> EnvBackup \<Rightarrow> Manifest \<Rightarrow> Manifest" where
  "set_backup i eb m = m\<lparr>mfEnvs := AList.update i eb (mfEnvs m)\<rparr>"

text \<open>One turn of \<open>Once\<close>'s loop: a failed environment keeps its last backup, a failed save ends \<open>Once\<close>.\<close>

definition once_env :: "Env \<Rightarrow> Manifest \<times> backup_error list \<Rightarrow> ('d, 'b, Manifest \<times> backup_error list) bp" where
  "once_env e acc = (case acc of (m, errs) \<Rightarrow>
     if IsBuilder (ID e) then ret (m, errs)
     else bind_s (try_s (backup_env e (backup_of m (ID e)))) (\<lambda>r. case r of
       Inl err \<Rightarrow> ret (m, errs @ err)
     | Inr eb \<Rightarrow> bind_s (save (set_backup (ID e) eb m)) (\<lambda>_. ret (set_backup (ID e) eb m, errs))))"

definition state_key :: "string \<Rightarrow> int \<Rightarrow> string" where
  "state_key pre now = pre @ ''state/'' @ Itoa now"

text \<open>\<open>state\<close>: the temporary folder, the copy of the index and those of T3's databases may fail, and writing the archive too.\<close>

definition upload_state :: "('d, 'b, string) bp" where
  "upload_state =
     bind_s command (\<lambda>_. bind_s command (\<lambda>_. bind_s command (\<lambda>_. bind_s (on_group clock) (\<lambda>now.
     bind_s (gets (\<lambda>k. (bkPrefix k, bkWorld k, bkN k))) (\<lambda>(pre, w, n).
     bind_s (put (state_key pre now) (bwArchive w n) (if bwFail w n then Some n else None)) (\<lambda>_.
     ret (state_key pre now)))))))"

definition keep_keys :: "string \<Rightarrow> Manifest \<Rightarrow> string list" where
  "keep_keys pre m = manifest_key pre # mfState m # concat (map (\<lambda>x. map sdKey (ebChain (snd x))) (mfEnvs m))"

fun delete_keys :: "string list \<Rightarrow> ('d, 'b, backup_error list) bp" where
  "delete_keys [] = ret []"
| "delete_keys (k # ks) =
     bind_s (try_s (on_s3 (\<lambda>sv. S3_Delete sv k))) (\<lambda>r.
     bind_s (delete_keys ks) (\<lambda>errs. ret ((case r of Inl e \<Rightarrow> e | Inr _ \<Rightarrow> []) @ errs)))"

definition backup_sweep :: "Manifest \<Rightarrow> ('d, 'b, backup_error list) bp" where
  "backup_sweep m =
     bind_s (gets (\<lambda>k. (bkPrefix k, bkPages k))) (\<lambda>(pre, pages).
     bind_s (try_s (on_s3 (\<lambda>sv. S3_List pages sv pre))) (\<lambda>r. case r of
       Inl e \<Rightarrow> ret e
     | Inr keys \<Rightarrow> delete_keys (filter (\<lambda>k. k \<notin> set (keep_keys pre m)) keys)))"

definition Once :: "('d, 'b, unit) bp" where
  "Once =
     bind_s manifest (\<lambda>m0.
     bind_s (on_group (on_store List)) (\<lambda>envs.
     bind_s (fold_s once_env envs (m0, [])) (\<lambda>(m, errs).
     let live = filter (\<lambda>i. \<not> IsBuilder i) (map ID envs);
         m1 = m\<lparr>mfEnvs := filter (\<lambda>x. fst x \<in> set live) (mfEnvs m)\<rparr> in
     bind_s (try_s upload_state) (\<lambda>r. case r of
       Inl e \<Rightarrow> raise (errs @ e)
     | Inr st \<Rightarrow>
         bind_s (on_group clock) (\<lambda>now.
         let m2 = m1\<lparr>mfState := st, mfTime := now\<rparr> in
         bind_s (save m2) (\<lambda>_.
         bind_s (backup_sweep m2) (\<lambda>sw. if errs @ sw = [] then ret () else raise (errs @ sw))))))))"

section \<open>Restoring (state.go)\<close>

text \<open>
  The new node's pool: \<open>rsSnaps\<close> are the folders \<open>envs/<id>/snaps\<close>, \<open>rsPool\<close> the workspaces by their path in the pool,
  \<open>rsState\<close> the state archive when it has been unpacked. \<open>rsFail n\<close>: the \<open>n\<close>-th command or change of the disk fails.
\<close>

record 'b restorer =
  rsSvc :: 'b
  rsSv :: "'b s3_service"
  rsCd :: backup_codecs
  rsEnvs :: "string list"
  rsSnaps :: "string \<Rightarrow> string \<rightharpoonup> node"
  rsPool :: "string \<rightharpoonup> node"
  rsState :: "byte list option"
  rsFail :: "nat \<Rightarrow> bool"
  rsN :: nat

type_synonym ('b, 'a) rp = "('b restorer, backup_error list, 'a) prog"

definition from_s3 :: "('b s3_service \<Rightarrow> ('b, 'a) s3_prog) \<Rightarrow> ('b, 'a) rp" where
  "from_s3 f k = (case f (rsSv k) (rsSvc k) of (r, b) \<Rightarrow> (r, k\<lparr>rsSvc := b\<rparr>))"

definition sys_call :: "('b, unit) rp" where
  "sys_call k = ((if rsFail k (rsN k) then Inl [CommandFailed (rsN k)] else Inr ()), k\<lparr>rsN := Suc (rsN k)\<rparr>)"

definition opened :: "backup_codecs \<Rightarrow> byte list \<Rightarrow> byte list option" where
  "opened cd xs = (case decrypt_all cd xs of
     Inr (plain, EOF) \<Rightarrow> bcGunzip cd plain
   | _ \<Rightarrow> None)"

definition openObject :: "string \<Rightarrow> ('b, byte list) rp" where
  "openObject key =
     bind_s (gets rsCd) (\<lambda>cd.
     bind_s (from_s3 (\<lambda>sv. S3_Get sv key)) (\<lambda>xs.
     case opened cd xs of None \<Rightarrow> raise [BadObject] | Some plain \<Rightarrow> ret plain))"

definition receive :: "string \<Rightarrow> string \<Rightarrow> ('b, unit) rp" where
  "receive i key =
     bind_s (openObject key) (\<lambda>stream.
     bind_s sys_call (\<lambda>_.
     bind_s (gets (\<lambda>k. bcReceive (rsCd k) stream (rsSnaps k i))) (\<lambda>r. case r of
       None \<Rightarrow> raise [CommandFailed 0]
     | Some snaps \<Rightarrow> modify (\<lambda>k. k\<lparr>rsSnaps := (rsSnaps k)(i := snaps)\<rparr>))))"

text \<open>
  \<open>Restore\<close>'s loop for one environment. An empty chain is an index out of range. \<open>btrfs subvolume snapshot\<close> to a place that is
  there already puts the snapshot below it, and leaves it as it is.
\<close>

definition snapshot_to :: "string \<Rightarrow> string \<Rightarrow> string \<Rightarrow> ('b, unit) rp" where
  "snapshot_to i x ws =
     bind_s (gets (\<lambda>k. rsSnaps k i x)) (\<lambda>t. case t of
       None \<Rightarrow> raise [CommandFailed 0]
     | Some tree \<Rightarrow> modify (\<lambda>k. if rsPool k ws = None then k\<lparr>rsPool := (rsPool k)(ws \<mapsto> tree)\<rparr> else k))"

definition restore_env :: "string \<times> EnvBackup \<Rightarrow> ('b, unit) rp" where
  "restore_env x = (case x of (i, eb) \<Rightarrow>
     bind_s sys_call (\<lambda>_.
     bind_s (for_each (\<lambda>sd. receive i (sdKey sd)) (ebChain eb)) (\<lambda>_.
       if ebChain eb = [] then raise [IndexPanic]
       else if \<not> IsLocal (ebWorkspace eb) then raise [NotInPool]
       else bind_s sys_call (\<lambda>_. bind_s sys_call (\<lambda>_.
            snapshot_to i (sdSnapshot (last (ebChain eb))) (ebWorkspace eb))))))"

definition extractState :: "string \<Rightarrow> ('b, unit) rp" where
  "extractState key =
     bind_s (openObject key) (\<lambda>archive.
     bind_s sys_call (\<lambda>_. modify (\<lambda>k. k\<lparr>rsState := Some archive\<rparr>)))"

definition backup_Restore :: "string \<Rightarrow> ('b, unit) rp" where
  "backup_Restore node =
     bind_s (gets rsEnvs) (\<lambda>used.
       if used \<noteq> [] then raise [PoolInUse]
       else bind_s (gets rsCd) (\<lambda>cd.
            bind_s (from_s3 (readManifest cd (nodePrefix node))) (\<lambda>m.
              if mfState m = [] then raise [NoBackup]
              else bind_s (for_each restore_env (mfEnvs m)) (\<lambda>_.
                   bind_s sys_call (\<lambda>_. extractState (mfState m))))))"

end
