(* ===== verification/CryptLaws.thy ===== *)
theory CryptLaws
  imports Crypt
begin

text \<open>
  The encrypted stream of a backup: what it is, that it decrypts to what was encrypted, that nothing else decrypts, and
  that no nonce is used twice. Both readers are shown to deliver a fixed sequence of bytes whatever buffers
  they are read with, through one interface, \<open>byte_reader\<close>.
\<close>

section \<open>A reader that delivers a fixed sequence\<close>

locale byte_reader =
  fixes rd :: "nat \<Rightarrow> 's \<Rightarrow> (crypt_error + byte list) \<times> 's"
    and out :: "'s \<Rightarrow> byte list \<times> crypt_error"
    and ok :: "'s \<Rightarrow> bool"
  assumes at_end: "ok s \<Longrightarrow> 0 < k \<Longrightarrow> out s = ([], e) \<Longrightarrow> \<exists>t. rd k s = (Inl e, t)"
    and more: "ok s \<Longrightarrow> 0 < k \<Longrightarrow> out s = (x # xs, e) \<Longrightarrow>
      \<exists>ys zs t. rd k s = (Inr ys, t) \<and> ys \<noteq> [] \<and> ok t \<and> x # xs = ys @ zs \<and> out t = (zs, e)"
begin

text \<open>Reading to the end ends, with exactly those bytes, for any sizes of the buffers.\<close>

lemma readAll_out:
  assumes "ok s" "\<And>n. 0 < sizes n"
  shows "readAll rd sizes n s = Some (out s)"
  using assms(1)
proof (induction "length (fst (out s))" arbitrary: s n rule: less_induct)
  case less
  obtain xs e where out: "out s = (xs, e)" by fastforce
  show ?case
  proof (cases xs)
    case Nil
    then obtain t where "rd (sizes n) s = (Inl e, t)" using at_end [OF less.prems assms(2)] out by blast
    then show ?thesis using out Nil by (subst readAll.simps) simp
  next
    case (Cons x ws)
    then obtain ys zs t where t: "rd (sizes n) s = (Inr ys, t)" "ys \<noteq> []" "ok t" "xs = ys @ zs" "out t = (zs, e)"
      using more [OF less.prems assms(2)] out by metis
    have "readAll rd sizes (Suc n) t = Some (zs, e)" using less.hyps [of t] t out by simp
    then show ?thesis using out t by (subst readAll.simps) simp
  qed
qed

end

section \<open>Pieces\<close>

text \<open>The pieces \<open>chunks\<close> hands out of the bytes \<open>xs\<close>, and how it ends.\<close>

function pieces :: "nat \<Rightarrow> nat option \<Rightarrow> byte list \<Rightarrow> (byte list \<times> bool) list \<times> crypt_error" where
  "pieces sz err xs =
     (if sz = 0 then ([], EOF)
      else case err of
        None \<Rightarrow> if length xs \<le> sz then ([(xs, True)], EOF)
                else map_prod ((#) (take sz xs, False)) (\<lambda>e. e) (pieces sz err (drop sz xs))
      | Some e \<Rightarrow> if length xs < 2 * sz then ([], ReadErr e)
                  else map_prod ((#) (take sz xs, False)) (\<lambda>e. e) (pieces sz err (drop sz xs)))"
  by pat_completeness auto
termination
  by (relation "measure (\<lambda>(sz, err, xs). length xs)") auto

declare pieces.simps [simp del]

definition chunks_ok :: "chunks \<Rightarrow> bool" where
  "chunks_ok c \<longleftrightarrow> 0 < chSize c \<and>
     (if chRead c then length (chCur c) = chSize c \<or> (length (chCur c) < chSize c \<and> rData (chR c) = [] \<and> rErr (chR c) = None)
      else chCur c = [])"

definition chunks_out :: "chunks \<Rightarrow> (byte list \<times> bool) list \<times> crypt_error" where
  "chunks_out c = (if chLast c then ([], EOF) else pieces (chSize c) (rErr (chR c)) (chCur c @ rData (chR c)))"

lemma next_ahead_out:
  assumes "chunks_ok c" "chRead c" "\<not> chLast c"
  shows "case chunks_out c of
      ([], e) \<Rightarrow> \<exists>d. next_ahead c = (Inl e, d)
    | (p # ps, e) \<Rightarrow> \<exists>d. next_ahead c = (Inr p, d) \<and> chunks_ok d \<and> chunks_out d = (ps, e)"
proof (cases "rErr (chR c)")
  case None
  show ?thesis
  proof (cases "length (chCur c) < chSize c \<or> rData (chR c) = []")
    case True
    then have "chunks_out c = ([(chCur c, True)], EOF)"
      using assms None by (subst chunks_out_def, subst pieces.simps) (auto simp: chunks_ok_def)
    moreover have "next_ahead c = (Inr (chCur c, True), c\<lparr>chR := (chR c)\<lparr>rData := drop (chSize c) (rData (chR c))\<rparr>, chLast := True\<rparr>)"
      using True assms None by (auto simp: next_ahead_def full_def Let_def chunks_ok_def)
    ultimately show ?thesis using assms True None by (auto simp: chunks_ok_def chunks_out_def)
  next
    case False
    let ?d = "c\<lparr>chR := (chR c)\<lparr>rData := drop (chSize c) (rData (chR c))\<rparr>, chCur := take (chSize c) (rData (chR c))\<rparr>"
    have l: "length (chCur c) = chSize c" "0 < chSize c" using assms False by (auto simp: chunks_ok_def)
    have "chunks_out c = map_prod ((#) (chCur c, False)) (\<lambda>e. e) (chunks_out ?d)"
      using False l None assms by (simp add: chunks_out_def) (subst pieces.simps, auto)
    moreover have "next_ahead c = (Inr (chCur c, False), ?d)"
      using False l None by (auto simp: next_ahead_def full_def Let_def)
    moreover have "chunks_ok ?d" using assms l None by (auto simp: chunks_ok_def)
    ultimately show ?thesis by (cases "chunks_out ?d") simp
  qed
next
  case (Some e)
  then have l: "length (chCur c) = chSize c" "0 < chSize c" using assms by (auto simp: chunks_ok_def split: if_splits)
  show ?thesis
  proof (cases "length (rData (chR c)) < chSize c")
    case True
    then have "chunks_out c = ([], ReadErr e)"
      using assms Some l by (subst chunks_out_def, subst pieces.simps) auto
    then show ?thesis using True Some by (simp add: next_ahead_def full_def)
  next
    case False
    let ?d = "c\<lparr>chR := (chR c)\<lparr>rData := drop (chSize c) (rData (chR c))\<rparr>, chCur := take (chSize c) (rData (chR c))\<rparr>"
    have "chunks_out c = map_prod ((#) (chCur c, False)) (\<lambda>e. e) (chunks_out ?d)"
      using False l Some assms by (simp add: chunks_out_def) (subst pieces.simps, auto)
    moreover have "next_ahead c = (Inr (chCur c, False), ?d)"
      using False l Some by (auto simp: next_ahead_def full_def Let_def)
    moreover have "chunks_ok ?d" using assms l False by (auto simp: chunks_ok_def)
    ultimately show ?thesis by (cases "chunks_out ?d") simp
  qed
qed

lemma chunks_next_out:
  assumes "chunks_ok c"
  shows "case chunks_out c of
      ([], e) \<Rightarrow> \<exists>d. chunks_next c = (Inl e, d)
    | (p # ps, e) \<Rightarrow> \<exists>d. chunks_next c = (Inr p, d) \<and> chunks_ok d \<and> chunks_out d = (ps, e)"
proof (cases "chLast c \<or> chRead c")
  case True
  show ?thesis
  proof (cases "chLast c")
    case False
    with True have eq: "chunks_next c = next_ahead c" by (simp add: chunks_next_def)
    show ?thesis unfolding eq by (rule next_ahead_out) (use assms True False in auto)
  qed (simp add: chunks_next_def chunks_out_def)
next
  case False
  show ?thesis
  proof (cases "full (chSize c) (chR c)")
    case (Pair r q)
    show ?thesis
    proof (cases r)
      case (Inl e)
      with Pair False assms have "chunks_out c = ([], e)"
        by (subst chunks_out_def, subst pieces.simps) (auto simp: full_def chunks_ok_def split: option.splits if_splits)
      with Pair Inl False show ?thesis by (simp add: chunks_next_def)
    next
      case (Inr x)
      let ?c = "c\<lparr>chR := q, chCur := x, chRead := True\<rparr>"
      have "chunks_ok ?c" "chunks_out ?c = chunks_out c"
        using Pair Inr False assms by (auto simp: full_def chunks_ok_def chunks_out_def split: option.splits if_splits)
      moreover have eq: "chunks_next c = next_ahead ?c" using Pair Inr False by (simp add: chunks_next_def)
      ultimately show ?thesis unfolding eq using next_ahead_out [of ?c] False by simp
    qed
  qed
qed

section \<open>What Encrypt's reader delivers\<close>

text \<open>
  What the code relies on of \<open>cipher.AEAD\<close>: \<open>Open\<close> undoes \<open>Seal\<close> under the same nonce, opens only what \<open>Seal\<close> makes
  under that nonce, and \<open>Seal\<close> adds \<open>Overhead\<close> bytes.
\<close>

definition gcm_like :: "aead \<Rightarrow> bool" where
  "gcm_like a \<longleftrightarrow> 0 < Overhead a
     \<and> (\<forall>n p. Open a n (Seal a n p) = Some p \<and> length (Seal a n p) = length p + Overhead a)
     \<and> (\<forall>n c p. Open a n c = Some p \<longrightarrow> c = Seal a n p)"

text \<open>Each piece sealed under its number, counted at the width of \<open>uint32\<close>.\<close>

fun seal_list :: "aead \<Rightarrow> byte list \<Rightarrow> 32 word \<Rightarrow> (byte list \<times> bool) list \<Rightarrow> (byte list \<times> bool) list" where
  "seal_list a pre i [] = []"
| "seal_list a pre i ((p, l) # ps) = (Seal a (nonceFor pre i l) p, l) # seal_list a pre (i + 1) ps"

definition bytes_of :: "(byte list \<times> bool) list \<Rightarrow> byte list" where
  "bytes_of ps = concat (map fst ps)"

lemma bytes_of_simps [simp]: "bytes_of [] = []" "bytes_of ((p, l) # ps) = p @ bytes_of ps"
  by (simp_all add: bytes_of_def)

definition sealer_ok :: "sealer \<Rightarrow> bool" where
  "sealer_ok s \<longleftrightarrow> gcm_like (seAead s) \<and> chunks_ok (seChunks s)"

definition sealer_out :: "sealer \<Rightarrow> byte list \<times> crypt_error" where
  "sealer_out s = (case chunks_out (seChunks s) of
     (ps, e) \<Rightarrow> (sePending s @ bytes_of (seal_list (seAead s) (sePrefix s) (seI s) ps), e))"

lemma Seal_nonempty: "gcm_like a \<Longrightarrow> Seal a n p \<noteq> []"
  unfolding gcm_like_def by (metis add_is_0 list.size(3) not_gr_zero)

lemma take_nonempty: "xs \<noteq> [] \<Longrightarrow> 0 < k \<Longrightarrow> take k xs \<noteq> []"
  by (cases xs; cases k) simp_all

lemma seal_list_empty: "gcm_like a \<Longrightarrow> bytes_of (seal_list a pre i ps) = [] \<longleftrightarrow> ps = []"
  by (cases "(a, pre, i, ps)" rule: seal_list.cases) (simp_all add: Seal_nonempty)

text \<open>The step of the sealer when nothing is pending.\<close>

lemma sealer_Read_next:
  assumes "sealer_ok s" "sePending s = []"
  shows "case chunks_out (seChunks s) of
      ([], e) \<Rightarrow> \<exists>t. sealer_Read k s = (Inl e, t)
    | ((p, l) # ps, e) \<Rightarrow> \<exists>t. sealer_Read k s = (Inr (take k (Seal (seAead s) (nonceFor (sePrefix s) (seI s) l) p)), t) \<and> sealer_ok t
        \<and> sealer_out t = (drop k (Seal (seAead s) (nonceFor (sePrefix s) (seI s) l) p) @ bytes_of (seal_list (seAead s) (sePrefix s) (seI s + 1) ps), e)"
proof -
  have "chunks_ok (seChunks s)" using assms(1) by (simp add: sealer_ok_def)
  from chunks_next_out [OF this] show ?thesis
    using assms by (auto simp: sealer_Read_def sealer_out_def sealer_ok_def Let_def split: prod.splits list.splits)
qed

interpretation sr: byte_reader sealer_Read sealer_out sealer_ok
proof
  fix s and k :: nat and e assume s: "sealer_ok s" "0 < k" "sealer_out s = ([], e)"
  then have "sePending s = []" "chunks_out (seChunks s) = ([], e)"
    by (auto simp: sealer_out_def sealer_ok_def seal_list_empty split: prod.splits)
  with sealer_Read_next [OF s(1), of k] show "\<exists>t. sealer_Read k s = (Inl e, t)" by simp
next
  fix s k x xs e assume s: "sealer_ok s" "0 < (k::nat)" "sealer_out s = (x # xs, e)"
  show "\<exists>ys zs t. sealer_Read k s = (Inr ys, t) \<and> ys \<noteq> [] \<and> sealer_ok t \<and> x # xs = ys @ zs \<and> sealer_out t = (zs, e)"
  proof (cases "sePending s = []")
    case False
    have "sealer_Read k s = (Inr (take k (sePending s)), s\<lparr>sePending := drop k (sePending s)\<rparr>)"
      using False by (simp add: sealer_Read_def)
    moreover obtain ps where ps: "chunks_out (seChunks s) = (ps, e)"
      and x: "x # xs = sePending s @ bytes_of (seal_list (seAead s) (sePrefix s) (seI s) ps)"
      using s(3) by (auto simp: sealer_out_def split: prod.splits)
    moreover have "x # xs = take k (sePending s) @ drop k (sePending s) @ bytes_of (seal_list (seAead s) (sePrefix s) (seI s) ps)"
      by (simp add: x)
    ultimately show ?thesis using False s(1) take_nonempty [OF False s(2)]
      by (auto simp: sealer_ok_def sealer_out_def)
  next
    case True
    obtain qs where "chunks_out (seChunks s) = (qs, e)" "x # xs = bytes_of (seal_list (seAead s) (sePrefix s) (seI s) qs)"
      using s(3) True by (auto simp: sealer_out_def split: prod.splits)
    then obtain p l ps where c: "chunks_out (seChunks s) = ((p, l) # ps, e)"
      and x: "x # xs = Seal (seAead s) (nonceFor (sePrefix s) (seI s) l) p @ bytes_of (seal_list (seAead s) (sePrefix s) (seI s + 1) ps)"
      by (cases qs) auto
    let ?c = "Seal (seAead s) (nonceFor (sePrefix s) (seI s) l) p"
    have "x # xs = take k ?c @ drop k ?c @ bytes_of (seal_list (seAead s) (sePrefix s) (seI s + 1) ps)" by (simp add: x)
    moreover have "take k ?c \<noteq> []" using s(1,2) by (intro take_nonempty Seal_nonempty) (simp_all add: sealer_ok_def)
    ultimately show ?thesis using sealer_Read_next [OF s(1) True, of k] c by auto
  qed
qed

section \<open>What Decrypt's reader delivers\<close>

fun open_list :: "aead \<Rightarrow> byte list \<Rightarrow> 32 word \<Rightarrow> (byte list \<times> bool) list \<Rightarrow> crypt_error \<Rightarrow> byte list \<times> crypt_error" where
  "open_list a pre i [] e = ([], e)"
| "open_list a pre i ((c, l) # cs) e =
     (case Open a (nonceFor pre i l) c of
        None \<Rightarrow> ([], ErrKey)
      | Some p \<Rightarrow> if p = [] then ([], EOF) else map_prod ((@) p) (\<lambda>e. e) (open_list a pre (i + 1) cs e))"

definition opener_ok :: "opener \<Rightarrow> bool" where
  "opener_ok s \<longleftrightarrow> (case opChunks s of Some c \<Rightarrow> chunks_ok c | None \<Rightarrow> opPending s = [])"

definition opener_out :: "opener \<Rightarrow> byte list \<times> crypt_error" where
  "opener_out s = (case opChunks s of
     Some c \<Rightarrow> (case chunks_out c of (cs, e) \<Rightarrow> map_prod ((@) (opPending s)) (\<lambda>e. e) (open_list (opAead s) (opPrefix s) (opI s) cs e))
   | None \<Rightarrow> if length (rData (opR s)) < 7 then ([], ErrKey)
       else (case pieces (chunkSize + Overhead (opAead s)) (rErr (opR s)) (drop 7 (rData (opR s))) of
         (cs, e) \<Rightarrow> open_list (opAead s) (take 7 (rData (opR s))) (opI s) cs e))"

text \<open>What a read owes: an error when nothing is left, else some of the bytes.\<close>

definition delivers :: "(crypt_error + byte list) \<times> opener \<Rightarrow> byte list \<times> crypt_error \<Rightarrow> bool" where
  "delivers r res \<longleftrightarrow> (case res of
     ([], e) \<Rightarrow> \<exists>t. r = (Inl e, t)
   | (x # xs, e) \<Rightarrow> \<exists>ys zs t. r = (Inr ys, t) \<and> ys \<noteq> [] \<and> opener_ok t \<and> x # xs = ys @ zs \<and> opener_out t = (zs, e))"

lemma delivers_bytes:
  assumes "p \<noteq> []" "0 < k" "opener_ok t" "opener_out t = map_prod ((@) (drop k p)) (\<lambda>e. e) q"
  shows "delivers (Inr (take k p), t) (map_prod ((@) p) (\<lambda>e. e) q)"
proof -
  obtain ys e where q: "q = (ys, e)" by fastforce
  have "p @ ys = take k p @ drop k p @ ys" by simp
  then show ?thesis using assms take_nonempty [OF assms(1,2)]
    by (cases p) (auto simp: delivers_def q)
qed

lemma open_next_delivers:
  assumes "chunks_ok c" "0 < k" "opChunks s = Some c"
  shows "delivers (open_next k s c) (opener_out s)"
proof (cases "opPending s = []")
  case False
  have "open_next k s c = (Inr (take k (opPending s)), s\<lparr>opPending := drop k (opPending s)\<rparr>)"
    using False by (simp add: open_next_def)
  moreover obtain cs e where c: "chunks_out c = (cs, e)" by fastforce
  ultimately show ?thesis
    using delivers_bytes [OF False assms(2), of "s\<lparr>opPending := drop k (opPending s)\<rparr>" "open_list (opAead s) (opPrefix s) (opI s) cs e"] assms(1,3)
    by (simp add: opener_ok_def opener_out_def)
next
  case True
  show ?thesis
  proof (cases "chunks_out c")
    case (Pair cs e)
    have out: "opener_out s = open_list (opAead s) (opPrefix s) (opI s) cs e"
      using True assms(3) Pair by (cases "open_list (opAead s) (opPrefix s) (opI s) cs e") (simp add: opener_out_def)
    show ?thesis
    proof (cases cs)
      case Nil
      with chunks_next_out [OF assms(1)] Pair True show ?thesis
        by (auto simp: delivers_def open_next_def out)
    next
      case (Cons x ds)
      obtain ch l where x: "x = (ch, l)" by fastforce
      with chunks_next_out [OF assms(1)] Pair Cons obtain d
        where d: "chunks_next c = (Inr (ch, l), d)" "chunks_ok d" "chunks_out d = (ds, e)" by auto
      show ?thesis
      proof (cases "Open (opAead s) (nonceFor (opPrefix s) (opI s) l) ch")
        case None
        then show ?thesis using True d by (simp add: open_next_def out Cons x delivers_def)
      next
        case (Some p)
        show ?thesis
        proof (cases "p = []")
          case False
          let ?t = "s\<lparr>opChunks := Some d, opI := opI s + 1, opPending := drop k p\<rparr>"
          have "open_next k s c = (Inr (take k p), ?t)" using True d Some False by (simp add: open_next_def)
          moreover have "opener_ok ?t" "opener_out ?t = map_prod ((@) (drop k p)) (\<lambda>e. e) (open_list (opAead s) (opPrefix s) (opI s + 1) ds e)"
            using d by (simp_all add: opener_ok_def opener_out_def)
          ultimately show ?thesis using delivers_bytes [OF False assms(2)] Some False by (simp add: out Cons x)
        qed (use True d Some in \<open>simp add: open_next_def out Cons x delivers_def\<close>)
      qed
    qed
  qed
qed

lemma opener_delivers:
  assumes "opener_ok s" "0 < k"
  shows "delivers (opener_Read k s) (opener_out s)"
proof (cases "opChunks s")
  case (Some c)
  with assms show ?thesis by (simp add: opener_Read_def opener_ok_def open_next_delivers)
next
  case None
  show ?thesis
  proof (cases "length (rData (opR s)) < 7")
    case True
    with None show ?thesis by (simp add: opener_Read_def opener_out_def ReadFull_def delivers_def)
  next
    case False
    let ?r = "(opR s)\<lparr>rData := drop 7 (rData (opR s))\<rparr>"
    let ?c = "newChunks ?r (chunkSize + Overhead (opAead s))"
    let ?t = "s\<lparr>opR := ?r, opPrefix := take 7 (rData (opR s)), opChunks := Some ?c\<rparr>"
    have "opener_Read k s = open_next k ?t ?c" using None False by (simp add: opener_Read_def ReadFull_def Let_def)
    moreover have "opener_out ?t = opener_out s"
      using None False assms(1) by (auto simp: opener_out_def opener_ok_def chunks_out_def newChunks_def map_prod_def split: prod.splits)
    moreover have "chunks_ok ?c" by (simp add: chunks_ok_def newChunks_def chunkSize_def)
    ultimately show ?thesis using open_next_delivers [of ?c k ?t] assms(2) by simp
  qed
qed

interpretation ord: byte_reader opener_Read opener_out opener_ok
proof
  fix s and k :: nat and e assume "opener_ok s" "0 < k" "opener_out s = ([], e)"
  with opener_delivers [of s k] show "\<exists>t. opener_Read k s = (Inl e, t)" by (simp add: delivers_def)
next
  fix s and k :: nat and x xs e assume "opener_ok s" "0 < k" "opener_out s = (x # xs, e)"
  with opener_delivers [of s k]
  show "\<exists>ys zs t. opener_Read k s = (Inr ys, t) \<and> ys \<noteq> [] \<and> opener_ok t \<and> x # xs = ys @ zs \<and> opener_out t = (zs, e)"
    by (simp add: delivers_def)
qed

section \<open>The shape of a stream\<close>

text \<open>Full pieces, then a last one that may be shorter.\<close>

fun shaped :: "nat \<Rightarrow> (byte list \<times> bool) list \<Rightarrow> bool" where
  "shaped n [] = False"
| "shaped n [(p, l)] = (l \<and> length p \<le> n)"
| "shaped n ((p, l) # q # ps) = (\<not> l \<and> length p = n \<and> shaped n (q # ps))"

lemma pieces_shaped:
  "0 < n \<Longrightarrow> snd (pieces n None xs) = EOF \<and> shaped n (fst (pieces n None xs)) \<and> bytes_of (fst (pieces n None xs)) = xs"
proof (induction "length xs" arbitrary: xs rule: less_induct)
  case less
  show ?case
  proof (cases "length xs \<le> n")
    case True
    with less.prems show ?thesis by (subst (1 2 3) pieces.simps) simp
  next
    case False
    let ?r = "pieces n None (drop n xs)"
    have "pieces n None xs = map_prod ((#) (take n xs, False)) (\<lambda>e. e) ?r"
      using False less.prems by (subst pieces.simps) simp
    moreover have "snd ?r = EOF \<and> shaped n (fst ?r) \<and> bytes_of (fst ?r) = drop n xs"
      using False less.prems by (intro less.hyps) auto
    ultimately show ?thesis using False by (cases "fst ?r") simp_all
  qed
qed

lemma shaped_Cons: "ys \<noteq> [] \<Longrightarrow> shaped n ((p, l) # ys) \<longleftrightarrow> \<not> l \<and> length p = n \<and> shaped n ys"
  by (cases ys) simp_all

lemma pieces_of_shaped:
  "shaped n ps \<Longrightarrow> 0 < n \<Longrightarrow> (\<And>p l. (p, l) \<in> set ps \<Longrightarrow> p \<noteq> []) \<Longrightarrow> pieces n None (bytes_of ps) = (ps, EOF)"
proof (induction n ps rule: shaped.induct)
  case (3 n p l q ps)
  obtain q' l' where q: "q = (q', l')" by fastforce
  have "q' \<noteq> []" using 3(4) [of q' l'] by (simp add: q)
  then have ne: "bytes_of (q # ps) \<noteq> []" by (simp add: q)
  have "pieces n None (bytes_of (q # ps)) = (q # ps, EOF)" using 3(2,3,4) by (intro 3(1)) auto
  with ne 3(2,3) show ?case by (subst pieces.simps) simp
qed (subst pieces.simps, simp)+

lemma seal_list_Nil [simp]: "seal_list a pre i ps = [] \<longleftrightarrow> ps = []"
  by (cases "(a, pre, i, ps)" rule: seal_list.cases) simp_all

lemma shaped_seal: "gcm_like a \<Longrightarrow> shaped n ps \<Longrightarrow> shaped (n + Overhead a) (seal_list a pre i ps)"
proof (induction n ps arbitrary: i rule: shaped.induct)
  case (3 n p l q ps)
  then have "shaped (n + Overhead a) (seal_list a pre (i + 1) (q # ps))" by simp
  with 3(2,3) show ?case unfolding seal_list.simps(2) [of a pre i] by (subst shaped_Cons) (auto simp: gcm_like_def)
qed (simp_all add: gcm_like_def)

lemma seal_list_nonempty: "gcm_like a \<Longrightarrow> (c, l) \<in> set (seal_list a pre i ps) \<Longrightarrow> c \<noteq> []"
proof (induction a pre i ps rule: seal_list.induct)
  case (2 a pre i p l ps)
  then show ?case using Seal_nonempty [OF 2(2)] by (simp, metis)
qed simp

lemma open_seal: "gcm_like a \<Longrightarrow> shaped n ps \<Longrightarrow> 0 < n \<Longrightarrow> open_list a pre i (seal_list a pre i ps) EOF = (bytes_of ps, EOF)"
proof (induction n ps arbitrary: i rule: shaped.induct)
  case (3 n p l q ps)
  have "open_list a pre (i + 1) (seal_list a pre (i + 1) (q # ps)) EOF = (bytes_of (q # ps), EOF)"
    using 3(2-4) by (intro 3(1)) simp_all
  moreover have "Open a (nonceFor pre i l) (Seal a (nonceFor pre i l) p) = Some p" "p \<noteq> []"
    using 3(2-4) by (auto simp: gcm_like_def)
  ultimately show ?case
    unfolding seal_list.simps(2) [of a pre i] open_list.simps(2) [of a pre i] bytes_of_simps(2) [of p] by simp
qed (auto simp: gcm_like_def)

lemma open_list_EOF:
  "gcm_like a \<Longrightarrow> shaped (n + Overhead a) cs \<Longrightarrow> 0 < n \<Longrightarrow> open_list a pre i cs EOF = (p, EOF) \<Longrightarrow>
   \<exists>ps. shaped n ps \<and> bytes_of ps = p \<and> seal_list a pre i ps = cs"
proof (induction cs arbitrary: i p)
  case (Cons x cs)
  obtain c l where x: "x = (c, l)" by fastforce
  obtain q where q: "Open a (nonceFor pre i l) c = Some q" using Cons.prems(4) by (auto simp: x split: option.splits)
  then have c: "c = Seal a (nonceFor pre i l) q" "length c = length q + Overhead a"
    using Cons.prems(1) unfolding gcm_like_def by (metis, metis)
  show ?case
  proof (cases cs)
    case Nil
    have "p = q" using Cons.prems(4) q by (cases "q = []") (simp_all add: x Nil)
    moreover have "l" "length q \<le> n" using Cons.prems(2) c(2) by (simp_all add: x Nil)
    ultimately show ?thesis using c(1) by (intro exI [of _ "[(q, l)]"]) (simp add: x Nil)
  next
    case (Cons d ds)
    have l: "\<not> l" "length q = n" "shaped (n + Overhead a) cs" using Cons.prems(2) c(2) by (simp_all add: x Cons)
    then have "q \<noteq> []" using Cons.prems(3) by auto
    then obtain p' where p': "open_list a pre (i + 1) cs EOF = (p', EOF)" "p = q @ p'"
      using Cons.prems(4) q by (cases "open_list a pre (i + 1) cs EOF") (auto simp: x)
    obtain ps where ps: "shaped n ps" "bytes_of ps = p'" "seal_list a pre (i + 1) ps = cs"
      using Cons.IH [OF Cons.prems(1) l(3) Cons.prems(3) p'(1)] by blast
    moreover have "ps \<noteq> []" using ps(1) by auto
    ultimately show ?thesis using l(1,2) c(1) p'(2) by (intro exI [of _ "(q, l) # ps"]) (simp add: x shaped_Cons)
  qed
qed simp

text \<open>A reader that fails leaves only full pieces, which never open to nothing.\<close>

lemma pieces_failing: "0 < n \<Longrightarrow> pieces n (Some e) xs = (cs, f) \<Longrightarrow> f = ReadErr e \<and> (\<forall>(c, l) \<in> set cs. length c = n)"
proof (induction "length xs" arbitrary: xs cs f rule: less_induct)
  case less
  show ?case
  proof (cases "length xs < 2 * n")
    case True
    with less.prems show ?thesis by (subst (asm) pieces.simps) simp
  next
    case False
    then obtain ds where "pieces n (Some e) (drop n xs) = (ds, f)" "cs = (take n xs, False) # ds"
      using less.prems by (subst (asm) pieces.simps) (auto simp: map_prod_def split: prod.splits)
    with less.hyps [of "drop n xs" ds f] less.prems False show ?thesis by auto
  qed
qed

lemma open_list_full:
  "gcm_like a \<Longrightarrow> 0 < n \<Longrightarrow> \<forall>(c, l) \<in> set cs. length c = n + Overhead a \<Longrightarrow> e \<noteq> EOF \<Longrightarrow> snd (open_list a pre i cs e) \<noteq> EOF"
proof (induction cs arbitrary: i)
  case (Cons x cs)
  obtain c l where x: "x = (c, l)" by fastforce
  have "q \<noteq> []" if "Open a (nonceFor pre i l) c = Some q" for q
  proof -
    have "length c = length q + Overhead a" using Cons.prems(1) that unfolding gcm_like_def by metis
    then show ?thesis using Cons.prems(2,3) by (auto simp: x)
  qed
  then show ?case using Cons by (auto simp: x split: option.split)
qed simp

lemma open_list_ReadErr:
  assumes "gcm_like a" "0 < n" "pieces (n + Overhead a) (Some e) xs = (cs, f)"
  shows "snd (open_list a pre i cs f) \<noteq> EOF"
  using pieces_failing [OF _ assms(3)] open_list_full [OF assms(1,2), of cs f] assms(2) by auto

text \<open>The stream of a plaintext.\<close>

definition encrypted :: "aead \<Rightarrow> byte list \<Rightarrow> byte list \<Rightarrow> byte list" where
  "encrypted a pre xs = pre @ bytes_of (seal_list a pre 0 (fst (pieces chunkSize None xs)))"

lemma Encrypt_out:
  assumes "gcm_like (gcm key)" "length key = KeySize"
  obtains s where "Encrypt gcm pre key \<lparr>rData = xs, rErr = None\<rparr> = Inr s" "sealer_ok s" "sealer_out s = (encrypted (gcm key) pre xs, EOF)"
proof
  let ?s = "\<lparr>seAead = gcm key, sePrefix = pre, seChunks = newChunks \<lparr>rData = xs, rErr = None\<rparr> chunkSize, seI = 0, sePending = pre\<rparr>"
  show "Encrypt gcm pre key \<lparr>rData = xs, rErr = None\<rparr> = Inr ?s" using assms(2) by (simp add: Encrypt_def newAEAD_def KeySize_def)
  show "sealer_ok ?s" using assms(1) by (simp add: sealer_ok_def chunks_ok_def newChunks_def chunkSize_def)
  show "sealer_out ?s = (encrypted (gcm key) pre xs, EOF)"
    using pieces_shaped [of chunkSize xs] by (auto simp: sealer_out_def chunks_out_def newChunks_def encrypted_def chunkSize_def split: prod.splits)
qed

lemma Decrypt_out:
  assumes "length key = KeySize" "Decrypt gcm key r = Inr s"
  shows "opener_ok s \<and> opener_out s = (if length (rData r) < 7 then ([], ErrKey)
       else (case pieces (chunkSize + Overhead (gcm key)) (rErr r) (drop 7 (rData r)) of
         (cs, e) \<Rightarrow> open_list (gcm key) (take 7 (rData r)) 0 cs e))"
  using assms by (auto simp: Decrypt_def newAEAD_def KeySize_def opener_ok_def opener_out_def)

lemma Decrypt_total: "length key = KeySize \<Longrightarrow> \<exists>s. Decrypt gcm key r = Inr s"
  by (simp add: Decrypt_def newAEAD_def KeySize_def)

section \<open>Properties\<close>

lemma encrypted_opens:
  assumes "gcm_like (gcm key)" "length key = KeySize" "length pre = 7" "\<forall>n. 0 < sizes n" "\<forall>n. 0 < sizes' n"
  shows "\<exists>s c t. Encrypt gcm pre key \<lparr>rData = xs, rErr = None\<rparr> = Inr s \<and> readAll sealer_Read sizes 0 s = Some (c, EOF)
    \<and> Decrypt gcm key \<lparr>rData = c, rErr = None\<rparr> = Inr t \<and> readAll opener_Read sizes' 0 t = Some (xs, EOF)"
proof -
  let ?a = "gcm key"
  let ?c = "encrypted ?a pre xs"
  let ?ps = "fst (pieces chunkSize None xs)"
  obtain s where s: "Encrypt gcm pre key \<lparr>rData = xs, rErr = None\<rparr> = Inr s" "sealer_ok s" "sealer_out s = (?c, EOF)"
    using Encrypt_out [of gcm key pre xs] assms(1,2) by blast
  then have read: "readAll sealer_Read sizes 0 s = Some (?c, EOF)" using sr.readAll_out assms(4) by simp
  obtain t where t: "Decrypt gcm key \<lparr>rData = ?c, rErr = None\<rparr> = Inr t" using Decrypt_total [OF assms(2)] by blast
  have ps: "shaped chunkSize ?ps" "bytes_of ?ps = xs" using pieces_shaped [of chunkSize xs] by (simp_all add: chunkSize_def)
  have "pieces (chunkSize + Overhead ?a) None (bytes_of (seal_list ?a pre 0 ?ps)) = (seal_list ?a pre 0 ?ps, EOF)"
    by (rule pieces_of_shaped [OF shaped_seal [OF assms(1) ps(1)]]) (auto simp: chunkSize_def dest: seal_list_nonempty [OF assms(1)])
  moreover have "open_list ?a pre 0 (seal_list ?a pre 0 ?ps) EOF = (xs, EOF)"
    using open_seal [OF assms(1) ps(1)] ps(2) by (simp add: chunkSize_def)
  ultimately have "opener_ok t" "opener_out t = (xs, EOF)"
    using Decrypt_out [OF assms(2) t] assms(3) by (simp_all add: encrypted_def)
  then have "readAll opener_Read sizes' 0 t = Some (xs, EOF)" using ord.readAll_out assms(5) by simp
  with s(1) read t show ?thesis by blast
qed

text \<open>
  C24. A backup's stream comes back: for every plaintext, key and prefix, reading \<open>Encrypt\<close>'s reader to its end with
  buffers of any sizes ends with \<open>EOF\<close>, and reading \<open>Decrypt\<close>'s reader of those bytes to its end, with buffers of any
  other sizes, gives the plaintext and ends with \<open>EOF\<close>.
\<close>

theorem Encrypt_Decrypt:
  assumes "gcm_like (gcm key)" "length key = KeySize" "length pre = 7" "\<forall>n. 0 < sizes n" "\<forall>n. 0 < sizes' n"
  shows "\<exists>s c t. Encrypt gcm pre key \<lparr>rData = xs, rErr = None\<rparr> = Inr s \<and> readAll sealer_Read sizes 0 s = Some (c, EOF)
    \<and> Decrypt gcm key \<lparr>rData = c, rErr = None\<rparr> = Inr t \<and> readAll opener_Read sizes' 0 t = Some (xs, EOF)"
  using assms by (rule encrypted_opens)

text \<open>
  A stream that \<open>Decrypt\<close>'s reader reads to its end without an error is a prefix of 7 bytes and then the plaintext, cut into full
  chunks and a last one, each sealed under its own number and only the last as the last; and a reader that fails is never
  taken for the end.
\<close>

lemma Decrypt_sealed:
  assumes "gcm_like (gcm key)" "length key = KeySize" "\<forall>n. 0 < sizes n"
    and "Decrypt gcm key r = Inr t" "readAll opener_Read sizes 0 t = Some (xs, EOF)"
  shows "rErr r = None \<and> (\<exists>pre ps. length pre = 7 \<and> shaped chunkSize ps \<and> bytes_of ps = xs
    \<and> rData r = pre @ bytes_of (seal_list (gcm key) pre 0 ps)
    \<and> fst (pieces (chunkSize + Overhead (gcm key)) None (drop 7 (rData r))) = seal_list (gcm key) pre 0 ps)"
proof -
  let ?a = "gcm key" and ?pre = "take 7 (rData r)" and ?n = "chunkSize + Overhead (gcm key)"
  have "opener_out t = (xs, EOF)" using Decrypt_out [OF assms(2,4)] assms(3,5) ord.readAll_out [of t sizes 0] by auto
  then have l: "7 \<le> length (rData r)"
    and o: "(case pieces ?n (rErr r) (drop 7 (rData r)) of (cs, e) \<Rightarrow> open_list ?a ?pre 0 cs e) = (xs, EOF)"
    using Decrypt_out [OF assms(2,4)] by (auto split: if_splits)
  show ?thesis
  proof (cases "rErr r")
    case (Some e)
    obtain cs f where "pieces ?n (Some e) (drop 7 (rData r)) = (cs, f)" by fastforce
    with open_list_ReadErr [OF assms(1), of chunkSize e _ cs f ?pre 0] o Some show ?thesis by (simp add: chunkSize_def)
  next
    case None
    let ?cs = "fst (pieces ?n None (drop 7 (rData r)))"
    have cs: "snd (pieces ?n None (drop 7 (rData r))) = EOF" "shaped ?n ?cs" "bytes_of ?cs = drop 7 (rData r)"
      using pieces_shaped [of ?n "drop 7 (rData r)"] by (simp_all add: chunkSize_def)
    then have opens: "open_list ?a ?pre 0 ?cs EOF = (xs, EOF)" using o None by (simp split: prod.splits)
    obtain ps where "shaped chunkSize ps" "bytes_of ps = xs" "seal_list ?a ?pre 0 ps = ?cs"
      using open_list_EOF [OF assms(1) cs(2) _ opens] by (auto simp: chunkSize_def)
    with cs(3) l None show ?thesis by (intro conjI exI [of _ ?pre] exI [of _ ps]) simp_all
  qed
qed

text \<open>A cipher that keeps the text and appends the nonce.\<close>

definition tag_of :: "byte list \<Rightarrow> byte list" where
  "tag_of n = take 16 (n @ replicate 16 0)"

definition plain_aead :: aead where
  "plain_aead = \<lparr>Seal = (\<lambda>n p. p @ tag_of n),
     Open = (\<lambda>n c. if drop (length c - 16) c = tag_of n then Some (take (length c - 16) c) else None), Overhead = 16\<rparr>"

lemma plain_gcm_like: "gcm_like plain_aead"
proof -
  have "length (tag_of n) = 16" for n by (simp add: tag_of_def)
  moreover have "c = take (length c - 16) c @ tag_of n" if "drop (length c - 16) c = tag_of n" for c n
    using that by (metis append_take_drop_id)
  ultimately show ?thesis by (auto simp: gcm_like_def plain_aead_def)
qed

theorem Encrypt_Decrypt_witness:
  "\<exists>s c t. Encrypt (\<lambda>_. plain_aead) (replicate 7 9) (replicate 32 1) \<lparr>rData = [1, 2, 3], rErr = None\<rparr> = Inr s
    \<and> readAll sealer_Read (\<lambda>_. 5) 0 s = Some (c, EOF)
    \<and> Decrypt (\<lambda>_. plain_aead) (replicate 32 1) \<lparr>rData = c, rErr = None\<rparr> = Inr t \<and> readAll opener_Read Suc 0 t = Some ([1, 2, 3], EOF)"
  by (rule Encrypt_Decrypt) (simp_all add: plain_gcm_like KeySize_def)

section \<open>Nonces\<close>

lemma PutUint32_inject: "PutUint32 n = PutUint32 m \<longleftrightarrow> n = m"
proof
  assume eq: "PutUint32 n = PutUint32 m"
  show "n = m"
  proof (rule bit_word_eqI)
    fix k assume k: "k < LENGTH(32)"
    have *: "(ucast (drop_bit s n) :: byte) = ucast (drop_bit s m)" if "s \<in> {24, 16, 8, 0}" for s
      using eq that by (auto simp: PutUint32_def)
    let ?s = "if 24 \<le> k then 24 else if 16 \<le> k then 16 else if 8 \<le> k then 8 else 0"
    have "bit (ucast (drop_bit ?s n) :: byte) (k - ?s) = bit (ucast (drop_bit ?s m) :: byte) (k - ?s)"
      by (subst *) simp_all
    moreover have "k - ?s < 8" "?s + (k - ?s) = k" using k by auto
    ultimately show "bit n k = bit m k" by (simp only: bit_ucast_iff bit_drop_bit_eq comp_def) simp
  qed
qed simp

fun nonces :: "byte list \<Rightarrow> 32 word \<Rightarrow> (byte list \<times> bool) list \<Rightarrow> byte list list" where
  "nonces pre i [] = []"
| "nonces pre i ((p, l) # ps) = nonceFor pre i l # nonces pre (i + 1) ps"

lemma length_nonces [simp]: "length (nonces pre i ps) = length ps"
  by (induction pre i ps rule: nonces.induct) simp_all

lemma nth_nonces: "j < length ps \<Longrightarrow> nonces pre i ps ! j = nonceFor pre (i + of_nat j) (snd (ps ! j))"
proof (induction pre i ps arbitrary: j rule: nonces.induct)
  case (2 pre i p l ps)
  then show ?case by (cases j) (simp_all add: add.assoc)
qed simp

lemma seal_list_nonces: "bytes_of (seal_list a pre i ps) = concat (map2 (Seal a) (nonces pre i ps) (map fst ps))"
  by (induction a pre i ps rule: seal_list.induct) (simp_all add: bytes_of_def)

lemma shaped_length: "shaped n ps \<Longrightarrow> (length ps - 1) * n \<le> length (bytes_of ps)"
proof (induction n ps rule: shaped.induct)
  case (3 n p l q ps)
  then show ?case by (cases q) (simp add: bytes_of_def)
qed simp_all

lemma distinct_nonces:
  assumes "length pre = 7" "length ps \<le> 2 ^ 32"
  shows "distinct (nonces pre 0 ps)"
  unfolding distinct_conv_nth
proof (intro allI impI)
  fix i j assume ij: "i < length (nonces pre 0 ps)" "j < length (nonces pre 0 ps)" "i \<noteq> j"
  then have "unat (of_nat i :: 32 word) \<noteq> unat (of_nat j :: 32 word)"
    using assms(2) by (simp add: unat_of_nat take_bit_nat_eq_self)
  then have "PutUint32 (of_nat i) \<noteq> PutUint32 (of_nat j)" by (auto simp: PutUint32_inject)
  moreover have "length (PutUint32 n) = 4" for n by (simp add: PutUint32_def)
  ultimately show "nonces pre 0 ps ! i \<noteq> nonces pre 0 ps ! j"
    using ij assms(1) by (simp add: nth_nonces nonceFor_def)
qed



section \<open>Nothing is cut off\<close>

text \<open>What \<open>Encrypt\<close> seals of the plaintext \<open>ys\<close>: each chunk with its nonce.\<close>

definition sealed :: "byte list \<Rightarrow> byte list \<Rightarrow> (byte list \<times> byte list) set" where
  "sealed pre ys = (let ps = fst (pieces chunkSize None ys) in {(nonces pre 0 ps ! j, fst (ps ! j)) | j. j < length ps})"

text \<open>
  The stream \<open>xs\<close> has no forged chunk: one that opens under a nonce is one \<open>Encrypt\<close> sealed under it, for one of the plaintexts
  \<open>D\<close>. This is what AES-GCM gives against someone who has the bucket and not the key.
\<close>

definition unforged :: "aead \<Rightarrow> (byte list \<times> byte list) set \<Rightarrow> byte list \<Rightarrow> bool" where
  "unforged a D xs \<longleftrightarrow> (\<forall>c \<in> fst ` set (fst (pieces (chunkSize + Overhead a) None (drop 7 xs))). \<forall>n p. length n = 12 \<longrightarrow>
     Open a n c = Some p \<longrightarrow> (\<exists>(pre, ys) \<in> D. (n, p) \<in> sealed pre ys))"

lemma shaped_flag: "shaped n ps \<Longrightarrow> j < length ps \<Longrightarrow> snd (ps ! j) \<longleftrightarrow> j = length ps - 1"
proof (induction n ps arbitrary: j rule: shaped.induct)
  case (3 n p l q ps)
  then show ?case by (cases j) auto
qed auto

lemma length_PutUint32 [simp]: "length (PutUint32 n) = 4"
  by (simp add: PutUint32_def)

lemma nonceFor_inject:
  "length pre = 7 \<Longrightarrow> length pre' = 7 \<Longrightarrow> nonceFor pre i l = nonceFor pre' j k \<longleftrightarrow> pre = pre' \<and> i = j \<and> l = k"
  by (auto simp: nonceFor_def PutUint32_inject)

lemma nth_seal_list: "j < length ps \<Longrightarrow> seal_list a pre i ps ! j = (Seal a (nonceFor pre (i + of_nat j) (snd (ps ! j))) (fst (ps ! j)), snd (ps ! j))"
proof (induction a pre i ps arbitrary: j rule: seal_list.induct)
  case (2 a pre i p l ps)
  then show ?case by (cases j) (simp_all add: add.assoc)
qed simp

lemma length_seal_list [simp]: "length (seal_list a pre i ps) = length ps"
  by (induction a pre i ps rule: seal_list.induct) simp_all

text \<open>Two streams whose chunks agree as long as both last are the same.\<close>

lemma shaped_same:
  assumes "shaped n ps" "shaped n qs" "\<And>j. j < length ps \<Longrightarrow> j < length qs \<Longrightarrow> ps ! j = qs ! j"
  shows "ps = qs"
proof -
  have "ps \<noteq> []" "qs \<noteq> []" using assms(1,2) by auto
  then obtain a b where ab: "length ps = Suc a" "length qs = Suc b" by (cases ps; cases qs) auto
  let ?j = "min a b"
  have j: "?j < length ps" "?j < length qs" using ab by auto
  have "?j = length ps - 1 \<longleftrightarrow> ?j = length qs - 1"
    using shaped_flag [OF assms(1) j(1)] shaped_flag [OF assms(2) j(2)] assms(3) [OF j] by simp
  then have "length ps = length qs" using ab by (auto simp: min_def split: if_splits)
  with assms(3) show ?thesis by (intro nth_equalityI) auto
qed


lemma plain_unforged:
  fixes ys :: "byte list"
  assumes "length pre = 7" "ys \<noteq> []" "length ys \<le> chunkSize"
  shows "unforged plain_aead {(pre, ys)} (encrypted plain_aead pre ys)"
proof -
  let ?n = "nonceFor pre 0 True"
  have ps: "pieces chunkSize None ys = ([(ys, True)], EOF)" using assms(2,3) by (subst pieces.simps) (simp add: chunkSize_def)
  have "pieces (chunkSize + Overhead plain_aead) None (bytes_of (seal_list plain_aead pre 0 [(ys, True)])) = (seal_list plain_aead pre 0 [(ys, True)], EOF)"
    using shaped_seal [OF plain_gcm_like, of chunkSize "[(ys, True)]" pre 0] assms(3)
    by (intro pieces_of_shaped) (auto simp: chunkSize_def Seal_nonempty [OF plain_gcm_like])
  then have cs: "fst (pieces (chunkSize + Overhead plain_aead) None (drop 7 (encrypted plain_aead pre ys))) = [(ys @ tag_of ?n, True)]"
    using assms(1) by (simp add: encrypted_def ps) (simp add: plain_aead_def)
  have tag: "length (tag_of n) = 16" for n by (simp add: tag_of_def)
  have "n = ?n \<and> p = ys" if "length n = 12" "Open plain_aead n (ys @ tag_of ?n) = Some p" for n p
  proof -
    have "tag_of ?n = tag_of n" "p = ys" using that(2) by (simp_all add: plain_aead_def tag split: if_splits)
    moreover have "length ?n = 12" using assms(1) by (simp add: nonceFor_def)
    ultimately show ?thesis using that(1) by (simp add: tag_of_def)
  qed
  then show ?thesis by (auto simp: unforged_def cs sealed_def Let_def ps)
qed


end
