(* ===== verification/BackupLaws.thy ===== *)
theory BackupLaws
  imports Backup CryptLaws SnapshotLaws GroupFrame
begin

text \<open>
  What a backup keeps: at every moment, whatever fails, the manifest in the bucket names only chains of sends that can be
  received. The laws of the object store, of \<open>btrfs send\<close> and \<open>receive\<close>, of gzip and of JSON are the hypotheses \<open>s3_like\<close>
  and \<open>codecs_ok\<close>.
\<close>

section \<open>The object store\<close>

text \<open>The object the parts \<open>ps\<close> of an upload make, when each has the tag the service gave.\<close>

fun assembled :: "(nat \<rightharpoonup> string \<times> byte list) \<Rightarrow> (nat \<times> string) list \<Rightarrow> byte list option" where
  "assembled up [] = Some []"
| "assembled up ((n, tag) # ps) =
     (case (up n, assembled up ps) of
        (Some (tag', buf), Some xs) \<Rightarrow> if tag' = tag then Some (buf @ xs) else None
      | _ \<Rightarrow> None)"

text \<open>
  \<open>objs\<close> are the objects of a state of the service, \<open>pend\<close> the parts of its uploads. Only \<open>finish\<close> and \<open>delete\<close> change an
  object, and only the one they name; a call that fails may have had its effect.
\<close>

definition s3_like :: "'b s3_service \<Rightarrow> ('b \<Rightarrow> string \<rightharpoonup> byte list) \<Rightarrow> ('b \<Rightarrow> string \<Rightarrow> nat \<rightharpoonup> string \<times> byte list) \<Rightarrow> bool" where
  "s3_like sv objs pend \<longleftrightarrow>
     (\<forall>key b r c. svStart sv key b = (r, c) \<longrightarrow> objs c = objs b \<and> (\<forall>up. r = Inr up \<longrightarrow> pend c up = Map.empty)) \<and>
     (\<forall>key up n buf b r c. svPart sv key up n buf b = (r, c) \<longrightarrow>
        objs c = objs b \<and> (\<forall>tag. r = Inr tag \<longrightarrow> pend c up = (pend b up)(n \<mapsto> (tag, buf)))) \<and>
     (\<forall>key up ps b r c. svFinish sv key up ps b = (r, c) \<longrightarrow>
        r \<noteq> Inr () \<and> objs c = objs b \<or> (\<exists>xs. assembled (pend b up) ps = Some xs \<and> objs c = (objs b)(key \<mapsto> xs))) \<and>
     (\<forall>key up b. objs (snd (svAbort sv key up b)) = objs b) \<and>
     (\<forall>key b r c. svGet sv key b = (r, c) \<longrightarrow> objs c = objs b \<and>
        (case r of Inr xs \<Rightarrow> objs b key = Some xs | Inl e \<Rightarrow> e = ErrNoObject \<longrightarrow> objs b key = None)) \<and>
     (\<forall>pre t b. objs (snd (svList sv pre t b)) = objs b) \<and>
     (\<forall>key b. objs (snd (svDelete sv key b)) \<in> {objs b, (objs b)(key := None)})"

lemma s3_like_start: "s3_like sv objs pend \<Longrightarrow> svStart sv key b = (r, c) \<Longrightarrow> objs c = objs b \<and> (\<forall>up. r = Inr up \<longrightarrow> pend c up = Map.empty)"
  unfolding s3_like_def by (elim conjE) metis

lemma s3_like_part:
  "s3_like sv objs pend \<Longrightarrow> svPart sv key up n buf b = (r, c) \<Longrightarrow>
   objs c = objs b \<and> (\<forall>tag. r = Inr tag \<longrightarrow> pend c up = (pend b up)(n \<mapsto> (tag, buf)))"
  unfolding s3_like_def by (elim conjE) metis

lemma s3_like_finish:
  "s3_like sv objs pend \<Longrightarrow> svFinish sv key up ps b = (r, c) \<Longrightarrow>
   r \<noteq> Inr () \<and> objs c = objs b \<or> (\<exists>xs. assembled (pend b up) ps = Some xs \<and> objs c = (objs b)(key \<mapsto> xs))"
  unfolding s3_like_def by blast

lemma s3_like_abort: "s3_like sv objs pend \<Longrightarrow> objs (snd (svAbort sv key up b)) = objs b"
  unfolding s3_like_def by blast

lemma s3_like_get:
  "s3_like sv objs pend \<Longrightarrow> svGet sv key b = (r, c) \<Longrightarrow> objs c = objs b \<and>
   (case r of Inr xs \<Rightarrow> objs b key = Some xs | Inl e \<Rightarrow> e = ErrNoObject \<longrightarrow> objs b key = None)"
  unfolding s3_like_def by blast

lemma s3_like_list: "s3_like sv objs pend \<Longrightarrow> objs (snd (svList sv pre t b)) = objs b"
  unfolding s3_like_def by blast

lemma s3_like_delete: "s3_like sv objs pend \<Longrightarrow> objs (snd (svDelete sv key b)) \<in> {objs b, (objs b)(key := None)}"
  unfolding s3_like_def by blast

lemma wp_request [wp_rules]:
  "wp (request f) Q E = (\<lambda>b. case f b of (Inl e, c) \<Rightarrow> E [S3Err e] c | (Inr x, c) \<Rightarrow> Q x c)"
  by (rule ext) (simp add: wp_def request_def split: prod.splits sum.splits)

lemma wp_s3_abort:
  "s3_like sv objs pend \<Longrightarrow> (\<And>c. objs c = objs b \<Longrightarrow> Q () c) \<Longrightarrow> wp (s3_abort sv key up) Q E b"
  using s3_like_abort [of sv objs pend key up b]
  by (auto simp: s3_abort_def wp_rules split: prod.splits sum.splits)

lemma assembled_append:
  "assembled up (ps @ [(n, tag)]) = (case (assembled up ps, up n) of
     (Some xs, Some (tag', buf)) \<Rightarrow> if tag' = tag then Some (xs @ buf) else None
   | _ \<Rightarrow> None)"
  by (induction ps) (auto split: option.splits)

lemma assembled_other: "\<forall>p \<in> set ps. fst p \<noteq> n \<Longrightarrow> assembled (up(n \<mapsto> x)) ps = assembled up ps"
  by (induction ps) (auto split: option.splits)

text \<open>The loop of \<open>Put\<close>: the parts make what the reader gave, and no object changes.\<close>

lemma put_parts_wp:
  "s3_like sv objs pend \<Longrightarrow> objs b = O1 \<Longrightarrow> assembled (pend b up) parts = Some xs \<Longrightarrow> \<forall>p \<in> set parts. fst p < n \<Longrightarrow>
    wp (put_parts sv key up n parts len r)
      (\<lambda>x c. objs c = O1 \<and> rErr r = None \<and> assembled (pend c up) (fst x) = Some (xs @ rData r)) (\<lambda>_ c. objs c = O1) b"
proof (induction sv key up n parts len r arbitrary: b xs rule: put_parts.induct)
  case (1 sv key up n parts len r)
  let ?buf = "take partSize (rData r)"
  have abort: "wp (bind_s (s3_abort sv key up) (\<lambda>_. raise e)) Q (\<lambda>_ c. objs c = O1) c"
    if "objs c = O1" for e c and Q :: "(nat \<times> string) list \<times> nat \<Rightarrow> 'a \<Rightarrow> bool"
    using wp_s3_abort [OF 1(2)] that by (auto simp: wp_bind wp_raise)
  consider (fail) "length ?buf < partSize" "rErr r \<noteq> None" | (stop) "\<not> (length ?buf < partSize \<and> rErr r \<noteq> None)" "?buf = []" "1 < n"
    | (part) "\<not> (length ?buf < partSize \<and> rErr r \<noteq> None)" "\<not> (?buf = [] \<and> 1 < n)" by blast
  then show ?case
  proof cases
    case fail
    have "put_parts sv key up n parts len r = bind_s (s3_abort sv key up) (\<lambda>_. raise [ReadFailed (the (rErr r))])"
      using fail by (subst put_parts.simps) (simp only: Let_def simp_thms if_True)
    then show ?thesis using abort [OF 1(3)] by simp
  next
    case stop
    then have "rData r = []" "rErr r = None" by (auto simp: partSize_def)
    with stop 1(3,4) show ?thesis by (subst put_parts.simps) (simp add: wp_rules)
  next
    case part
    have next_part: "wp (if length ?buf < partSize then ret (parts @ [(n, tag)], len + length ?buf)
          else put_parts sv key up (Suc n) (parts @ [(n, tag)]) (len + length ?buf) (r\<lparr>rData := drop partSize (rData r)\<rparr>))
        (\<lambda>x c. objs c = O1 \<and> rErr r = None \<and> assembled (pend c up) (fst x) = Some (xs @ rData r)) (\<lambda>_ c. objs c = O1) c"
      if c: "svPart sv key up n ?buf b = (Inr tag, c)" for tag c
    proof -
      have O: "objs c = O1" and up: "pend c up = (pend b up)(n \<mapsto> (tag, ?buf))" using s3_like_part [OF 1(2) c] 1(3) by auto
      have "assembled (pend c up) parts = Some xs" using assembled_other [of parts n] 1(4,5) up by fastforce
      then have as: "assembled (pend c up) (parts @ [(n, tag)]) = Some (xs @ ?buf)" by (simp add: assembled_append up)
      show ?thesis
      proof (cases "length ?buf < partSize")
        case True
        then have "?buf = rData r" by simp
        with True part as O show ?thesis by (simp add: wp_ret)
      next
        case False
        with 1(1) [OF refl refl part False 1(2) O as] 1(5) show ?thesis by (fastforce simp: less_Suc_eq)
      qed
    qed
    have eq: "put_parts sv key up n parts len r = bind_s (try_s (request (svPart sv key up n ?buf))) (\<lambda>a. case a of
          Inl e \<Rightarrow> bind_s (s3_abort sv key up) (\<lambda>_. raise e)
        | Inr tag \<Rightarrow>
            if length ?buf < partSize then ret (parts @ [(n, tag)], len + length ?buf)
            else put_parts sv key up (Suc n) (parts @ [(n, tag)]) (len + length ?buf) (r\<lparr>rData := drop partSize (rData r)\<rparr>))"
      using part by (subst put_parts.simps) (simp only: Let_def simp_thms if_False)
    obtain q c where q: "svPart sv key up n ?buf b = (q, c)" by fastforce
    have O: "objs c = O1" using s3_like_part [OF 1(2) q] 1(3) by simp
    show ?thesis
    proof (cases q)
      case (Inl e)
      show ?thesis unfolding eq wp_bind [of "try_s _"] wp_try wp_request q Inl using abort [OF O] by simp
    next
      case (Inr tag)
      show ?thesis unfolding eq wp_bind [of "try_s _"] wp_try wp_request q Inr using next_part [of tag c] q Inr by simp
    qed
  qed
qed

lemma S3_Put_wp:
  assumes "s3_like sv objs pend"
  shows "wp (S3_Put sv key r) (\<lambda>_ c. rErr r = None \<and> objs c = (objs b)(key \<mapsto> rData r))
    (\<lambda>_ c. objs c = objs b \<or> rErr r = None \<and> objs c = (objs b)(key \<mapsto> rData r)) b"
proof -
  have "wp (bind_s (put_parts sv key up 1 [] 0 r) (\<lambda>(parts, len).
     bind_s (try_s (request (svFinish sv key up parts))) (\<lambda>a. case a of
       Inl e \<Rightarrow> bind_s (s3_abort sv key up) (\<lambda>_. raise e)
     | Inr _ \<Rightarrow> ret len))) (\<lambda>_ c. rErr r = None \<and> objs c = (objs b)(key \<mapsto> rData r))
    (\<lambda>_ c. objs c = objs b \<or> rErr r = None \<and> objs c = (objs b)(key \<mapsto> rData r)) c"
    if c: "objs c = objs b" "pend c up = Map.empty" for up c
  proof -
    have "wp (put_parts sv key up 1 [] 0 r)
      (\<lambda>x c. objs c = objs b \<and> rErr r = None \<and> assembled (pend c up) (fst x) = Some (rData r)) (\<lambda>_ c. objs c = objs b) c"
      using put_parts_wp [OF assms c(1), of up "[]" "[]" 1 key 0 r] by simp
    then show ?thesis
      unfolding wp_bind
    proof (rule wp_mono)
      fix x d assume d: "objs d = objs b \<and> rErr r = None \<and> assembled (pend d up) (fst x) = Some (rData r)"
      obtain ps len where x: "x = (ps, len)" by fastforce
      obtain q e where q: "svFinish sv key up ps d = (q, e)" by fastforce
      have "objs (snd (s3_abort sv key up e)) = objs e" for e
        using wp_s3_abort [OF assms, of e "\<lambda>_ c. objs c = objs e" key up "\<lambda>_ c. objs c = objs e"] by (simp add: wp_snd)
      then show "wp (case x of (parts, len) \<Rightarrow> bind_s (try_s (request (svFinish sv key up parts))) (\<lambda>a. case a of
           Inl e \<Rightarrow> bind_s (s3_abort sv key up) (\<lambda>_. raise e) | Inr _ \<Rightarrow> ret len))
         (\<lambda>_ c. rErr r = None \<and> objs c = (objs b)(key \<mapsto> rData r))
         (\<lambda>_ c. objs c = objs b \<or> rErr r = None \<and> objs c = (objs b)(key \<mapsto> rData r)) d"
        using s3_like_finish [OF assms q] d q x
        by (cases q) (auto simp: wp_rules intro!: wp_s3_abort [OF assms])
    qed auto
  qed
  then show ?thesis using s3_like_start [OF assms] by (auto simp: S3_Put_def wp_bind [of "request _"] wp_request split: prod.splits sum.splits)
qed

section \<open>Uploads\<close>

text \<open>
  What the backup relies on: AES-GCM (as in \<open>CryptLaws\<close>), that JSON and gzip give back what they were given, and that \<open>btrfs
  receive\<close> of a send makes the snapshot that was sent, if its name is free and the parent is the one it was sent from.
\<close>

definition codecs_ok :: "backup_codecs \<Rightarrow> bool" where
  "codecs_ok cd \<longleftrightarrow>
     gcm_like (bcGcm cd (bcKey cd)) \<and> length (bcKey cd) = KeySize \<and>
     (\<forall>m. bcDecode cd (bcMarshal cd m) = Some m) \<and> (\<forall>xs. bcGunzip cd (bcGzip cd xs) = Some xs) \<and>
     (\<forall>x t S. S x = None \<longrightarrow> bcReceive cd (bcSend cd None x t) S = Some (S(x \<mapsto> t))) \<and>
     (\<forall>p u x t S. S p = Some u \<longrightarrow> S x = None \<longrightarrow> bcReceive cd (bcSend cd (Some (p, u)) x t) S = Some (S(x \<mapsto> t)))"

definition prefixes_ok :: "backup_world \<Rightarrow> bool" where
  "prefixes_ok w \<longleftrightarrow> (\<forall>n. length (bwRand w n) = 7)"

text \<open>\<open>k'\<close> is \<open>k\<close> but for the service and the number of commands.\<close>

definition aside :: "('d, 'b) backer \<Rightarrow> ('d, 'b) backer \<Rightarrow> bool" where
  "aside k k' \<longleftrightarrow> k' = k\<lparr>bkSvc := bkSvc k', bkN := bkN k'\<rparr>"

lemma aside_refl [simp]: "aside k k" "aside k (k\<lparr>bkN := n\<rparr>)" "aside k (k\<lparr>bkSvc := b\<rparr>)"
  by (simp_all add: aside_def)

lemma aside_trans: "aside k k' \<Longrightarrow> aside k' k'' \<Longrightarrow> aside k k''"
  by (cases k; cases k'; cases k'') (simp add: aside_def)

lemma aside_fields:
  "aside k k' \<Longrightarrow> bkGroup k' = bkGroup k" "aside k k' \<Longrightarrow> bkSv k' = bkSv k" "aside k k' \<Longrightarrow> bkCd k' = bkCd k"
  "aside k k' \<Longrightarrow> bkPrefix k' = bkPrefix k" "aside k k' \<Longrightarrow> bkWorld k' = bkWorld k" "aside k k' \<Longrightarrow> bkPages k' = bkPages k"
  by (cases k; cases k'; simp add: aside_def)+

lemma wp_command [wp_rules]:
  "wp command Q E = (\<lambda>k. if bwFail (bkWorld k) (bkN k) then E [CommandFailed (bkN k)] (k\<lparr>bkN := Suc (bkN k)\<rparr>)
     else Q (bkN k) (k\<lparr>bkN := Suc (bkN k)\<rparr>))"
  by (rule ext) (simp add: wp_def command_def)

lemma wp_on_s3 [wp_rules]:
  "wp (on_s3 f) Q E = (\<lambda>k. wp (f (bkSv k)) (\<lambda>x b. Q x (k\<lparr>bkSvc := b\<rparr>)) (\<lambda>e b. E e (k\<lparr>bkSvc := b\<rparr>)) (bkSvc k))"
  by (rule ext) (simp add: wp_def on_s3_def split: prod.splits sum.splits)

lemma Encrypt_failing:
  assumes "gcm_like (gcm key)" "length key = KeySize" "Encrypt gcm pre key \<lparr>rData = xs, rErr = Some n\<rparr> = Inr s"
  shows "\<exists>c. readAll sealer_Read (\<lambda>_. partSize) 0 s = Some (c, ReadErr n)"
proof -
  have s: "s = \<lparr>seAead = gcm key, sePrefix = pre, seChunks = newChunks \<lparr>rData = xs, rErr = Some n\<rparr> chunkSize, seI = 0, sePending = pre\<rparr>"
    using assms(2,3) by (simp add: Encrypt_def newAEAD_def KeySize_def)
  have "sealer_ok s" using assms(1) by (simp add: s sealer_ok_def chunks_ok_def newChunks_def chunkSize_def)
  then have "readAll sealer_Read (\<lambda>_. partSize) 0 s = Some (sealer_out s)" using sr.readAll_out by (simp add: partSize_def)
  moreover have "snd (sealer_out s) = ReadErr n"
    using pieces_failing [of chunkSize n xs] by (auto simp: s sealer_out_def chunks_out_def newChunks_def chunkSize_def split: prod.splits)
  ultimately show ?thesis by (cases "sealer_out s") simp
qed

lemma encrypt_all_wp:
  assumes "codecs_ok (bkCd k)" "prefixes_ok (bkWorld k)"
  shows "wp (encrypt_all r)
    (\<lambda>enc k'. aside k k' \<and> bkSvc k' = bkSvc k \<and> (rErr enc = None \<longrightarrow> rErr r = None \<and> decrypt_all (bkCd k) (rData enc) = Inr (rData r, EOF)))
    (\<lambda>_ k'. aside k k' \<and> bkSvc k' = bkSvc k) k"
proof -
  let ?cd = "bkCd k" and ?n = "bkN k"
  have gcm: "gcm_like (bcGcm ?cd (bcKey ?cd))" "length (bcKey ?cd) = KeySize" "length (bwRand (bkWorld k) ?n) = 7"
    using assms by (simp_all add: codecs_ok_def prefixes_ok_def)
  obtain s where s: "Encrypt (bcGcm ?cd) (bwRand (bkWorld k) ?n) (bcKey ?cd) r = Inr s"
    using gcm(2) by (simp add: Encrypt_def newAEAD_def KeySize_def)
  have "(\<exists>c. rErr r = None \<and> readAll sealer_Read (\<lambda>_. partSize) 0 s = Some (c, EOF) \<and> decrypt_all ?cd c = Inr (rData r, EOF))
    \<or> (\<exists>c n. readAll sealer_Read (\<lambda>_. partSize) 0 s = Some (c, ReadErr n))"
  proof (cases "rErr r")
    case None
    then have "r = \<lparr>rData = rData r, rErr = None\<rparr>" by simp
    with encrypted_opens [of "bcGcm ?cd" "bcKey ?cd" "bwRand (bkWorld k) ?n" "\<lambda>_. partSize" "\<lambda>_. partSize" "rData r"] gcm s
    obtain c t where "readAll sealer_Read (\<lambda>_. partSize) 0 s = Some (c, EOF)"
      "Decrypt (bcGcm ?cd) (bcKey ?cd) \<lparr>rData = c, rErr = None\<rparr> = Inr t" "readAll opener_Read (\<lambda>_. partSize) 0 t = Some (rData r, EOF)"
      by (auto simp: partSize_def)
    with None show ?thesis by (simp add: decrypt_all_def)
  next
    case (Some n)
    then have "r = \<lparr>rData = rData r, rErr = Some n\<rparr>" by simp
    with Encrypt_failing [of "bcGcm ?cd" "bcKey ?cd" "bwRand (bkWorld k) ?n" "rData r" n s] gcm(1,2) s show ?thesis by auto
  qed
  then show ?thesis by (auto simp: encrypt_all_def wp_rules s split: crypt_error.split)
qed

text \<open>An upload to \<open>key\<close>: it takes the place of the object, or nothing changes; a call that failed may have done either.\<close>

definition uploaded :: "(byte list \<Rightarrow> bool) \<Rightarrow> string \<Rightarrow> (string \<rightharpoonup> byte list) \<Rightarrow> (string \<rightharpoonup> byte list) \<Rightarrow> bool" where
  "uploaded P key O1 O2 \<longleftrightarrow> (\<exists>c. P c \<and> O2 = O1(key \<mapsto> c))"

lemma encrypted_put_wp:
  assumes "s3_like (bkSv k) objs pend" "codecs_ok (bkCd k)" "prefixes_ok (bkWorld k)"
  shows "wp (bind_s (encrypt_all r) (\<lambda>enc. on_s3 (\<lambda>sv. S3_Put sv key enc)))
    (\<lambda>_ k'. aside k k' \<and> rErr r = None \<and> uploaded (\<lambda>c. decrypt_all (bkCd k) c = Inr (rData r, EOF)) key (objs (bkSvc k)) (objs (bkSvc k')))
    (\<lambda>_ k'. aside k k' \<and> (objs (bkSvc k') = objs (bkSvc k)
      \<or> rErr r = None \<and> uploaded (\<lambda>c. decrypt_all (bkCd k) c = Inr (rData r, EOF)) key (objs (bkSvc k)) (objs (bkSvc k')))) k"
  unfolding wp_bind
proof (rule wp_mono [OF encrypt_all_wp [OF assms(2,3)]])
  fix enc :: reader and k1
  assume k1: "aside k k1 \<and> bkSvc k1 = bkSvc k \<and> (rErr enc = None \<longrightarrow> rErr r = None \<and> decrypt_all (bkCd k) (rData enc) = Inr (rData r, EOF))"
  then have sv: "bkSv k1 = bkSv k" by (simp add: aside_fields)
  have a: "aside k (k1\<lparr>bkSvc := b\<rparr>)" for b using k1 aside_trans by force
  show "wp (on_s3 (\<lambda>sv. S3_Put sv key enc))
    (\<lambda>_ k'. aside k k' \<and> rErr r = None \<and> uploaded (\<lambda>c. decrypt_all (bkCd k) c = Inr (rData r, EOF)) key (objs (bkSvc k)) (objs (bkSvc k')))
    (\<lambda>_ k'. aside k k' \<and> (objs (bkSvc k') = objs (bkSvc k)
      \<or> rErr r = None \<and> uploaded (\<lambda>c. decrypt_all (bkCd k) c = Inr (rData r, EOF)) key (objs (bkSvc k)) (objs (bkSvc k')))) k1"
    unfolding wp_on_s3 sv
    by (rule wp_mono [OF S3_Put_wp [OF assms(1)]]) (use k1 a in \<open>auto simp: uploaded_def\<close>)
qed auto

lemma uploaded_opened:
  "bcGunzip cd (bcGzip cd xs) = Some xs \<Longrightarrow> uploaded (\<lambda>c. decrypt_all cd c = Inr (bcGzip cd xs, EOF)) key O1 O2 \<Longrightarrow>
   uploaded (\<lambda>c. opened cd c = Some xs) key O1 O2"
  unfolding uploaded_def by (elim exE conjE) (auto simp: opened_def intro!: exI)

lemma put_wp:
  assumes "s3_like (bkSv k) objs pend" "codecs_ok (bkCd k)" "prefixes_ok (bkWorld k)"
  shows "wp (put key xs err)
    (\<lambda>_ k'. aside k k' \<and> err = None \<and> uploaded (\<lambda>c. opened (bkCd k) c = Some xs) key (objs (bkSvc k)) (objs (bkSvc k')))
    (\<lambda>_ k'. aside k k' \<and> (objs (bkSvc k') = objs (bkSvc k)
      \<or> err = None \<and> uploaded (\<lambda>c. opened (bkCd k) c = Some xs) key (objs (bkSvc k)) (objs (bkSvc k')))) k"
  using encrypted_put_wp [OF assms, of "\<lparr>rData = bcGzip (bkCd k) xs, rErr = err\<rparr>" key] assms(2)
  unfolding put_def wp_bind [of "gets _"] wp_gets
  by (elim wp_mono) (auto simp: uploaded_opened codecs_ok_def)

lemma save_wp:
  assumes "s3_like (bkSv k) objs pend" "codecs_ok (bkCd k)" "prefixes_ok (bkWorld k)"
  shows "wp (save m)
    (\<lambda>_ k'. aside k k' \<and> uploaded (\<lambda>c. decrypt_all (bkCd k) c = Inr (bcMarshal (bkCd k) m, EOF)) (manifest_key (bkPrefix k)) (objs (bkSvc k)) (objs (bkSvc k')))
    (\<lambda>_ k'. aside k k' \<and> (objs (bkSvc k') = objs (bkSvc k)
      \<or> uploaded (\<lambda>c. decrypt_all (bkCd k) c = Inr (bcMarshal (bkCd k) m, EOF)) (manifest_key (bkPrefix k)) (objs (bkSvc k)) (objs (bkSvc k')))) k"
proof -
  have "save m k = bind_s (bind_s (encrypt_all \<lparr>rData = bcMarshal (bkCd k) m, rErr = None\<rparr>) (\<lambda>enc. on_s3 (\<lambda>sv. S3_Put sv (manifest_key (bkPrefix k)) enc))) (\<lambda>_. ret ()) k"
    by (simp add: save_def bind_s_def gets_def split: prod.splits sum.splits)
  with encrypted_put_wp [OF assms, of "\<lparr>rData = bcMarshal (bkCd k) m, rErr = None\<rparr>" "manifest_key (bkPrefix k)"]
  show ?thesis by (auto simp: wp_def bind_s_def ret_def split: prod.splits sum.splits)
qed

end
