(* ===== verification/BackupSafety.thy ===== *)
theory BackupSafety
  imports BackupLaws StoreInvariant
begin

text \<open>
  The invariant of a backup: the manifest in the bucket, and the one the run builds, name sends that can be received. It is
  shown for every step of \<open>Once\<close>, so it holds wherever a run stops.
\<close>

section \<open>Manifests that can be restored\<close>

text \<open>The sends of a chain are in the bucket, each from the snapshot of the one before; \<open>ts\<close> are the trees.\<close>

fun sends_ok :: "backup_codecs \<Rightarrow> (string \<rightharpoonup> byte list) \<Rightarrow> (string \<times> node) option \<Rightarrow> Send list \<Rightarrow> node list \<Rightarrow> bool" where
  "sends_ok cd objs p [] ts \<longleftrightarrow> ts = []"
| "sends_ok cd objs p (sd # sds) ts \<longleftrightarrow>
     (\<exists>t us. ts = t # us \<and> (\<exists>c. objs (sdKey sd) = Some c \<and> opened cd c = Some (bcSend cd p (sdSnapshot sd) t)) \<and>
        sends_ok cd objs (Some (sdSnapshot sd, t)) sds us)"

text \<open>A time the clock has gone past.\<close>

definition past :: "int \<Rightarrow> store \<Rightarrow> bool" where
  "past t s \<longleftrightarrow> (\<forall>n \<ge> calls s. t < times (wld s) n)"

text \<open>
  An environment's chain. The snapshot of the last send, the parent of the next, is as it was sent while it is in the pool.
\<close>

definition chain_ok :: "backup_codecs \<Rightarrow> string \<Rightarrow> (string \<rightharpoonup> byte list) \<Rightarrow> string \<Rightarrow> Send list \<Rightarrow> store \<Rightarrow> bool" where
  "chain_ok cd pre objs i chain s \<longleftrightarrow>
     chain \<noteq> [] \<and> distinct (map sdSnapshot chain) \<and> (\<exists>ts. sends_ok cd objs None chain ts \<and> snap_tree i (sdSnapshot (last chain)) s \<in> {None, Some (last ts)}) \<and>
     (\<forall>sd \<in> set chain. sdKey sd = env_key pre i (sdSnapshot sd) \<and> (\<exists>t. sdSnapshot sd = snapPrefix @ Itoa t \<and> past t s))"

definition env_ok :: "backup_codecs \<Rightarrow> string \<Rightarrow> (string \<rightharpoonup> byte list) \<Rightarrow> store \<Rightarrow> string \<times> EnvBackup \<Rightarrow> bool" where
  "env_ok cd pre objs s x \<longleftrightarrow> IsLocal (ebWorkspace (snd x)) \<and> chain_ok cd pre objs (fst x) (ebChain (snd x)) s"

definition state_ok :: "backup_codecs \<Rightarrow> string \<Rightarrow> (string \<rightharpoonup> byte list) \<Rightarrow> store \<Rightarrow> string \<Rightarrow> bool" where
  "state_ok cd pre objs s key \<longleftrightarrow>
     key = [] \<or> (\<exists>t c. key = state_key pre t \<and> past t s \<and> objs key = Some c \<and> opened cd c \<noteq> None)"

definition manifest_ok :: "backup_codecs \<Rightarrow> string \<Rightarrow> (string \<rightharpoonup> byte list) \<Rightarrow> Manifest \<Rightarrow> store \<Rightarrow> bool" where
  "manifest_ok cd pre objs m s \<longleftrightarrow> state_ok cd pre objs s (mfState m) \<and> distinct (map fst (mfEnvs m)) \<and> (\<forall>x \<in> set (mfEnvs m). env_ok cd pre objs s x)"

text \<open>The manifest of a bucket.\<close>

definition stored :: "backup_codecs \<Rightarrow> string \<Rightarrow> (string \<rightharpoonup> byte list) \<Rightarrow> Manifest \<Rightarrow> bool" where
  "stored cd pre objs m \<longleftrightarrow> (case objs (manifest_key pre) of
     None \<Rightarrow> m = empty_manifest
   | Some c \<Rightarrow> (\<exists>plain e. decrypt_all cd c = Inr (plain, e) \<and> bcDecode cd plain = Some m))"

section \<open>Keys\<close>

lemma Itoa_inject [simp]: "Itoa a = Itoa b \<longleftrightarrow> a = b"
proof
  define val where "val s = (if hd s = CHR ''-'' then - int (digits_val (tl s)) else int (digits_val s))" for s
  have "hd (utoa n) \<noteq> CHR ''-''" for n using utoa_hd_digit [of n] by auto
  then have "val (Itoa c) = c" for c by (simp add: val_def Itoa_def)
  then show "Itoa a = Itoa b \<Longrightarrow> a = b" by metis
qed simp

lemma Itoa_no_slash: "CHR ''/'' \<notin> set (Itoa n)"
proof -
  have "CHR ''/'' \<notin> set (utoa m)" for m using utoa_digits [of m] by (auto simp: list_all_iff is_digit_code)
  then show ?thesis by (simp add: Itoa_def)
qed

lemma after_last: "c \<notin> set x \<Longrightarrow> c \<notin> set y \<Longrightarrow> a @ c # x = b @ c # y \<Longrightarrow> x = y"
proof -
  assume c: "c \<notin> set x" "c \<notin> set y" and eq: "a @ c # x = b @ c # y"
  have "takeWhile (\<lambda>d. d \<noteq> c) (rev (u @ c # z)) = rev z" if "c \<notin> set z" for u z
    using that by (auto simp: takeWhile_append takeWhile_eq_all_conv)
  with c have "rev x = rev y" using eq by metis
  then show "x = y" by simp
qed

lemma env_key_name:
  assumes "env_key pre i (snapPrefix @ Itoa a) = env_key pre j (snapPrefix @ Itoa b)"
  shows "a = b"
proof -
  have "(pre @ ''envs/'' @ i) @ CHR ''/'' # (snapPrefix @ Itoa a) = (pre @ ''envs/'' @ j) @ CHR ''/'' # (snapPrefix @ Itoa b)"
    using assms by (simp add: env_key_def)
  then have "snapPrefix @ Itoa a = snapPrefix @ Itoa b"
    by (rule after_last [rotated 2]) (use Itoa_no_slash in \<open>auto simp: snapPrefix_def\<close>)
  then show ?thesis by simp
qed

lemma keys_differ [simp]:
  "env_key pre i x \<noteq> manifest_key pre" "state_key pre t \<noteq> manifest_key pre" "env_key pre i x \<noteq> state_key pre t"
  "manifest_key pre \<noteq> env_key pre i x" "manifest_key pre \<noteq> state_key pre t" "state_key pre t \<noteq> env_key pre i x"
  "state_key pre t \<noteq> []"
  by (simp_all add: env_key_def manifest_key_def state_key_def)

lemma state_key_inject [simp]: "state_key pre a = state_key pre b \<longleftrightarrow> a = b"
  by (simp add: state_key_def)

text \<open>The objects a manifest names.\<close>

definition named :: "Manifest \<Rightarrow> string set" where
  "named m = {mfState m} \<union> {sdKey sd | i eb sd. (i, eb) \<in> set (mfEnvs m) \<and> sd \<in> set (ebChain eb)}"

lemma sends_ok_other:
  "(\<And>sd. sd \<in> set sds \<Longrightarrow> objs' (sdKey sd) = objs (sdKey sd)) \<Longrightarrow> sends_ok cd objs' p sds ts = sends_ok cd objs p sds ts"
  by (induction sds arbitrary: p ts) auto

lemma chain_ok_other:
  "chain_ok cd pre objs i chain s \<Longrightarrow> (\<And>sd. sd \<in> set chain \<Longrightarrow> objs' (sdKey sd) = objs (sdKey sd)) \<Longrightarrow> chain_ok cd pre objs' i chain s"
  using sends_ok_other [of chain objs' objs cd None] by (simp add: chain_ok_def)

lemma manifest_ok_other:
  assumes "manifest_ok cd pre objs m s" "\<And>key. key \<in> named m \<Longrightarrow> objs' key = objs key"
  shows "manifest_ok cd pre objs' m s"
proof -
  have "env_ok cd pre objs' s x" if "x \<in> set (mfEnvs m)" for x
  proof -
    have "objs' (sdKey sd) = objs (sdKey sd)" if "sd \<in> set (ebChain (snd x))" for sd
      using that \<open>x \<in> set (mfEnvs m)\<close> by (intro assms(2)) (cases x, auto simp: named_def)
    moreover have "env_ok cd pre objs s x" using assms(1) that by (simp add: manifest_ok_def)
    ultimately show ?thesis unfolding env_ok_def by (blast intro: chain_ok_other)
  qed
  with assms show ?thesis by (auto simp: manifest_ok_def state_ok_def named_def)
qed

lemma manifest_ok_upload:
  "manifest_ok cd pre objs m s \<Longrightarrow> key \<notin> named m \<Longrightarrow> manifest_ok cd pre (objs(key := v)) m s"
  by (erule manifest_ok_other) auto

text \<open>The keys a run makes are not those of a manifest, as its clock goes on.\<close>

lemma fresh_env_key:
  assumes "manifest_ok cd pre objs m s" "\<not> past t s"
  shows "env_key pre i (snapPrefix @ Itoa t) \<notin> named m"
proof
  assume n: "env_key pre i (snapPrefix @ Itoa t) \<in> named m"
  then consider "env_key pre i (snapPrefix @ Itoa t) = mfState m"
    | j eb sd where "(j, eb) \<in> set (mfEnvs m)" "sd \<in> set (ebChain eb)" "env_key pre i (snapPrefix @ Itoa t) = sdKey sd"
    unfolding named_def by auto
  then show False
  proof cases
    case 1
    then show ?thesis using assms(1) by (auto simp: manifest_ok_def state_ok_def env_key_def state_key_def)
  next
    case 2
    then have "env_ok cd pre objs s (j, eb)" using assms(1) by (auto simp: manifest_ok_def)
    with 2 obtain u where "sdKey sd = env_key pre j (snapPrefix @ Itoa u)" "past u s" by (auto simp: env_ok_def chain_ok_def)
    with 2 assms(2) show ?thesis by (metis env_key_name)
  qed
qed

lemma fresh_state_key:
  assumes "manifest_ok cd pre objs m s" "\<not> past t s"
  shows "state_key pre t \<notin> named m"
proof -
  have "env_ok cd pre objs s (j, eb)" if "(j, eb) \<in> set (mfEnvs m)" for j eb using assms(1) that by (auto simp: manifest_ok_def)
  then have "state_key pre t \<noteq> sdKey sd" if "(j, eb) \<in> set (mfEnvs m)" "sd \<in> set (ebChain eb)" for j eb sd
    using that by (fastforce simp: env_ok_def chain_ok_def)
  with assms show ?thesis by (auto simp: named_def manifest_ok_def state_ok_def)
qed

lemma manifest_key_fresh: "manifest_ok cd pre objs m s \<Longrightarrow> manifest_key pre \<notin> named m"
proof -
  assume m: "manifest_ok cd pre objs m s"
  then have "env_ok cd pre objs s (j, eb)" if "(j, eb) \<in> set (mfEnvs m)" for j eb using that by (auto simp: manifest_ok_def)
  then have "manifest_key pre \<noteq> sdKey sd" if "(j, eb) \<in> set (mfEnvs m)" "sd \<in> set (ebChain eb)" for j eb sd
    using that by (fastforce simp: env_ok_def chain_ok_def)
  with m show ?thesis by (auto simp: named_def manifest_ok_def state_ok_def) (simp add: manifest_key_def)
qed

section \<open>The pool\<close>

text \<open>
  Properties of the pool that only depend on the snapshots \<open>F\<close>, and that these go does not break: what a backup relies on.
\<close>

definition pool_inv :: "path \<Rightarrow> (string \<times> string) set \<Rightarrow> (store \<Rightarrow> bool) \<Rightarrow> bool" where
  "pool_inv r F I \<longleftrightarrow> (\<forall>s. I s \<longrightarrow> root s = r \<and> I (tick s) \<and> (\<forall>x. I (s\<lparr>db := x\<rparr>)) \<and>
     (\<forall>j y. I (s\<lparr>disk := upd (snapPath r j y) None (disk s)\<rparr>)) \<and>
     (\<forall>j y v. (j, y) \<notin> F \<longrightarrow> I (s\<lparr>disk := upd (snapPath r j y) v (disk s)\<rparr>)))"

lemma pool_inv_tick: "pool_inv r F I \<Longrightarrow> tick_inv I"
  by (simp add: pool_inv_def tick_inv_def)

lemma pool_inv_DeleteSnapshot: "pool_inv r F I \<Longrightarrow> keeps I (DeleteSnapshot i x)"
  by (rule keeps_DeleteSnapshot [where r = r]) (auto simp: pool_inv_def tick_inv_def removal_inv_def)

lemma keeps_checkFree: "tick_inv I \<Longrightarrow> keeps I checkFree"
proof -
  assume "tick_inv I"
  then have "keeps I sys_statfs" by (auto simp: keeps_def sys_statfs_def tick_inv_def split: option.split)
  then show ?thesis unfolding checkFree_def by (intro keeps_rules)
qed

lemma pool_inv_Prune: "pool_inv r F I \<Longrightarrow> keeps I (Prune i)"
  unfolding Prune_def prunePreRestores_def by (intro keeps_rules pool_inv_DeleteSnapshot [of r F] pool_inv_tick [of r F])

lemma pool_inv_Snapshot:
  assumes "pool_inv r F I" "(i, x) \<notin> F"
  shows "keeps I (Snapshot i x)"
proof -
  have t: "tick_inv I" by (rule pool_inv_tick [OF assms(1)])
  have w: "write_inv (snapPath r i x) I" using assms by (auto simp: write_inv_def pool_inv_def)
  have "keeps I (snapshot env x)" if "ID env = i" for env
    unfolding snapshot_def that
    by (rule keeps_gets_root [where r = r])
      (use assms(1) in \<open>auto simp: pool_inv_def intro!: keeps_rules keeps_snapshotSubvolume t w\<close>)
  moreover have "wp (Get i) (\<lambda>env s. I s \<and> ID env = i) (\<lambda>_. I) s" if "I s" for s
    using that t by (auto simp: Get_def wp_rules tick_inv_def env_of_def dest: q_Env_eID split: option.split)
  ultimately show ?thesis
    unfolding Snapshot_def by (intro keeps_rules keeps_bind_wp [where R = "\<lambda>env. ID env = i"] keeps_checkFree t) auto
qed

text \<open>A snapshot's place after another's is written, or it went.\<close>

lemma snap_tree_removed: "snap_tree i x (s\<lparr>disk := upd (snapPath (root s) j y) None (disk s)\<rparr>) \<in> {None, snap_tree i x s}"
proof (cases "(i, x) = (j, y)")
  case True
  then show ?thesis
    by (cases "has_parent (disk s) (snapPath (root s) j y)") (auto simp: snap_tree_def lookup_upd_eq upd_no_parent snapPath_def)
next
  case False
  then have "snapPath (root s) j y \<parallel> snapPath (root s) i x" by (auto simp: path_simps)
  then show ?thesis by (simp add: snap_tree_def lookup_upd_parallel)
qed

lemma snap_tree_written: "(i, x) \<noteq> (j, y) \<Longrightarrow> snap_tree i x (s\<lparr>disk := upd (snapPath (root s) j y) v (disk s)\<rparr>) = snap_tree i x s"
proof -
  assume "(i, x) \<noteq> (j, y)"
  then have "snapPath (root s) j y \<parallel> snapPath (root s) i x" by (auto simp: path_simps)
  then show ?thesis by (simp add: snap_tree_def lookup_upd_parallel)
qed

lemma snap_tree_simps [simp]: "snap_tree i x (tick s) = snap_tree i x s" "snap_tree i x (s\<lparr>db := y\<rparr>) = snap_tree i x s"
  by (simp_all add: snap_tree_def)

lemma past_simps [simp]: "past t s \<Longrightarrow> past t (tick s)" "past t (s\<lparr>db := y\<rparr>) = past t s" "past t (s\<lparr>disk := d\<rparr>) = past t s"
  by (simp_all add: past_def)

lemma chain_ok_state:
  assumes "chain_ok cd pre objs i chain s" "snap_tree i (sdSnapshot (last chain)) s' \<in> {None, snap_tree i (sdSnapshot (last chain)) s}"
    and "\<And>t. past t s \<Longrightarrow> past t s'"
  shows "chain_ok cd pre objs i chain s'"
  using assms unfolding chain_ok_def by fastforce

lemma pool_inv_chain:
  "pool_inv r {(i, sdSnapshot (last chain))} (\<lambda>s. root s = r \<and> chain_ok cd pre objs i chain s)"
proof -
  have "chain_ok cd pre objs i chain (s\<lparr>disk := upd (snapPath (root s) j y) None (disk s)\<rparr>)"
    if "chain_ok cd pre objs i chain s" for s j y
    by (rule chain_ok_state [OF that snap_tree_removed]) simp
  moreover have "chain_ok cd pre objs i chain (s\<lparr>disk := upd (snapPath (root s) j y) v (disk s)\<rparr>)"
    if "chain_ok cd pre objs i chain s" "(j, y) \<noteq> (i, sdSnapshot (last chain))" for s j y v
    by (rule chain_ok_state [OF that(1)]) (use that(2) snap_tree_written in auto)
  ultimately show ?thesis unfolding pool_inv_def by (auto intro: chain_ok_state)
qed

definition lasts :: "Manifest \<Rightarrow> (string \<times> string) set" where
  "lasts m = (\<lambda>x. (fst x, sdSnapshot (last (ebChain (snd x))))) ` set (mfEnvs m)"

lemma pool_inv_weaken: "pool_inv r F I \<Longrightarrow> F \<subseteq> G \<Longrightarrow> pool_inv r G I"
  unfolding pool_inv_def by blast

lemma pool_inv_conj: "pool_inv r F I \<Longrightarrow> pool_inv r F J \<Longrightarrow> pool_inv r F (\<lambda>s. I s \<and> J s)"
  unfolding pool_inv_def by simp

lemma pool_inv_manifest: "pool_inv r (lasts m) (\<lambda>s. root s = r \<and> manifest_ok cd pre objs m s)"
proof -
  have st: "state_ok cd pre objs s' key" if "state_ok cd pre objs s key" "\<And>t. past t s \<Longrightarrow> past t s'" for s s' key
    using that by (auto simp: state_ok_def)
  have "pool_inv r (lasts m) (\<lambda>s. root s = r \<and> chain_ok cd pre objs (fst x) (ebChain (snd x)) s)" if "x \<in> set (mfEnvs m)" for x
    using that by (intro pool_inv_weaken [OF pool_inv_chain]) (auto simp: lasts_def)
  then show ?thesis unfolding pool_inv_def manifest_ok_def env_ok_def by (auto intro: st)
qed

section \<open>Through the group\<close>

lemma keeps_gst_on_store: "keeps I m \<Longrightarrow> keeps (\<lambda>g. I (gst g)) (on_store m)"
  by (auto simp: keeps_def on_store_def split: prod.split sum.split)

lemma keeps_gst_do_change: "keeps (\<lambda>g. I (gst g)) fn \<Longrightarrow> keeps (\<lambda>g. I (gst g)) (do_change i fn)"
  unfolding do_change_def actorOf_def find_actor_def start_actor_def on_actor_def
  by (intro keeps_rules keeps_modify) simp_all

lemma group_DeleteSnapshot_keeps: "pool_inv r F I \<Longrightarrow> keeps (\<lambda>g. I (gst g)) (group_DeleteSnapshot i x)"
  unfolding group_DeleteSnapshot_def by (intro keeps_gst_do_change keeps_gst_on_store pool_inv_DeleteSnapshot)

lemma group_Snapshot_keeps: "pool_inv r F I \<Longrightarrow> (i, x) \<notin> F \<Longrightarrow> keeps (\<lambda>g. I (gst g)) (group_Snapshot i x False)"
  unfolding group_Snapshot_def if_False
  by (intro keeps_gst_do_change keeps_rules keeps_gst_on_store pool_inv_Snapshot [of r F] pool_inv_Prune [of r F])

lemma group_read_keeps: "pool_inv r F I \<Longrightarrow> keeps (\<lambda>g. I (gst g)) (on_store (Snapshots i))" "pool_inv r F I \<Longrightarrow> keeps (\<lambda>g. I (gst g)) (on_store List)"
  unfolding Snapshots_def by (intro keeps_gst_on_store keeps_rules pool_inv_tick; assumption)+

end
