(* ===== verification/BackupRun.thy ===== *)
theory BackupRun
  imports BackupSafety
begin

text \<open>
  The steps of \<open>Once\<close> and the invariant of \<open>BackupSafety\<close>.
\<close>

section \<open>The invariant of a run\<close>

text \<open>What does not change in a run.\<close>

record 'b run_params =
  rpObjs :: "'b \<Rightarrow> string \<rightharpoonup> byte list"
  rpPend :: "'b \<Rightarrow> string \<Rightarrow> nat \<rightharpoonup> string \<times> byte list"
  rpSv :: "'b s3_service"
  rpCd :: backup_codecs
  rpPre :: string
  rpWorld :: backup_world
  rpRoot :: path
  rpWld :: world

definition run_laws :: "'b run_params \<Rightarrow> bool" where
  "run_laws p \<longleftrightarrow> s3_like (rpSv p) (rpObjs p) (rpPend p) \<and> codecs_ok (rpCd p) \<and> prefixes_ok (rpWorld p) \<and> strict_mono (times (rpWld p))"

abbreviation bucket :: "'b run_params \<Rightarrow> ('d, 'b) backer \<Rightarrow> string \<rightharpoonup> byte list" where
  "bucket p k \<equiv> rpObjs p (bkSvc k)"

definition run_at :: "'b run_params \<Rightarrow> ('d, 'b) backer \<Rightarrow> bool" where
  "run_at p k \<longleftrightarrow> bkSv k = rpSv p \<and> bkCd k = rpCd p \<and> bkPrefix k = rpPre p \<and> bkWorld k = rpWorld p
     \<and> settings (rpRoot p) (rpWld p) (gst (bkGroup k))"

text \<open>A manifest that can be restored, and names nothing made at the time \<open>t\<close> for the times \<open>T\<close>.\<close>

definition fresh_in :: "string \<Rightarrow> int \<Rightarrow> Manifest \<Rightarrow> bool" where
  "fresh_in pre t m \<longleftrightarrow> (\<forall>i. env_key pre i (snapPrefix @ Itoa t) \<notin> named m \<and> (i, snapPrefix @ Itoa t) \<notin> lasts m) \<and> state_key pre t \<notin> named m"

definition good :: "'b run_params \<Rightarrow> int set \<Rightarrow> (string \<rightharpoonup> byte list) \<Rightarrow> store \<Rightarrow> Manifest \<Rightarrow> bool" where
  "good p T objs s m \<longleftrightarrow> manifest_ok (rpCd p) (rpPre p) objs m s \<and> (\<forall>t \<in> T. fresh_in (rpPre p) t m)"

text \<open>The bucket's manifest and those of \<open>Ms\<close> are good.\<close>

definition run_inv :: "'b run_params \<Rightarrow> int set \<Rightarrow> Manifest set \<Rightarrow> ('d, 'b) backer \<Rightarrow> bool" where
  "run_inv p T Ms k \<longleftrightarrow> run_at p k \<and> (\<forall>t \<in> T. past t (gst (bkGroup k))) \<and>
     (\<exists>mb. stored (rpCd p) (rpPre p) (bucket p k) mb \<and> (\<forall>m \<in> insert mb Ms. good p T (bucket p k) (gst (bkGroup k)) m))"

lemma run_inv_weaken: "run_inv p T Ms k \<Longrightarrow> T' \<subseteq> T \<Longrightarrow> Ms' \<subseteq> Ms \<Longrightarrow> run_inv p T' Ms' k"
  unfolding run_inv_def good_def by blast

lemma run_inv_weak: "run_inv p T Ms k \<Longrightarrow> run_inv p {} Ms k"
  by (erule run_inv_weaken) auto

lemma run_inv_less: "run_inv p T (insert m Ms) k \<Longrightarrow> run_inv p T Ms k"
  by (erule run_inv_weaken) auto

lemma run_at_aside: "run_at p k \<Longrightarrow> aside k k' \<Longrightarrow> run_at p k'"
  by (simp add: run_at_def aside_fields)

lemma run_inv_aside: "run_inv p T Ms k \<Longrightarrow> aside k k' \<Longrightarrow> bucket p k' = bucket p k \<Longrightarrow> run_inv p T Ms k'"
  by (auto simp: run_inv_def aside_fields run_at_aside)

lemma run_inv_command [simp]: "run_inv p T Ms (k\<lparr>bkN := n\<rparr>) = run_inv p T Ms k"
  by (simp add: run_inv_def run_at_def)

text \<open>An upload whose key no manifest names.\<close>

lemma run_inv_upload:
  assumes "run_inv p T Ms k" "aside k k'" "bucket p k' = (bucket p k)(key \<mapsto> c)" "key \<noteq> manifest_key (rpPre p)"
    and "\<And>m. fresh_in (rpPre p) t m \<Longrightarrow> key \<notin> named m" "t \<in> T"
  shows "run_inv p T Ms k'"
proof -
  obtain mb where mb: "stored (rpCd p) (rpPre p) (bucket p k) mb" "\<forall>m \<in> insert mb Ms. good p T (bucket p k) (gst (bkGroup k)) m"
    using assms(1) by (auto simp: run_inv_def)
  then have "\<forall>m \<in> insert mb Ms. good p T (bucket p k') (gst (bkGroup k')) m"
    using assms(2,3,5,6) by (auto simp: good_def aside_fields intro!: manifest_ok_upload)
  moreover have "stored (rpCd p) (rpPre p) (bucket p k') mb" using mb(1) assms(3,4) by (simp add: stored_def)
  ultimately show ?thesis using assms(1,2) by (auto simp: run_inv_def aside_fields run_at_aside)
qed

section \<open>Calls of the group\<close>

lemma pool_inv_good: "pool_inv r (lasts m) (\<lambda>s. root s = r \<and> good p T objs s m)"
  using pool_inv_manifest [of r m "rpCd p" "rpPre p" objs] unfolding pool_inv_def good_def by simp

lemma run_inv_on_group:
  assumes "\<And>F I. pool_inv (rpRoot p) F I \<Longrightarrow> (\<forall>t \<in> T. \<forall>i. (i, snapPrefix @ Itoa t) \<notin> F) \<Longrightarrow> keeps (\<lambda>g. I (gst g)) op"
  shows "keeps (run_inv p T Ms) (on_group op)"
  unfolding keeps_def
proof (intro allI impI)
  fix k :: "('b, 'a) backer" assume k: "run_inv p T Ms k"
  then obtain mb where mb: "stored (rpCd p) (rpPre p) (bucket p k) mb" "\<forall>m \<in> insert mb Ms. good p T (bucket p k) (gst (bkGroup k)) m"
    by (auto simp: run_inv_def)
  let ?I = "\<lambda>s. settings (rpRoot p) (rpWld p) s \<and> (\<forall>t \<in> T. past t s) \<and> (\<forall>m \<in> insert mb Ms. good p T (bucket p k) s m)"
  let ?F = "\<Union> (lasts ` insert mb Ms)"
  have one: "pool_inv (rpRoot p) ?F (\<lambda>s. root s = rpRoot p \<and> good p T (bucket p k) s m)" if "m \<in> insert mb Ms" for m
    using that by (intro pool_inv_weaken [OF pool_inv_good]) auto
  have "pool_inv (rpRoot p) ?F ?I"
    using one unfolding pool_inv_def by (auto simp: settings_def)
  moreover have "\<forall>t \<in> T. \<forall>i. (i, snapPrefix @ Itoa t) \<notin> ?F" using mb(2) by (fastforce simp: good_def fresh_in_def)
  ultimately have "keeps (\<lambda>g. ?I (gst g)) op" by (rule assms)
  moreover have "?I (gst (bkGroup k))" using k mb(2) by (simp add: run_inv_def run_at_def)
  ultimately have I: "?I (gst (snd (op (bkGroup k))))" by (auto simp: keeps_def)
  have s: "snd (on_group op k) = k\<lparr>bkGroup := snd (op (bkGroup k))\<rparr>" by (simp add: on_group_def split: prod.split sum.split)
  show "run_inv p T Ms (snd (on_group op k))"
    unfolding s run_inv_def using k I mb(1) by (auto simp: run_inv_def run_at_def)
qed

lemma run_inv_DeleteSnapshot: "keeps (run_inv p T Ms) (on_group (group_DeleteSnapshot i x))"
  by (rule run_inv_on_group) (rule group_DeleteSnapshot_keeps)

lemma run_inv_Snapshot: "t \<in> T \<Longrightarrow> keeps (run_inv p T Ms) (on_group (group_Snapshot i (snapPrefix @ Itoa t) False))"
  by (rule run_inv_on_group) (rule group_Snapshot_keeps, auto)

lemma run_inv_read:
  "keeps (run_inv p T Ms) (on_group (on_store (Snapshots i)))" "keeps (run_inv p T Ms) (on_group (on_store List))"
  by (rule run_inv_on_group, rule group_read_keeps, assumption)+

lemma fresh_in_now:
  assumes "manifest_ok cd pre objs m s" "t = times (wld s) (calls s)"
  shows "fresh_in pre t m"
proof -
  have p: "\<not> past t s" using assms(2) by (auto simp: past_def)
  have "(i, snapPrefix @ Itoa t) \<notin> lasts m" for i
  proof
    assume "(i, snapPrefix @ Itoa t) \<in> lasts m"
    then obtain eb where "(i, eb) \<in> set (mfEnvs m)" "sdSnapshot (last (ebChain eb)) = snapPrefix @ Itoa t" by (auto simp: lasts_def)
    moreover from this have c: "chain_ok cd pre objs i (ebChain eb) s" using assms(1) by (fastforce simp: manifest_ok_def env_ok_def)
    then have "last (ebChain eb) \<in> set (ebChain eb)" by (simp add: chain_ok_def)
    ultimately obtain u where "snapPrefix @ Itoa t = snapPrefix @ Itoa u" "past u s" using c unfolding chain_ok_def by metis
    then have "past t s" by simp
    with p show False ..
  qed
  with fresh_env_key [OF assms(1) p] fresh_state_key [OF assms(1) p] show ?thesis by (simp add: fresh_in_def)
qed

text \<open>The clock gives a time that no manifest has used.\<close>

lemma run_inv_clock:
  assumes "run_laws p" "run_inv p {} Ms k"
  shows "wp (on_group clock) (\<lambda>now k'. run_inv p {now} Ms k') (\<lambda>_. run_inv p {} Ms) k"
proof -
  let ?s = "gst (bkGroup k)"
  let ?now = "times (rpWld p) (calls ?s)"
  have w: "wld ?s = rpWld p" using assms(2) by (simp add: run_inv_def run_at_def settings_def)
  have past: "past ?now (tick ?s)" using assms(1) by (auto simp: past_def run_laws_def w strict_mono_less)
  have "good p {?now} objs (tick ?s) m" if "good p {} objs ?s m" for m objs
  proof -
    have "manifest_ok (rpCd p) (rpPre p) objs m (tick ?s)"
      using that pool_inv_manifest [of "root ?s" m "rpCd p" "rpPre p" objs] by (simp add: good_def pool_inv_def)
    with that w show ?thesis by (auto simp: good_def intro: fresh_in_now)
  qed
  then have "run_inv p {?now} Ms (k\<lparr>bkGroup := (bkGroup k)\<lparr>gst := tick ?s\<rparr>\<rparr>)"
    using assms(2) past by (auto simp: run_inv_def run_at_def)
  then show ?thesis by (simp add: wp_def on_group_def clock_def on_store_def time_now_def w)
qed

section \<open>A send\<close>

text \<open>A chain as the manifest that has it alone.\<close>

definition chain_only :: "string \<Rightarrow> Send list \<Rightarrow> Manifest" where
  "chain_only i chain = \<lparr>mfTime = 0, mfState = [], mfEnvs = [(i, \<lparr>ebWorkspace = ''w'', ebGeneration = 0, ebChain = chain\<rparr>)]\<rparr>"

lemma good_chain_only: "good p {} objs s (chain_only i chain) \<longleftrightarrow> chain_ok (rpCd p) (rpPre p) objs i chain s"
proof -
  have "IsLocal ''w''" by code_simp
  then show ?thesis by (simp add: good_def manifest_ok_def state_ok_def env_ok_def chain_only_def)
qed

lemma sends_ok_snoc:
  "sends_ok cd objs p chain ts \<Longrightarrow> objs (sdKey sd) = Some c \<Longrightarrow>
   opened cd c = Some (bcSend cd (if chain = [] then p else Some (sdSnapshot (last chain), last ts)) (sdSnapshot sd) t) \<Longrightarrow>
   sends_ok cd objs p (chain @ [sd]) (ts @ [t])"
proof (induction chain arbitrary: p ts)
  case (Cons sd' chain)
  then obtain u us where ts: "ts = u # us" and us: "sends_ok cd objs (Some (sdSnapshot sd', u)) chain us"
    and c: "\<exists>c. objs (sdKey sd') = Some c \<and> opened cd c = Some (bcSend cd p (sdSnapshot sd') u)" by auto
  have e: "us = [] \<longleftrightarrow> chain = []" using us by (cases chain) auto
  have "sends_ok cd objs (Some (sdSnapshot sd', u)) (chain @ [sd]) (us @ [t])"
    using Cons.prems(2,3) ts e by (intro Cons.IH [OF us]) (auto split: if_splits)
  with c ts show ?case by auto
qed auto

text \<open>The chain after a send from \<open>parent\<close>.\<close>

definition next_chain :: "Send list \<Rightarrow> string option \<Rightarrow> Send \<Rightarrow> Send list" where
  "next_chain chain parent sd = (case parent of None \<Rightarrow> [sd] | Some _ \<Rightarrow> chain @ [sd])"

definition parent_of :: "Send list \<Rightarrow> string option \<Rightarrow> bool" where
  "parent_of chain parent \<longleftrightarrow> parent = None \<or> chain \<noteq> [] \<and> parent = Some (sdSnapshot (last chain))"

lemma chain_ok_sent:
  assumes "parent_of chain parent" "parent \<noteq> None \<Longrightarrow> chain_ok cd pre objs i chain s"
    and "snap_tree i x s = Some tree" "parent_tree i parent s = Some from"
    and "objs' = objs(key \<mapsto> c)" "opened cd c = Some (bcSend cd from x tree)" "key = env_key pre i x" "x = snapPrefix @ Itoa t" "past t s"
    and "\<And>sd. sd \<in> set chain \<Longrightarrow> parent \<noteq> None \<Longrightarrow> sdKey sd \<noteq> key"
  shows "chain_ok cd pre objs' i (next_chain chain parent \<lparr>sdSnapshot = x, sdKey = key, sdSize = n\<rparr>) s"
proof (cases parent)
  case None
  then show ?thesis using assms(3-9) by (auto simp: next_chain_def chain_ok_def parent_tree_def)
next
  case (Some q)
  let ?sd = "\<lparr>sdSnapshot = x, sdKey = key, sdSize = n\<rparr>"
  have c: "chain_ok cd pre objs i chain s" using assms(2) Some by simp
  then obtain ts where ts: "sends_ok cd objs None chain ts" "snap_tree i q s \<in> {None, Some (last ts)}"
    using assms(1) Some by (auto simp: chain_ok_def parent_of_def)
  have "sends_ok cd objs' None chain ts" using sends_ok_other [of chain objs' objs] assms(5,10) Some ts(1) by simp
  moreover have "from = Some (sdSnapshot (last chain), last ts)" "chain \<noteq> []"
    using assms(1,4) Some ts(2) by (auto simp: parent_tree_def parent_of_def)
  ultimately have "sends_ok cd objs' None (chain @ [?sd]) (ts @ [tree])"
    using assms(5,6) by (intro sends_ok_snoc [where c = c]) auto
  moreover have "\<forall>sd \<in> set (chain @ [?sd]). sdKey sd = env_key pre i (sdSnapshot sd) \<and> (\<exists>t. sdSnapshot sd = snapPrefix @ Itoa t \<and> past t s)"
    using c assms(7-9) by (auto simp: chain_ok_def)
  moreover have "distinct (map sdSnapshot (chain @ [?sd]))" using c assms(7,10) Some by (auto simp: chain_ok_def)
  ultimately show ?thesis using Some assms(3) unfolding next_chain_def chain_ok_def by auto
qed

lemma put_keeps:
  assumes "run_laws p" "run_inv p {t} Ms k" "key \<noteq> manifest_key (rpPre p)" "\<And>m. fresh_in (rpPre p) t m \<Longrightarrow> key \<notin> named m"
  shows "wp (put key xs err)
    (\<lambda>_ k'. run_inv p {t} Ms k' \<and> bkGroup k' = bkGroup k \<and> err = None
       \<and> uploaded (\<lambda>c. opened (rpCd p) c = Some xs) key (bucket p k) (bucket p k'))
    (\<lambda>_ k'. run_inv p {t} Ms k' \<and> bkGroup k' = bkGroup k) k"
proof -
  have k: "bkSv k = rpSv p" "bkCd k = rpCd p" "bkWorld k = rpWorld p" using assms(2) by (simp_all add: run_inv_def run_at_def)
  have up: "run_inv p {t} Ms k'" if "aside k k'" "uploaded P key (bucket p k) (bucket p k')" for k' P
    using that run_inv_upload [OF assms(2) that(1) _ assms(3,4)] by (auto simp: uploaded_def)
  have "wp (put key xs err)
    (\<lambda>_ k'. aside k k' \<and> err = None \<and> uploaded (\<lambda>c. opened (rpCd p) c = Some xs) key (bucket p k) (bucket p k'))
    (\<lambda>_ k'. aside k k' \<and> (bucket p k' = bucket p k \<or> err = None \<and> uploaded (\<lambda>c. opened (rpCd p) c = Some xs) key (bucket p k) (bucket p k'))) k"
    using put_wp [of k "rpObjs p" "rpPend p" key xs err] assms(1) k by (simp add: run_laws_def)
  then show ?thesis
    by (rule wp_mono) (auto simp: aside_fields intro: up run_inv_aside [OF assms(2)])
qed

lemma send_keeps:
  assumes "run_laws p" "run_inv p {t} Ms k" "parent_of chain parent" "parent \<noteq> None \<Longrightarrow> chain_only i chain \<in> Ms"
    and "x = snapPrefix @ Itoa t" "key = env_key (rpPre p) i x"
  shows "wp (send_snapshot i x parent key)
    (\<lambda>n k'. run_inv p {} (insert (chain_only i (next_chain chain parent \<lparr>sdSnapshot = x, sdKey = key, sdSize = n\<rparr>)) Ms) k')
    (\<lambda>_. run_inv p {} Ms) k"
proof -
  let ?k = "k\<lparr>bkN := Suc (bkN k)\<rparr>"
  have k: "run_inv p {t} Ms ?k" using assms(2) by simp
  have key: "key \<noteq> manifest_key (rpPre p)" "\<And>m. fresh_in (rpPre p) t m \<Longrightarrow> key \<notin> named m"
    using assms(5,6) by (auto simp: fresh_in_def)
  have cd: "bkCd k = rpCd p" using assms(2) by (simp add: run_inv_def run_at_def)
  let ?s = "gst (bkGroup k)"
  have sent: "wp (put key (bcSend (rpCd p) from x tree) None)
      (\<lambda>n k'. run_inv p {} (insert (chain_only i (next_chain chain parent \<lparr>sdSnapshot = x, sdKey = key, sdSize = n\<rparr>)) Ms) k')
      (\<lambda>_. run_inv p {} Ms) ?k"
    if tree: "snap_tree i x ?s = Some tree" "parent_tree i parent ?s = Some from" for tree "from"
  proof (rule wp_mono [OF put_keeps [OF assms(1) k key]])
    fix n k'
    assume k': "run_inv p {t} Ms k' \<and> bkGroup k' = bkGroup ?k \<and> None = None
      \<and> uploaded (\<lambda>c. opened (rpCd p) c = Some (bcSend (rpCd p) from x tree)) key (bucket p ?k) (bucket p k')"
    then obtain c where c: "opened (rpCd p) c = Some (bcSend (rpCd p) from x tree)" "bucket p k' = (bucket p k)(key \<mapsto> c)"
      by (auto simp: uploaded_def)
    have old: "chain_ok (rpCd p) (rpPre p) (bucket p k) i chain ?s" and fresh: "sd \<in> set chain \<Longrightarrow> sdKey sd \<noteq> key" if "parent \<noteq> None" for sd
    proof -
      have g: "good p {t} (bucket p k) ?s (chain_only i chain)" using assms(2,4) that by (auto simp: run_inv_def)
      then show "chain_ok (rpCd p) (rpPre p) (bucket p k) i chain ?s" using good_chain_only [of p] by (auto simp: good_def)
      show "sdKey sd \<noteq> key" if "sd \<in> set chain"
      proof -
        have "sdKey sd \<in> named (chain_only i chain)" using that by (auto simp: named_def chain_only_def)
        then show ?thesis using g key(2) by (auto simp: good_def)
      qed
    qed
    have "chain_ok (rpCd p) (rpPre p) (bucket p k') i (next_chain chain parent \<lparr>sdSnapshot = x, sdKey = key, sdSize = n\<rparr>) ?s"
      using assms(2) by (intro chain_ok_sent [OF assms(3) old tree c(2,1) assms(6,5)] fresh) (simp_all add: run_inv_def)
    then have "good p {} (bucket p k') (gst (bkGroup k')) (chain_only i (next_chain chain parent \<lparr>sdSnapshot = x, sdKey = key, sdSize = n\<rparr>))"
      using k' by (simp add: good_chain_only)
    moreover have "run_inv p {} Ms k'" using k' by (auto intro: run_inv_weak)
    ultimately show "run_inv p {} (insert (chain_only i (next_chain chain parent \<lparr>sdSnapshot = x, sdKey = key, sdSize = n\<rparr>)) Ms) k'"
      by (auto simp: run_inv_def)
  qed (auto intro: run_inv_weak)
  have cut: "wp (bind_s (put key junk None) (\<lambda>_. raise [CommandFailed 0])) Q (\<lambda>_. run_inv p {} Ms) ?k"
    for junk and Q :: "nat \<Rightarrow> ('b, 'a) backer \<Rightarrow> bool"
    unfolding wp_bind wp_raise by (rule wp_mono [OF put_keeps [OF assms(1) k key]]) (auto intro: run_inv_weak)
  show ?thesis
    using sent cut unfolding send_snapshot_def
    by (auto simp: wp_bind [of "gets _"] wp_bind [of "try_s _"] wp_gets wp_try wp_command cd split: option.split)
qed

section \<open>An environment\<close>

lemma keeps_run_command: "keeps (run_inv p T Ms) command"
  by (simp add: keeps_def command_def)

lemma keeps_generation: "keeps (run_inv p T Ms) generation"
  unfolding generation_def by (intro keeps_rules keeps_run_command)

text \<open>A backup that is new in the run: its chain is among \<open>Ms\<close>.\<close>

definition backed :: "'b run_params \<Rightarrow> Manifest set \<Rightarrow> string \<Rightarrow> EnvBackup \<Rightarrow> ('d, 'b) backer \<Rightarrow> bool" where
  "backed p Ms i eb k \<longleftrightarrow> IsLocal (ebWorkspace eb) \<and> run_inv p {} (insert (chain_only i (ebChain eb)) Ms) k"

lemma env_done_keeps:
  assumes "run_inv p {} (insert (chain_only (ID e) (next_chain (ebChain eb) parent sd)) Ms) k"
  shows "wp (env_done e eb parent sd) (\<lambda>eb' k'. backed p Ms (ID e) eb' k') (\<lambda>_. run_inv p {} Ms) k"
proof -
  let ?I = "run_inv p {} (insert (chain_only (ID e) (next_chain (ebChain eb) parent sd)) Ms)"
  have less: "run_inv p {} Ms k" if "?I k" for k using that by (rule run_inv_less)
  have rest: "wp (bind_s (gets (\<lambda>k. root (gst (bkGroup k)))) (\<lambda>pool. case Rel (True, pool) (True, Workspace e) of
         None \<Rightarrow> raise [NotInPool]
       | Some rel \<Rightarrow> if \<not> IsLocal (rel_text rel) then raise [NotInPool]
           else ret \<lparr>ebWorkspace = rel_text rel, ebGeneration = taken, ebChain = next_chain (ebChain eb) parent sd\<rparr>))
       (\<lambda>eb' k'. backed p Ms (ID e) eb' k') (\<lambda>_. run_inv p {} Ms) k" if "?I k" for k taken
    using that less by (auto simp: wp_rules backed_def split: option.split)
  have chain: "wp (case parent of None \<Rightarrow> ret [sd]
       | Some q \<Rightarrow> bind_s (try_s (on_group (group_DeleteSnapshot (ID e) q))) (\<lambda>_. ret (ebChain eb @ [sd])))
      (\<lambda>chain k. ?I k \<and> chain = next_chain (ebChain eb) parent sd) (\<lambda>_. run_inv p {} Ms) k" if "?I k" for k
  proof (cases parent)
    case (Some q)
    have "wp (on_group (group_DeleteSnapshot (ID e) q)) (\<lambda>_. ?I) (\<lambda>_. ?I) k" using keeps_wpD [OF run_inv_DeleteSnapshot that] .
    then show ?thesis unfolding Some by (auto simp: wp_rules next_chain_def elim!: wp_mono)
  qed (use that in \<open>simp add: wp_rules next_chain_def\<close>)
  show ?thesis
    unfolding env_done_def
    by (rule wp_keeps_bind [OF keeps_generation assms])
      (auto simp: wp_bind [of "case_option _ _ _"] intro!: wp_mono [OF chain] rest less)
qed

lemma backup_env_keeps:
  assumes "run_laws p" "run_inv p {} Ms k" "ebChain eb \<noteq> [] \<Longrightarrow> IsLocal (ebWorkspace eb) \<and> chain_only (ID e) (ebChain eb) \<in> Ms"
  shows "wp (backup_env e eb) (\<lambda>eb' k'. backed p Ms (ID e) eb' k') (\<lambda>_. run_inv p {} Ms) k"
proof -
  let ?I = "run_inv p {} Ms" and ?Q = "\<lambda>eb' k'. backed p Ms (ID e) eb' k'"
  have taken: "wp (bind_s (gets bkPrefix) (\<lambda>pre.
         let name = snapPrefix @ Itoa now; key = env_key pre (ID e) name in
         bind_s (on_group (group_Snapshot (ID e) name False)) (\<lambda>_.
         bind_s (try_s (send_snapshot (ID e) name parent key)) (\<lambda>r. case r of
           Inl err \<Rightarrow> bind_s (try_s (on_group (group_DeleteSnapshot (ID e) name))) (\<lambda>_. raise err)
         | Inr n \<Rightarrow> env_done e eb parent \<lparr>sdSnapshot = name, sdKey = key, sdSize = n\<rparr>)))) ?Q (\<lambda>_. ?I) k"
    if k: "run_inv p {now} Ms k" and par: "parent_of (ebChain eb) parent" for k now parent
  proof -
    let ?name = "snapPrefix @ Itoa now"
    have pre: "bkPrefix k = rpPre p" using k by (simp add: run_inv_def run_at_def)
    have Ms: "parent \<noteq> None \<Longrightarrow> chain_only (ID e) (ebChain eb) \<in> Ms" using par assms(3) by (auto simp: parent_of_def)
    have del: "wp (bind_s (try_s (on_group (group_DeleteSnapshot (ID e) ?name))) (\<lambda>_. raise err)) ?Q (\<lambda>_. ?I) k" if "?I k" for k err
      using keeps_wpD [OF run_inv_DeleteSnapshot that, of "ID e" ?name] by (simp add: wp_rules)
    have "wp (bind_s (try_s (send_snapshot (ID e) ?name parent (env_key (rpPre p) (ID e) ?name))) (\<lambda>r. case r of
           Inl err \<Rightarrow> bind_s (try_s (on_group (group_DeleteSnapshot (ID e) ?name))) (\<lambda>_. raise err)
         | Inr n \<Rightarrow> env_done e eb parent \<lparr>sdSnapshot = ?name, sdKey = env_key (rpPre p) (ID e) ?name, sdSize = n\<rparr>)) ?Q (\<lambda>_. ?I) k"
      if "run_inv p {now} Ms k" for k
      unfolding wp_bind [of "try_s _"] wp_try
      by (rule wp_mono [OF send_keeps [OF assms(1) that par Ms refl refl]]) (auto intro: env_done_keeps del)
    then show ?thesis
      unfolding wp_bind [of "gets _"] wp_gets Let_def pre
      by (intro wp_keeps_bind [OF run_inv_Snapshot k]) (auto intro: run_inv_weak)
  qed
  have left: "keeps ?I (delete_leftovers i q snaps)" for i q snaps
    unfolding delete_leftovers_def by (intro keeps_rules run_inv_DeleteSnapshot)
  have sent: "wp (bind_s (on_group (on_store (Snapshots (ID e)))) (\<lambda>snaps. let parent = chain_parent eb in
         bind_s (delete_leftovers (ID e) parent snaps) (\<lambda>_.
         let parent = (if parent \<in> Some ` own_snapshots (map fst snaps) then parent else None) in
         bind_s (on_group clock) (\<lambda>now. bind_s (gets bkPrefix) (\<lambda>pre.
         let name = snapPrefix @ Itoa now; key = env_key pre (ID e) name in
         bind_s (on_group (group_Snapshot (ID e) name False)) (\<lambda>_.
         bind_s (try_s (send_snapshot (ID e) name parent key)) (\<lambda>r. case r of
           Inl err \<Rightarrow> bind_s (try_s (on_group (group_DeleteSnapshot (ID e) name))) (\<lambda>_. raise err)
         | Inr n \<Rightarrow> env_done e eb parent \<lparr>sdSnapshot = name, sdKey = key, sdSize = n\<rparr>))))))) ?Q (\<lambda>_. ?I) k" if "?I k" for k
  proof (rule wp_keeps_bind [OF run_inv_read(1) that], goal_cases)
    case (1 snaps k1)
    show ?case
      unfolding Let_def [of "chain_parent eb"]
    proof (rule wp_keeps_bind [OF left 1], goal_cases)
      case (1 _ k2)
      let ?parent = "if chain_parent eb \<in> Some ` own_snapshots (map fst snaps) then chain_parent eb else None"
      have "parent_of (ebChain eb) ?parent" by (auto simp: parent_of_def chain_parent_def Let_def)
      then show ?case
        unfolding Let_def [of ?parent] wp_bind [of "on_group clock"] by (intro wp_mono [OF run_inv_clock [OF assms(1) 1]] taken)
    qed
  qed
  show ?thesis
    unfolding backup_env_def
  proof (rule wp_keeps_bind [OF keeps_generation assms(2)], goal_cases)
    case (1 gen k1)
    then show ?case using sent assms(3) by (auto simp: wp_ret backed_def insert_absorb)
  qed
qed

section \<open>The manifest\<close>

text \<open>The bucket has the manifest \<open>m\<close>.\<close>

definition saved :: "'b run_params \<Rightarrow> Manifest \<Rightarrow> ('d, 'b) backer \<Rightarrow> bool" where
  "saved p m k \<longleftrightarrow> run_at p k \<and> stored (rpCd p) (rpPre p) (bucket p k) m \<and> good p {} (bucket p k) (gst (bkGroup k)) m"

lemma saved_run_inv: "saved p m k \<Longrightarrow> run_inv p {} {m} k"
  by (auto simp: saved_def run_inv_def)

lemma save_uploaded:
  assumes "run_laws p" "run_inv p {} Ms k" "m \<in> Ms" "aside k k'"
    and "uploaded (\<lambda>c. decrypt_all (rpCd p) c = Inr (bcMarshal (rpCd p) m, EOF)) (manifest_key (rpPre p)) (bucket p k) (bucket p k')"
  shows "saved p m k' \<and> run_inv p {} Ms k'"
proof -
  obtain c where c: "decrypt_all (rpCd p) c = Inr (bcMarshal (rpCd p) m, EOF)" "bucket p k' = (bucket p k)(manifest_key (rpPre p) \<mapsto> c)"
    using assms(5) by (auto simp: uploaded_def)
  have "good p {} (bucket p k') (gst (bkGroup k')) m'" if "m' \<in> Ms" for m'
  proof -
    have "manifest_ok (rpCd p) (rpPre p) (bucket p k) m' (gst (bkGroup k))" using assms(2) that by (auto simp: run_inv_def good_def)
    then show ?thesis using manifest_key_fresh manifest_ok_upload c(2) assms(4) by (simp add: good_def aside_fields)
  qed
  moreover have "stored (rpCd p) (rpPre p) (bucket p k') m" using c assms(1) by (simp add: stored_def run_laws_def codecs_ok_def)
  moreover have "run_at p k'" using assms(2,4) run_at_aside by (auto simp: run_inv_def)
  ultimately show ?thesis using assms(3) by (auto simp: saved_def run_inv_def)
qed

lemma save_keeps:
  assumes "run_laws p" "run_inv p {} Ms k" "m \<in> Ms"
  shows "wp (save m) (\<lambda>_ k'. saved p m k' \<and> run_inv p {} Ms k') (\<lambda>_. run_inv p {} Ms) k"
proof -
  have k: "bkSv k = rpSv p" "bkCd k = rpCd p" "bkPrefix k = rpPre p" "bkWorld k = rpWorld p"
    using assms(2) by (simp_all add: run_inv_def run_at_def)
  let ?up = "\<lambda>k'. uploaded (\<lambda>c. decrypt_all (rpCd p) c = Inr (bcMarshal (rpCd p) m, EOF)) (manifest_key (rpPre p)) (bucket p k) (bucket p k')"
  have "wp (save m) (\<lambda>_ k'. aside k k' \<and> ?up k') (\<lambda>_ k'. aside k k' \<and> (bucket p k' = bucket p k \<or> ?up k')) k"
    using save_wp [of k "rpObjs p" "rpPend p" m] assms(1) k by (simp add: run_laws_def)
  then show ?thesis
    by (rule wp_mono) (use save_uploaded [OF assms] run_inv_aside [OF assms(2)] in auto)
qed

lemma stored_unique: "stored cd pre objs m \<Longrightarrow> stored cd pre objs m' \<Longrightarrow> m = m'"
  by (auto simp: stored_def split: option.splits)

lemma manifest_keeps:
  assumes "run_laws p" "run_inv p {} {} k"
  shows "wp manifest (\<lambda>m. run_inv p {} {m}) (\<lambda>_. run_inv p {} {}) k"
proof -
  let ?key = "manifest_key (rpPre p)"
  have k: "bkSv k = rpSv p" "bkCd k = rpCd p" "bkPrefix k = rpPre p" using assms(2) by (simp_all add: run_inv_def run_at_def)
  obtain r b where r: "svGet (rpSv p) ?key (bkSvc k) = (r, b)" by fastforce
  have g: "rpObjs p b = bucket p k" "case r of Inr xs \<Rightarrow> bucket p k ?key = Some xs | Inl e \<Rightarrow> e = ErrNoObject \<longrightarrow> bucket p k ?key = None"
    using s3_like_get [OF _ r, of "rpObjs p" "rpPend p"] assms(1) by (auto simp: run_laws_def)
  have I: "run_inv p {} {} (k\<lparr>bkSvc := b\<rparr>)" using run_inv_aside [OF assms(2)] g(1) by simp
  have M: "run_inv p {} {m} (k\<lparr>bkSvc := b\<rparr>)" if m: "stored (rpCd p) (rpPre p) (bucket p k) m" for m
    using I g(1) stored_unique [OF m] by (auto simp: run_inv_def)
  show ?thesis
    using g(2) I M [of empty_manifest] M
    by (cases r) (auto simp: manifest_def readManifest_def S3_Get_def wp_rules k r stored_def split: sum.split option.split)
qed

section \<open>The loop\<close>

lemma set_backup_envs: "set (mfEnvs (set_backup i eb m)) \<subseteq> insert (i, eb) (set (mfEnvs m))"
proof -
  have "set (AList.update i eb xs) \<subseteq> insert (i, eb) (set xs)" for xs :: "(string \<times> EnvBackup) list" by (induction xs) auto
  then show ?thesis by (simp add: set_backup_def)
qed

lemma good_set_backup:
  assumes "good p {} objs s m" "good p {} objs s (chain_only i (ebChain eb))" "IsLocal (ebWorkspace eb)"
  shows "good p {} objs s (set_backup i eb m)"
  using assms(1,3) assms(2) [unfolded good_chain_only] set_backup_envs [of i eb m]
  by (auto simp: good_def manifest_ok_def env_ok_def) (simp_all add: set_backup_def distinct_update)

lemma backup_of_kept:
  assumes "run_inv p {} {m} k" "ebChain (backup_of m i) \<noteq> []"
  shows "IsLocal (ebWorkspace (backup_of m i)) \<and> run_inv p {} {m, chain_only i (ebChain (backup_of m i))} k"
proof -
  obtain eb where eb: "map_of (mfEnvs m) i = Some eb" "backup_of m i = eb"
    using assms(2) by (auto simp: backup_of_def no_backup_def split: option.splits)
  then have i: "(i, eb) \<in> set (mfEnvs m)" by (simp add: map_of_SomeD)
  have "env_ok (rpCd p) (rpPre p) (bucket p k) (gst (bkGroup k)) (i, eb)"
    using assms(1) i by (auto simp: run_inv_def good_def manifest_ok_def)
  then have "IsLocal (ebWorkspace eb)" "good p {} (bucket p k) (gst (bkGroup k)) (chain_only i (ebChain eb))"
    by (simp_all add: env_ok_def good_chain_only)
  with assms(1) eb(2) show ?thesis by (auto simp: run_inv_def)
qed

lemma once_env_keeps:
  assumes "run_laws p" "run_inv p {} {m} k"
  shows "wp (once_env e (m, errs)) (\<lambda>(m', _). run_inv p {} {m'}) (\<lambda>_. run_inv p {} {}) k"
proof (cases "IsBuilder (ID e)")
  case False
  let ?eb = "backup_of m (ID e)"
  let ?Ms = "if ebChain ?eb = [] then {m} else {m, chain_only (ID e) (ebChain ?eb)}"
  have Ms: "run_inv p {} ?Ms k" using backup_of_kept [OF assms(2)] assms(2) by simp
  have less: "run_inv p {} {m} k'" "run_inv p {} {} k'" if "run_inv p {} Ms' k'" "m \<in> Ms'" for k' Ms'
    using that run_inv_weaken by fastforce+
  have "wp (backup_env e ?eb) (\<lambda>eb' k'. backed p ?Ms (ID e) eb' k') (\<lambda>_. run_inv p {} ?Ms) k"
    using backup_of_kept [OF assms(2)] by (intro backup_env_keeps [OF assms(1) Ms]) auto
  moreover have "wp (save (set_backup (ID e) eb m)) (\<lambda>_. run_inv p {} {set_backup (ID e) eb m}) (\<lambda>_. run_inv p {} {}) k'"
    if b: "backed p ?Ms (ID e) eb k'" for eb k'
  proof -
    have "run_inv p {} {m, chain_only (ID e) (ebChain eb)} k'"
      using b by (auto simp: backed_def intro: run_inv_weaken split: if_splits)
    then have "run_inv p {} {set_backup (ID e) eb m} k'"
      using b good_set_backup [of p _ _ m "ID e" eb] by (auto simp: run_inv_def backed_def)
    from save_keeps [OF assms(1) this] show ?thesis
      by (rule wp_mono) (auto intro: run_inv_weaken)
  qed
  ultimately show ?thesis
    using False unfolding once_env_def by (auto simp: wp_rules elim!: wp_mono intro: less split: if_splits)
qed (use assms(2) in \<open>simp add: once_env_def wp_ret\<close>)

end
