(* ===== verification/BackupRestore.thy ===== *)
theory BackupRestore
  imports BackupRun "HOL-Library.Countable"
begin

text \<open>
  \<open>Once\<close> keeps the bucket restorable, and \<open>Restore\<close> brings back what the bucket's manifest names.
\<close>

section \<open>The end of a run\<close>

definition state_only :: "string \<Rightarrow> Manifest" where
  "state_only st = \<lparr>mfTime = 0, mfState = st, mfEnvs = []\<rparr>"

lemma upload_state_keeps:
  assumes "run_laws p" "run_inv p {} Ms k"
  shows "wp upload_state (\<lambda>st. run_inv p {} (insert (state_only st) Ms)) (\<lambda>_. run_inv p {} Ms) k"
proof -
  have up: "wp (bind_s (gets (\<lambda>k. (bkPrefix k, bkWorld k, bkN k))) (\<lambda>(pre, w, n).
      bind_s (put (state_key pre now) (bwArchive w n) (if bwFail w n then Some n else None)) (\<lambda>_. ret (state_key pre now))))
      (\<lambda>st. run_inv p {} (insert (state_only st) Ms)) (\<lambda>_. run_inv p {} Ms) k" if k: "run_inv p {now} Ms k" for now k
  proof -
    let ?key = "state_key (rpPre p) now"
    have pre: "bkPrefix k = rpPre p" using k by (simp add: run_inv_def run_at_def)
    have key: "?key \<noteq> manifest_key (rpPre p)" "\<And>m. fresh_in (rpPre p) now m \<Longrightarrow> ?key \<notin> named m" by (auto simp: fresh_in_def)
    have "run_inv p {} (insert (state_only ?key) Ms) k'"
      if "run_inv p {now} Ms k'" "uploaded (\<lambda>c. opened (rpCd p) c = Some xs) ?key O1 (bucket p k')" for k' O1 xs
    proof -
      have "good p {} (bucket p k') (gst (bkGroup k')) (state_only ?key)"
        using that by (auto simp: good_def manifest_ok_def state_ok_def state_only_def uploaded_def run_inv_def)
      with run_inv_weak [OF that(1)] show ?thesis by (auto simp: run_inv_def)
    qed
    then show ?thesis
      unfolding wp_bind [of "gets _"] wp_gets prod.case pre wp_bind wp_ret
      by (intro wp_mono [OF put_keeps [OF assms(1) k key]]) (auto intro: run_inv_weak)
  qed
  have "wp (bind_s (on_group clock) (\<lambda>now. bind_s (gets (\<lambda>k. (bkPrefix k, bkWorld k, bkN k))) (\<lambda>(pre, w, n).
      bind_s (put (state_key pre now) (bwArchive w n) (if bwFail w n then Some n else None)) (\<lambda>_. ret (state_key pre now)))))
      (\<lambda>st. run_inv p {} (insert (state_only st) Ms)) (\<lambda>_. run_inv p {} Ms) k" if "run_inv p {} Ms k" for k
    unfolding wp_bind [of "on_group _"] by (intro wp_mono [OF run_inv_clock [OF assms(1) that]] up)
  then show ?thesis
    unfolding upload_state_def by (intro wp_keeps_bind [OF keeps_run_command assms(2)] wp_keeps_bind [OF keeps_run_command]) auto
qed

lemma good_with_state:
  "good p {} objs s m \<Longrightarrow> good p {} objs s (state_only st) \<Longrightarrow> good p {} objs s (m\<lparr>mfState := st, mfTime := now\<rparr>)"
  by (simp add: good_def manifest_ok_def state_only_def)

lemma good_fewer: "good p {} objs s m \<Longrightarrow> good p {} objs s (m\<lparr>mfEnvs := filter f (mfEnvs m)\<rparr>)"
  by (simp add: good_def manifest_ok_def distinct_map_filter)

lemma snd_on_s3: "snd (on_s3 f k) = k\<lparr>bkSvc := snd (f (bkSv k) (bkSvc k))\<rparr>"
  by (simp add: on_s3_def split: prod.split)

lemma saved_delete:
  assumes "saved p m k" "bucket p k' \<in> {bucket p k, (bucket p k)(key := None)}" "aside k k'" "key \<notin> set (keep_keys (rpPre p) m)"
  shows "saved p m k'"
proof -
  have "key \<notin> named m" "key \<noteq> manifest_key (rpPre p)" using assms(4) by (force simp: named_def keep_keys_def)+
  then have "good p {} (bucket p k') (gst (bkGroup k')) m" "stored (rpCd p) (rpPre p) (bucket p k') m"
    using assms(1-3) manifest_ok_upload [of "rpCd p" "rpPre p" "bucket p k" m] by (auto simp: saved_def good_def stored_def aside_fields)
  then show ?thesis using assms(1,3) run_at_aside by (auto simp: saved_def)
qed

lemma delete_keys_keeps:
  assumes "run_laws p" "\<forall>key \<in> set keys. key \<notin> set (keep_keys (rpPre p) m)"
  shows "keeps (saved p m) (delete_keys keys :: ('d, 'b, backup_error list) bp)"
  using assms(2)
proof (induction keys)
  case (Cons key keys)
  have "saved p m (snd (on_s3 (\<lambda>sv. S3_Delete sv key) k))" if k: "saved p m k" for k :: "('d, 'b) backer"
  proof -
    have sv: "bkSv k = rpSv p" using k by (simp add: saved_def run_at_def)
    have "rpObjs p (snd (S3_Delete (rpSv p) key b)) \<in> {rpObjs p b, (rpObjs p b)(key := None)}" for b
      using s3_like_delete [of "rpSv p" "rpObjs p" "rpPend p" key b] assms(1)
      by (auto simp: S3_Delete_def bind_s_def try_s_def request_def ret_def raise_def run_laws_def split: prod.splits sum.splits)
    then show ?thesis using Cons.prems by (intro saved_delete [OF k, where key = key]) (simp_all add: snd_on_s3 sv)
  qed
  then have "keeps (saved p m) (on_s3 (\<lambda>sv. S3_Delete sv key) :: ('d, 'b, unit) bp)" by (simp add: keeps_def)
  with Cons show ?case by (auto intro!: keeps_rules)
qed (simp add: keeps_ret)

lemma list_pages_keeps: "s3_like sv objs pend \<Longrightarrow> keeps (\<lambda>b. objs b = O1) (list_pages n sv pre token)"
proof (induction n arbitrary: token)
  case (Suc n)
  have "keeps (\<lambda>b. objs b = O1) (request (svList sv pre token))"
    using s3_like_list [OF Suc.prems, of pre token] by (auto simp: keeps_def request_def split: prod.split sum.split) (metis snd_conv)+
  with Suc show ?case by (auto intro!: keeps_rules)
qed (simp add: keeps_raise)

lemma sweep_keeps:
  assumes "run_laws p"
  shows "keeps (saved p m) (backup_sweep m :: ('d, 'b, backup_error list) bp)"
proof -
  have "saved p m (snd (on_s3 (\<lambda>sv. S3_List pages sv pre) k))" if k: "saved p m k" for k :: "('d, 'b) backer" and pages pre
  proof -
    have sv: "bkSv k = rpSv p" using k by (simp add: saved_def run_at_def)
    have "rpObjs p (snd (S3_List pages (rpSv p) pre (bkSvc k))) = bucket p k"
      using list_pages_keeps [of "rpSv p" "rpObjs p" "rpPend p" "bucket p k" pages pre "[]"] assms
      by (auto simp: keeps_def S3_List_def run_laws_def)
    then show ?thesis
      using k by (simp add: snd_on_s3 sv saved_def run_at_def)
  qed
  then have l: "keeps (saved p m) (on_s3 (\<lambda>sv. S3_List pages sv pre) :: ('d, 'b, string list) bp)" for pages pre by (simp add: keeps_def)
  have "wp (backup_sweep m) (\<lambda>_. saved p m) (\<lambda>_. saved p m) k" if k: "saved p m k" for k :: "('d, 'b) backer"
  proof -
    have pre: "bkPrefix k = rpPre p" using k by (simp add: saved_def run_at_def)
    have "keeps (saved p m) (delete_keys (filter (\<lambda>key. key \<notin> set (keep_keys (rpPre p) m)) keys) :: ('d, 'b, backup_error list) bp)" for keys
      by (rule delete_keys_keeps [OF assms]) simp
    then show ?thesis
      unfolding backup_sweep_def wp_bind [of "gets _"] wp_gets prod.case pre
      by (intro wp_keeps_bind [OF keeps_try [OF l] k]) (auto simp: wp_ret keeps_wp split: sum.split)
  qed
  then show ?thesis by (simp add: keeps_wp)
qed

text \<open>\<open>Once\<close> keeps the invariant, whatever fails.\<close>

lemma Once_keeps:
  assumes "run_laws p"
  shows "keeps (run_inv p {} {}) (Once :: ('d, 'b, unit) bp)"
proof -
  let ?I = "run_inv p {} {}"
  have none: "?I k" if "run_inv p T Ms k" for T Ms k using that by (rule run_inv_weaken) auto
  have fin: "wp (bind_s (on_group clock) (\<lambda>now. let m2 = m\<lparr>mfState := st, mfTime := now\<rparr> in
         bind_s (save m2) (\<lambda>_. bind_s (backup_sweep m2) (\<lambda>sw. if errs @ sw = [] then ret () else raise (errs @ sw)))))
       (\<lambda>_. ?I) (\<lambda>_. ?I) k" if k: "run_inv p {} {state_only st, m} k" for k st m errs
    unfolding wp_bind [of "on_group _"] Let_def
  proof (rule wp_mono [OF run_inv_clock [OF assms k]], goal_cases)
    case (1 now k1)
    let ?m = "m\<lparr>mfState := st, mfTime := now\<rparr>"
    have "run_inv p {} {?m} k1" using run_inv_weak [OF 1] good_with_state [of p _ _ m st] by (auto simp: run_inv_def)
    from save_keeps [OF assms this, of ?m] show ?case
      unfolding wp_bind [of "save _"]
    proof (rule wp_mono, goal_cases)
      case (2 _ k2)
      then have "saved p ?m k2" by simp
      from keeps_wpD [OF sweep_keeps [OF assms] this] show ?case
        unfolding wp_bind by (rule wp_mono) (auto simp: wp_rules intro: none saved_run_inv)
    qed (auto intro: none)
  qed (auto intro: none)
  have after: "wp (bind_s (try_s upload_state) (\<lambda>r. case r of
       Inl e \<Rightarrow> raise (errs @ e)
     | Inr st \<Rightarrow> bind_s (on_group clock) (\<lambda>now. let m2 = m\<lparr>mfState := st, mfTime := now\<rparr> in
         bind_s (save m2) (\<lambda>_. bind_s (backup_sweep m2) (\<lambda>sw. if errs @ sw = [] then ret () else raise (errs @ sw))))))
       (\<lambda>_. ?I) (\<lambda>_. ?I) k" if k: "run_inv p {} {m} k" for k m errs
    unfolding wp_bind [of "try_s _"] wp_try
    by (rule wp_mono [OF upload_state_keeps [OF assms k]]) (auto simp: wp_raise simp del: append_is_Nil_conv intro: none fin)
  have loop: "wp (fold_s once_env envs (m, errs)) (\<lambda>(m', _). run_inv p {} {m'}) (\<lambda>_. ?I) k" if "run_inv p {} {m} k" for envs m errs k
    using that by (intro wp_fold_s [where I = "\<lambda>_ (m, _). run_inv p {} {m}"]) (auto intro: once_env_keeps [OF assms])
  have "wp Once (\<lambda>_. ?I) (\<lambda>_. ?I) k" if k: "?I k" for k :: "('d, 'b) backer"
    unfolding Once_def wp_bind [of manifest]
  proof (rule wp_mono [OF manifest_keeps [OF assms k]], goal_cases)
    case (1 m0 k1)
    show ?case
    proof (rule wp_keeps_bind [OF run_inv_read(2) 1], goal_cases)
      case (1 envs k2)
      show ?case
        unfolding wp_bind [of "fold_s _ _ _"]
      proof (rule wp_mono [OF loop [OF 1, of envs "[]"]], goal_cases)
        case (1 x k3)
        obtain m errs where x: "x = (m, errs)" by fastforce
        have "run_inv p {} {m\<lparr>mfEnvs := filter f (mfEnvs m)\<rparr>} k3" for f using 1 x good_fewer [of p _ _ m f] by (auto simp: run_inv_def)
        from after [OF this, unfolded Let_def] show ?case unfolding x prod.case Let_def .
      qed
    qed (rule none)
  qed
  then show ?thesis by (simp add: keeps_wp)
qed

section \<open>Restoring\<close>

text \<open>What may stop a restore: the service or a command fails.\<close>

definition outage :: "backup_error list \<Rightarrow> bool" where
  "outage e \<longleftrightarrow> (\<exists>n. e = [S3Err (S3Failed n)] \<or> e = [CommandFailed n])"

lemma outage_simps [simp]: "outage [S3Err (S3Failed n)]" "outage [CommandFailed n]"
  by (simp_all add: outage_def)

text \<open>The tree a chain of sends ends with.\<close>

definition chain_tree :: "backup_codecs \<Rightarrow> (string \<rightharpoonup> byte list) \<Rightarrow> Send list \<Rightarrow> node \<Rightarrow> bool" where
  "chain_tree cd objs chain t \<longleftrightarrow> (\<exists>ts. sends_ok cd objs None chain ts \<and> t = last ts)"

text \<open>A restore from the objects \<open>objs\<close>.\<close>

definition restoring_from :: "'b run_params \<Rightarrow> (string \<rightharpoonup> byte list) \<Rightarrow> 'b restorer \<Rightarrow> bool" where
  "restoring_from p objs z \<longleftrightarrow> rsSv z = rpSv p \<and> rsCd z = rpCd p \<and> rpObjs p (rsSvc z) = objs"

lemma restoring_from_simps [simp]:
  "restoring_from p objs (z\<lparr>rsN := n\<rparr>) = restoring_from p objs z"
  "restoring_from p objs (z\<lparr>rsSnaps := f\<rparr>) = restoring_from p objs z"
  "restoring_from p objs (z\<lparr>rsPool := g\<rparr>) = restoring_from p objs z"
  "restoring_from p objs (z\<lparr>rsState := st\<rparr>) = restoring_from p objs z"
  by (simp_all add: restoring_from_def)

lemma wp_sys_call [wp_rules]:
  "wp sys_call Q E = (\<lambda>z. if rsFail z (rsN z) then E [CommandFailed (rsN z)] (z\<lparr>rsN := Suc (rsN z)\<rparr>) else Q () (z\<lparr>rsN := Suc (rsN z)\<rparr>))"
  by (rule ext) (simp add: wp_def sys_call_def)

lemma wp_from_s3 [wp_rules]:
  "wp (from_s3 f) Q E = (\<lambda>z. wp (f (rsSv z)) (\<lambda>x b. Q x (z\<lparr>rsSvc := b\<rparr>)) (\<lambda>e b. E e (z\<lparr>rsSvc := b\<rparr>)) (rsSvc z))"
  by (rule ext) (simp add: wp_def from_s3_def split: prod.splits sum.splits)

lemma openObject_wp:
  assumes "run_laws p" "restoring_from p objs z" "objs key = Some c" "opened (rpCd p) c = Some plain"
    and "\<And>b. restoring_from p objs (z\<lparr>rsSvc := b\<rparr>) \<Longrightarrow> Q plain (z\<lparr>rsSvc := b\<rparr>)"
    and "\<And>e z'. outage e \<Longrightarrow> E e z'"
  shows "wp (openObject key) Q E z"
proof -
  obtain r b where r: "svGet (rpSv p) key (rsSvc z) = (r, b)" by fastforce
  have "rpObjs p b = rpObjs p (rsSvc z)" "case r of Inr xs \<Rightarrow> objs key = Some xs | Inl e \<Rightarrow> e = ErrNoObject \<longrightarrow> objs key = None"
    using s3_like_get [OF _ r, of "rpObjs p" "rpPend p"] assms(1,2) by (auto simp: run_laws_def restoring_from_def split: sum.splits)
  then show ?thesis
    using assms(2-6) r by (cases r) (auto simp: openObject_def S3_Get_def wp_rules restoring_from_def outage_def intro: s3_error.exhaust split: option.split)
qed

lemma receive_wp:
  assumes "run_laws p" "restoring_from p objs z" "objs key = Some c" "opened (rpCd p) c = Some (bcSend (rpCd p) from x t)"
    and "rsSnaps z i x = None" "\<And>q u. from = Some (q, u) \<Longrightarrow> rsSnaps z i q = Some u"
    and "\<And>b n. restoring_from p objs (z\<lparr>rsSvc := b\<rparr>) \<Longrightarrow> Q () (z\<lparr>rsSvc := b, rsN := n, rsSnaps := (rsSnaps z)(i := (rsSnaps z i)(x \<mapsto> t))\<rparr>)"
    and "\<And>e z'. outage e \<Longrightarrow> E e z'"
  shows "wp (receive i key) Q E z"
proof -
  have "bcReceive (rpCd p) (bcSend (rpCd p) from x t) (rsSnaps z i) = Some ((rsSnaps z i)(x \<mapsto> t))"
    using assms(1,5,6) by (cases "from") (auto simp: run_laws_def codecs_ok_def)
  then show ?thesis
    unfolding receive_def wp_bind [of "openObject _"]
    by (intro openObject_wp [OF assms(1-4)])
      (use assms(7,8) in \<open>auto simp: wp_rules restoring_from_def\<close>)
qed

text \<open>A chain into a folder of snapshots.\<close>

definition same_pool :: "string \<Rightarrow> 'b restorer \<Rightarrow> 'b restorer \<Rightarrow> bool" where
  "same_pool i z z' \<longleftrightarrow> rsPool z' = rsPool z \<and> (\<forall>j. j \<noteq> i \<longrightarrow> rsSnaps z' j = rsSnaps z j)"

lemma receive_chain_wp:
  assumes "run_laws p"
  shows "restoring_from p objs z \<Longrightarrow> sends_ok (rpCd p) objs from chain ts \<Longrightarrow> distinct (map sdSnapshot chain) \<Longrightarrow>
    \<forall>sd \<in> set chain. rsSnaps z i (sdSnapshot sd) = None \<Longrightarrow> (\<And>q u. from = Some (q, u) \<Longrightarrow> rsSnaps z i q = Some u) \<Longrightarrow>
    wp (for_each (\<lambda>sd. receive i (sdKey sd)) chain)
      (\<lambda>_ z'. restoring_from p objs z' \<and> same_pool i z z' \<and> (chain \<noteq> [] \<longrightarrow> rsSnaps z' i (sdSnapshot (last chain)) = Some (last ts)))
      (\<lambda>e _. outage e) z"
proof (induction chain arbitrary: "from" ts z)
  case Nil
  then show ?case by (simp add: wp_ret same_pool_def)
next
  case (Cons sd chain)
  obtain t us c where ts: "ts = t # us" and us: "sends_ok (rpCd p) objs (Some (sdSnapshot sd, t)) chain us"
    and c: "objs (sdKey sd) = Some c" "opened (rpCd p) c = Some (bcSend (rpCd p) from (sdSnapshot sd) t)"
    using Cons.prems(2) by auto
  have len: "us = [] \<longleftrightarrow> chain = []" using us by (cases chain) auto
  show ?case
    unfolding for_each.simps wp_bind
  proof (rule receive_wp [OF assms Cons.prems(1) c])
    fix b n assume b: "restoring_from p objs (z\<lparr>rsSvc := b\<rparr>)"
    let ?z = "z\<lparr>rsSvc := b, rsN := n, rsSnaps := (rsSnaps z)(i := (rsSnaps z i)(sdSnapshot sd \<mapsto> t))\<rparr>"
    have "restoring_from p objs ?z" using b by (simp add: restoring_from_def)
    moreover have "\<forall>sd' \<in> set chain. rsSnaps ?z i (sdSnapshot sd') = None"
    proof
      fix sd' assume "sd' \<in> set chain"
      moreover from this have "sdSnapshot sd' \<noteq> sdSnapshot sd" using Cons.prems(3) by (metis distinct.simps(2) image_eqI list.set_map list.simps(9))
      ultimately show "rsSnaps ?z i (sdSnapshot sd') = None" using Cons.prems(4) by simp
    qed
    ultimately have "wp (for_each (\<lambda>sd. receive i (sdKey sd)) chain)
      (\<lambda>_ z'. restoring_from p objs z' \<and> same_pool i ?z z' \<and> (chain \<noteq> [] \<longrightarrow> rsSnaps z' i (sdSnapshot (last chain)) = Some (last us)))
      (\<lambda>e _. outage e) ?z" using Cons.prems(3) by (intro Cons.IH [OF _ us]) auto
    moreover have "wp (for_each (\<lambda>sd. receive i (sdKey sd)) chain) (\<lambda>_ z'. chain = [] \<longrightarrow> z' = ?z) (\<lambda>_ _. True) ?z"
      by (cases chain) (simp_all add: wp_ret wp_True)
    ultimately show "wp (for_each (\<lambda>sd. receive i (sdKey sd)) chain)
      (\<lambda>_ z'. restoring_from p objs z' \<and> same_pool i z z' \<and> (sd # chain \<noteq> [] \<longrightarrow> rsSnaps z' i (sdSnapshot (last (sd # chain))) = Some (last ts)))
      (\<lambda>e _. outage e) ?z"
      by (rule wp_mono [OF wp_conj]) (use len ts in \<open>auto simp: same_pool_def\<close>)
  qed (use Cons.prems(4,5) in auto)
qed

text \<open>An environment: its workspace becomes the tree of its chain, if its place is free.\<close>

lemma restore_env_wp:
  assumes "run_laws p" "restoring_from p objs z" "chain_ok (rpCd p) pre objs i (ebChain eb) s" "IsLocal (ebWorkspace eb)" "rsSnaps z i = Map.empty"
  shows "wp (restore_env (i, eb))
    (\<lambda>_ z'. restoring_from p objs z' \<and> (\<forall>j. j \<noteq> i \<longrightarrow> rsSnaps z' j = rsSnaps z j) \<and>
       (\<exists>t. chain_tree (rpCd p) objs (ebChain eb) t \<and> rsSnaps z' i (sdSnapshot (last (ebChain eb))) = Some t \<and>
          rsPool z' = (if rsPool z (ebWorkspace eb) = None then (rsPool z)(ebWorkspace eb \<mapsto> t) else rsPool z)))
    (\<lambda>e _. outage e) z"
proof -
  obtain ts where ts: "sends_ok (rpCd p) objs None (ebChain eb) ts" "ebChain eb \<noteq> []" "distinct (map sdSnapshot (ebChain eb))"
    using assms(3) by (auto simp: chain_ok_def)
  have recv: "wp (for_each (\<lambda>sd. receive i (sdKey sd)) (ebChain eb))
      (\<lambda>_ z'. restoring_from p objs z' \<and> same_pool i z z' \<and> (ebChain eb \<noteq> [] \<longrightarrow> rsSnaps z' i (sdSnapshot (last (ebChain eb))) = Some (last ts)))
      (\<lambda>e _. outage e) (z\<lparr>rsN := n\<rparr>)" for n
    using receive_chain_wp [OF assms(1), of objs "z\<lparr>rsN := n\<rparr>" None "ebChain eb" ts i] assms(2,5) ts by (simp add: same_pool_def)
  have "chain_tree (rpCd p) objs (ebChain eb) (last ts)" using ts(1) by (auto simp: chain_tree_def)
  then show ?thesis
    unfolding restore_env_def prod.case wp_bind [of sys_call] wp_sys_call
    using ts(2) assms(4)
    by (auto simp: wp_bind [of "for_each _ _"] snapshot_to_def wp_rules same_pool_def restoring_from_def simp del: for_each.simps
        intro!: wp_mono [OF recv])
qed

definition brought_back :: "'b run_params \<Rightarrow> (string \<rightharpoonup> byte list) \<Rightarrow> (string \<times> EnvBackup) list \<Rightarrow> 'b restorer \<Rightarrow> bool" where
  "brought_back p objs envs z \<longleftrightarrow> (\<forall>(i, eb) \<in> set envs. \<exists>t. chain_tree (rpCd p) objs (ebChain eb) t \<and>
     rsSnaps z i (sdSnapshot (last (ebChain eb))) = Some t \<and>
     (distinct (map (\<lambda>x. ebWorkspace (snd x)) envs) \<longrightarrow> rsPool z (ebWorkspace eb) = Some t))"

definition restored_so_far :: "'b run_params \<Rightarrow> (string \<rightharpoonup> byte list) \<Rightarrow> (string \<times> EnvBackup) list \<Rightarrow> 'b restorer \<Rightarrow> bool" where
  "restored_so_far p objs ds z \<longleftrightarrow> restoring_from p objs z \<and> brought_back p objs ds z \<and> (\<forall>j. j \<notin> fst ` set ds \<longrightarrow> rsSnaps z j = Map.empty) \<and>
     dom (rsPool z) = (\<lambda>x. ebWorkspace (snd x)) ` set ds"

lemma restored_next:
  assumes "restored_so_far p objs ds z" "restoring_from p objs z'" "\<forall>j. j \<noteq> i \<longrightarrow> rsSnaps z' j = rsSnaps z j" "i \<notin> fst ` set ds"
    and "chain_tree (rpCd p) objs (ebChain eb) t" "rsSnaps z' i (sdSnapshot (last (ebChain eb))) = Some t"
    and pool: "rsPool z' = (if rsPool z (ebWorkspace eb) = None then (rsPool z)(ebWorkspace eb \<mapsto> t) else rsPool z)"
  shows "restored_so_far p objs (ds @ [(i, eb)]) z'"
proof -
  have dom: "ws \<in> dom (rsPool z) \<longleftrightarrow> ws \<in> (\<lambda>x. ebWorkspace (snd x)) ` set ds" for ws using assms(1) by (simp add: restored_so_far_def)
  have old: "\<exists>t. chain_tree (rpCd p) objs (ebChain eb') t \<and> rsSnaps z' j (sdSnapshot (last (ebChain eb'))) = Some t \<and>
      (distinct (map (\<lambda>x. ebWorkspace (snd x)) (ds @ [(i, eb)])) \<longrightarrow> rsPool z' (ebWorkspace eb') = Some t)" if "(j, eb') \<in> set ds" for j eb'
  proof -
    have "case (j, eb') of (i, eb) \<Rightarrow> \<exists>t. chain_tree (rpCd p) objs (ebChain eb) t \<and> rsSnaps z i (sdSnapshot (last (ebChain eb))) = Some t \<and>
        (distinct (map (\<lambda>x. ebWorkspace (snd x)) ds) \<longrightarrow> rsPool z (ebWorkspace eb) = Some t)"
      using assms(1) that unfolding restored_so_far_def brought_back_def by blast
    then obtain u where u: "chain_tree (rpCd p) objs (ebChain eb') u" "rsSnaps z j (sdSnapshot (last (ebChain eb'))) = Some u"
      "distinct (map (\<lambda>x. ebWorkspace (snd x)) ds) \<longrightarrow> rsPool z (ebWorkspace eb') = Some u"
      by auto
    have "j \<noteq> i" using assms(4) that by force
    moreover have "rsPool z' (ebWorkspace eb') = rsPool z (ebWorkspace eb')" using dom [of "ebWorkspace eb'"] that pool by force
    ultimately show ?thesis using u assms(3) by auto
  qed
  have new: "distinct (map (\<lambda>x. ebWorkspace (snd x)) (ds @ [(i, eb)])) \<longrightarrow> rsPool z' (ebWorkspace eb) = Some t"
    using pool dom [of "ebWorkspace eb"] by (auto simp: domIff)
  have "brought_back p objs (ds @ [(i, eb)]) z'"
    unfolding brought_back_def
  proof clarify
    fix j eb' assume "(j, eb') \<in> set (ds @ [(i, eb)])"
    then consider "(j, eb') \<in> set ds" | "j = i" "eb' = eb" by auto
    then show "\<exists>t. chain_tree (rpCd p) objs (ebChain eb') t \<and> rsSnaps z' j (sdSnapshot (last (ebChain eb'))) = Some t \<and>
      (distinct (map (\<lambda>x. ebWorkspace (snd x)) (ds @ [(i, eb)])) \<longrightarrow> rsPool z' (ebWorkspace eb') = Some t)"
      by cases (use old new assms(5,6) in blast)+
  qed
  moreover have "dom (rsPool z') = (\<lambda>x. ebWorkspace (snd x)) ` set (ds @ [(i, eb)])"
    using pool dom by (cases "rsPool z (ebWorkspace eb)") (auto simp: dom_def)
  ultimately show ?thesis using assms(1-3) by (auto simp: restored_so_far_def)
qed

lemma restore_envs_wp:
  assumes "run_laws p" "restoring_from p objs z" "manifest_ok (rpCd p) pre objs m s" "rsSnaps z = (\<lambda>_. Map.empty)" "rsPool z = Map.empty"
  shows "wp (for_each restore_env (mfEnvs m)) (\<lambda>_ z'. restoring_from p objs z' \<and> brought_back p objs (mfEnvs m) z') (\<lambda>e _. outage e) z"
proof -
  let ?I = "\<lambda>ys z. \<exists>ds. mfEnvs m = ds @ ys \<and> restored_so_far p objs ds z"
  show ?thesis
  proof (rule wp_for_each [where I = ?I])
    show "?I (mfEnvs m) z" using assms(2,4,5) by (auto simp: restored_so_far_def brought_back_def)
  next
    fix x ys z assume "?I (x # ys) z"
    then obtain ds where ds: "mfEnvs m = ds @ x # ys" and P: "restored_so_far p objs ds z" by blast
    obtain i eb where x: "x = (i, eb)" by fastforce
    have ok: "chain_ok (rpCd p) pre objs i (ebChain eb) s" "IsLocal (ebWorkspace eb)" and new: "i \<notin> fst ` set ds"
      using assms(3) ds x by (auto simp: manifest_ok_def env_ok_def)
    have z: "restoring_from p objs z" "rsSnaps z i = Map.empty" using P new by (auto simp: restored_so_far_def)
    show "wp (restore_env x) (\<lambda>_. ?I ys) (\<lambda>e _. outage e) z"
      unfolding x
    proof (rule wp_mono [OF restore_env_wp [OF assms(1) z(1) ok z(2)]], goal_cases)
      case (1 _ z')
      then have "restored_so_far p objs (ds @ [x]) z'" unfolding x by (blast intro: restored_next [OF P _ _ new])
      with ds show ?case by (intro exI [of _ "ds @ [x]"]) simp
    qed
  next
    show "?I [] z \<Longrightarrow> restoring_from p objs z \<and> brought_back p objs (mfEnvs m) z" for z by (auto simp: restored_so_far_def)
  qed
qed

section \<open>Properties\<close>

text \<open>A pool that a backup is restored to, with the service in the state the backup left.\<close>

definition new_pool :: "'b run_params \<Rightarrow> ('d, 'b) backer \<Rightarrow> 'b restorer \<Rightarrow> bool" where
  "new_pool p k z \<longleftrightarrow> rsSv z = rpSv p \<and> rsCd z = rpCd p \<and> rsSvc z = bkSvc k \<and> rsEnvs z = [] \<and> rsSnaps z = (\<lambda>_. Map.empty) \<and> rsPool z = Map.empty"

lemma backup_Restore_wp:
  assumes "run_laws p" "run_inv p {} {} k" "new_pool p k z" "nodePrefix node = rpPre p" "stored (rpCd p) (rpPre p) (bucket p k) m"
  shows "wp (backup_Restore node) (\<lambda>_ z'. brought_back p (bucket p k) (mfEnvs m) z' \<and> rsState z' \<noteq> None)
    (\<lambda>e _. outage e \<or> e = [NoBackup] \<and> mfState m = []) z"
proof -
  let ?O = "bucket p k" and ?key = "manifest_key (rpPre p)"
  have ok: "manifest_ok (rpCd p) (rpPre p) ?O m (gst (bkGroup k))" using assms(2) stored_unique [OF assms(5)] by (auto simp: run_inv_def good_def)
  obtain r b where r: "svGet (rpSv p) ?key (bkSvc k) = (r, b)" by fastforce
  have g: "rpObjs p b = ?O" "case r of Inr xs \<Rightarrow> ?O ?key = Some xs | Inl e \<Rightarrow> e = ErrNoObject \<longrightarrow> ?O ?key = None"
    using s3_like_get [OF _ r, of "rpObjs p" "rpPend p"] assms(1) by (auto simp: run_laws_def)
  let ?z = "z\<lparr>rsSvc := b\<rparr>"
  have fr: "restoring_from p ?O ?z" using assms(3) g(1) by (simp add: restoring_from_def new_pool_def)
  have state: "wp (bind_s sys_call (\<lambda>_. extractState (mfState m))) (\<lambda>_ z'. brought_back p ?O (mfEnvs m) z' \<and> rsState z' \<noteq> None)
      (\<lambda>e _. outage e \<or> e = [NoBackup] \<and> mfState m = []) z'"
    if z': "restoring_from p ?O z'" "brought_back p ?O (mfEnvs m) z'" and n: "mfState m \<noteq> []" for z'
  proof -
    obtain c plain where c: "?O (mfState m) = Some c" "opened (rpCd p) c = Some plain"
      using ok n by (auto simp: manifest_ok_def state_ok_def)
    have "restoring_from p ?O (z'\<lparr>rsN := Suc (rsN z')\<rparr>)" using z'(1) by simp
    from openObject_wp [OF assms(1) this c] show ?thesis
      using z'(2) by (auto simp: wp_bind [of sys_call] extractState_def wp_bind [of "openObject _"] wp_sys_call wp_modify brought_back_def)
  qed
  have loop: "wp (bind_s (for_each restore_env (mfEnvs m)) (\<lambda>_. bind_s sys_call (\<lambda>_. extractState (mfState m))))
      (\<lambda>_ z'. brought_back p ?O (mfEnvs m) z' \<and> rsState z' \<noteq> None) (\<lambda>e _. outage e \<or> e = [NoBackup] \<and> mfState m = []) ?z"
    if "mfState m \<noteq> []"
    unfolding wp_bind [of "for_each _ _"]
    by (rule wp_mono [OF restore_envs_wp [OF assms(1) fr ok]]) (use state that assms(3) in \<open>auto simp: new_pool_def\<close>)
  have z: "rsSv z = rpSv p" "rsCd z = rpCd p" "rsSvc z = bkSvc k" "rsEnvs z = []" using assms(3) by (simp_all add: new_pool_def)
  have "wp (from_s3 (readManifest (rpCd p) (rpPre p))) (\<lambda>m' z'. m' = m \<and> z' = ?z) (\<lambda>e _. outage e) z"
    using g(2) assms(5) r z
    by (cases r) (auto simp: wp_from_s3 readManifest_def S3_Get_def wp_rules stored_def outage_def split: option.splits intro: s3_error.exhaust)
  then show ?thesis
    unfolding backup_Restore_def using z assms(4) loop
    by (auto simp: wp_bind [of "gets _"] wp_gets wp_bind [of "from_s3 _"] wp_raise elim!: wp_mono)
qed


section \<open>A service and codecs that have the laws\<close>

text \<open>An object store in memory: the objects, and the parts of the uploads.\<close>

type_synonym mem_s3 = "(string \<times> byte list) list \<times> (string \<Rightarrow> nat \<rightharpoonup> string \<times> byte list)"

definition mem_service :: "mem_s3 s3_service" where
  "mem_service = \<lparr>
     svStart = (\<lambda>key (os, ups). (Inr ''upload'', (os, ups(''upload'' := Map.empty)))),
     svPart = (\<lambda>key up n buf (os, ups). (Inr ''tag'', (os, ups(up := (ups up)(n \<mapsto> (''tag'', buf)))))),
     svFinish = (\<lambda>key up ps (os, ups). case assembled (ups up) ps of
        None \<Rightarrow> (Inl (S3Failed 400), (os, ups)) | Some xs \<Rightarrow> (Inr (), (AList.update key xs os, ups))),
     svAbort = (\<lambda>key up b. (Inr (), b)),
     svGet = (\<lambda>key b. (case map_of (fst b) key of None \<Rightarrow> Inl ErrNoObject | Some xs \<Rightarrow> Inr xs, b)),
     svList = (\<lambda>pre token b. (Inr (filter (prefix pre) (map fst (fst b)), None), b)),
     svDelete = (\<lambda>key (os, ups). (Inr (), (AList.delete key os, ups)))\<rparr>"

definition mem_objs :: "mem_s3 \<Rightarrow> string \<rightharpoonup> byte list" where
  "mem_objs b = map_of (fst b)"

lemma mem_service_like: "s3_like mem_service mem_objs snd"
  by (auto simp: s3_like_def mem_service_def mem_objs_def update_conv' delete_conv' split: option.splits sum.splits)

instance attr_ext :: (countable) countable
  by (rule countable_classI [of "\<lambda>a. to_nat (uid a, gid a, mode a, mtime a, attr.more a)"]) (simp add: attr.equality)

instance dkind :: countable
  by countable_datatype

instance node :: countable
  by countable_datatype

text \<open>A number as that many bytes.\<close>

definition unary :: "nat \<Rightarrow> byte list" where "unary n = replicate n 0"

lemma length_unary [simp]: "length (unary n) = n"
  by (simp add: unary_def)

definition manifest_code :: "Manifest \<Rightarrow> int \<times> string \<times> (string \<times> string \<times> nat \<times> (string \<times> string \<times> nat) list) list" where
  "manifest_code m = (mfTime m, mfState m,
     map (\<lambda>(i, eb). (i, ebWorkspace eb, ebGeneration eb, map (\<lambda>sd. (sdSnapshot sd, sdKey sd, sdSize sd)) (ebChain eb))) (mfEnvs m))"

definition manifest_of :: "int \<times> string \<times> (string \<times> string \<times> nat \<times> (string \<times> string \<times> nat) list) list \<Rightarrow> Manifest" where
  "manifest_of x = (case x of (t, st, es) \<Rightarrow> \<lparr>mfTime = t, mfState = st, mfEnvs =
     map (\<lambda>(i, ws, g, ch). (i, \<lparr>ebWorkspace = ws, ebGeneration = g, ebChain = map (\<lambda>(s, k, n). \<lparr>sdSnapshot = s, sdKey = k, sdSize = n\<rparr>) ch\<rparr>)) es\<rparr>)"

lemma manifest_of_code [simp]: "manifest_of (manifest_code m) = m"
proof -
  have s: "(\<lambda>x. \<lparr>sdSnapshot = sdSnapshot x, sdKey = sdKey x, sdSize = sdSize x\<rparr>) = (\<lambda>x. x)" by (rule ext) simp
  have e: "(\<lambda>x. (fst x, \<lparr>ebWorkspace = ebWorkspace (snd x), ebGeneration = ebGeneration (snd x), ebChain = ebChain (snd x)\<rparr>)) = (\<lambda>x. x)"
    by (rule ext, rule prod_eqI) simp_all
  show ?thesis by (simp add: manifest_of_def manifest_code_def comp_def split_def s e)
qed

definition plain_receive :: "(string \<times> node) option \<times> string \<times> node \<Rightarrow> (string \<rightharpoonup> node) \<Rightarrow> (string \<rightharpoonup> node) option" where
  "plain_receive x S = (case x of (par, n, t) \<Rightarrow>
     if S n = None \<and> (case par of None \<Rightarrow> True | Some (q, u) \<Rightarrow> S q = Some u) then Some (S(n \<mapsto> t)) else None)"

definition plain_codecs :: backup_codecs where
  "plain_codecs = \<lparr>bcGcm = (\<lambda>_. plain_aead), bcKey = replicate 32 1,
     bcMarshal = (\<lambda>m. unary (to_nat (manifest_code m))), bcDecode = (\<lambda>xs. Some (manifest_of (from_nat (length xs)))),
     bcGzip = (\<lambda>xs. xs), bcGunzip = Some,
     bcSend = (\<lambda>par n t. unary (to_nat (par, n, t))), bcReceive = (\<lambda>xs. plain_receive (from_nat (length xs)))\<rparr>"

lemma plain_codecs_ok: "codecs_ok plain_codecs"
  by (simp add: codecs_ok_def plain_codecs_def plain_gcm_like KeySize_def plain_receive_def)

text \<open>A node whose clock goes on, with an empty bucket.\<close>

definition first_world :: backup_world where
  "first_world = \<lparr>bwFail = (\<lambda>_. False), bwGen = (\<lambda>n. n), bwRand = (\<lambda>_. replicate 7 9), bwArchive = (\<lambda>n. replicate n 5)\<rparr>"

definition first_params :: "mem_s3 run_params" where
  "first_params = \<lparr>rpObjs = mem_objs, rpPend = snd, rpSv = mem_service, rpCd = plain_codecs, rpPre = nodePrefix ''n1'', rpWorld = first_world,
     rpRoot = root sample_store, rpWld = sample_world\<lparr>times := \<lambda>n. int n\<rparr>\<rparr>"

definition first_backer :: "(Fake, mem_s3) backer" where
  "first_backer = \<lparr>bkGroup = sample_group\<lparr>gst := sample_store\<lparr>wld := sample_world\<lparr>times := \<lambda>n. int n\<rparr>\<rparr>\<rparr>, bkSvc = ([], \<lambda>_. Map.empty),
     bkSv = mem_service, bkCd = plain_codecs, bkPrefix = nodePrefix ''n1'', bkPages = 10, bkWorld = first_world, bkN = 0\<rparr>"

definition empty_pool :: "mem_s3 \<Rightarrow> mem_s3 restorer" where
  "empty_pool b = \<lparr>rsSvc = b, rsSv = mem_service, rsCd = plain_codecs, rsEnvs = [], rsSnaps = \<lambda>_. Map.empty, rsPool = Map.empty, rsState = None,
     rsFail = (\<lambda>_. False), rsN = 0\<rparr>"

lemma first_laws: "run_laws first_params"
  by (auto simp: run_laws_def first_params_def mem_service_like plain_codecs_ok prefixes_ok_def first_world_def strict_mono_def)

lemma first_inv: "run_inv first_params {} {} first_backer"
  by (auto simp: run_inv_def run_at_def first_params_def first_backer_def settings_def stored_def mem_objs_def good_def manifest_ok_def
      state_ok_def empty_manifest_def)


end
