(* ===== verification/BoxExec.thy ===== *)
theory BoxExec
  imports Crypt
begin

text \<open>
  \<open>internal/boxexec\<close>: the frames of a command's connection (\<open>boxexec.go\<close>), what the server makes of a client's messages
  (\<open>server.go\<close>) and the client's side (\<open>client.go\<close>). The WebSocket library gives whole messages in order; a send may fail.
\<close>

unbundle bit_operations_syntax

section \<open>Frames\<close>

definition frameStdin :: byte where "frameStdin = 0"
definition frameStdout :: byte where "frameStdout = 1"
definition frameStderr :: byte where "frameStderr = 2"
definition frameStdinEOF :: byte where "frameStdinEOF = 3"
definition frameResize :: byte where "frameResize = 4"
definition frameSignal :: byte where "frameSignal = 5"

lemmas frame_kinds = frameStdin_def frameStdout_def frameStderr_def frameStdinEOF_def frameResize_def frameSignal_def

definition frameData :: nat where "frameData = 65536"
definition initialFrameData :: nat where "initialFrameData = 4096"

text \<open>\<open>fwCap\<close> is \<open>len(buf) - 1\<close>; \<open>fwSent\<close> are the frames that were sent, and \<open>fwFail n\<close> says that the send after \<open>n\<close> of them fails.\<close>

record frame_writer =
  fwKind :: byte
  fwCap :: nat
  fwSent :: "byte list list"
  fwFail :: "nat \<Rightarrow> bool"

definition frames :: "byte \<Rightarrow> (nat \<Rightarrow> bool) \<Rightarrow> frame_writer" where
  "frames kind fail = \<lparr>fwKind = kind, fwCap = initialFrameData, fwSent = [], fwFail = fail\<rparr>"

definition fw_send :: "byte list \<Rightarrow> frame_writer \<Rightarrow> frame_writer option" where
  "fw_send xs w =
     (if fwFail w (length (fwSent w)) then None else Some (w\<lparr>fwSent := fwSent w @ [fwKind w # xs]\<rparr>))"

definition fw_grow :: "nat \<Rightarrow> frame_writer \<Rightarrow> frame_writer" where
  "fw_grow sz w = w\<lparr>fwCap := sz - 1\<rparr>"

text \<open>The loop of \<open>Write\<close>. With an empty buffer it would not end.\<close>

partial_function (option) fw_loop :: "nat \<Rightarrow> byte list \<Rightarrow> frame_writer \<Rightarrow> (nat \<times> bool \<times> frame_writer) option" where
  "fw_loop n p w =
     (if p = [] then Some (n, True, w)
      else let c = min (fwCap w) (length p) in
        (case fw_send (take c p) w of
           None \<Rightarrow> Some (n, False, w)
         | Some w' \<Rightarrow> fw_loop (n + c) (drop c p) w'))"

definition fw_Write :: "byte list \<Rightarrow> frame_writer \<Rightarrow> (nat \<times> bool \<times> frame_writer) option" where
  "fw_Write p w =
     (let sz = 1 + min (length p) frameData in
      fw_loop 0 p (if 1 + fwCap w < sz then fw_grow sz w else w))"

text \<open>
  \<open>ReadFrom\<close>: the \<open>i\<close>-th read of \<open>r\<close> gives at most \<open>sizes i\<close> bytes, and at least one while there are some.
\<close>

datatype copy_end = CopyDone | SendFailed | ReaderFailed nat

partial_function (option) fw_ReadFrom ::
  "(nat \<Rightarrow> nat) \<Rightarrow> nat \<Rightarrow> nat \<Rightarrow> reader \<Rightarrow> frame_writer \<Rightarrow> (nat \<times> copy_end \<times> frame_writer) option" where
  "fw_ReadFrom sizes i n r w =
     (if rData r = [] then Some (n, (case rErr r of None \<Rightarrow> CopyDone | Some e \<Rightarrow> ReaderFailed e), w)
      else let x = take (min (fwCap w) (max 1 (sizes i))) (rData r); rest = r\<lparr>rData := drop (length x) (rData r)\<rparr> in
        (case (if x = [] then Some w else fw_send x w) of
           None \<Rightarrow> Some (n, SendFailed, w)
         | Some w' \<Rightarrow> fw_ReadFrom sizes (Suc i) (n + length x) rest
             (if length x = fwCap w' \<and> 1 + fwCap w' < 1 + frameData then fw_grow (1 + frameData) w' else w')))"

section \<open>The server\<close>

definition stdinQueue :: nat where "stdinQueue = 16"

definition forwardable :: "byte \<Rightarrow> bool" where
  "forwardable sig \<longleftrightarrow> sig = 1 \<or> sig = 2 \<or> sig = 15"

type_synonym Size = "16 word \<times> 16 word"

text \<open>
  A running command as the connection's goroutines see it. \<open>prQueue\<close> is the channel from \<open>readInput\<close> to \<open>writeStdin\<close>, with None
  for the end; \<open>prDone\<close> is \<open>writeStdin\<close>'s variable; \<open>prStdin\<close> is what was written to the command, \<open>prSignals\<close> what its
  group was sent.
\<close>

record process =
  prTTY :: bool
  prExited :: bool
  prEnded :: bool
  prSize :: Size
  prSignals :: "byte list"
  prQueue :: "byte list option list"
  prDone :: bool
  prStdin :: "byte list"
  prEOF :: bool

definition setSize :: "Size \<Rightarrow> process \<Rightarrow> process" where
  "setSize s p = (if prEnded p then p else p\<lparr>prSize := (if fst s = 0 \<or> snd s = 0 then (24, 80) else s)\<rparr>)"

definition start_process :: "bool \<Rightarrow> Size \<Rightarrow> process" where
  "start_process tty s = setSize s \<lparr>prTTY = tty, prExited = False, prEnded = False, prSize = (24, 80), prSignals = [], prQueue = [],
     prDone = False, prStdin = [], prEOF = False\<rparr>"

definition Uint16 :: "byte list \<Rightarrow> 16 word" where
  "Uint16 bs = push_bit 8 (ucast (bs ! 0)) OR ucast (bs ! 1)"

text \<open>\<open>queue\<close>: None while the channel is full, which holds \<open>readInput\<close> up.\<close>

definition queue :: "byte list option \<Rightarrow> process \<Rightarrow> process option" where
  "queue d p = (if length (prQueue p) < stdinQueue then Some (p\<lparr>prQueue := prQueue p @ [d]\<rparr>) else None)"

text \<open>One turn of \<open>readInput\<close>.\<close>

definition input_message :: "byte list \<Rightarrow> process \<Rightarrow> process option" where
  "input_message msg p =
     (case msg of
        [] \<Rightarrow> Some p
      | kind # rest \<Rightarrow>
          if kind = frameStdin then (if rest \<noteq> [] then queue (Some rest) p else Some p)
          else if kind = frameStdinEOF then (if \<not> prTTY p then queue None p else Some p)
          else if kind = frameResize then
            Some (if prTTY p \<and> length msg = 5 then setSize (Uint16 rest, Uint16 (drop 2 rest)) p else p)
          else if kind = frameSignal then
            Some (if length msg = 2 \<and> forwardable (last msg) \<and> \<not> prExited p then p\<lparr>prSignals := prSignals p @ [last msg]\<rparr> else p)
          else Some p)"

text \<open>One turn of \<open>writeStdin\<close>. \<open>wr\<close>: the write fails after that many bytes.\<close>

definition stdin_turn :: "nat option \<Rightarrow> process \<Rightarrow> process" where
  "stdin_turn wr p =
     (case prQueue p of
        [] \<Rightarrow> p
      | d # ds \<Rightarrow>
          let p' = p\<lparr>prQueue := ds\<rparr> in
          if prDone p then p'
          else (case d of
              None \<Rightarrow> p'\<lparr>prEOF := True, prDone := True\<rparr>
            | Some xs \<Rightarrow> (case wr of
                None \<Rightarrow> p'\<lparr>prStdin := prStdin p @ xs\<rparr>
              | Some n \<Rightarrow> p'\<lparr>prStdin := prStdin p @ take n xs, prDone := True\<rparr>)))"

text \<open>The goroutines of a connection, with the messages still to come.\<close>

datatype exec_event = EvRecv | EvStdin "nat option" | EvWaited | EvClosed

fun exec_step :: "exec_event \<Rightarrow> byte list list \<times> process \<Rightarrow> byte list list \<times> process" where
  "exec_step EvRecv (ms, p) =
     (case ms of
        [] \<Rightarrow> (ms, p)
      | m # rest \<Rightarrow> (case input_message m p of None \<Rightarrow> (ms, p) | Some p' \<Rightarrow> (rest, p')))"
| "exec_step (EvStdin wr) (ms, p) = (ms, stdin_turn wr p)"
| "exec_step EvWaited (ms, p) = (ms, p\<lparr>prExited := True\<rparr>)"
| "exec_step EvClosed (ms, p) = (ms, if prExited p then p\<lparr>prEnded := True\<rparr> else p)"

definition exec_run :: "exec_event list \<Rightarrow> byte list list \<times> process \<Rightarrow> byte list list \<times> process" where
  "exec_run evs s = fold exec_step evs s"

text \<open>\<open>exitCode\<close> of what \<open>Wait\<close> returned.\<close>

datatype wait_result = WaitOK | WaitExited int | WaitSignaled int | WaitFailed

definition exitNotStarted :: int where "exitNotStarted = 127"

fun exitCode :: "wait_result \<Rightarrow> int" where
  "exitCode WaitOK = 0"
| "exitCode (WaitSignaled sig) = 128 + sig"
| "exitCode (WaitExited code) = code"
| "exitCode WaitFailed = exitNotStarted"

text \<open>\<open>filepath.Join\<close> of two.\<close>

definition clean_join :: "string \<Rightarrow> string \<Rightarrow> string" where
  "clean_join dir name = (case Clean (dir @ ''/'' @ name) of
     (True, cs) \<Rightarrow> path_text cs
   | (False, []) \<Rightarrow> ''.''
   | (False, c # cs) \<Rightarrow> c @ concat (map ((#) CHR ''/'') cs))"

text \<open>\<open>lookPath\<close>; \<open>found\<close> is \<open>exec.LookPath\<close> of a path with a slash.\<close>

fun first_found :: "(string \<Rightarrow> string option) \<Rightarrow> string \<Rightarrow> string list \<Rightarrow> string" where
  "first_found found name [] = name"
| "first_found found name (dir # dirs) =
     (if dir = [] then first_found found name dirs
      else (case found (clean_join dir name) of Some p \<Rightarrow> p | None \<Rightarrow> first_found found name dirs))"

definition last_path :: "string list \<Rightarrow> string" where
  "last_path env = fold (\<lambda>v p. case cut_prefix v ''PATH='' of Some q \<Rightarrow> q | None \<Rightarrow> p) env []"

definition split_list :: "string \<Rightarrow> string list" where
  "split_list p = (if p = [] then [] else split_on CHR '':'' p)"

definition lookPath :: "(string \<Rightarrow> string option) \<Rightarrow> string \<Rightarrow> string list \<Rightarrow> string" where
  "lookPath found name env =
     (if CHR ''/'' \<in> set name then name else first_found found name (split_list (last_path env)))"

section \<open>The client\<close>

definition PutUint16 :: "16 word \<Rightarrow> byte list" where
  "PutUint16 n = [ucast (drop_bit 8 n), ucast n]"

datatype control = CtlResize Size | CtlSignal int

text \<open>The message \<open>sendControls\<close> sends.\<close>

definition control_message :: "control \<Rightarrow> byte list" where
  "control_message c = (case c of
     CtlResize s \<Rightarrow> frameResize # PutUint16 (fst s) @ PutUint16 (snd s)
   | CtlSignal sig \<Rightarrow> [frameSignal, word_of_int sig])"

text \<open>\<open>sendStdin\<close>: what is sent, when no send fails.\<close>

definition sendStdin :: "(nat \<Rightarrow> nat) \<Rightarrow> reader \<Rightarrow> byte list list option" where
  "sendStdin sizes r =
     (case fw_ReadFrom sizes 0 0 r (frames frameStdin (\<lambda>_. False)) of
        None \<Rightarrow> None
      | Some (_, _, w) \<Rightarrow> Some (fwSent w @ [[frameStdinEOF]]))"

text \<open>
  The loop of \<open>Run\<close>: a text message is the exit code. \<open>wr n\<close>: the write of the \<open>n\<close>-th message's data fails after that many bytes.
\<close>

datatype ws_message = Binary "byte list" | Text "byte list"

record client =
  clStdout :: "byte list"
  clStderr :: "byte list"

datatype run_end = RunExit int | BadExit | ReadEnded | WriteFailed

definition client_write :: "byte \<Rightarrow> byte list \<Rightarrow> client \<Rightarrow> client" where
  "client_write kind xs c =
     (if kind = frameStdout then c\<lparr>clStdout := clStdout c @ xs\<rparr>
      else if kind = frameStderr then c\<lparr>clStderr := clStderr c @ xs\<rparr>
      else c)"

fun client_Run :: "(byte list \<Rightarrow> int option) \<Rightarrow> (nat \<Rightarrow> nat option) \<Rightarrow> nat \<Rightarrow> ws_message list \<Rightarrow> client \<Rightarrow> run_end \<times> client" where
  "client_Run json wr n [] c = (ReadEnded, c)"
| "client_Run json wr n (Text xs # ms) c = ((case json xs of None \<Rightarrow> BadExit | Some code \<Rightarrow> RunExit code), c)"
| "client_Run json wr n (Binary [] # ms) c = client_Run json wr (Suc n) ms c"
| "client_Run json wr n (Binary (kind # xs) # ms) c =
     (if kind = frameStdout \<or> kind = frameStderr then
        (case wr n of
           Some k \<Rightarrow> (WriteFailed, client_write kind (take k xs) c)
         | None \<Rightarrow> client_Run json wr (Suc n) ms (client_write kind xs c))
      else client_Run json wr (Suc n) ms c)"

section \<open>One exec of the server\<close>

record exec_request =
  rqvArgv :: "string list"
  rqvTTY :: bool
  rqvSize :: Size
  rqvDir :: string
  rqvEnviron :: "string list"

record exec_server =
  svToken :: string
  svDir :: string
  svEnv :: "string list"

record command =
  cmdPath :: string
  cmdArgs :: "string list"
  cmdDir :: string
  cmdEnv :: "string list"

text \<open>\<open>starts cmd\<close> is the error of starting it, on a terminal or with pipes. \<open>exitText\<close> encodes an exit code.\<close>

definition server_start ::
  "(string \<Rightarrow> string option) \<Rightarrow> (command \<Rightarrow> string option) \<Rightarrow> exec_request \<Rightarrow> exec_server \<Rightarrow> string + (command \<times> process)" where
  "server_start found starts q s =
     (case rqvArgv q of
        [] \<Rightarrow> Inl ''no command''
      | name # args \<Rightarrow>
          let env = (if rqvEnviron q \<noteq> [] then svEnv s @ rqvEnviron q else svEnv s);
              cmd = \<lparr>cmdPath = lookPath found name env, cmdArgs = args, cmdDir = (if rqvDir q \<noteq> [] then rqvDir q else svDir s), cmdEnv = env\<rparr> in
          (case starts cmd of
             Some err \<Rightarrow> Inl err
           | None \<Rightarrow> Inr (cmd, start_process (rqvTTY q) (rqvSize q))))"

definition string_bytes :: "string \<Rightarrow> byte list" where
  "string_bytes = map of_char"

datatype serve_end = ServeUnauthorized | ServeEnds | ServeMessages "ws_message list" | ServeRuns command process

definition ServeHTTP ::
  "(string \<Rightarrow> string option) \<Rightarrow> (command \<Rightarrow> string option) \<Rightarrow> (int \<Rightarrow> byte list) \<Rightarrow> exec_server \<Rightarrow> string \<Rightarrow> bool \<Rightarrow> exec_request option \<Rightarrow> serve_end" where
  "ServeHTTP found starts exitText s header accepted req =
     (if header \<noteq> ''Bearer '' @ svToken s then ServeUnauthorized
      else if \<not> accepted then ServeEnds
      else (case req of
          None \<Rightarrow> ServeEnds
        | Some q \<Rightarrow> (case server_start found starts q s of
            Inl err \<Rightarrow> ServeMessages [Binary (frameStderr # string_bytes (''exec: '' @ err @ [CHR 0x0A])), Text (exitText exitNotStarted)]
          | Inr (cmd, p) \<Rightarrow> ServeRuns cmd p)))"

end
