(* ===== verification/BoxExecLaws.thy ===== *)
theory BoxExecLaws
  imports BoxExec
begin

text \<open>
  What the exec protocol promises: a command reads what the client sent and the client what the command wrote, however the
  frames are cut and the goroutines take turns, and a client can do no more to the command than the protocol lets it.
\<close>

section \<open>Frames\<close>

text \<open>The frames of \<open>ReadFrom\<close> carry what was read, all of it unless a send failed.\<close>

lemma fw_ReadFrom_frames:
  assumes "0 < fwCap w" "fwCap w \<le> frameData"
  shows "\<exists>m e w' xs. fw_ReadFrom sizes i n r w = Some (m, e, w') \<and> fwSent w' = fwSent w @ map ((#) (fwKind w)) xs
    \<and> (\<forall>x \<in> set xs. x \<noteq> [] \<and> length x \<le> frameData) \<and> prefix (concat xs) (rData r) \<and> m = n + length (concat xs)
    \<and> (if e = SendFailed then \<exists>k. fwFail w k else concat xs = rData r)"
  using assms
proof (induction "length (rData r)" arbitrary: i n r w rule: less_induct)
  case less
  show ?case
  proof (cases "rData r = []")
    case True
    then show ?thesis by (subst fw_ReadFrom.simps) (auto split: option.split)
  next
    case False
    define x where "x = take (min (fwCap w) (max 1 (sizes i))) (rData r)"
    define rest where "rest = r\<lparr>rData := drop (length x) (rData r)\<rparr>"
    have x: "x \<noteq> []" "length x \<le> frameData" using less.prems False by (auto simp: x_def min_def max_def)
    have all: "rData r = x @ rData rest"
      by (simp add: x_def rest_def min_def)
    have turn: "fw_ReadFrom sizes i n r w = (case fw_send x w of
        None \<Rightarrow> Some (n, SendFailed, w)
      | Some v \<Rightarrow> fw_ReadFrom sizes (Suc i) (n + length x) rest
          (if length x = fwCap v \<and> 1 + fwCap v < 1 + frameData then fw_grow (1 + frameData) v else v))"
      using False x(1) by (subst fw_ReadFrom.simps) (simp only: Let_def flip: x_def rest_def, simp)
    show ?thesis
    proof (cases "fw_send x w")
      case None
      then have "fwFail w (length (fwSent w))" by (auto simp: fw_send_def split: if_splits)
      with None turn show ?thesis by (auto intro!: exI [of _ "[]"])
    next
      case (Some v)
      define u where "u = (if length x = fwCap v \<and> 1 + fwCap v < 1 + frameData then fw_grow (1 + frameData) v else v)"
      have v: "fwSent v = fwSent w @ [fwKind w # x]" "fwKind v = fwKind w" "fwCap v = fwCap w" "fwFail v = fwFail w"
        using Some by (auto simp: fw_send_def split: if_splits)
      have u: "fwSent u = fwSent w @ [fwKind w # x]" "fwKind u = fwKind w" "fwFail u = fwFail w" "0 < fwCap u" "fwCap u \<le> frameData"
        using v less.prems by (auto simp: u_def fw_grow_def frameData_def)
      have "length (rData rest) < length (rData r)" using x(1) all by simp
      from less.hyps [OF this u(4,5), of "Suc i" "n + length x"] obtain m e w' xs where
        rec: "fw_ReadFrom sizes (Suc i) (n + length x) rest u = Some (m, e, w')"
          "fwSent w' = fwSent u @ map ((#) (fwKind u)) xs" "\<forall>x \<in> set xs. x \<noteq> [] \<and> length x \<le> frameData"
          "prefix (concat xs) (rData rest)" "m = n + length x + length (concat xs)"
          "if e = SendFailed then \<exists>k. fwFail u k else concat xs = rData rest"
        by blast
      have "fw_ReadFrom sizes i n r w = Some (m, e, w')" using turn Some rec(1) by (simp add: u_def)
      then show ?thesis
        using rec(2-6) x all u by (intro exI [of _ m] exI [of _ e] exI [of _ w'] exI [of _ "x # xs"]) (auto split: if_splits)
    qed
  qed
qed

text \<open>What \<open>sendStdin\<close> sends: the whole input in data frames, then one end.\<close>

lemma sendStdin_frames:
  "\<exists>xs. sendStdin sizes r = Some (map ((#) frameStdin) xs @ [[frameStdinEOF]])
    \<and> (\<forall>x \<in> set xs. x \<noteq> [] \<and> length x \<le> frameData) \<and> concat xs = rData r"
proof -
  let ?w = "frames frameStdin (\<lambda>_. False)"
  have cap: "0 < fwCap ?w" "fwCap ?w \<le> frameData" by (simp_all add: frames_def initialFrameData_def frameData_def)
  show ?thesis
    using fw_ReadFrom_frames [OF cap, of sizes 0 0 r] by (auto simp: sendStdin_def frames_def split: if_splits)
qed

text \<open>\<open>Write\<close> returns, and sends its argument in order, all of it unless a send failed.\<close>

lemma fw_loop_frames:
  assumes "0 < fwCap w"
  shows "\<exists>m ok w' xs. fw_loop n p w = Some (m, ok, w') \<and> fwSent w' = fwSent w @ map ((#) (fwKind w)) xs
    \<and> (\<forall>x \<in> set xs. x \<noteq> [] \<and> length x \<le> fwCap w) \<and> prefix (concat xs) p \<and> m = n + length (concat xs)
    \<and> (if ok then concat xs = p else \<exists>k. fwFail w k)"
  using assms
proof (induction "length p" arbitrary: n p w rule: less_induct)
  case less
  define x where "x = take (min (fwCap w) (length p)) p"
  define rest where "rest = drop (min (fwCap w) (length p)) p"
  have p: "p = x @ rest" "length x = min (fwCap w) (length p)" by (simp_all add: x_def rest_def)
  have turn: "fw_loop n p w = (if p = [] then Some (n, True, w) else
      (case fw_send x w of None \<Rightarrow> Some (n, False, w) | Some v \<Rightarrow> fw_loop (n + length x) rest v))"
    using p(2) by (subst fw_loop.simps) (simp only: Let_def x_def rest_def)
  show ?case
  proof (cases "p = [] \<or> fw_send x w = None")
    case True
    then show ?thesis using turn by (auto simp: fw_send_def split: if_splits)
  next
    case False
    then obtain v where v: "fw_send x w = Some v" "p \<noteq> []" by auto
    then have w: "fwSent v = fwSent w @ [fwKind w # x]" "fwKind v = fwKind w" "fwCap v = fwCap w" "fwFail v = fwFail w"
      by (auto simp: fw_send_def split: if_splits)
    have x: "x \<noteq> []" "length x \<le> fwCap w" using less.prems v(2) p(2) by (auto simp: min_def split: if_splits)
    then have "length rest < length p" using p(1) by simp
    from less.hyps [OF this, of v "n + length x"] less.prems w(3) obtain m ok w' xs where
      rec: "fw_loop (n + length x) rest v = Some (m, ok, w')" "fwSent w' = fwSent v @ map ((#) (fwKind v)) xs"
        "\<forall>x \<in> set xs. x \<noteq> [] \<and> length x \<le> fwCap v" "prefix (concat xs) rest" "m = n + length x + length (concat xs)"
        "if ok then concat xs = rest else \<exists>k. fwFail v k"
      by auto
    have "fw_loop n p w = Some (m, ok, w')" using turn v rec(1) by simp
    moreover have "prefix (concat (x # xs)) p" using rec(4) p(1) by simp
    ultimately show ?thesis
      using rec(2,3,5,6) x w p(1) by (intro exI [of _ m] exI [of _ ok] exI [of _ w'] exI [of _ "x # xs"]) (auto split: if_splits)
  qed
qed

lemma fw_Write_frames:
  assumes "0 < fwCap w"
  shows "\<exists>m ok w' xs. fw_Write p w = Some (m, ok, w') \<and> fwSent w' = fwSent w @ map ((#) (fwKind w)) xs
    \<and> prefix (concat xs) p \<and> m = length (concat xs) \<and> (if ok then concat xs = p else \<exists>k. fwFail w k)"
proof -
  let ?v = "if 1 + fwCap w < 1 + min (length p) frameData then fw_grow (1 + min (length p) frameData) w else w"
  have v: "0 < fwCap ?v" "fwSent ?v = fwSent w" "fwKind ?v = fwKind w" "fwFail ?v = fwFail w"
    using assms by (auto simp: fw_grow_def)
  have "fw_Write p w = fw_loop 0 p ?v" by (simp add: fw_Write_def Let_def)
  then show ?thesis using fw_loop_frames [OF v(1), of 0 p] v(2-4) by fastforce
qed

section \<open>The pipe\<close>

text \<open>
  The specification: a pipe that delivers its bytes in order, may break at any point and loses the rest then, and is
  closed only when all of them have been delivered.
\<close>

datatype pipe_end = PipeOpen | PipeClosed | PipeBroken

type_synonym pipe = "byte list \<times> byte list \<times> pipe_end"

inductive pipe_step :: "pipe \<Rightarrow> pipe \<Rightarrow> bool" where
  deliver: "pipe_step (got, xs @ ys, PipeOpen) (got @ xs, ys, PipeOpen)"
| break: "prefix xs left \<Longrightarrow> pipe_step (got, left, PipeOpen) (got @ xs, [], PipeBroken)"
| close: "pipe_step (got, [], PipeOpen) (got, [], PipeClosed)"

inductive_cases pipe_stepE: "pipe_step a b"

definition pipe_inv :: "byte list \<Rightarrow> pipe \<Rightarrow> bool" where
  "pipe_inv xs q \<longleftrightarrow> (case q of
     (got, left, PipeBroken) \<Rightarrow> prefix got xs \<and> left = []
   | (got, left, PipeClosed) \<Rightarrow> got = xs \<and> left = []
   | (got, left, PipeOpen) \<Rightarrow> got @ left = xs)"

lemma pipe_step_inv: "pipe_step a b \<Longrightarrow> pipe_inv xs a \<Longrightarrow> pipe_inv xs b"
  by (erule pipe_step.cases) (auto simp: pipe_inv_def prefix_def)

lemma pipe_inv_prefix: "pipe_inv xs (got, left, e) \<Longrightarrow> prefix got xs"
  by (cases e) (auto simp: pipe_inv_def)

lemma pipe_run_inv: "pipe_step\<^sup>*\<^sup>* a b \<Longrightarrow> pipe_inv xs a \<Longrightarrow> pipe_inv xs b"
  by (induction rule: rtranclp_induct) (auto intro: pipe_step_inv)

text \<open>The abstraction: what a message puts on the queue, and the bytes before the first end.\<close>

definition item_of :: "bool \<Rightarrow> byte list \<Rightarrow> byte list option list" where
  "item_of tty m = (case m of
     [] \<Rightarrow> []
   | kind # rest \<Rightarrow> if kind = frameStdin \<and> rest \<noteq> [] then [Some rest]
       else if kind = frameStdinEOF \<and> \<not> tty then [None] else [])"

definition items_of :: "bool \<Rightarrow> byte list list \<Rightarrow> byte list option list" where
  "items_of tty ms = concat (map (item_of tty) ms)"

fun until_end :: "byte list option list \<Rightarrow> byte list" where
  "until_end [] = []"
| "until_end (None # ds) = []"
| "until_end (Some xs # ds) = xs @ until_end ds"

definition pipe_of :: "byte list list \<times> process \<Rightarrow> pipe" where
  "pipe_of s = (case s of (ms, p) \<Rightarrow>
     (prStdin p,
      if prDone p then [] else until_end (prQueue p @ items_of (prTTY p) ms),
      if \<not> prDone p then PipeOpen else if prEOF p then PipeClosed else PipeBroken))"

text \<open>What a message does besides.\<close>

lemma input_message_some:
  assumes "input_message m p = Some p'"
  shows "prQueue p' = prQueue p @ item_of (prTTY p) m" "prTTY p' = prTTY p" "prDone p' = prDone p" "prStdin p' = prStdin p"
    "prEOF p' = prEOF p" "prExited p' = prExited p" "prEnded p' = prEnded p"
  using assms
  by (auto simp: input_message_def item_of_def queue_def setSize_def frame_kinds split: list.splits if_splits)

lemma input_message_queue: "input_message m p = Some p' \<Longrightarrow> length (prQueue p) \<le> stdinQueue \<Longrightarrow> length (prQueue p') \<le> stdinQueue"
  by (auto simp: input_message_def queue_def setSize_def split: list.splits if_splits)

lemma input_message_none:
  "input_message m p = None \<longleftrightarrow> item_of (prTTY p) m \<noteq> [] \<and> stdinQueue \<le> length (prQueue p)"
  by (auto simp: input_message_def item_of_def queue_def frame_kinds split: list.splits if_splits)

definition exec_inv :: "byte list list \<times> process \<Rightarrow> bool" where
  "exec_inv s \<longleftrightarrow> length (prQueue (snd s)) \<le> stdinQueue \<and> (prEOF (snd s) \<longrightarrow> prDone (snd s))"

lemma exec_step_inv: "exec_inv s \<Longrightarrow> exec_inv (exec_step e s)"
proof (induction e s rule: exec_step.induct)
  case (1 ms p)
  then show ?case
    by (auto simp: exec_inv_def input_message_some(3,5) input_message_queue split: list.splits option.splits)
next
  case (2 wr ms p)
  then show ?case by (auto simp: exec_inv_def stdin_turn_def Let_def split: list.splits option.splits)
qed (auto simp: exec_inv_def)

text \<open>Each turn of a goroutine is a step of the pipe, or none.\<close>

lemma exec_step_pipe: "exec_inv s \<Longrightarrow> pipe_step\<^sup>=\<^sup>= (pipe_of s) (pipe_of (exec_step e s))"
proof (induction e s rule: exec_step.induct)
  case (1 ms p)
  then show ?case
    by (auto simp: pipe_of_def items_of_def input_message_some split: list.splits option.splits)
next
  case (2 wr ms p)
  then show ?case
    by (auto simp: pipe_of_def exec_inv_def stdin_turn_def Let_def items_of_def
      intro!: pipe_step.intros prefix_prefix take_is_prefix split: list.splits option.splits)
qed (auto simp: pipe_of_def)

text \<open>Goroutines that take turns on a state, and the specification their turns implement.\<close>

locale step_refinement =
  fixes step :: "'e \<Rightarrow> 's \<Rightarrow> 's" and inv :: "'s \<Rightarrow> bool" and abs_of :: "'s \<Rightarrow> 'a" and spec :: "'a \<Rightarrow> 'a \<Rightarrow> bool"
  assumes step_inv: "inv s \<Longrightarrow> inv (step e s)"
    and step_spec: "inv s \<Longrightarrow> spec\<^sup>=\<^sup>= (abs_of s) (abs_of (step e s))"
begin

lemma run_inv: "inv s \<Longrightarrow> inv (fold step es s)"
  by (rule fold_invariant [where Q = "\<lambda>_. True"]) (auto intro: step_inv)

lemma run_spec: "inv s \<Longrightarrow> spec\<^sup>*\<^sup>* (abs_of s) (abs_of (fold step es s))"
proof (induction es arbitrary: s)
  case (Cons e es)
  have "spec\<^sup>*\<^sup>* (abs_of s) (abs_of (step e s))" using step_spec [OF Cons.prems, of e] by auto
  with Cons.IH [OF step_inv [OF Cons.prems, of e]] show ?case by (auto intro: rtranclp_trans)
qed simp

end

interpretation xp: step_refinement exec_step exec_inv pipe_of pipe_step
  by unfold_locales (fact exec_step_inv exec_step_pipe)+

lemma exec_run_pipe: "exec_inv s \<Longrightarrow> exec_inv (exec_run evs s) \<and> pipe_step\<^sup>*\<^sup>* (pipe_of s) (pipe_of (exec_run evs s))"
  unfolding exec_run_def using xp.run_inv xp.run_spec by blast

lemma start_process_simps:
  "prQueue (start_process tty s) = []" "prDone (start_process tty s) = False" "prEOF (start_process tty s) = False"
  "prStdin (start_process tty s) = []" "prTTY (start_process tty s) = tty" "prExited (start_process tty s) = False"
  "prEnded (start_process tty s) = False" "prSignals (start_process tty s) = []"
  by (simp_all add: start_process_def setSize_def)

lemma start_pipe: "exec_inv (ms, start_process tty s)" "pipe_of (ms, start_process tty s) = ([], until_end (items_of tty ms), PipeOpen)"
  by (simp_all add: exec_inv_def pipe_of_def start_process_simps)

text \<open>
  C32 The exec channel refines the pipe: whatever a client sends and however the goroutines take turns, what the command reads is
  what the specification allows of the bytes the client sent before the first end.
\<close>

theorem exec_refines_pipe:
  "pipe_of (ms, start_process tty s) = ([], until_end (items_of tty ms), PipeOpen)
    \<and> pipe_step\<^sup>*\<^sup>* (pipe_of (ms, start_process tty s)) (pipe_of (exec_run evs (ms, start_process tty s)))"
  using start_pipe exec_run_pipe by blast

section \<open>Standard input arrives\<close>

definition drained :: "byte list list \<times> process \<Rightarrow> bool" where
  "drained s \<longleftrightarrow> fst s = [] \<and> prQueue (snd s) = []"

text \<open>Nobody waits for ever: while \<open>writeStdin\<close> gets its turns, so does \<open>readInput\<close>.\<close>

lemma exec_run_append: "exec_run (xs @ ys) s = exec_run ys (exec_run xs s)"
  by (simp add: exec_run_def)

lemma stdin_turn_queue: "prQueue (stdin_turn wr p) = tl (prQueue p)"
  by (auto simp: stdin_turn_def Let_def split: list.split option.split)

lemma recv_advances: "length (prQueue p) < stdinQueue \<Longrightarrow> fst (exec_step EvRecv (ms, p)) = tl ms"
  by (auto simp: input_message_none split: list.split option.split)

lemma exec_drains: "exec_inv s \<Longrightarrow> \<exists>k. drained (exec_run (concat (replicate k [EvStdin None, EvRecv]) @ replicate stdinQueue (EvStdin None)) s)"
proof (induction "length (fst s)" arbitrary: s)
  case 0
  have "exec_run (replicate n (EvStdin None)) (ms, p) = (ms, (stdin_turn None ^^ n) p)" for n ms p
    by (induction n arbitrary: p) (auto simp: exec_run_def funpow_swap1)
  moreover have "prQueue ((stdin_turn None ^^ n) p) = drop n (prQueue p)" for n p
    by (induction n) (auto simp: stdin_turn_queue drop_Suc tl_drop)
  ultimately have "drained (exec_run (replicate stdinQueue (EvStdin None)) s)"
    using 0 by (cases s) (auto simp: drained_def exec_inv_def)
  then show ?case by (intro exI [of _ 0]) simp
next
  case (Suc n)
  let ?s = "exec_run [EvStdin None, EvRecv] s"
  obtain ms p where s: "s = (ms, p)" by (cases s)
  have "length (prQueue (stdin_turn None p)) < stdinQueue"
    using Suc.prems s by (auto simp: stdin_turn_queue exec_inv_def stdinQueue_def)
  from recv_advances [OF this, of ms] have "n = length (fst ?s)" using Suc.hyps(2) s by (simp add: exec_run_def)
  moreover have "exec_inv ?s" using exec_run_pipe [OF Suc.prems] by blast
  ultimately obtain k where "drained (exec_run (concat (replicate k [EvStdin None, EvRecv]) @ replicate stdinQueue (EvStdin None)) ?s)"
    using Suc.hyps(1) by blast
  then have "drained (exec_run (concat (replicate (Suc k) [EvStdin None, EvRecv]) @ replicate stdinQueue (EvStdin None)) s)"
    by (simp add: exec_run_def)
  then show ?case by blast
qed

text \<open>Without a failed write, an end that was sent is on its way or has arrived.\<close>

definition end_comes :: "byte list list \<times> process \<Rightarrow> bool" where
  "end_comes s \<longleftrightarrow> (case s of (ms, p) \<Rightarrow> (prDone p \<longrightarrow> prEOF p) \<and> (prEOF p \<or> None \<in> set (prQueue p @ items_of (prTTY p) ms)))"

lemma exec_step_end_comes: "end_comes s \<Longrightarrow> \<forall>n. e \<noteq> EvStdin (Some n) \<Longrightarrow> end_comes (exec_step e s)"
proof (induction e s rule: exec_step.induct)
  case (1 ms p)
  then show ?case by (auto simp: end_comes_def items_of_def input_message_some split: list.splits option.splits)
next
  case (2 wr ms p)
  then show ?case by (cases wr) (auto simp: end_comes_def stdin_turn_def Let_def split: list.splits option.splits)
qed (auto simp: end_comes_def)

lemma exec_run_end_comes: "end_comes s \<Longrightarrow> \<forall>n. EvStdin (Some n) \<notin> set evs \<Longrightarrow> end_comes (exec_run evs s)"
  unfolding exec_run_def
  by (rule fold_invariant [where Q = "\<lambda>e. e \<in> set evs"]) (auto intro: exec_step_end_comes)

lemma until_end_frames: "[] \<notin> set xs \<Longrightarrow> until_end (items_of False (map ((#) frameStdin) xs @ [[frameStdinEOF]])) = concat xs"
  by (induction xs) (auto simp: items_of_def item_of_def frame_kinds)

lemma end_of_frames: "None \<in> set (items_of False (ms @ [[frameStdinEOF]]))"
  by (simp add: items_of_def item_of_def frame_kinds)

text \<open>
  C31 A command without a terminal reads what the client's standard input has, in order: a part of it at any time, all of it once
  it reads the end, and at most \<open>stdinQueue\<close> frames wait. Nobody waits for ever: every state can be drained, and a run
  without a failed write that is drained has delivered the end.
\<close>

theorem stdin_end_to_end:
  "\<exists>ms. sendStdin sizes r = Some ms \<and> (\<forall>evs. case exec_run evs (ms, start_process False s) of (ms', p) \<Rightarrow>
     prefix (prStdin p) (rData r) \<and> length (prQueue p) \<le> stdinQueue \<and> (prEOF p \<longrightarrow> prStdin p = rData r)
     \<and> (drained (ms', p) \<and> (\<forall>n. EvStdin (Some n) \<notin> set evs) \<longrightarrow> prEOF p)
     \<and> (\<exists>later. (\<forall>n. EvStdin (Some n) \<notin> set later) \<and> drained (exec_run later (ms', p))))"
proof -
  obtain xs where xs: "sendStdin sizes r = Some (map ((#) frameStdin) xs @ [[frameStdinEOF]])" "[] \<notin> set xs" "concat xs = rData r"
    using sendStdin_frames [of sizes r] by blast
  let ?ms = "map ((#) frameStdin) xs @ [[frameStdinEOF]]" and ?p = "start_process False s"
  have "case exec_run evs (?ms, ?p) of (ms', p) \<Rightarrow>
     prefix (prStdin p) (rData r) \<and> length (prQueue p) \<le> stdinQueue \<and> (prEOF p \<longrightarrow> prStdin p = rData r)
     \<and> (drained (ms', p) \<and> (\<forall>n. EvStdin (Some n) \<notin> set evs) \<longrightarrow> prEOF p)
     \<and> (\<exists>later. (\<forall>n. EvStdin (Some n) \<notin> set later) \<and> drained (exec_run later (ms', p)))" for evs
  proof -
    obtain ms' p where run: "exec_run evs (?ms, ?p) = (ms', p)" by fastforce
    have inv: "exec_inv (ms', p)" and refs: "pipe_step\<^sup>*\<^sup>* (pipe_of (?ms, ?p)) (pipe_of (ms', p))"
      using exec_run_pipe [OF start_pipe(1), of evs ?ms False s] run by auto
    have "pipe_inv (rData r) (pipe_of (?ms, ?p))" using until_end_frames xs(2,3) by (simp add: start_pipe(2) pipe_inv_def)
    then have pipe: "pipe_inv (rData r) (pipe_of (ms', p))" by (rule pipe_run_inv [OF refs])
    have "end_comes (?ms, ?p)" using end_of_frames by (auto simp: end_comes_def start_process_simps)
    then have "\<forall>n. EvStdin (Some n) \<notin> set evs \<Longrightarrow> end_comes (ms', p)" using exec_run_end_comes run by metis
    then have ends: "drained (ms', p) \<and> (\<forall>n. EvStdin (Some n) \<notin> set evs) \<longrightarrow> prEOF p"
      by (auto simp: end_comes_def drained_def items_of_def)
    obtain k where k: "drained (exec_run (concat (replicate k [EvStdin None, EvRecv]) @ replicate stdinQueue (EvStdin None)) (ms', p))"
      using exec_drains [OF inv] by blast
    have "\<exists>later. (\<forall>n. EvStdin (Some n) \<notin> set later) \<and> drained (exec_run later (ms', p))"
      by (rule exI, rule conjI [OF _ k]) (auto simp: set_replicate_conv_if)
    moreover have "prEOF p \<longrightarrow> prStdin p = rData r"
      using inv pipe by (auto simp: pipe_inv_def pipe_of_def exec_inv_def)
    ultimately show ?thesis
      using run inv ends pipe_inv_prefix pipe by (auto simp: pipe_of_def exec_inv_def)
  qed
  then show ?thesis using xs(1) by blast
qed

theorem stdin_end_to_end_witness:
  "\<exists>ms. sendStdin (\<lambda>_. 2) \<lparr>rData = [7, 8, 9], rErr = None\<rparr> = Some ms
    \<and> (\<exists>later. drained (exec_run later (ms, start_process False (0, 0))) \<and> prEOF (snd (exec_run later (ms, start_process False (0, 0))))
      \<and> prStdin (snd (exec_run later (ms, start_process False (0, 0)))) = [7, 8, 9])"
proof -
  obtain ms where ms: "sendStdin (\<lambda>_. 2) \<lparr>rData = [7, 8, 9], rErr = None\<rparr> = Some ms"
    and all: "case exec_run evs (ms, start_process False (0, 0)) of (ms', p) \<Rightarrow>
     prefix (prStdin p) [7, 8, 9] \<and> length (prQueue p) \<le> stdinQueue \<and> (prEOF p \<longrightarrow> prStdin p = [7, 8, 9])
     \<and> (drained (ms', p) \<and> (\<forall>n. EvStdin (Some n) \<notin> set evs) \<longrightarrow> prEOF p)
     \<and> (\<exists>later. (\<forall>n. EvStdin (Some n) \<notin> set later) \<and> drained (exec_run later (ms', p)))" for evs
    using stdin_end_to_end [of "\<lambda>_. 2" "\<lparr>rData = [7, 8, 9], rErr = None\<rparr>" "(0, 0)"] by auto
  obtain later where later: "\<forall>n. EvStdin (Some n) \<notin> set later" "drained (exec_run later (ms, start_process False (0, 0)))"
    using all [of "[]"] by (auto simp: exec_run_def)
  with all [of later] ms show ?thesis by (auto intro!: exI [of _ later] split: prod.splits)
qed

text \<open>A command is run by the name it has, or found in a folder of the last \<open>PATH\<close> it runs with.\<close>

lemma first_found_in:
  "first_found found name dirs = name
    \<or> (\<exists>dir \<in> set dirs. dir \<noteq> [] \<and> found (clean_join dir name) = Some (first_found found name dirs))"
  by (induction dirs) (auto split: option.splits)

lemma lookPath_found: "lookPath found name env = name
    \<or> CHR ''/'' \<notin> set name \<and> (\<exists>dir \<in> set (split_list (last_path env)). dir \<noteq> [] \<and> found (clean_join dir name) = Some (lookPath found name env))"
  using first_found_in [of found name] by (auto simp: lookPath_def)

text \<open>
  Without the server's token no command starts; one that can't be started is answered with what is wrong and 127, and one that starts
  runs in the folder and with the variables that were asked for, the last of each name.
\<close>

lemma ServeHTTP_runs: "ServeHTTP found starts exitText s header accepted req = ServeRuns cmd p \<Longrightarrow>
  header = ''Bearer '' @ svToken s \<and> (\<exists>q. req = Some q \<and> server_start found starts q s = Inr (cmd, p))"
  by (auto simp: ServeHTTP_def split: if_splits option.splits sum.splits)

lemma ServeHTTP_not_started:
  assumes "server_start found starts q s = Inl err" "\<And>n. json (exitText n) = Some n"
  shows "\<exists>ms. ServeHTTP found starts exitText s (''Bearer '' @ svToken s) True (Some q) = ServeMessages ms
    \<and> client_Run json (\<lambda>_. None) 0 ms c = (RunExit 127, c\<lparr>clStderr := clStderr c @ string_bytes (''exec: '' @ err @ [CHR 0x0A])\<rparr>)"
  using assms by (simp add: ServeHTTP_def exitNotStarted_def frame_kinds client_write_def)

lemma server_start_runs:
  assumes "server_start found starts q s = Inr (cmd, p)"
  shows "rqvArgv q \<noteq> []" "cmdDir cmd = (if rqvDir q = [] then svDir s else rqvDir q)" "cmdEnv cmd = svEnv s @ rqvEnviron q"
    "p = start_process (rqvTTY q) (rqvSize q)" "starts cmd = None"
  using assms by (cases "rqvArgv q"; auto simp: server_start_def Let_def split: if_splits option.splits)+

section \<open>What a client can do to a command\<close>

definition confined :: "byte list list \<times> process \<Rightarrow> bool" where
  "confined s \<longleftrightarrow> set (prSignals (snd s)) \<subseteq> {1, 2, 15} \<and> fst (prSize (snd s)) \<noteq> 0 \<and> snd (prSize (snd s)) \<noteq> 0"

lemma setSize_confined: "confined (ms, p) \<Longrightarrow> confined (ms', setSize s p)"
  by (auto simp: confined_def setSize_def)

lemma input_message_confined: "input_message m p = Some p' \<Longrightarrow> confined (ms, p) \<Longrightarrow> confined (ms', p')"
  using setSize_confined [of ms p ms']
  by (auto simp: input_message_def queue_def split: list.splits if_splits)
    (auto simp: confined_def forwardable_def)

lemma exec_step_confined: "confined s \<Longrightarrow> confined (exec_step e s)"
proof (induction e s rule: exec_step.induct)
  case (1 ms p)
  then show ?case using input_message_confined [of _ p _ ms] by (auto split: list.splits option.splits)
next
  case (2 wr ms p)
  then show ?case by (auto simp: confined_def stdin_turn_def Let_def split: list.splits option.splits)
qed (auto simp: confined_def)

lemma input_message_frozen: "input_message m p = Some p' \<Longrightarrow>
  (prExited p \<longrightarrow> prSignals p' = prSignals p) \<and> (prEnded p \<or> \<not> prTTY p \<longrightarrow> prSize p' = prSize p)"
  by (auto simp: input_message_def queue_def setSize_def split: list.splits if_splits)

text \<open>A command that has been reaped gets no more signals, and a terminal that is closed or absent no more sizes.\<close>

lemma exec_step_frozen: "prTTY (snd (exec_step e s)) = prTTY (snd s)
  \<and> (prExited (snd s) \<longrightarrow> prExited (snd (exec_step e s)) \<and> prSignals (snd (exec_step e s)) = prSignals (snd s))
  \<and> (prEnded (snd s) \<or> \<not> prTTY (snd s) \<longrightarrow> (prEnded (snd s) \<longrightarrow> prEnded (snd (exec_step e s))) \<and> prSize (snd (exec_step e s)) = prSize (snd s))"
proof (induction e s rule: exec_step.induct)
  case (1 ms p)
  then show ?case using input_message_frozen by (auto simp: input_message_some split: list.splits option.splits)
next
  case (2 wr ms p)
  then show ?case by (auto simp: stdin_turn_def Let_def split: list.splits option.splits)
qed auto

lemma exec_run_frozen: "prTTY (snd (exec_run evs s)) = prTTY (snd s)
  \<and> (prExited (snd s) \<longrightarrow> prExited (snd (exec_run evs s)) \<and> prSignals (snd (exec_run evs s)) = prSignals (snd s))
  \<and> (prEnded (snd s) \<or> \<not> prTTY (snd s) \<longrightarrow> (prEnded (snd s) \<longrightarrow> prEnded (snd (exec_run evs s))) \<and> prSize (snd (exec_run evs s)) = prSize (snd s))"
  unfolding exec_run_def
proof (induction evs arbitrary: s)
  case (Cons e evs)
  show ?case using Cons.IH [of "exec_step e s"] exec_step_frozen [of e s] by (simp only: fold.simps o_apply) metis
qed simp

lemma exec_run_confined: "confined s \<Longrightarrow> confined (exec_run evs s)"
  unfolding exec_run_def by (rule fold_invariant [where Q = "\<lambda>_. True"]) (auto intro: exec_step_confined)



text \<open>Sixteen bits through two bytes.\<close>

lemma Uint16_PutUint16: "Uint16 (PutUint16 n @ xs) = n"
  by (rule bit_eqI) (auto simp: Uint16_def PutUint16_def bit_simps)

text \<open>
  What the client asks of the command's terminal and group is what the server does: a size arrives as it was sent, with 24 rows
  of 80 columns for one that has none, a signal that is forwarded as the same signal, any other not at all.
\<close>

theorem control_arrives:
  assumes "\<forall>sig. c = CtlSignal sig \<longrightarrow> 0 \<le> sig \<and> sig < 256"
  shows "input_message (control_message c) p = Some (case c of
      CtlResize s \<Rightarrow> if prTTY p \<and> \<not> prEnded p then p\<lparr>prSize := (if fst s = 0 \<or> snd s = 0 then (24, 80) else s)\<rparr> else p
    | CtlSignal sig \<Rightarrow> if sig \<in> {1, 2, 15} \<and> \<not> prExited p then p\<lparr>prSignals := prSignals p @ [word_of_int sig]\<rparr> else p)"
proof (cases c)
  case (CtlResize s)
  have "Uint16 (PutUint16 (fst s) @ PutUint16 (snd s)) = fst s" "Uint16 (drop 2 (PutUint16 (fst s) @ PutUint16 (snd s))) = snd s"
    using Uint16_PutUint16 [of "snd s" "[]"] by (simp_all add: Uint16_PutUint16) (simp add: PutUint16_def)
  then show ?thesis
    using CtlResize by (simp add: input_message_def control_message_def frame_kinds setSize_def) (simp add: PutUint16_def)
next
  case (CtlSignal sig)
  then have sig: "uint (word_of_int sig :: byte) = sig" using assms by (simp add: uint_word_of_int)
  have "forwardable (word_of_int sig) \<longleftrightarrow> sig \<in> {1, 2, 15}"
    unfolding forwardable_def using sig by (auto simp: word_uint_eq_iff)
  then show ?thesis using CtlSignal by (simp add: input_message_def control_message_def frame_kinds)
qed

theorem control_arrives_witness:
  "input_message (control_message (CtlSignal 2)) (start_process True (0, 0)) = Some ((start_process True (0, 0))\<lparr>prSignals := [2]\<rparr>)"
  using control_arrives [of "CtlSignal 2" "start_process True (0, 0)"] by (simp add: start_process_simps)

section \<open>Output arrives\<close>

definition kind_data :: "byte \<Rightarrow> byte list list \<Rightarrow> byte list" where
  "kind_data kind ms = concat (map tl (filter (\<lambda>m. m \<noteq> [] \<and> hd m = kind) ms))"

lemma client_Run_binary:
  "client_Run json (\<lambda>_. None) n (map Binary ms @ rest) c = client_Run json (\<lambda>_. None) (n + length ms) rest
     \<lparr>clStdout = clStdout c @ kind_data frameStdout ms, clStderr = clStderr c @ kind_data frameStderr ms\<rparr>"
proof (induction ms arbitrary: n c)
  case (Cons m ms)
  then show ?case by (cases m) (auto simp: kind_data_def client_write_def frame_kinds)
next
  case Nil
  then show ?case by (cases c) (simp add: kind_data_def)
qed

lemma kind_data_frames: "kind_data kind (map ((#) kind') xs) = (if kind = kind' then concat xs else [])"
  by (induction xs) (auto simp: kind_data_def)

lemma kind_data_shuffle:
  assumes "ms \<in> shuffles (map ((#) kind) xs) (map ((#) kind') ys)" "kind \<noteq> kind'"
  shows "kind_data kind ms = concat xs" "kind_data kind' ms = concat ys"
proof -
  let ?P = "\<lambda>k m. m \<noteq> [] \<and> hd m = k"
  have one: "filter (?P k) (map ((#) k') zs) = (if k = k' then map ((#) k) zs else [])" for k k' :: byte and zs
    by (induction zs) auto
  have "filter (?P k) ms \<in> shuffles (filter (?P k) (map ((#) kind) xs)) (filter (?P k) (map ((#) kind') ys))" for k
    using assms(1) filter_shuffles [of "?P k"] by blast
  from this [of kind] this [of kind'] show "kind_data kind ms = concat xs" "kind_data kind' ms = concat ys"
    using assms(2) by (simp_all add: one kind_data_def comp_def)
qed

lemma kind_data_take: "prefix (kind_data kind (take k ms)) (kind_data kind ms)"
proof -
  have "kind_data kind (take k ms @ drop k ms) = kind_data kind (take k ms) @ kind_data kind (drop k ms)"
    unfolding kind_data_def by (simp only: filter_append map_append concat_append)
  then show ?thesis by (intro prefixI) simp
qed

text \<open>
  C34 The client writes what the command wrote: of the frames of both outputs, in any order the connection takes them, exactly the bytes of
  each, then the command's exit code; of a connection that is lost before, a part of each and no code.
\<close>

theorem output_end_to_end:
  "\<exists>mo eo wo me ee we. fw_ReadFrom so 0 0 ro (frames frameStdout (\<lambda>_. False)) = Some (mo, eo, wo)
    \<and> fw_ReadFrom se 0 0 re (frames frameStderr (\<lambda>_. False)) = Some (me, ee, we)
    \<and> (\<forall>ms \<in> shuffles (fwSent wo) (fwSent we).
        client_Run json (\<lambda>_. None) 0 (map Binary ms @ [Text code]) c
          = ((case json code of None \<Rightarrow> BadExit | Some n \<Rightarrow> RunExit n),
             \<lparr>clStdout = clStdout c @ rData ro, clStderr = clStderr c @ rData re\<rparr>)
        \<and> (\<exists>out err. client_Run json (\<lambda>_. None) 0 (map Binary (take k ms)) c
            = (ReadEnded, \<lparr>clStdout = clStdout c @ out, clStderr = clStderr c @ err\<rparr>)
            \<and> prefix out (rData ro) \<and> prefix err (rData re)))"
proof -
  have cap: "0 < fwCap (frames kind fail)" "fwCap (frames kind fail) \<le> frameData" for kind fail
    by (simp_all add: frames_def initialFrameData_def frameData_def)
  obtain mo eo wo xs where wo: "fw_ReadFrom so 0 0 ro (frames frameStdout (\<lambda>_. False)) = Some (mo, eo, wo)"
    "fwSent wo = map ((#) frameStdout) xs" "concat xs = rData ro"
    using fw_ReadFrom_frames [OF cap, of so 0 0 ro frameStdout "\<lambda>_. False"] by (auto simp: frames_def split: if_splits)
  obtain me ee we ys where we: "fw_ReadFrom se 0 0 re (frames frameStderr (\<lambda>_. False)) = Some (me, ee, we)"
    "fwSent we = map ((#) frameStderr) ys" "concat ys = rData re"
    using fw_ReadFrom_frames [OF cap, of se 0 0 re frameStderr "\<lambda>_. False"] by (auto simp: frames_def split: if_splits)
  have kinds: "kind_data frameStdout ms = rData ro \<and> kind_data frameStderr ms = rData re" if "ms \<in> shuffles (fwSent wo) (fwSent we)" for ms
    using kind_data_shuffle [of ms frameStdout xs frameStderr ys] that wo we by (simp add: frame_kinds)
  have cut: "\<exists>out err. client_Run json (\<lambda>_. None) 0 (map Binary (take k ms)) c
      = (ReadEnded, \<lparr>clStdout = clStdout c @ out, clStderr = clStderr c @ err\<rparr>) \<and> prefix out (rData ro) \<and> prefix err (rData re)"
    if "ms \<in> shuffles (fwSent wo) (fwSent we)" for ms
    using client_Run_binary [of json 0 "take k ms" "[]" c] kinds [OF that] kind_data_take [of frameStdout k ms] kind_data_take [of frameStderr k ms]
    by auto
  show ?thesis using wo(1) we(1) kinds cut client_Run_binary [of json 0 _ "[Text code]" c] by (auto simp del: client_Run.simps(4))
qed

theorem output_end_to_end_witness:
  "\<exists>ms. client_Run (\<lambda>_. Some 3) (\<lambda>_. None) 0 (map Binary ms @ [Text []]) \<lparr>clStdout = [], clStderr = []\<rparr>
    = (RunExit 3, \<lparr>clStdout = [1, 2], clStderr = [9]\<rparr>)"
  using output_end_to_end [of "\<lambda>_. 1" "\<lparr>rData = [1, 2], rErr = None\<rparr>" "\<lambda>_. 1" "\<lparr>rData = [9], rErr = None\<rparr>" "\<lambda>_. Some 3" "[]"
      "\<lparr>clStdout = [], clStderr = []\<rparr>" 0]
  by (auto dest!: bspec [OF _ splice_in_shuffles])

end
