(* ===== verification/BoxJobs.thy ===== *)
theory BoxJobs
  imports BoxExec
begin

text \<open>
  \<open>internal/boxexec/jobs.go\<close>: a box's background commands. Handlers hold a job by its pointer, here its number in \<open>jsHeap\<close>, and may
  use it after \<open>jobs\<close> has forgotten it.
\<close>

definition MaxJobs :: nat where "MaxJobs = 16"
definition maxJobOutput :: nat where "maxJobOutput = 1048576"

record JobRequest =
  rqID :: string
  rqArgv :: "string list"
  rqEnviron :: "string list"

record JobOutput =
  joOutput :: "byte list"
  joDropped :: nat
  joRunning :: bool
  joKilled :: bool
  joCode :: int

text \<open>\<open>jCmd\<close>, \<open>jArgs\<close>, \<open>jEnv\<close> are the command's; \<open>jSignalled\<close> says that its group was sent SIGKILL.\<close>

record job =
  jID :: string
  jCmd :: string
  jArgs :: "string list"
  jEnv :: "string list"
  jEnded :: bool
  jOut :: "byte list"
  jDropped :: nat
  jKilled :: bool
  jCode :: int
  jSignalled :: bool

record jobs =
  jsToken :: string
  jsEnv :: "string list"
  jsHeap :: "job list"
  jsJobs :: "nat list"

definition NewJobs :: "string \<Rightarrow> string list \<Rightarrow> jobs" where
  "NewJobs token env = \<lparr>jsToken = token, jsEnv = env, jsHeap = [], jsJobs = []\<rparr>"

definition job_Write :: "byte list \<Rightarrow> job \<Rightarrow> job" where
  "job_Write p j =
     (let out = jOut j @ p; over = int (length out) - int maxJobOutput in
      if over > 0 then j\<lparr>jOut := drop (nat over) out, jDropped := jDropped j + nat over\<rparr> else j\<lparr>jOut := out\<rparr>)"

definition job_take :: "job \<Rightarrow> JobOutput \<times> job" where
  "job_take j =
     (\<lparr>joOutput = jOut j, joDropped = jDropped j, joRunning = \<not> jEnded j, joKilled = (jKilled j \<and> jEnded j), joCode = jCode j\<rparr>,
      j\<lparr>jOut := [], jDropped := 0\<rparr>)"

text \<open>What a handler answers. \<open>JobWaits k\<close>: it goes on when job \<open>k\<close> has ended.\<close>

datatype job_answer = JobUnauthorized | JobBadRequest | JobExists | JobTooMany | JobNotStarted | JobNoContent | JobNotFound
  | JobInfos "(string \<times> bool) list" | JobOutputOf nat JobOutput | JobWaits nat | JobWrote nat "byte list" | JobNothing

definition jobs_auth :: "string \<Rightarrow> (jobs \<Rightarrow> job_answer \<times> jobs) \<Rightarrow> jobs \<Rightarrow> job_answer \<times> jobs" where
  "jobs_auth header h js = (if header \<noteq> ''Bearer '' @ jsToken js then (JobUnauthorized, js) else h js)"

abbreviation job_at :: "jobs \<Rightarrow> nat \<Rightarrow> job" where
  "job_at js k \<equiv> jsHeap js ! k"

definition set_job :: "nat \<Rightarrow> (job \<Rightarrow> job) \<Rightarrow> jobs \<Rightarrow> jobs" where
  "set_job k f js = js\<lparr>jsHeap := (jsHeap js)[k := f (job_at js k)]\<rparr>"

text \<open>\<open>slices.IndexFunc\<close>.\<close>

fun index_func :: "('a \<Rightarrow> bool) \<Rightarrow> 'a list \<Rightarrow> nat option" where
  "index_func P [] = None"
| "index_func P (x # xs) = (if P x then Some 0 else map_option Suc (index_func P xs))"

definition make_room :: "jobs \<Rightarrow> jobs option" where
  "make_room js =
     (if length (jsJobs js) \<ge> MaxJobs then
        (case index_func (\<lambda>k. jEnded (job_at js k)) (jsJobs js) of
           None \<Rightarrow> None
         | Some i \<Rightarrow> Some (js\<lparr>jsJobs := take i (jsJobs js) @ drop (Suc i) (jsJobs js)\<rparr>))
      else Some js)"

text \<open>
  \<open>start\<close>. \<open>req\<close> is None when the body doesn't decode; \<open>starts\<close> says whether the command can be started.
\<close>

definition jobs_start :: "(string \<Rightarrow> string option) \<Rightarrow> bool \<Rightarrow> JobRequest option \<Rightarrow> jobs \<Rightarrow> job_answer \<times> jobs" where
  "jobs_start found starts req js =
     (case req of
        None \<Rightarrow> (JobBadRequest, js)
      | Some r \<Rightarrow>
          if rqID r = [] \<or> rqArgv r = [] then (JobBadRequest, js)
          else if \<exists>k \<in> set (jsJobs js). jID (job_at js k) = rqID r then (JobExists, js)
          else (case make_room js of
              None \<Rightarrow> (JobTooMany, js)
            | Some js1 \<Rightarrow>
                let env = jsEnv js1 @ rqEnviron r;
                    j = \<lparr>jID = rqID r, jCmd = lookPath found (hd (rqArgv r)) env, jArgs = tl (rqArgv r), jEnv = env, jEnded = False, jOut = [],
                         jDropped = 0, jKilled = False, jCode = 0, jSignalled = False\<rparr> in
                if \<not> starts then (JobNotStarted, js1)
                else (JobNoContent, js1\<lparr>jsHeap := jsHeap js1 @ [j], jsJobs := jsJobs js1 @ [length (jsHeap js1)]\<rparr>)))"

text \<open>The goroutine of \<open>start\<close>, once \<open>Wait\<close> has returned.\<close>

definition job_exits :: "wait_result \<Rightarrow> job \<Rightarrow> job" where
  "job_exits r j = j\<lparr>jEnded := True, jCode := exitCode r, jSignalled := True\<rparr>"

definition jobs_list :: "jobs \<Rightarrow> job_answer \<times> jobs" where
  "jobs_list js = (JobInfos (map (\<lambda>k. (jID (job_at js k), \<not> jEnded (job_at js k))) (jsJobs js)), js)"

definition jobs_find :: "string \<Rightarrow> jobs \<Rightarrow> nat option" where
  "jobs_find i js = find (\<lambda>k. jID (job_at js k) = i) (jsJobs js)"

definition take_answer :: "nat \<Rightarrow> jobs \<Rightarrow> job_answer \<times> jobs" where
  "take_answer k js = (JobOutputOf k (fst (job_take (job_at js k))), set_job k (\<lambda>j. snd (job_take j)) js)"

definition jobs_read :: "string \<Rightarrow> jobs \<Rightarrow> job_answer \<times> jobs" where
  "jobs_read i js = (case jobs_find i js of None \<Rightarrow> (JobNotFound, js) | Some k \<Rightarrow> take_answer k js)"

text \<open>\<open>kill\<close> up to its wait, and after it.\<close>

definition jobs_kill :: "string \<Rightarrow> jobs \<Rightarrow> job_answer \<times> jobs" where
  "jobs_kill i js =
     (case jobs_find i js of
        None \<Rightarrow> (JobNotFound, js)
      | Some k \<Rightarrow>
          if \<not> jEnded (job_at js k) then (JobWaits k, set_job k (\<lambda>j. j\<lparr>jKilled := True, jSignalled := True\<rparr>) js)
          else take_answer k js)"

definition jobs_killed :: "nat \<Rightarrow> jobs \<Rightarrow> job_answer \<times> jobs" where
  "jobs_killed k js = (if jEnded (job_at js k) then take_answer k js else (JobWaits k, js))"

definition jobs_wait :: "string \<Rightarrow> jobs \<Rightarrow> job_answer \<times> jobs" where
  "jobs_wait i js =
     (case jobs_find i js of
        None \<Rightarrow> (JobNotFound, js)
      | Some k \<Rightarrow> (if jEnded (job_at js k) then JobNoContent else JobWaits k, js))"

text \<open>\<open>Close\<close> up to its wait.\<close>

definition jobs_Close :: "jobs \<Rightarrow> jobs" where
  "jobs_Close js =
     fold (\<lambda>k s. if jEnded (job_at s k) then s else set_job k (\<lambda>j. j\<lparr>jSignalled := True\<rparr>) s) (jsJobs js) js"

text \<open>
  What may happen: requests with their \<open>Authorization\<close> header, handlers that go on, and what the commands do. A command writes
  only until \<open>Wait\<close> has returned for it: \<open>Wait\<close> ends the copies of its output first.
\<close>

datatype job_event =
    EvStart "JobRequest option" bool | EvList | EvRead string | EvKill string | EvWait string
  | EvKillGoesOn nat | EvWrites nat "byte list" | EvExits nat wait_result | EvClose

fun jobs_step :: "(string \<Rightarrow> string option) \<Rightarrow> string \<times> job_event \<Rightarrow> jobs \<Rightarrow> job_answer \<times> jobs" where
  "jobs_step found (h, EvStart req starts) js = jobs_auth h (jobs_start found starts req) js"
| "jobs_step found (h, EvList) js = jobs_auth h jobs_list js"
| "jobs_step found (h, EvRead i) js = jobs_auth h (jobs_read i) js"
| "jobs_step found (h, EvKill i) js = jobs_auth h (jobs_kill i) js"
| "jobs_step found (h, EvWait i) js = jobs_auth h (jobs_wait i) js"
| "jobs_step found (h, EvKillGoesOn k) js = (if k < length (jsHeap js) then jobs_killed k js else (JobNothing, js))"
| "jobs_step found (h, EvWrites k p) js =
     (if k < length (jsHeap js) \<and> \<not> jEnded (job_at js k) then (JobWrote k p, set_job k (job_Write p) js) else (JobNothing, js))"
| "jobs_step found (h, EvExits k r) js =
     (if k < length (jsHeap js) \<and> \<not> jEnded (job_at js k) then (JobNothing, set_job k (job_exits r) js) else (JobNothing, js))"
| "jobs_step found (h, EvClose) js = (JobNothing, jobs_Close js)"

fun jobs_run :: "(string \<Rightarrow> string option) \<Rightarrow> (string \<times> job_event) list \<Rightarrow> jobs \<Rightarrow> job_answer list \<times> jobs" where
  "jobs_run found [] js = ([], js)"
| "jobs_run found (e # es) js = (let (a, js1) = jobs_step found e js; (as, js2) = jobs_run found es js1 in (a # as, js2))"

end
