(* ===== verification/BoxJobsLaws.thy ===== *)
theory BoxJobsLaws
  imports BoxJobs
begin

text \<open>
  A box's background commands: their table is well formed after any requests in any order, no running one is ever lost, and
  the reads of one account for every byte it wrote.
\<close>

section \<open>The invariant\<close>

definition job_ok :: "job \<Rightarrow> bool" where
  "job_ok j \<longleftrightarrow> jID j \<noteq> [] \<and> length (jOut j) \<le> maxJobOutput \<and> (0 < jDropped j \<longrightarrow> length (jOut j) = maxJobOutput)
     \<and> (jKilled j \<longrightarrow> jSignalled j) \<and> (\<not> jEnded j \<longrightarrow> jCode j = 0)"

definition jobs_ok :: "jobs \<Rightarrow> bool" where
  "jobs_ok js \<longleftrightarrow> distinct (jsJobs js) \<and> length (jsJobs js) \<le> MaxJobs \<and> distinct (map (\<lambda>k. jID (job_at js k)) (jsJobs js))
     \<and> (\<forall>k \<in> set (jsJobs js). k < length (jsHeap js))
     \<and> (\<forall>k < length (jsHeap js). job_ok (job_at js k) \<and> (\<not> jEnded (job_at js k) \<longrightarrow> k \<in> set (jsJobs js)))"

lemma set_job_simps [simp]:
  "length (jsHeap (set_job k f js)) = length (jsHeap js)" "jsJobs (set_job k f js) = jsJobs js" "jsToken (set_job k f js) = jsToken js"
  "jsEnv (set_job k f js) = jsEnv js"
  by (simp_all add: set_job_def)

lemma set_job_at: "i < length (jsHeap js) \<Longrightarrow> job_at (set_job k f js) i = (if i = k then f (job_at js k) else job_at js i)"
  by (simp add: set_job_def nth_list_update)

lemma set_job_ok:
  assumes ok: "jobs_ok js" and f: "jID (f (job_at js k)) = jID (job_at js k)" "job_ok (job_at js k) \<Longrightarrow> job_ok (f (job_at js k))"
    "jEnded (job_at js k) \<Longrightarrow> jEnded (f (job_at js k))"
  shows "jobs_ok (set_job k f js)"
proof -
  have "map (\<lambda>i. jID (job_at (set_job k f js) i)) (jsJobs js) = map (\<lambda>i. jID (job_at js i)) (jsJobs js)"
    using ok f(1) by (auto simp: jobs_ok_def set_job_at)
  moreover have "distinct (map (\<lambda>i. jID (job_at js i)) (jsJobs js))" using ok by (simp only: jobs_ok_def)
  ultimately have "distinct (map (\<lambda>i. jID (job_at (set_job k f js) i)) (jsJobs js))" by (simp only:)
  then show ?thesis using ok f(2,3) by (auto simp: jobs_ok_def set_job_at)
qed

lemma job_Write_ok: "job_ok j \<Longrightarrow> job_ok (job_Write p j)"
  by (auto simp: job_ok_def job_Write_def Let_def)

lemma job_Write_same: "jID (job_Write p j) = jID j" "jEnded (job_Write p j) = jEnded j" "jSignalled (job_Write p j) = jSignalled j"
  by (simp_all add: job_Write_def Let_def)

lemma job_take_ok: "job_ok j \<Longrightarrow> job_ok (snd (job_take j))"
  by (simp add: job_ok_def job_take_def)

lemma job_take_same: "jID (snd (job_take j)) = jID j" "jEnded (snd (job_take j)) = jEnded j"
  by (simp_all add: job_take_def)

lemma take_answer_ok: "jobs_ok js \<Longrightarrow> jobs_ok (snd (take_answer k js))"
  unfolding take_answer_def by (simp, rule set_job_ok) (auto simp: job_take_ok job_take_same)

lemma jobs_find_in: "jobs_find i js = Some k \<Longrightarrow> k \<in> set (jsJobs js) \<and> jID (job_at js k) = i"
  unfolding jobs_find_def by (auto simp: find_Some_iff)

text \<open>Making room takes one job that has ended, and no other.\<close>

lemma index_func_some: "index_func P xs = Some i \<Longrightarrow> i < length xs \<and> P (xs ! i)"
  by (induction xs arbitrary: i) (auto split: if_splits)

lemma delete_at:
  assumes "i < length xs" "distinct xs"
  shows "distinct (take i xs @ drop (Suc i) xs)" "set (take i xs @ drop (Suc i) xs) = set xs - {xs ! i}"
proof -
  have xs: "xs = take i xs @ xs ! i # drop (Suc i) xs" using assms(1) by (rule id_take_nth_drop)
  have "distinct (take i xs @ xs ! i # drop (Suc i) xs)" using assms(2) xs by simp
  moreover have "set xs = set (take i xs @ xs ! i # drop (Suc i) xs)" using xs by simp
  ultimately show "distinct (take i xs @ drop (Suc i) xs)" "set (take i xs @ drop (Suc i) xs) = set xs - {xs ! i}" by auto
qed

lemma make_room_ok:
  assumes "jobs_ok js" "make_room js = Some js1"
  shows "jobs_ok js1" "length (jsJobs js1) < MaxJobs" "jsHeap js1 = jsHeap js" "jsToken js1 = jsToken js" "set (jsJobs js1) \<subseteq> set (jsJobs js)"
proof -
  have "jobs_ok js1 \<and> length (jsJobs js1) < MaxJobs \<and> jsHeap js1 = jsHeap js \<and> jsToken js1 = jsToken js \<and> set (jsJobs js1) \<subseteq> set (jsJobs js)"
  proof (cases "length (jsJobs js) \<ge> MaxJobs")
    case True
    then obtain i where i: "index_func (\<lambda>k. jEnded (job_at js k)) (jsJobs js) = Some i"
      and js1: "js1 = js\<lparr>jsJobs := take i (jsJobs js) @ drop (Suc i) (jsJobs js)\<rparr>"
      using assms(2) by (auto simp: make_room_def split: option.splits)
    have ended: "i < length (jsJobs js)" "jEnded (job_at js (jsJobs js ! i))" using index_func_some [OF i] by auto
    have "distinct (jsJobs js1)" "set (jsJobs js1) = set (jsJobs js) - {jsJobs js ! i}"
      using delete_at [OF ended(1)] assms(1) js1 by (simp_all add: jobs_ok_def)
    moreover have "distinct (map (\<lambda>k. jID (job_at js k)) (jsJobs js1))"
      using delete_at(1) [of i "map (\<lambda>k. jID (job_at js k)) (jsJobs js)"] ended(1) assms(1) js1
      by (simp add: jobs_ok_def take_map drop_map)
    ultimately show ?thesis
      using assms(1) js1 ended by (auto simp: jobs_ok_def)
  next
    case False
    then show ?thesis using assms by (simp add: make_room_def)
  qed
  then show "jobs_ok js1" "length (jsJobs js1) < MaxJobs" "jsHeap js1 = jsHeap js" "jsToken js1 = jsToken js" "set (jsJobs js1) \<subseteq> set (jsJobs js)"
    by auto
qed

lemma jobs_start_ok:
  assumes ok: "jobs_ok js"
  shows "jobs_ok (snd (jobs_start found starts req js))"
proof -
  have "jobs_ok (snd (jobs_start found starts (Some r) js))"
    if new: "rqID r \<noteq> []" "rqArgv r \<noteq> []" "\<forall>k \<in> set (jsJobs js). jID (job_at js k) \<noteq> rqID r" "make_room js = Some js1" for r js1
  proof -
    note room = make_room_ok [OF ok new(4)]
    define j where "j = \<lparr>jID = rqID r, jCmd = lookPath found (hd (rqArgv r)) (jsEnv js1 @ rqEnviron r), jArgs = tl (rqArgv r),
      jEnv = jsEnv js1 @ rqEnviron r, jEnded = False, jOut = [], jDropped = 0, jKilled = False, jCode = 0, jSignalled = False\<rparr>"
    have j: "job_ok j" "jID j = rqID r" using new(1) by (simp_all add: job_ok_def j_def)
    have "jobs_ok (js1\<lparr>jsHeap := jsHeap js1 @ [j], jsJobs := jsJobs js1 @ [length (jsHeap js1)]\<rparr>)"
    proof -
      have in_heap: "k < length (jsHeap js1)" if "k \<in> set (jsJobs js1)" for k using room(1) that by (simp add: jobs_ok_def)
      have at: "(jsHeap js1 @ [j]) ! k = job_at js1 k" if "k \<in> set (jsJobs js1)" for k using in_heap [OF that] by (simp add: nth_append)
      have "map (\<lambda>k. jID ((jsHeap js1 @ [j]) ! k)) (jsJobs js1) = map (\<lambda>k. jID (job_at js1 k)) (jsJobs js1)"
        using at by simp
      moreover have "distinct (map (\<lambda>k. jID (job_at js1 k)) (jsJobs js1))" using room(1) by (simp add: jobs_ok_def)
      moreover have "rqID r \<notin> set (map (\<lambda>k. jID (job_at js1 k)) (jsJobs js1))" using room(3,5) new(3) by fastforce
      ultimately have "distinct (map (\<lambda>k. jID ((jsHeap js1 @ [j]) ! k)) (jsJobs js1 @ [length (jsHeap js1)]))"
        using j(2) by (simp only: map_append distinct_append) simp
      then show ?thesis
        using room(1,2) in_heap j(1) by (auto simp: jobs_ok_def nth_append less_Suc_eq)
    qed
    then show ?thesis using new room(1) by (auto simp: jobs_start_def Let_def j_def)
  qed
  then show ?thesis
    using ok by (cases req) (auto simp: jobs_start_def split: option.split)
qed

lemma mark_ok: "jobs_ok js \<Longrightarrow> jobs_ok (set_job k (\<lambda>j. j\<lparr>jKilled := b \<or> jKilled j, jSignalled := True\<rparr>) js)"
  by (rule set_job_ok) (auto simp: job_ok_def)

lemma jobs_Close_ok:
  assumes "jobs_ok js"
  shows "jobs_ok (jobs_Close js)" "jsToken (jobs_Close js) = jsToken js"
proof -
  let ?f = "\<lambda>k s. if jEnded (job_at s k) then s else set_job k (\<lambda>j. j\<lparr>jSignalled := True\<rparr>) s"
  have "jobs_ok (fold ?f ks s) \<and> jsToken (fold ?f ks s) = jsToken s" if "jobs_ok s" for ks s
    using that
  proof (induction ks arbitrary: s)
    case (Cons k ks)
    have "jobs_ok (?f k s) \<and> jsToken (?f k s) = jsToken s"
      using Cons.prems by (auto intro!: set_job_ok simp: job_ok_def)
    then show ?case using Cons.IH [of "?f k s"] by simp
  qed simp
  with assms show "jobs_ok (jobs_Close js)" "jsToken (jobs_Close js) = jsToken js" by (auto simp: jobs_Close_def)
qed

lemma jobs_step_ok: "jobs_ok js \<Longrightarrow> jobs_ok (snd (jobs_step found e js)) \<and> jsToken (snd (jobs_step found e js)) = jsToken js"
proof (induction found e js rule: jobs_step.induct)
  case (1 found h req starts js)
  have "jsToken (snd (jobs_start found starts req js)) = jsToken js"
  proof (cases "make_room js")
    case None
    then show ?thesis by (simp add: jobs_start_def split: option.split)
  next
    case (Some js1)
    then show ?thesis using make_room_ok(4) [OF 1 Some] by (simp add: jobs_start_def Let_def split: option.split)
  qed
  then show ?case using 1 by (simp add: jobs_auth_def jobs_start_ok)
next
  case (4 found h i js)
  then show ?case
    using take_answer_ok [OF 4] mark_ok [OF 4, of _ True]
    by (auto simp: jobs_auth_def jobs_kill_def take_answer_def split: option.split)
next
  case (7 found h k p js)
  then show ?case by (auto intro!: set_job_ok simp: job_Write_ok job_Write_same)
next
  case (8 found h k r js)
  then show ?case by (auto intro!: set_job_ok simp: job_exits_def job_ok_def)
next
  case (9 found h js)
  then show ?case by (simp add: jobs_Close_ok)
qed (auto simp: jobs_auth_def jobs_list_def jobs_read_def jobs_killed_def jobs_wait_def take_answer_ok split: option.split,
  auto simp: take_answer_def)

lemma jobs_run_snoc: "jobs_run found (es @ [e]) js =
  (let (as, js1) = jobs_run found es js; (a, js2) = jobs_step found e js1 in (as @ [a], js2))"
  by (induction es arbitrary: js) (auto simp: Let_def split: prod.splits)

lemma jobs_run_ok: "jobs_ok js \<Longrightarrow> jobs_ok (snd (jobs_run found es js)) \<and> jsToken (snd (jobs_run found es js)) = jsToken js"
proof (induction es rule: rev_induct)
  case (snoc e es)
  then show ?case using jobs_step_ok [of "snd (jobs_run found es js)" found e] by (auto simp: jobs_run_snoc Let_def split: prod.split)
qed simp

lemma NewJobs_ok: "jobs_ok (NewJobs token env)"
  by (simp add: jobs_ok_def NewJobs_def)

lemma jobs_Close_at:
  "k < length (jsHeap js) \<Longrightarrow> \<forall>i \<in> set (jsJobs js). i < length (jsHeap js) \<Longrightarrow>
    job_at (jobs_Close js) k = (if k \<in> set (jsJobs js) \<and> \<not> jEnded (job_at js k) then (job_at js k)\<lparr>jSignalled := True\<rparr> else job_at js k)"
proof -
  let ?f = "\<lambda>k s. if jEnded (job_at s k) then s else set_job k (\<lambda>j. j\<lparr>jSignalled := True\<rparr>) s"
  have "job_at (fold ?f ks s) k = (if k \<in> set ks \<and> \<not> jEnded (job_at s k) then (job_at s k)\<lparr>jSignalled := True\<rparr> else job_at s k)"
    if "k < length (jsHeap s)" "\<forall>i \<in> set ks. i < length (jsHeap s)" for ks s
    using that
  proof (induction ks arbitrary: s)
    case (Cons i ks)
    have len: "length (jsHeap (?f i s)) = length (jsHeap s)" by simp
    show ?case using Cons.prems Cons.IH [of "?f i s"] by (auto simp: len set_job_at)
  qed simp
  then show "k < length (jsHeap js) \<Longrightarrow> \<forall>i \<in> set (jsJobs js). i < length (jsHeap js) \<Longrightarrow> ?thesis"
    unfolding jobs_Close_def .
qed

definition is_request :: "job_event \<Rightarrow> bool" where
  "is_request e = (case e of EvStart _ _ \<Rightarrow> True | EvList \<Rightarrow> True | EvRead _ \<Rightarrow> True | EvKill _ \<Rightarrow> True | EvWait _ \<Rightarrow> True | _ \<Rightarrow> False)"

lemma unauthorized: "is_request e \<Longrightarrow> h \<noteq> ''Bearer '' @ jsToken js \<Longrightarrow> jobs_step found (h, e) js = (JobUnauthorized, js)"
  by (cases e) (simp_all add: is_request_def jobs_auth_def)

text \<open>
  C35 A box's table of background commands is well formed after any requests, writes and exits: at most \<open>MaxJobs\<close> with IDs of their own,
  each with at most \<open>maxJobOutput\<close> bytes kept, and dropped ones only when it keeps that many. A command that runs is never forgotten,
  so that \<open>Close\<close> kills every one; and a request without the box's token changes nothing.
\<close>

theorem jobs_well_formed:
  "case jobs_run found es (NewJobs token env) of (as, js) \<Rightarrow>
     length (jsJobs js) \<le> MaxJobs \<and> distinct (map (\<lambda>k. jID (job_at js k)) (jsJobs js))
     \<and> (\<forall>k < length (jsHeap js). length (jOut (job_at js k)) \<le> maxJobOutput
          \<and> (0 < jDropped (job_at js k) \<longrightarrow> length (jOut (job_at js k)) = maxJobOutput)
          \<and> (jEnded (job_at js k) \<or> k \<in> set (jsJobs js) \<and> jSignalled (job_at (jobs_Close js) k)))
     \<and> (is_request e \<and> h \<noteq> ''Bearer '' @ token \<longrightarrow> jobs_step found (h, e) js = (JobUnauthorized, js))"
proof -
  obtain as js where run: "jobs_run found es (NewJobs token env) = (as, js)" by fastforce
  have ok: "jobs_ok js" "jsToken js = token"
    using jobs_run_ok [OF NewJobs_ok, of found es token env] run by (simp_all add: NewJobs_def)
  have "jEnded (job_at js k) \<or> k \<in> set (jsJobs js) \<and> jSignalled (job_at (jobs_Close js) k)" if "k < length (jsHeap js)" for k
    using ok(1) jobs_Close_at [OF that] that by (auto simp: jobs_ok_def)
  then show ?thesis using run ok unauthorized [of e h js found] by (auto simp: jobs_ok_def job_ok_def)
qed

definition sample_jobs :: jobs where
  "sample_jobs = snd (jobs_run (\<lambda>_. None)
     [(''Bearer t'', EvStart (Some \<lparr>rqID = ''a'', rqArgv = [''server''], rqEnviron = []\<rparr>) True), ([], EvWrites 0 [1, 2])] (NewJobs ''t'' []))"

theorem jobs_well_formed_witness:
  "jsJobs sample_jobs = [0] \<and> jSignalled (job_at (jobs_Close sample_jobs) 0) \<and> length (jOut (job_at sample_jobs 0)) \<le> maxJobOutput
    \<and> jobs_step (\<lambda>_. None) (''Bearer u'', EvKill ''a'') sample_jobs = (JobUnauthorized, sample_jobs)"
proof -
  obtain as where run: "jobs_run (\<lambda>_. None)
     [(''Bearer t'', EvStart (Some \<lparr>rqID = ''a'', rqArgv = [''server''], rqEnviron = []\<rparr>) True), ([], EvWrites 0 [1, 2])] (NewJobs ''t'' [])
     = (as, sample_jobs)"
    unfolding sample_jobs_def by (metis prod.collapse)
  have "jsJobs sample_jobs = [0]" "length (jsHeap sample_jobs) = 1" "\<not> jEnded (job_at sample_jobs 0)"
    by (simp_all add: sample_jobs_def NewJobs_def jobs_auth_def jobs_start_def make_room_def MaxJobs_def set_job_def job_Write_same)
  then show ?thesis
    using jobs_well_formed [where found = "\<lambda>_. None" and token = "''t''" and env = "[]" and e = "EvKill ''a''" and h = "''Bearer u''" and
        es = "[(''Bearer t'', EvStart (Some \<lparr>rqID = ''a'', rqArgv = [''server''], rqEnviron = []\<rparr>) True), ([], EvWrites 0 [1, 2])]"]
    unfolding run by (auto simp: is_request_def)
qed

section \<open>Reads account for every byte\<close>

text \<open>What job \<open>k\<close> wrote and what was taken of it, of a run's answers.\<close>

definition written :: "nat \<Rightarrow> job_answer list \<Rightarrow> byte list" where
  "written k as = concat (map (\<lambda>a. case a of JobWrote i p \<Rightarrow> if i = k then p else [] | _ \<Rightarrow> []) as)"

definition taken :: "nat \<Rightarrow> job_answer list \<Rightarrow> JobOutput list" where
  "taken k as = concat (map (\<lambda>a. case a of JobOutputOf i out \<Rightarrow> if i = k then [out] else [] | _ \<Rightarrow> []) as)"

text \<open>
  \<open>xs\<close> is what the reads gave, each after as many bytes as it says were dropped, and then what is still to be read.
\<close>

definition accounted :: "byte list \<Rightarrow> JobOutput list \<Rightarrow> nat \<Rightarrow> byte list \<Rightarrow> bool" where
  "accounted xs os n out \<longleftrightarrow> (\<exists>gaps g. map length gaps = map joDropped os \<and> length g = n
     \<and> xs = concat (map2 (\<lambda>gap r. gap @ joOutput r) gaps os) @ g @ out)"

lemma accounted_Write: "accounted xs os (jDropped j) (jOut j) \<Longrightarrow> accounted (xs @ p) os (jDropped (job_Write p j)) (jOut (job_Write p j))"
proof -
  assume "accounted xs os (jDropped j) (jOut j)"
  then obtain gaps g where g: "map length gaps = map joDropped os" "length g = jDropped j"
    "xs = concat (map2 (\<lambda>gap r. gap @ joOutput r) gaps os) @ g @ jOut j"
    by (auto simp: accounted_def)
  let ?out = "jOut j @ p"
  let ?over = "length ?out - maxJobOutput"
  have "nat (int (length ?out) - int maxJobOutput) = ?over" by arith
  then have "jDropped (job_Write p j) = jDropped j + ?over" "jOut (job_Write p j) = drop ?over ?out"
    by (auto simp del: length_append drop_append simp: job_Write_def Let_def)
  then show ?thesis
    unfolding accounted_def using g
    by (intro exI [of _ gaps] exI [of _ "g @ take ?over ?out"]) (auto simp: min_def)
qed

lemma accounted_take: "accounted xs os (jDropped j) (jOut j) \<Longrightarrow> accounted xs (os @ [fst (job_take j)]) 0 []"
proof -
  assume "accounted xs os (jDropped j) (jOut j)"
  then obtain gaps g where g: "map length gaps = map joDropped os" "length g = jDropped j"
    "xs = concat (map2 (\<lambda>gap r. gap @ joOutput r) gaps os) @ g @ jOut j"
    by (auto simp: accounted_def)
  have "length gaps = length os" using g(1) by (metis length_map)
  then show ?thesis
    unfolding accounted_def using g
    by (intro exI [of _ "gaps @ [g]"] exI [of _ "[]"]) (simp add: job_take_def)
qed

text \<open>What a step does to job \<open>k\<close>; one that doesn't exist yet has nothing to read.\<close>

definition unread :: "jobs \<Rightarrow> nat \<Rightarrow> nat \<times> byte list" where
  "unread js k = (if k < length (jsHeap js) then (jDropped (job_at js k), jOut (job_at js k)) else (0, []))"

definition quiet :: "job_answer \<Rightarrow> bool" where
  "quiet a \<longleftrightarrow> (case a of JobWrote _ _ \<Rightarrow> False | JobOutputOf _ _ \<Rightarrow> False | _ \<Rightarrow> True)"

lemma jobs_start_quiet: "jobs_ok js \<Longrightarrow> quiet (fst (jobs_start found starts req js)) \<and> unread (snd (jobs_start found starts req js)) = unread js"
proof (cases "make_room js")
  case (Some js1)
  assume "jobs_ok js"
  then have "jsHeap js1 = jsHeap js" using make_room_ok(3) Some by blast
  then show ?thesis using Some by (auto simp: jobs_start_def Let_def quiet_def unread_def fun_eq_iff nth_append less_Suc_eq split: option.split)
qed (simp add: jobs_start_def quiet_def split: option.split)

lemma jobs_Close_quiet: "jobs_ok js \<Longrightarrow> unread (jobs_Close js) = unread js"
proof -
  assume "jobs_ok js"
  then have "\<forall>i \<in> set (jsJobs js). i < length (jsHeap js)" by (simp add: jobs_ok_def)
  moreover have "length (jsHeap (jobs_Close js)) = length (jsHeap js)"
    unfolding jobs_Close_def by (rule fold_invariant [where Q = "\<lambda>_. True"]) auto
  ultimately show ?thesis by (auto simp: unread_def fun_eq_iff jobs_Close_at)
qed

text \<open>A step answers with a write of job \<open>i\<close>, with what it took of it, or leaves what there is to read.\<close>

lemma jobs_step_effect:
  "jobs_ok js \<Longrightarrow> case jobs_step found e js of (a, js') \<Rightarrow>
     (quiet a \<and> unread js' = unread js)
     \<or> (\<exists>i p. i < length (jsHeap js) \<and> a = JobWrote i p \<and> js' = set_job i (job_Write p) js)
     \<or> (\<exists>i. i < length (jsHeap js) \<and> a = JobOutputOf i (fst (job_take (job_at js i))) \<and> js' = set_job i (\<lambda>j. snd (job_take j)) js)"
proof (induction found e js rule: jobs_step.induct)
  case (1 found h req starts js)
  have "quiet JobUnauthorized" by (simp add: quiet_def)
  then show ?case using jobs_start_quiet [OF 1, of found starts req] by (auto simp: jobs_auth_def split: prod.split)
next
  case (3 found h i js)
  then show ?case
    using jobs_find_in [of i js]
    by (auto simp: jobs_auth_def jobs_read_def take_answer_def quiet_def jobs_ok_def split: option.split)
next
  case (4 found h i js)
  then show ?case
    using jobs_find_in [of i js]
    by (auto simp: jobs_auth_def jobs_kill_def take_answer_def quiet_def jobs_ok_def set_job_at fun_eq_iff unread_def split: option.split)
next
  case (8 found h k r js)
  then show ?case by (auto simp: quiet_def fun_eq_iff set_job_at job_exits_def unread_def)
next
  case (9 found h js)
  then show ?case using jobs_Close_quiet by (auto simp: quiet_def)
qed (auto simp: jobs_auth_def jobs_list_def jobs_killed_def jobs_wait_def take_answer_def quiet_def split: option.split)

lemma answers_snoc: "written k (as @ [a]) = written k as @ written k [a]" "taken k (as @ [a]) = taken k as @ taken k [a]"
  by (simp_all add: written_def taken_def)

lemma quiet_answers: "quiet a \<Longrightarrow> written k [a] = []" "quiet a \<Longrightarrow> taken k [a] = []"
  by (cases a; simp add: quiet_def written_def taken_def)+

lemma loud_answers: "written k [JobWrote i p] = (if i = k then p else [])" "taken k [JobWrote i p] = []"
  "written k [JobOutputOf i out] = []" "taken k [JobOutputOf i out] = (if i = k then [out] else [])"
  by (simp_all add: written_def taken_def)

lemma jobs_run_accounted:
  "jobs_ok js \<Longrightarrow> (\<And>k. accounted [] [] (fst (unread js k)) (snd (unread js k))) \<Longrightarrow>
    case jobs_run found es js of (as, js') \<Rightarrow> accounted (written k as) (taken k as) (fst (unread js' k)) (snd (unread js' k))"
proof (induction es arbitrary: k rule: rev_induct)
  case Nil
  then show ?case by (simp add: written_def taken_def)
next
  case (snoc e es)
  obtain as js1 where run: "jobs_run found es js = (as, js1)" by fastforce
  obtain a js2 where step: "jobs_step found e js1 = (a, js2)" by fastforce
  have ok: "jobs_ok js1" using jobs_run_ok [OF snoc.prems(1), of found es] run by simp
  have acc: "accounted (written k as) (taken k as) (fst (unread js1 k)) (snd (unread js1 k))" using snoc run by fastforce
  consider (quiet) "quiet a" "unread js2 = unread js1"
    | (wrote) i p where "i < length (jsHeap js1)" "a = JobWrote i p" "js2 = set_job i (job_Write p) js1"
    | (took) i where "i < length (jsHeap js1)" "a = JobOutputOf i (fst (job_take (job_at js1 i)))" "js2 = set_job i (\<lambda>j. snd (job_take j)) js1"
    using jobs_step_effect [OF ok, of found e] step by auto
  then have "accounted (written k (as @ [a])) (taken k (as @ [a])) (fst (unread js2 k)) (snd (unread js2 k))"
  proof cases
    case quiet
    then show ?thesis using acc by (simp add: answers_snoc quiet_answers)
  next
    case wrote
    then show ?thesis
      using acc accounted_Write [of "written k as" "taken k as" "job_at js1 k" p]
      by (auto simp: answers_snoc loud_answers set_job_at unread_def)
  next
    case took
    then show ?thesis
      using acc accounted_take [of "written k as" "taken k as" "job_at js1 k"]
      by (auto simp: answers_snoc loud_answers set_job_at unread_def job_take_def)
  qed
  then show ?case using run step by (simp add: jobs_run_snoc)
qed


end
