(* ===== verification/RunscSpec.thy ===== *)
theory RunscSpec
  imports Group "HOL-Library.Word"
begin

text \<open>
  What a box is made of: the names and addresses of \<open>internal/runsc/net.go\<close>, the OCI spec of \<open>spec.go\<close> and the cgroup of a process
  (\<open>runsc.go\<close>). Paths are lists of components: a box's ID is one component (\<open>store.CheckEnvID\<close>).
\<close>

unbundle bit_operations_syntax

section \<open>Names and addresses\<close>

definition maxBoxes :: nat where "maxBoxes = 2 ^ (32 - 16 - 2)"
definition cgroupParent :: string where "cgroupParent = ''fern''"
definition exec_port :: nat where "exec_port = 7070"
definition DaemonHost :: string where "DaemonHost = ''fern-daemon''"

record layout =
  lyID :: string
  lyCid :: string
  lyDir :: path
  lyRootfs :: path
  lyData :: path
  lyTmp :: path
  lyResolv :: path
  lyShort :: string

text \<open>\<open>sum16\<close> is \<open>hex(sha256(id)[:16])\<close> and \<open>hexsum\<close> \<open>hex(sha256(id))\<close>.\<close>

definition newLayout :: "(string \<Rightarrow> string) \<Rightarrow> (string \<Rightarrow> string) \<Rightarrow> path \<Rightarrow> path \<Rightarrow> string \<Rightarrow> layout" where
  "newLayout sum16 hexsum bundles pool i =
     (let dir = bundles @ [i]; data = pool @ [''boxes'', i] in
      \<lparr>lyID = i, lyCid = ''fern-'' @ sum16 i, lyDir = dir, lyRootfs = dir @ [''rootfs''], lyData = data, lyTmp = data @ [''tmp''],
       lyResolv = bundles @ [''resolv.conf''], lyShort = take 11 (hexsum i)\<rparr>)"

definition hosts_path :: "layout \<Rightarrow> path" where
  "hosts_path b = lyDir b @ [''hosts'']"

text \<open>An IPv4 address; \<open>ip_text\<close> is \<open>netip.Addr.String\<close>.\<close>

type_synonym ip = "32 word"

definition ip_byte :: "nat \<Rightarrow> ip \<Rightarrow> nat" where
  "ip_byte k x = unat (ucast (drop_bit k x) :: 8 word)"

definition ip_text :: "ip \<Rightarrow> string" where
  "ip_text x = utoa (ip_byte 24 x) @ ''.'' @ utoa (ip_byte 16 x) @ ''.'' @ utoa (ip_byte 8 x) @ ''.'' @ utoa (ip_byte 0 x)"

definition hostsFile :: "Box \<Rightarrow> ip \<Rightarrow> string" where
  "hostsFile box h =
     ''127.0.0.1'' @ [CHR 0x09] @ ''localhost'' @ [CHR 0x0A]
     @ ''::1'' @ [CHR 0x09] @ ''localhost ip6-localhost ip6-loopback'' @ [CHR 0x0A]
     @ ''127.0.1.1'' @ [CHR 0x09] @ boxID box @ [CHR 0x0A]
     @ (if boxKind box = KAgent then ip_text h @ [CHR 0x09] @ DaemonHost @ [CHR 0x0A] else [])"

definition nsName :: "layout \<Rightarrow> string" where
  "nsName b = ''fern-'' @ lyShort b"

definition netns :: "layout \<Rightarrow> string" where
  "netns b = ''/var/run/netns/'' @ nsName b"

definition veth :: "box_kind \<Rightarrow> layout \<Rightarrow> string" where
  "veth k b = (if k = KAgent then ''fag'' else ''fbx'') @ lyShort b"

text \<open>\<open>boxNet\<close> is 10.89.0.0/16. \<open>addrs\<close> gives the host's and the box's address in /30 number \<open>n\<close>.\<close>

definition boxNet :: ip where
  "boxNet = push_bit 24 10 OR push_bit 16 89"

definition addrs :: "int \<Rightarrow> (ip \<times> ip) option" where
  "addrs n =
     (if n < 0 \<or> n \<ge> int maxBoxes then None
      else let off = (of_int n :: ip) * 4; v = boxNet OR off in Some (v + 1, v + 2))"

definition execAddr :: "ip \<Rightarrow> string" where
  "execAddr guest = ip_text guest @ '':'' @ utoa exec_port"

definition netUp_commands :: "layout \<Rightarrow> box_kind \<Rightarrow> ip \<Rightarrow> ip \<Rightarrow> string list list" where
  "netUp_commands b k h guest =
     (let ns = nsName b; ve = veth k b in
      [[''ip'', ''netns'', ''add'', ns],
       [''ip'', ''link'', ''add'', ve, ''type'', ''veth'', ''peer'', ''name'', ''eth0'', ''netns'', ns],
       [''ip'', ''addr'', ''add'', ip_text h @ ''/30'', ''dev'', ve],
       [''ip'', ''link'', ''set'', ve, ''up''],
       [''ip'', ''-n'', ns, ''addr'', ''add'', ip_text guest @ ''/30'', ''dev'', ''eth0''],
       [''ip'', ''-n'', ns, ''link'', ''set'', ''eth0'', ''up''],
       [''ip'', ''-n'', ns, ''link'', ''set'', ''lo'', ''up''],
       [''ip'', ''-n'', ns, ''route'', ''add'', ''default'', ''via'', ip_text h]])"

definition netDown :: "layout \<Rightarrow> string" where
  "netDown b = ''link del '' @ veth KServices b @ [CHR 0x0A] @ ''link del '' @ veth KAgent b @ [CHR 0x0A] @ ''netns del '' @ nsName b @ [CHR 0x0A]"

section \<open>The spec\<close>

record mount =
  mtDestination :: string
  mtType :: string
  mtSource :: string
  mtOptions :: "string list"

record capabilities =
  capBounding :: "string list"
  capEffective :: "string list"
  capInheritable :: "string list"
  capPermitted :: "string list"
  capAmbient :: "string list"

record spec_process =
  spUser :: "nat \<times> nat"
  spArgs :: "string list"
  spEnv :: "string list"
  spCwd :: string
  spNoNewPrivileges :: bool
  spCapabilities :: capabilities
  spRlimits :: "(string \<times> nat \<times> nat) list"

record spec_linux =
  lxCgroupsPath :: string
  lxCPU :: "int \<times> nat"
  lxMemory :: int
  lxPids :: int
  lxNamespaces :: "(string \<times> string) list"

record spec =
  scVersion :: string
  scProcess :: spec_process
  scRoot :: "string \<times> bool"
  scHostname :: string
  scMounts :: "mount list"
  scLinux :: spec_linux

definition cpuLimit :: int where "cpuLimit = 2"
definition memoryLimit :: int where "memoryLimit = 2 * 2 ^ 30"
definition pidsLimit :: int where "pidsLimit = 4096"

definition bind_mount :: "path \<Rightarrow> string list \<Rightarrow> mount" where
  "bind_mount p opts = \<lparr>mtDestination = path_text p, mtType = ''bind'', mtSource = path_text p, mtOptions = opts\<rparr>"

definition fixed_mounts :: "layout \<Rightarrow> mount list" where
  "fixed_mounts b =
     [\<lparr>mtDestination = ''/proc'', mtType = ''proc'', mtSource = ''proc'', mtOptions = []\<rparr>,
      \<lparr>mtDestination = ''/dev'', mtType = ''tmpfs'', mtSource = ''tmpfs'', mtOptions = [''nosuid'', ''strictatime'', ''mode=755'', ''size=65536k'']\<rparr>,
      \<lparr>mtDestination = ''/dev/pts'', mtType = ''devpts'', mtSource = ''devpts'',
       mtOptions = [''nosuid'', ''noexec'', ''newinstance'', ''ptmxmode=0666'', ''mode=0620'']\<rparr>,
      \<lparr>mtDestination = ''/dev/shm'', mtType = ''tmpfs'', mtSource = ''shm'', mtOptions = [''nosuid'', ''noexec'', ''nodev'', ''mode=1777'', ''size=65536k'']\<rparr>,
      \<lparr>mtDestination = ''/sys'', mtType = ''sysfs'', mtSource = ''sysfs'', mtOptions = [''nosuid'', ''noexec'', ''nodev'', ''ro'']\<rparr>,
      \<lparr>mtDestination = ''/etc/resolv.conf'', mtType = ''bind'', mtSource = path_text (lyResolv b), mtOptions = [''rbind'', ''ro'']\<rparr>,
      \<lparr>mtDestination = ''/etc/hosts'', mtType = ''bind'', mtSource = path_text (hosts_path b), mtOptions = [''rbind'', ''ro'']\<rparr>,
      \<lparr>mtDestination = ''/tmp'', mtType = ''bind'', mtSource = path_text (lyTmp b), mtOptions = [''rbind'', ''rw'']\<rparr>]"

definition box_mounts :: "Env \<Rightarrow> layout \<Rightarrow> mount list" where
  "box_mounts env b =
     fixed_mounts b @ [bind_mount (Workspace env) [''rbind'', ''rw'']]
     @ (if Claude env \<noteq> [] then [bind_mount (Claude env) [''rbind'', ''rw'']] else [])
     @ (case Git env of
          None \<Rightarrow> []
        | Some g \<Rightarrow> [bind_mount g [''rbind'', ''ro''], bind_mount (Workspace env @ [''.git'']) [''bind'', ''ro'']])"

definition boxSpec :: "Box \<Rightarrow> layout \<Rightarrow> string list \<Rightarrow> string list \<Rightarrow> spec" where
  "boxSpec box b image_env vars =
     \<lparr>scVersion = ''1.2.0'',
      scProcess = \<lparr>spUser = (BoxUID, BoxGID), spArgs = [''/usr/bin/tini'', ''-s'', ''--'', ''/usr/local/bin/fern-init''],
        spEnv = image_env @ vars, spCwd = ''/'', spNoNewPrivileges = True,
        spCapabilities = \<lparr>capBounding = [], capEffective = [], capInheritable = [], capPermitted = [], capAmbient = []\<rparr>,
        spRlimits = [(''RLIMIT_NOFILE'', 2 ^ 20, 2 ^ 20)]\<rparr>,
      scRoot = (path_text (lyRootfs b), True),
      scHostname = boxID box,
      scMounts = box_mounts (boxEnv box) b,
      scLinux = \<lparr>lxCgroupsPath = ''/'' @ cgroupParent @ ''/'' @ boxID box, lxCPU = (cpuLimit * 100000, 100000), lxMemory = memoryLimit,
        lxPids = pidsLimit, lxNamespaces = [(''pid'', []), (''network'', netns b), (''ipc'', []), (''uts'', []), (''mount'', [])]\<rparr>\<rparr>"

definition boxVars :: "Box \<Rightarrow> string \<Rightarrow> string \<Rightarrow> string list" where
  "boxVars box wakeID login =
     [''FERN_BOX_TOKEN='' @ BoxToken (boxEnv box), ''FERN_WAKE_ID='' @ wakeID, ''FERN_WORKSPACE='' @ path_text (Workspace (boxEnv box))]
     @ (case boxKind box of KServices \<Rightarrow> [] | KAgent \<Rightarrow> [''FERN_SERVICES=off''] | KBuilder \<Rightarrow> [''FERN_ON_DEMAND=off''])
     @ (if Claude (boxEnv box) \<noteq> [] then [''CLAUDE_CONFIG_DIR='' @ path_text (Claude (boxEnv box))] else [])
     @ (if login \<noteq> [] then [''CLAUDE_CODE_OAUTH_TOKEN='' @ login] else [])"

section \<open>A process's box\<close>

text \<open>\<open>boxOfCgroup\<close>; \<open>strings.Lines\<close> keeps the newlines, which \<open>TrimSpace\<close> drops.\<close>

fun first_box :: "string list \<Rightarrow> string" where
  "first_box [] = []"
| "first_box (l # ls) =
     (case cut_prefix (trim_space l) (''0::/'' @ cgroupParent @ ''/'') of
        Some cg \<Rightarrow> if cg \<noteq> [] \<and> CHR ''/'' \<notin> set cg then cg else first_box ls
      | None \<Rightarrow> first_box ls)"

definition boxOfCgroup :: "string \<Rightarrow> string" where
  "boxOfCgroup data = first_box (split_on (CHR 0x0A) data)"

text \<open>What a box may write on the node: its own \<open>/tmp\<close>, its workspace and its Claude folder. Its git folder and the file that names it are read-only.\<close>

lemma box_writes:
  assumes "m \<in> set (scMounts (boxSpec box b image_env vars))" "mtType m = ''bind''" "''rw'' \<in> set (mtOptions m)"
  shows "mtSource m \<in> {path_text (lyTmp b), path_text (Workspace (boxEnv box)), path_text (Claude (boxEnv box))}"
  using assms by (auto simp: boxSpec_def box_mounts_def fixed_mounts_def bind_mount_def split: if_splits option.splits)

lemma split_on_line: "c \<notin> set l \<Longrightarrow> split_on c (l @ [c]) = [l, []]"
  by (induction l) auto

lemma trim_no_space: "list_all (\<lambda>c. \<not> is_space c) t \<Longrightarrow> trim_space t = t"
  by (simp add: trim_space_def list_all_iff dropWhile_eq_self_iff) (metis dropWhile_eq_self_iff hd_in_set rev_rev_ident set_rev)

text \<open>A process in a box's cgroup is found to be the box's.\<close>

lemma boxOfCgroup_of_spec:
  assumes "boxID box \<noteq> []" "CHR ''/'' \<notin> set (boxID box)" "list_all (\<lambda>c. \<not> is_space c) (boxID box)"
  shows "boxOfCgroup (''0::'' @ lxCgroupsPath (scLinux (boxSpec box b image_env vars)) @ [CHR 0x0A]) = boxID box"
proof -
  let ?l = "''0::/fern/'' @ boxID box"
  have nospace: "list_all (\<lambda>c. \<not> is_space c) ?l" using assms(3) by (simp add: is_space_def)
  have "CHR 0x0A \<notin> set ?l" using nospace by (auto simp: list_all_iff is_space_def)
  then have lines: "split_on (CHR 0x0A) (?l @ [CHR 0x0A]) = [?l, []]" by (rule split_on_line)
  have "trim_space ?l = ?l"
    using nospace by (rule trim_no_space)
  then show ?thesis
    using lines assms by (simp add: boxOfCgroup_def boxSpec_def cgroupParent_def cut_prefix_def)
qed

end
