(* ===== verification/Runsc.thy ===== *)
theory Runsc
  imports RunscSpec Driver
begin

text \<open>
  \<open>internal/runsc/runsc.go\<close>: the driver that runs boxes with runsc on the node. The programs \<open>runsc\<close>, \<open>ip\<close> and fern-init are
  not the repository's: \<open>runsc_tool\<close> is an argument with the laws \<open>runsc_like\<close>, an \<open>ip\<close> command succeeds or fails, and fern-init
  answers or doesn't. Every system call may fail, and a timeout is such a failure.
\<close>

section \<open>The node\<close>

record container =
  cnID :: string
  cnStatus :: string
  cnBundle :: path

record 'r runsc_tool =
  rsList :: "'r \<Rightarrow> (nat + container list) \<times> 'r"
  rsCreate :: "path \<Rightarrow> string \<Rightarrow> 'r \<Rightarrow> (nat + unit) \<times> 'r"
  rsStart :: "string \<Rightarrow> 'r \<Rightarrow> (nat + unit) \<times> 'r"
  rsWait :: "string \<Rightarrow> 'r \<Rightarrow> (nat + unit) \<times> 'r"
  rsKill :: "string list \<Rightarrow> 'r \<Rightarrow> (nat + unit) \<times> 'r"
  rsDelete :: "string \<Rightarrow> 'r \<Rightarrow> (nat + unit) \<times> 'r"

text \<open>
  The IDs and bundles runsc has. \<open>delete\<close> finds a container by a prefix of its ID, so its law is about IDs that are no prefix of another.
\<close>

definition runsc_like :: "'r runsc_tool \<Rightarrow> ('r \<Rightarrow> (string \<times> path) set) \<Rightarrow> bool" where
  "runsc_like T cs \<longleftrightarrow>
     (\<forall>r q r'. rsList T r = (q, r') \<longrightarrow> cs r' = cs r \<and> (\<forall>xs. q = Inr xs \<longrightarrow> (\<lambda>c. (cnID c, cnBundle c)) ` set xs = cs r))
   \<and> (\<forall>d c r q r'. rsCreate T d c r = (q, r') \<longrightarrow> cs r \<subseteq> cs r' \<and> cs r' \<subseteq> insert (c, d) (cs r) \<and> (q = Inr () \<longrightarrow> (c, d) \<in> cs r'))
   \<and> (\<forall>c r q r'. rsStart T c r = (q, r') \<longrightarrow> cs r' = cs r)
   \<and> (\<forall>c r q r'. rsWait T c r = (q, r') \<longrightarrow> cs r' = cs r)
   \<and> (\<forall>c r q r'. rsKill T c r = (q, r') \<longrightarrow> cs r' = cs r)
   \<and> (\<forall>c r q r'. (\<forall>x \<in> cs r. prefix c (fst x) \<longrightarrow> fst x = c) \<and> rsDelete T c r = (q, r') \<longrightarrow>
        {x \<in> cs r. fst x \<noteq> c} \<subseteq> cs r' \<and> cs r' \<subseteq> cs r \<and> (q = Inr () \<longrightarrow> (\<forall>x \<in> cs r'. fst x \<noteq> c)))"

text \<open>What the driver keeps of a box below \<open>Bundles\<close>: the file \<open>net\<close>, its overlay and its \<open>config.json\<close>. \<open>hoStops\<close> are the
  requests to stop that were sent: the address, the token and the wake's ID.\<close>

record box_bundle =
  bdNet :: "string option"
  bdMounted :: bool
  bdConfig :: "spec option"

definition new_bundle :: box_bundle where
  "new_bundle = \<lparr>bdNet = None, bdMounted = False, bdConfig = None\<rparr>"

record 'r host =
  hoTool :: 'r
  hoBundles :: "(string \<times> box_bundle) list"
  hoBoxes :: "string list"
  hoCalls :: nat
  hoStops :: "(string \<times> string \<times> string) list"

text \<open>
  The driver's configuration and the world: \<open>rxFault n\<close> is the error of call \<open>n\<close>, \<open>rxPart n\<close> how much of a file a failed write or
  removal got to, \<open>rxAnswers n\<close> whether fern-init answers well, \<open>rxTries\<close> how often it is asked within \<open>wakeTimeout\<close>.
\<close>

record 'r runsc_env =
  rxTool :: "'r runsc_tool"
  rxBundles :: path
  rxPool :: path
  rxImageEnv :: "string list"
  rxLogin :: "(nat \<Rightarrow> nat + string) option"
  rxPreview :: string
  rxSum16 :: "string \<Rightarrow> string"
  rxHexsum :: "string \<Rightarrow> string"
  rxFault :: "nat \<Rightarrow> nat option"
  rxPart :: "nat \<Rightarrow> nat"
  rxAnswers :: "nat \<Rightarrow> bool"
  rxRandom :: "nat \<Rightarrow> string"
  rxTries :: nat

type_synonym ('r, 'a) hp = "('r host, nat, 'a) prog"

definition errNoFile :: nat where "errNoFile = 2"
definition errNumber :: nat where "errNumber = 1001"
definition errNoAddress :: nat where "errNoAddress = 1002"
definition errNotReady :: nat where "errNotReady = 1003"

definition layout_of :: "'r runsc_env \<Rightarrow> string \<Rightarrow> layout" where
  "layout_of E i = newLayout (rxSum16 E) (rxHexsum E) (rxBundles E) (rxPool E) i"

text \<open>A call on the node: \<open>eff\<close> is its effect, \<open>part\<close> what it leaves when it fails.\<close>

definition sys_call :: "'r runsc_env \<Rightarrow> ('r host \<Rightarrow> 'r host) \<Rightarrow> (nat \<Rightarrow> 'r host \<Rightarrow> 'r host) \<Rightarrow> ('r, unit) hp" where
  "sys_call E eff part s =
     (let n = hoCalls s; s1 = s\<lparr>hoCalls := Suc n\<rparr> in
      case rxFault E n of Some e \<Rightarrow> (Inl e, part (rxPart E n) s1) | None \<Rightarrow> (Inr (), eff s1))"

definition plain_call :: "'r runsc_env \<Rightarrow> ('r, unit) hp" where
  "plain_call E = sys_call E id (\<lambda>_. id)"

definition tool :: "('r \<Rightarrow> (nat + 'a) \<times> 'r) \<Rightarrow> ('r, 'a) hp" where
  "tool f s = (case f (hoTool s) of (q, t) \<Rightarrow> (q, s\<lparr>hoTool := t\<rparr>))"

definition set_bundle :: "string \<Rightarrow> (box_bundle \<Rightarrow> box_bundle) \<Rightarrow> 'r host \<Rightarrow> 'r host" where
  "set_bundle i f s =
     (case map_of (hoBundles s) i of None \<Rightarrow> s | Some bd \<Rightarrow> s\<lparr>hoBundles := AList.update i (f bd) (hoBundles s)\<rparr>)"

section \<open>Lists of boxes\<close>

datatype State = Asleep | Waking | Running | Stopping | Unknown

definition driver_list :: "'r runsc_env \<Rightarrow> ('r, container list) hp" where
  "driver_list E = tool (rsList (rxTool E))"

definition state_of :: "string \<Rightarrow> State" where
  "state_of st = (if st = ''running'' then Running else if st = ''created'' then Waking else Stopping)"

definition driver_States :: "'r runsc_env \<Rightarrow> ('r, (string \<times> State) list) hp" where
  "driver_States E = bind_s (driver_list E) (\<lambda>cs. ret
     (fold (\<lambda>c. AList.update (last (cnBundle c)) (state_of (cnStatus c)))
       (filter (\<lambda>c. cnBundle c \<noteq> [] \<and> butlast (cnBundle c) = rxBundles E) cs) []))"

section \<open>Addresses\<close>

definition net_number :: "string \<Rightarrow> 'r host \<Rightarrow> int option" where
  "net_number i s = (case map_of (hoBundles s) i of
     None \<Rightarrow> None
   | Some bd \<Rightarrow> (case bdNet bd of None \<Rightarrow> None | Some t \<Rightarrow> Atoi (trim_space t)))"

definition linkAddrs :: "string \<Rightarrow> ('r, ip \<times> ip) hp" where
  "linkAddrs i = bind_s (gets (\<lambda>s. case map_of (hoBundles s) i of None \<Rightarrow> None | Some bd \<Rightarrow> bdNet bd)) (\<lambda>t. case t of
       None \<Rightarrow> raise errNoFile
     | Some txt \<Rightarrow> (case Atoi (trim_space txt) of
         None \<Rightarrow> raise errNumber
       | Some n \<Rightarrow> (case addrs n of None \<Rightarrow> raise errNoAddress | Some a \<Rightarrow> ret a)))"

definition write_net :: "'r runsc_env \<Rightarrow> string \<Rightarrow> nat \<Rightarrow> ('r, unit) hp" where
  "write_net E i n = sys_call E (set_bundle i (\<lambda>bd. bd\<lparr>bdNet := Some (Itoa (int n))\<rparr>))
     (\<lambda>k. set_bundle i (\<lambda>bd. if k = 0 then bd else bd\<lparr>bdNet := Some (take (k - 1) (Itoa (int n)))\<rparr>))"

text \<open>\<open>allocate\<close>: the numbers in the files \<open>net\<close> that can be read are taken.\<close>

definition allocate :: "'r runsc_env \<Rightarrow> string \<Rightarrow> ('r, nat) hp" where
  "allocate E i =
     bind_s (gets (\<lambda>s. map (\<lambda>j. net_number j s) (map fst (hoBundles s)))) (\<lambda>taken.
     case find (\<lambda>n. Some (int n) \<notin> set taken) [0..<maxBoxes] of
       None \<Rightarrow> raise errNoAddress
     | Some n \<Rightarrow> bind_s (write_net E i n) (\<lambda>_. ret n))"

definition make_bundle :: "string \<Rightarrow> 'r host \<Rightarrow> 'r host" where
  "make_bundle i s = (if map_of (hoBundles s) i = None then s\<lparr>hoBundles := AList.update i new_bundle (hoBundles s)\<rparr> else s)"

definition driver_netUp :: "'r runsc_env \<Rightarrow> string \<Rightarrow> box_kind \<Rightarrow> ('r, string) hp" where
  "driver_netUp E i k =
     bind_s (sys_call E (make_bundle i) (\<lambda>_. id)) (\<lambda>_.
     bind_s (allocate E i) (\<lambda>n.
     case addrs (int n) of
       None \<Rightarrow> raise errNoAddress
     | Some (h, guest) \<Rightarrow>
         bind_s (for_each (\<lambda>_. plain_call E) (netUp_commands (layout_of E i) k h guest)) (\<lambda>_.
         ret (execAddr guest))))"

section \<open>Waking\<close>

definition isReady :: "'r runsc_env \<Rightarrow> ('r, bool) hp" where
  "isReady E s = (Inr (rxAnswers E (hoCalls s)), s\<lparr>hoCalls := Suc (hoCalls s)\<rparr>)"

fun waitReady :: "'r runsc_env \<Rightarrow> nat \<Rightarrow> ('r, unit) hp" where
  "waitReady E 0 = raise errNotReady"
| "waitReady E (Suc k) = bind_s (isReady E) (\<lambda>ok. if ok then ret () else waitReady E k)"

definition driver_running :: "'r runsc_env \<Rightarrow> string \<Rightarrow> ('r, string option) hp" where
  "driver_running E i =
     bind_s (try_s (driver_list E)) (\<lambda>r. case r of
       Inl _ \<Rightarrow> ret None
     | Inr cs \<Rightarrow>
         if \<not> (\<exists>c \<in> set cs. cnID c = lyCid (layout_of E i) \<and> cnStatus c = ''running'') then ret None
         else bind_s (try_s (linkAddrs i)) (\<lambda>a. case a of
             Inl _ \<Rightarrow> ret None
           | Inr (h, guest) \<Rightarrow> bind_s (isReady E) (\<lambda>ok. ret (if ok then Some (execAddr guest) else None))))"

definition claude_login :: "'r runsc_env \<Rightarrow> Box \<Rightarrow> ('r, string) hp" where
  "claude_login E box s =
     (case rxLogin E of
        Some login \<Rightarrow> if Claude (boxEnv box) \<noteq> [] then (login (hoCalls s), s\<lparr>hoCalls := Suc (hoCalls s)\<rparr>) else (Inr [], s)
      | None \<Rightarrow> (Inr [], s))"

definition preview_var :: "'r runsc_env \<Rightarrow> Box \<Rightarrow> string list" where
  "preview_var E box = (if rxPreview E \<noteq> [] then [''FERN_PREVIEW=http://{port}-'' @ ID (boxEnv box) @ ''.'' @ rxPreview E @ ''/''] else [])"

definition write_config :: "'r runsc_env \<Rightarrow> string \<Rightarrow> spec \<Rightarrow> ('r, unit) hp" where
  "write_config E i sc = sys_call E (set_bundle i (\<lambda>bd. bd\<lparr>bdConfig := Some sc\<rparr>)) (\<lambda>_. set_bundle i (\<lambda>bd. bd\<lparr>bdConfig := None\<rparr>))"

definition driver_start :: "'r runsc_env \<Rightarrow> Box \<Rightarrow> ('r, unit) hp" where
  "driver_start E box =
     (let i = boxID box; b = layout_of E i in
      bind_s (claude_login E box) (\<lambda>login.
      bind_s (plain_call E) (\<lambda>_.
      bind_s (sys_call E (\<lambda>s. s\<lparr>hoBoxes := List.insert i (hoBoxes s)\<rparr>) (\<lambda>_. id)) (\<lambda>_.
      bind_s (plain_call E) (\<lambda>_.
      bind_s (plain_call E) (\<lambda>_.
      bind_s (for_each (\<lambda>_. plain_call E) [lyRootfs b, lyDir b @ [''upper''], lyDir b @ [''work'']]) (\<lambda>_.
      bind_s (sys_call E (set_bundle i (\<lambda>bd. bd\<lparr>bdMounted := True\<rparr>)) (\<lambda>_. id)) (\<lambda>_.
      bind_s (gets (\<lambda>s. rxRandom E (hoCalls s))) (\<lambda>wakeID.
      bind_s (write_config E i (boxSpec box b (rxImageEnv E) (boxVars box wakeID login @ preview_var E box))) (\<lambda>_.
      bind_s (linkAddrs i) (\<lambda>_.
      bind_s (plain_call E) (\<lambda>_.
      bind_s (plain_call E) (\<lambda>_.
      bind_s (tool (rsCreate (rxTool E) (lyDir b) (lyCid b))) (\<lambda>_.
      tool (rsStart (rxTool E) (lyCid b))))))))))))))))"

section \<open>Stopping\<close>

text \<open>The token and the wake's ID, which the request to stop carries, are the last of the spec's variables.\<close>

definition last_var :: "string \<Rightarrow> string list \<Rightarrow> string" where
  "last_var name vs = fold (\<lambda>v x. case cut_prefix v (name @ ''='') of Some y \<Rightarrow> y | None \<Rightarrow> x) vs []"

definition askStop :: "'r runsc_env \<Rightarrow> string \<Rightarrow> ('r, unit) hp" where
  "askStop E i =
     bind_s (try_s (plain_call E)) (\<lambda>r. case r of
       Inl _ \<Rightarrow> ret ()
     | Inr _ \<Rightarrow> bind_s (gets (\<lambda>s. case map_of (hoBundles s) i of None \<Rightarrow> None | Some bd \<Rightarrow> bdConfig bd)) (\<lambda>c. case c of
         None \<Rightarrow> ret ()
       | Some sc \<Rightarrow> bind_s (try_s (linkAddrs i)) (\<lambda>a. case a of
           Inl _ \<Rightarrow> ret ()
         | Inr (_, guest) \<Rightarrow> bind_s (modify (\<lambda>s. s\<lparr>hoStops :=
               hoStops s @ [(execAddr guest, last_var ''FERN_BOX_TOKEN'' (spEnv (scProcess sc)), last_var ''FERN_WAKE_ID'' (spEnv (scProcess sc)))]\<rparr>)) (\<lambda>_.
             bind_s (isReady E) (\<lambda>ok.
             if ok then ret () else bind_s (try_s (tool (rsKill (rxTool E) [lyCid (layout_of E i), ''TERM'']))) (\<lambda>_. ret ()))))))"

definition stop_container :: "'r runsc_env \<Rightarrow> string \<Rightarrow> container \<Rightarrow> ('r, unit) hp" where
  "stop_container E i c =
     (if cnBundle c \<noteq> lyDir (layout_of E i) then ret ()
      else bind_s (if cnID c = lyCid (layout_of E i) then askStop E i else ret ()) (\<lambda>_.
        bind_s (try_s (tool (rsWait (rxTool E) (cnID c)))) (\<lambda>w.
        bind_s (case w of Inl _ \<Rightarrow> bind_s (try_s (tool (rsKill (rxTool E) [''--all'', cnID c, ''KILL'']))) (\<lambda>_. ret ()) | Inr _ \<Rightarrow> ret ()) (\<lambda>_.
        tool (rsDelete (rxTool E) (cnID c))))))"

definition unmount_root :: "'r runsc_env \<Rightarrow> string \<Rightarrow> ('r, unit) hp" where
  "unmount_root E i =
     bind_s (plain_call E) (\<lambda>_.
     bind_s (gets (\<lambda>s. case map_of (hoBundles s) i of None \<Rightarrow> False | Some bd \<Rightarrow> bdMounted bd)) (\<lambda>m.
     if m then sys_call E (set_bundle i (\<lambda>bd. bd\<lparr>bdMounted := False\<rparr>)) (\<lambda>_. id) else ret ()))"

definition remove_dirs :: "'r runsc_env \<Rightarrow> string \<Rightarrow> ('r, unit) hp" where
  "remove_dirs E i =
     bind_s (sys_call E (\<lambda>s. s\<lparr>hoBundles := AList.delete i (hoBundles s)\<rparr>)
       (\<lambda>k. set_bundle i (\<lambda>bd. if k = 0 then bd else new_bundle))) (\<lambda>_.
     sys_call E (\<lambda>s. s\<lparr>hoBoxes := filter (\<lambda>j. j \<noteq> i) (hoBoxes s)\<rparr>) (\<lambda>_. id))"

definition stop_containers :: "'r runsc_env \<Rightarrow> string \<Rightarrow> ('r, unit) hp" where
  "stop_containers E i = bind_s (driver_list E) (for_each (stop_container E i))"

definition driver_stop :: "'r runsc_env \<Rightarrow> string \<Rightarrow> ('r, unit) hp" where
  "driver_stop E i =
     bind_s (stop_containers E i) (\<lambda>_.
     bind_s (try_s (plain_call E)) (\<lambda>_.
     bind_s (try_s (plain_call E)) (\<lambda>_.
     bind_s (unmount_root E i) (\<lambda>_.
     remove_dirs E i))))"

section \<open>The driver\<close>

definition driver_Wake :: "'r runsc_env \<Rightarrow> Box \<Rightarrow> ('r, string) hp" where
  "driver_Wake E box =
     bind_s (driver_running E (boxID box)) (\<lambda>r. case r of
       Some ad \<Rightarrow> ret ad
     | None \<Rightarrow>
         bind_s (driver_stop E (boxID box)) (\<lambda>_.
         bind_s (driver_netUp E (boxID box) (boxKind box)) (\<lambda>ad.
         bind_s (driver_start E box) (\<lambda>_.
         bind_s (waitReady E (rxTries E)) (\<lambda>_.
         ret ad)))))"

definition driver_reconcile :: "'r runsc_env \<Rightarrow> ('r, unit) hp" where
  "driver_reconcile E =
     bind_s (driver_States E) (\<lambda>sts.
     bind_s (for_each (\<lambda>_. plain_call E) [rxBundles E, rxPool E @ [''boxes'']]) (\<lambda>_.
     bind_s (gets (\<lambda>s. remdups (map fst (hoBundles s) @ hoBoxes s))) (\<lambda>ids.
     for_each (\<lambda>i. if map_of sts i = Some Running then ret () else driver_stop E i) ids)))"

definition runsc_driver :: "'r runsc_env \<Rightarrow> 'r host driver" where
  "runsc_driver E = \<lparr>drvWake = driver_Wake E, drvSleep = driver_stop E,
     drvStates = (\<lambda>s. case driver_States E s of (Inl e, t) \<Rightarrow> (Inl e, t) | (Inr sts, t) \<Rightarrow> (Inr (map fst sts), t))\<rparr>"

end
