(* ===== verification/RunscFrame.thy ===== *)
theory RunscFrame
  imports Runsc
begin

text \<open>
  What the programs of the driver leave alone. A property that the primitive effects on a box's node keep is kept by the programs:
  the locales name the effects, and their lemmas are used for every property of \<open>RunscLaws\<close>.
\<close>

section \<open>Primitives\<close>

lemma keeps_host_call:
  assumes "\<And>s n. I s \<Longrightarrow> I (eff (s\<lparr>hoCalls := n\<rparr>))" "\<And>s n k. I s \<Longrightarrow> I (part k (s\<lparr>hoCalls := n\<rparr>))"
  shows "keeps I (sys_call E eff part)"
  using assms by (simp add: keeps_def sys_call_def Let_def split: option.split)

lemma keeps_tool: "(\<And>s. I s \<Longrightarrow> I (s\<lparr>hoTool := snd (f (hoTool s))\<rparr>)) \<Longrightarrow> keeps I (tool f)"
  by (simp add: keeps_def tool_def split: prod.split) (metis snd_conv)

lemma wp_host_tool: "wp (tool f) Q X s = (case f (hoTool s) of (Inl e, t) \<Rightarrow> X e (s\<lparr>hoTool := t\<rparr>) | (Inr x, t) \<Rightarrow> Q x (s\<lparr>hoTool := t\<rparr>))"
  by (auto simp: wp_def tool_def split: prod.splits sum.splits)

lemma wp_host_call: "wp (sys_call E eff part) Q X s =
  (case rxFault E (hoCalls s) of
     Some e \<Rightarrow> X e (part (rxPart E (hoCalls s)) (s\<lparr>hoCalls := Suc (hoCalls s)\<rparr>))
   | None \<Rightarrow> Q () (eff (s\<lparr>hoCalls := Suc (hoCalls s)\<rparr>)))"
  by (simp add: wp_def sys_call_def Let_def split: option.split)

lemma wp_bind_rule: "wp m R X s \<Longrightarrow> (\<And>x t. R x t \<Longrightarrow> wp (f x) Q X t) \<Longrightarrow> wp (bind_s m f) Q X s"
  unfolding wp_bind by (erule wp_mono)

lemma keeps_modify_host: "(\<And>s. I s \<Longrightarrow> I (f s)) \<Longrightarrow> keeps I (modify f)"
  by (simp add: keeps_def modify_def)

lemma keeps_linkAddrs [keeps_rules]: "keeps I (linkAddrs i)"
  unfolding linkAddrs_def by (intro keeps_rules)

section \<open>Frames\<close>

locale host_frame =
  fixes E :: "'r runsc_env" and i :: string and I :: "'r host \<Rightarrow> bool"
  assumes calls: "I s \<Longrightarrow> I (s\<lparr>hoCalls := n\<rparr>)"
    and stops: "I s \<Longrightarrow> I (s\<lparr>hoStops := xs\<rparr>)"
    and boxes: "I s \<Longrightarrow> I (s\<lparr>hoBoxes := ys\<rparr>)"
    and touches: "(\<And>bd. bdNet (f bd) = bdNet bd) \<Longrightarrow> I s \<Longrightarrow> I (set_bundle i f s)"
    and lists: "I s \<Longrightarrow> I (s\<lparr>hoTool := snd (rsList (rxTool E) (hoTool s))\<rparr>)"
    and starts: "I s \<Longrightarrow> I (s\<lparr>hoTool := snd (rsStart (rxTool E) c (hoTool s))\<rparr>)"
    and waits: "I s \<Longrightarrow> I (s\<lparr>hoTool := snd (rsWait (rxTool E) c (hoTool s))\<rparr>)"
    and kills: "I s \<Longrightarrow> I (s\<lparr>hoTool := snd (rsKill (rxTool E) args (hoTool s))\<rparr>)"
begin

lemma plain: "keeps I (plain_call E)"
  unfolding plain_call_def by (rule keeps_host_call) (simp_all add: calls)

lemma ready: "keeps I (isReady E)"
  by (simp add: keeps_def isReady_def calls)

lemma wait_ready: "keeps I (waitReady E k)"
  by (induction k) (auto intro!: keeps_rules ready)

lemma listing: "keeps I (driver_list E)"
  unfolding driver_list_def by (rule keeps_tool) (rule lists)

lemma states: "keeps I (driver_States E)"
  unfolding driver_States_def by (intro keeps_rules listing)

lemma running: "keeps I (driver_running E j)"
  unfolding driver_running_def by (intro keeps_rules listing ready)

lemma asks: "keeps I (askStop E j)"
  unfolding askStop_def by (intro keeps_rules plain ready keeps_modify_host keeps_tool stops kills)

lemma unmounts: "keeps I (unmount_root E i)"
  unfolding unmount_root_def by (intro keeps_rules plain keeps_host_call) (simp_all add: calls touches)

lemma configs: "keeps I (write_config E i sc)"
  unfolding write_config_def by (rule keeps_host_call) (simp_all add: calls touches)

lemma login: "keeps I (claude_login E box)"
  by (simp add: keeps_def claude_login_def calls split: option.split)

lemma commands: "keeps I (for_each (\<lambda>_. plain_call E) xs)"
  by (intro keeps_rules plain)

end

text \<open>A frame that a new container of the box keeps.\<close>

locale create_frame = host_frame +
  assumes creates: "I s \<Longrightarrow> I (s\<lparr>hoTool := snd (rsCreate (rxTool E) (lyDir (layout_of E i)) (lyCid (layout_of E i)) (hoTool s))\<rparr>)"
begin

lemma start:
  assumes "boxID box = i"
  shows "keeps I (driver_start E box)"
  unfolding driver_start_def Let_def assms
  by (intro keeps_rules plain login commands configs keeps_tool starts creates keeps_host_call) (simp_all add: calls boxes touches)

end

text \<open>A frame that stopping the box's containers keeps.\<close>

locale delete_frame = host_frame +
  assumes deletes: "I s \<Longrightarrow> I (s\<lparr>hoTool := snd (rsDelete (rxTool E) (lyCid (layout_of E i)) (hoTool s))\<rparr>)"
begin

lemma stops_container:
  "(cnBundle c = lyDir (layout_of E i) \<Longrightarrow> cnID c = lyCid (layout_of E i)) \<Longrightarrow> keeps I (stop_container E i c)"
  unfolding stop_container_def by (auto intro!: keeps_rules asks keeps_tool waits kills deletes)

end

text \<open>A frame that removing and making the box's folder keeps.\<close>

locale remove_frame = host_frame +
  assumes removes: "I s \<Longrightarrow> I (s\<lparr>hoBundles := AList.delete i (hoBundles s)\<rparr>)"
    and changes: "I s \<Longrightarrow> I (set_bundle i f s)"
    and makes: "I s \<Longrightarrow> I (make_bundle i s)"
begin

lemma removing: "keeps I (remove_dirs E i)"
  unfolding remove_dirs_def
  by (intro keeps_rules keeps_host_call) (simp_all add: calls removes changes boxes, use removes [OF calls] in auto)

lemma allocating: "keeps I (allocate E i)"
  unfolding allocate_def write_net_def by (intro keeps_rules keeps_host_call) (simp_all add: calls changes)

lemma net_up: "keeps I (driver_netUp E i k)"
  unfolding driver_netUp_def by (intro keeps_rules commands allocating keeps_host_call) (simp_all add: calls makes)

end

end
