(* ===== verification/RunscLaws.thy ===== *)
theory RunscLaws
  imports RunscFrame GroupRun
begin

text \<open>
  The driver that runs boxes with runsc keeps the contract of \<open>actor.Driver\<close>, so what is shown of a group holds with it; and
  no two boxes have the same address.
\<close>

section \<open>The boxes runsc has\<close>

definition box_dir :: "'r runsc_env \<Rightarrow> string \<Rightarrow> path" where
  "box_dir E i = rxBundles E @ [i]"

definition box_cid :: "'r runsc_env \<Rightarrow> string \<Rightarrow> string" where
  "box_cid E i = ''fern-'' @ rxSum16 E i"

lemma box_dir_inj [simp]: "box_dir E i = box_dir E j \<longleftrightarrow> i = j"
  by (simp add: box_dir_def)

lemma layout_simps [simp]: "lyDir (layout_of E i) = box_dir E i" "lyCid (layout_of E i) = box_cid E i"
  by (simp_all add: layout_of_def newLayout_def Let_def box_dir_def box_cid_def)

text \<open>No digest is a prefix of another: they have one length, and are taken to differ.\<close>

definition runsc_node :: "'r runsc_env \<Rightarrow> ('r \<Rightarrow> (string \<times> path) set) \<Rightarrow> bool" where
  "runsc_node E cs \<longleftrightarrow> runsc_like (rxTool E) cs \<and> (\<forall>i j. prefix (rxSum16 E i) (rxSum16 E j) \<longrightarrow> i = j)"

definition box_up :: "'r runsc_env \<Rightarrow> ('r \<Rightarrow> (string \<times> path) set) \<Rightarrow> 'r host \<Rightarrow> string \<Rightarrow> bool" where
  "box_up E cs s i \<longleftrightarrow> (box_cid E i, box_dir E i) \<in> cs (hoTool s)"

text \<open>Every container is one of the driver's: runsc's state folder is its own.\<close>

definition host_ok :: "'r runsc_env \<Rightarrow> ('r \<Rightarrow> (string \<times> path) set) \<Rightarrow> 'r host \<Rightarrow> bool" where
  "host_ok E cs s \<longleftrightarrow> (\<forall>x \<in> cs (hoTool s). \<exists>i. x = (box_cid E i, box_dir E i))"

lemma runsc_nodeD:
  assumes "runsc_node E cs"
  shows "cs (snd (rsList (rxTool E) r)) = cs r"
    "rsList (rxTool E) r = (Inr xs, r') \<Longrightarrow> (\<lambda>c. (cnID c, cnBundle c)) ` set xs = cs r"
    "cs r \<subseteq> cs (snd (rsCreate (rxTool E) d c r))" "cs (snd (rsCreate (rxTool E) d c r)) \<subseteq> insert (c, d) (cs r)"
    "rsCreate (rxTool E) d c r = (Inr u, r') \<Longrightarrow> (c, d) \<in> cs r'"
    "cs (snd (rsStart (rxTool E) c r)) = cs r" "cs (snd (rsWait (rxTool E) c r)) = cs r" "cs (snd (rsKill (rxTool E) args r)) = cs r"
proof -
  let ?T = "rxTool E"
  note like = assms [unfolded runsc_node_def runsc_like_def, THEN conjunct1]
  note l = like [THEN conjunct1, rule_format]
    and m = like [THEN conjunct2, THEN conjunct1, rule_format]
    and k = like [THEN conjunct2, THEN conjunct2, THEN conjunct1, rule_format]
      like [THEN conjunct2, THEN conjunct2, THEN conjunct2, THEN conjunct1, rule_format]
      like [THEN conjunct2, THEN conjunct2, THEN conjunct2, THEN conjunct2, THEN conjunct1, rule_format]
  show "cs (snd (rsList ?T r)) = cs r" "rsList ?T r = (Inr xs, r') \<Longrightarrow> (\<lambda>c. (cnID c, cnBundle c)) ` set xs = cs r"
    using l [of r "fst (rsList ?T r)" "snd (rsList ?T r)"] by simp_all
  show "cs r \<subseteq> cs (snd (rsCreate ?T d c r))" "cs (snd (rsCreate ?T d c r)) \<subseteq> insert (c, d) (cs r)"
    "rsCreate ?T d c r = (Inr u, r') \<Longrightarrow> (c, d) \<in> cs r'"
    using m [of d c r "fst (rsCreate ?T d c r)" "snd (rsCreate ?T d c r)"] by simp_all
  show "cs (snd (rsStart ?T c r)) = cs r" "cs (snd (rsWait ?T c r)) = cs r" "cs (snd (rsKill ?T args r)) = cs r"
    using k(1) [of c r "fst (rsStart ?T c r)"] k(2) [of c r "fst (rsWait ?T c r)"] k(3) [of args r "fst (rsKill ?T args r)"] by simp_all
qed

lemma runsc_delete:
  assumes "runsc_node E cs" "\<forall>x \<in> cs r. \<exists>i. x = (box_cid E i, box_dir E i)" "rsDelete (rxTool E) (box_cid E i) r = (q, r')"
  shows "{x \<in> cs r. fst x \<noteq> box_cid E i} \<subseteq> cs r'" "cs r' \<subseteq> cs r" "q = Inr u \<Longrightarrow> \<forall>x \<in> cs r'. fst x \<noteq> box_cid E i"
proof -
  have "\<forall>x \<in> cs r. prefix (box_cid E i) (fst x) \<longrightarrow> fst x = box_cid E i"
    using assms(1,2) unfolding runsc_node_def box_cid_def by fastforce
  moreover note assms(1) [unfolded runsc_node_def runsc_like_def, THEN conjunct1, THEN conjunct2, THEN conjunct2, THEN conjunct2,
    THEN conjunct2, THEN conjunct2, rule_format, of r "box_cid E i" q r']
  ultimately show "{x \<in> cs r. fst x \<noteq> box_cid E i} \<subseteq> cs r'" "cs r' \<subseteq> cs r" "q = Inr u \<Longrightarrow> \<forall>x \<in> cs r'. fst x \<noteq> box_cid E i"
    using assms(3) by simp_all
qed

lemma box_cid_inj: "runsc_node E cs \<Longrightarrow> box_cid E i = box_cid E j \<longleftrightarrow> i = j"
  unfolding runsc_node_def box_cid_def by (metis prefix_order.refl same_append_eq)

lemma listed_cid: "runsc_node E cs \<Longrightarrow> host_ok E cs s \<Longrightarrow> (c, box_dir E i) \<in> cs (hoTool s) \<Longrightarrow> c = box_cid E i"
  by (auto simp: host_ok_def)

lemma listed_up: "runsc_node E cs \<Longrightarrow> host_ok E cs s \<Longrightarrow> (box_cid E i, d) \<in> cs (hoTool s) \<Longrightarrow> box_up E cs s i"
  using box_cid_inj [of E cs i] by (fastforce simp: host_ok_def box_up_def)

section \<open>Other boxes\<close>

text \<open>The other boxes are as \<open>U\<close> says, and box \<open>i\<close> is up only if \<open>u\<close>.\<close>

definition others :: "'r runsc_env \<Rightarrow> ('r \<Rightarrow> (string \<times> path) set) \<Rightarrow> string \<Rightarrow> (string \<Rightarrow> bool) \<Rightarrow> bool \<Rightarrow> 'r host \<Rightarrow> bool" where
  "others E cs i U u s \<longleftrightarrow> (runsc_node E cs \<longrightarrow>
     host_ok E cs s \<and> (\<forall>j. j \<noteq> i \<longrightarrow> box_up E cs s j = U j) \<and> (box_up E cs s i \<longrightarrow> u))"

lemma others_same: "cs (hoTool t) = cs (hoTool s) \<Longrightarrow> others E cs i U u s \<Longrightarrow> others E cs i U u t"
  by (simp add: others_def host_ok_def box_up_def)

lemma set_bundle_tool [simp]: "hoTool (set_bundle i f s) = hoTool s" "hoTool (make_bundle i s) = hoTool s"
  by (simp_all add: set_bundle_def make_bundle_def split: option.split)

lemma others_tool: "(runsc_node E cs \<Longrightarrow> cs r = cs (hoTool s)) \<Longrightarrow> others E cs i U u s \<Longrightarrow> others E cs i U u (s\<lparr>hoTool := r\<rparr>)"
  by (simp add: others_def host_ok_def box_up_def)

interpretation oh: host_frame E i "others E cs i U u" for E :: "'r runsc_env" and cs i U u
  by unfold_locales (auto intro: others_same [rotated] others_tool simp: runsc_nodeD)

interpretation om: remove_frame E i "others E cs i U u" for E :: "'r runsc_env" and cs i U u
  by unfold_locales (auto intro: others_same [rotated])

interpretation oc: create_frame E i "others E cs i U True" for E :: "'r runsc_env" and cs i U
proof unfold_locales
  fix s :: "'r host" assume s: "others E cs i U True s"
  let ?r = "snd (rsCreate (rxTool E) (lyDir (layout_of E i)) (lyCid (layout_of E i)) (hoTool s))"
  show "others E cs i U True (s\<lparr>hoTool := ?r\<rparr>)"
    unfolding others_def
  proof (intro impI conjI allI TrueI)
    assume n: "runsc_node E cs"
    have r: "cs (hoTool s) \<subseteq> cs ?r" "cs ?r \<subseteq> insert (box_cid E i, box_dir E i) (cs (hoTool s))"
      using runsc_nodeD(3,4) [OF n] by simp_all
    show "host_ok E cs (s\<lparr>hoTool := ?r\<rparr>)" using s n r(2) by (auto simp: others_def host_ok_def)
    show "box_up E cs (s\<lparr>hoTool := ?r\<rparr>) j = U j" if "j \<noteq> i" for j using s n r that by (auto simp: others_def box_up_def)
  qed
qed

interpretation od: delete_frame E i "others E cs i U u" for E :: "'r runsc_env" and cs i U u
proof unfold_locales
  fix s :: "'r host" assume s: "others E cs i U u s"
  obtain q r where d: "rsDelete (rxTool E) (box_cid E i) (hoTool s) = (q, r)" by fastforce
  have "others E cs i U u (s\<lparr>hoTool := r\<rparr>)"
    unfolding others_def
  proof (intro impI conjI allI)
    assume n: "runsc_node E cs"
    have ok: "\<forall>x \<in> cs (hoTool s). \<exists>i. x = (box_cid E i, box_dir E i)" using s n by (simp add: others_def host_ok_def)
    note r = runsc_delete(1,2) [OF n ok d]
    show "host_ok E cs (s\<lparr>hoTool := r\<rparr>)" using ok r(2) by (auto simp: host_ok_def)
    show "box_up E cs (s\<lparr>hoTool := r\<rparr>) j = U j" if "j \<noteq> i" for j
      using s n r that box_cid_inj [OF n, of j i] by (auto simp: others_def box_up_def)
    show "box_up E cs (s\<lparr>hoTool := r\<rparr>) i \<Longrightarrow> u" using s n r(2) by (auto simp: others_def box_up_def)
  qed
  then show "others E cs i U u (s\<lparr>hoTool := snd (rsDelete (rxTool E) (lyCid (layout_of E i)) (hoTool s))\<rparr>)" using d by simp
qed

section \<open>Stopping\<close>

text \<open>What \<open>stop\<close> goes through: every container of the box.\<close>

lemma wp_driver_list:
  "wp (driver_list E) Q X s = (case rsList (rxTool E) (hoTool s) of (Inl e, t) \<Rightarrow> X e (s\<lparr>hoTool := t\<rparr>) | (Inr cs, t) \<Rightarrow> Q cs (s\<lparr>hoTool := t\<rparr>))"
  by (simp add: driver_list_def wp_host_tool)

lemma wp_listed:
  assumes n: "runsc_node E cs" and s: "host_ok E cs s"
    and Q: "\<And>xs t. cs (hoTool t) = cs (hoTool s) \<Longrightarrow> (\<lambda>c. (cnID c, cnBundle c)) ` set xs = cs (hoTool t) \<Longrightarrow>
      t = s\<lparr>hoTool := hoTool t\<rparr> \<Longrightarrow> Q xs t"
    and X: "\<And>e t. cs (hoTool t) = cs (hoTool s) \<Longrightarrow> t = s\<lparr>hoTool := hoTool t\<rparr> \<Longrightarrow> X e t"
  shows "wp (driver_list E) Q X s"
proof -
  obtain q r where r: "rsList (rxTool E) (hoTool s) = (q, r)" by fastforce
  have "cs r = cs (hoTool s)" using runsc_nodeD(1) [OF n, of "hoTool s"] r by simp
  moreover have "(\<lambda>c. (cnID c, cnBundle c)) ` set xs = cs (hoTool s)" if "q = Inr xs" for xs
    using runsc_nodeD(2) [OF n] r that by blast
  ultimately show ?thesis using r Q [of "s\<lparr>hoTool := r\<rparr>"] X [of "s\<lparr>hoTool := r\<rparr>"] by (simp add: wp_driver_list split: sum.split)
qed

lemma stop_container_down:
  assumes n: "runsc_node E cs" and s: "others E cs i U u s" and c: "cnBundle c = box_dir E i" "cnID c = box_cid E i"
  shows "wp (stop_container E i c) (\<lambda>_. others E cs i U False) (\<lambda>_. others E cs i U u) s"
proof -
  have del: "wp (tool (rsDelete (rxTool E) (box_cid E i))) (\<lambda>_. others E cs i U False) (\<lambda>_. others E cs i U u) t"
    if t: "others E cs i U u t" for t
  proof -
    obtain q r where d: "rsDelete (rxTool E) (box_cid E i) (hoTool t) = (q, r)" by fastforce
    have "others E cs i U u (t\<lparr>hoTool := r\<rparr>)" using od.deletes [OF t] d by simp
    moreover have "\<not> box_up E cs (t\<lparr>hoTool := r\<rparr>) i" if "q = Inr ()"
      using runsc_delete(3) [OF n _ d that] t n by (fastforce simp: others_def host_ok_def box_up_def)
    ultimately show ?thesis using d by (auto simp: wp_host_tool others_def split: sum.split)
  qed
  let ?kill = "\<lambda>w. case w of Inl _ \<Rightarrow> bind_s (try_s (tool (rsKill (rxTool E) [''--all'', box_cid E i, ''KILL'']))) (\<lambda>_. ret ()) | Inr _ \<Rightarrow> ret ()"
  have stop: "stop_container E i c = bind_s (askStop E i) (\<lambda>_. bind_s (try_s (tool (rsWait (rxTool E) (box_cid E i)))) (\<lambda>w.
      bind_s (?kill w) (\<lambda>_. tool (rsDelete (rxTool E) (box_cid E i)))))"
    unfolding stop_container_def c layout_simps by simp
  have waits: "keeps (others E cs i U u) (try_s (tool (rsWait (rxTool E) (box_cid E i))))"
    by (intro keeps_rules keeps_tool oh.waits)
  have kill: "keeps (others E cs i U u) (?kill w)" for w by (intro keeps_rules keeps_tool oh.kills)
  show ?thesis
    unfolding stop by (rule wp_keeps_bind [OF oh.asks s] wp_keeps_bind [OF waits] wp_keeps_bind [OF kill] del | assumption)+
qed

lemma others_weaken: "others E cs i U False s \<Longrightarrow> others E cs i U u s"
  by (auto simp: others_def)

lemma wp_stop_containers:
  assumes n: "runsc_node E cs" and s: "others E cs i U u s"
  shows "wp (stop_containers E i) (\<lambda>_. others E cs i U False) (\<lambda>_. others E cs i U u) s"
proof -
  let ?mine = "\<lambda>c. cnBundle c = box_dir E i"
  have loop: "wp (for_each (stop_container E i) xs) (\<lambda>_. others E cs i U False) (\<lambda>_. others E cs i U u) t"
    if t: "others E cs i U u t" "(\<lambda>c. (cnID c, cnBundle c)) ` set xs = cs (hoTool t)" for xs t
  proof (rule wp_for_each [where I = "\<lambda>ys t. others E cs i U u t \<and> (\<forall>c \<in> set ys. ?mine c \<longrightarrow> cnID c = box_cid E i)
      \<and> (others E cs i U False t \<or> (\<exists>c \<in> set ys. ?mine c))"])
    have ok: "host_ok E cs t" using t(1) n by (simp add: others_def)
    have "(cnID c, cnBundle c) \<in> cs (hoTool t)" if "c \<in> set xs" for c using t(2) that by blast
    then have "\<forall>c \<in> set xs. ?mine c \<longrightarrow> cnID c = box_cid E i" using listed_cid [OF n ok] by metis
    moreover have "others E cs i U False t" if "\<not> (\<exists>c \<in> set xs. ?mine c)"
    proof -
      have "\<not> box_up E cs t i" using that unfolding box_up_def t(2) [symmetric] by auto
      then show ?thesis using t(1) by (simp add: others_def)
    qed
    ultimately show "others E cs i U u t \<and> (\<forall>c \<in> set xs. ?mine c \<longrightarrow> cnID c = box_cid E i) \<and> (others E cs i U False t \<or> (\<exists>c \<in> set xs. ?mine c))"
      using t(1) by blast
  next
    fix c :: container and ys and t :: "'a host"
    assume "others E cs i U u t \<and> (\<forall>d \<in> set (c # ys). ?mine d \<longrightarrow> cnID d = box_cid E i)
      \<and> (others E cs i U False t \<or> (\<exists>d \<in> set (c # ys). ?mine d))"
    then have t: "others E cs i U u t" "\<forall>d \<in> set (c # ys). ?mine d \<longrightarrow> cnID d = box_cid E i"
      "others E cs i U False t \<or> (\<exists>d \<in> set (c # ys). ?mine d)" by blast+
    show "wp (stop_container E i c) (\<lambda>_ t. others E cs i U u t \<and> (\<forall>d \<in> set ys. ?mine d \<longrightarrow> cnID d = box_cid E i)
      \<and> (others E cs i U False t \<or> (\<exists>d \<in> set ys. ?mine d))) (\<lambda>_. others E cs i U u) t"
    proof (cases "?mine c")
      case True
      with t(2) have "cnID c = box_cid E i" by simp
      from stop_container_down [OF n t(1) True this] show ?thesis
        by (rule wp_mono) (use t(2) others_weaken in auto)
    next
      case False
      then show ?thesis using t by (simp add: stop_container_def wp_rules)
    qed
  qed auto
  have ok: "host_ok E cs s" using s n by (simp add: others_def)
  have "wp (driver_list E) (\<lambda>xs t. others E cs i U u t \<and> (\<lambda>c. (cnID c, cnBundle c)) ` set xs = cs (hoTool t)) (\<lambda>_. others E cs i U u) s"
    by (rule wp_listed [OF n ok]) (auto intro: others_same [OF _ s])
  then show ?thesis
    unfolding stop_containers_def by (rule wp_bind_rule) (auto intro: loop)
qed

lemma wp_stop:
  assumes n: "runsc_node E cs" and s: "others E cs i U u s"
  shows "wp (driver_stop E i) (\<lambda>_. others E cs i U False) (\<lambda>_. others E cs i U u) s"
proof -
  have "keeps (others E cs i U False)
      (bind_s (try_s (plain_call E)) (\<lambda>_. bind_s (try_s (plain_call E)) (\<lambda>_. bind_s (unmount_root E i) (\<lambda>_. remove_dirs E i))))"
    by (intro keeps_rules oh.plain oh.unmounts om.removing)
  from keeps_wpD [OF this] show ?thesis
    unfolding driver_stop_def
    by (intro wp_bind_rule [OF wp_stop_containers [OF n s]]) (rule wp_mono, assumption?, auto intro: others_weaken)
qed

section \<open>Waking\<close>

lemma execAddr_nonempty [simp]: "execAddr a \<noteq> []"
  by (simp add: execAddr_def)

lemma wp_running:
  assumes n: "runsc_node E cs" and s: "others E cs i U True s"
  shows "wp (driver_running E i) (\<lambda>r t. others E cs i U True t \<and> (\<forall>ad. r = Some ad \<longrightarrow> box_up E cs t i \<and> ad \<noteq> [])) (\<lambda>_ _. False) s"
proof -
  have ok: "host_ok E cs s" using s n by (simp add: others_def)
  have cont: "wp (if \<not> (\<exists>c \<in> set xs. cnID c = lyCid (layout_of E i) \<and> cnStatus c = ''running'') then ret None
         else bind_s (try_s (linkAddrs i)) (\<lambda>a. case a of
             Inl _ \<Rightarrow> ret None
           | Inr (h, guest) \<Rightarrow> bind_s (isReady E) (\<lambda>ok. ret (if ok then Some (execAddr guest) else None))))
      (\<lambda>r t. others E cs i U True t \<and> (\<forall>ad. r = Some ad \<longrightarrow> box_up E cs t i \<and> ad \<noteq> [])) (\<lambda>_ _. False) t"
    if t: "cs (hoTool t) = cs (hoTool s)" "(\<lambda>c. (cnID c, cnBundle c)) ` set xs = cs (hoTool t)" for xs t
  proof (cases "\<exists>c \<in> set xs. cnID c = box_cid E i \<and> cnStatus c = ''running''")
    case True
    then obtain d where "(box_cid E i, d) \<in> cs (hoTool t)" using t(2) by force
    then have up: "box_up E cs t i" using listed_up [OF n, of t i d] ok t(1) by (simp add: host_ok_def)
    moreover have "others E cs i U True t" using others_same [OF t(1) s] .
    ultimately have ready: "wp (bind_s (isReady E) (\<lambda>ok. ret (if ok then Some (execAddr guest) else None)))
      (\<lambda>r t. others E cs i U True t \<and> (\<forall>ad. r = Some ad \<longrightarrow> box_up E cs t i \<and> ad \<noteq> [])) (\<lambda>_ _. False) t" for guest
      by (simp add: wp_bind wp_ret isReady_def wp_def others_def host_ok_def box_up_def)
    have link: "wp (linkAddrs i) (\<lambda>_ u. u = t) (\<lambda>_ u. u = t) t"
      by (simp add: linkAddrs_def wp_rules split: option.split)
    show ?thesis
      using True ready others_same [OF t(1) s]
      by (simp add: wp_bind wp_try, intro wp_mono [OF link]) (auto simp: wp_rules split: prod.split)
  next
    case False
    then show ?thesis using others_same [OF t(1) s] by (simp add: wp_ret)
  qed
  have "wp (try_s (driver_list E)) (\<lambda>r t. cs (hoTool t) = cs (hoTool s) \<and> (\<forall>xs. r = Inr xs \<longrightarrow> (\<lambda>c. (cnID c, cnBundle c)) ` set xs = cs (hoTool t)))
      (\<lambda>_ _. False) s"
    unfolding wp_try by (rule wp_listed [OF n ok]) auto
  then show ?thesis
    unfolding driver_running_def
  proof (rule wp_bind_rule)
    fix r :: "nat + container list" and t :: "'a host"
    assume t: "cs (hoTool t) = cs (hoTool s) \<and> (\<forall>xs. r = Inr xs \<longrightarrow> (\<lambda>c. (cnID c, cnBundle c)) ` set xs = cs (hoTool t))"
    show "wp (case r of Inl _ \<Rightarrow> ret None | Inr xs \<Rightarrow>
        if \<not> (\<exists>c \<in> set xs. cnID c = lyCid (layout_of E i) \<and> cnStatus c = ''running'') then ret None
         else bind_s (try_s (linkAddrs i)) (\<lambda>a. case a of
             Inl _ \<Rightarrow> ret None
           | Inr (h, guest) \<Rightarrow> bind_s (isReady E) (\<lambda>ok. ret (if ok then Some (execAddr guest) else None))))
      (\<lambda>r t. others E cs i U True t \<and> (\<forall>ad. r = Some ad \<longrightarrow> box_up E cs t i \<and> ad \<noteq> [])) (\<lambda>_ _. False) t"
    proof (cases r)
      case (Inl e)
      then show ?thesis using others_same [of cs t s, OF _ s] t by (simp add: wp_ret)
    next
      case (Inr xs)
      then show ?thesis using cont [of t xs] t by simp
    qed
  qed
qed

lemma wp_start_up:
  assumes n: "runsc_node E cs" and s: "others E cs i U True s" and i: "boxID box = i"
  shows "wp (driver_start E box) (\<lambda>_ t. box_up E cs t i) (\<lambda>_ _. True) s"
proof -
  have "wp (tool (rsCreate (rxTool E) (box_dir E i) (box_cid E i))) (\<lambda>_. wp (tool (rsStart (rxTool E) (box_cid E i))) (\<lambda>_ t. box_up E cs t i) (\<lambda>_ _. True))
      (\<lambda>_ _. True) t" for t
  proof -
    obtain q r where c: "rsCreate (rxTool E) (box_dir E i) (box_cid E i) (hoTool t) = (q, r)" by fastforce
    obtain q' r' where d: "rsStart (rxTool E) (box_cid E i) r = (q', r')" by fastforce
    have "cs r' = cs r" using runsc_nodeD(6) [OF n, of "box_cid E i" r] d by simp
    moreover have "(box_cid E i, box_dir E i) \<in> cs r" if "q = Inr u" for u using runsc_nodeD(5) [OF n] c that by blast
    ultimately show ?thesis using c d by (simp add: wp_host_tool box_up_def split: sum.split)
  qed
  then have last: "wp (bind_s (tool (rsCreate (rxTool E) (box_dir E i) (box_cid E i))) (\<lambda>_. tool (rsStart (rxTool E) (box_cid E i))))
      (\<lambda>_ t. box_up E cs t i) (\<lambda>_ _. True) t" for t by (simp add: wp_bind)
  have true: "keeps (\<lambda>_. True) m" for m by (simp add: keeps_def)
  show ?thesis
    unfolding driver_start_def Let_def i layout_simps
    by (rule last | rule wp_keeps_bind [OF true] | rule TrueI)+
qed

lemma wp_Wake:
  assumes n: "runsc_node E cs" and s: "others E cs (boxID box) U True s"
  shows "wp (driver_Wake E box) (\<lambda>ad t. others E cs (boxID box) U True t \<and> box_up E cs t (boxID box) \<and> ad \<noteq> [])
    (\<lambda>_. others E cs (boxID box) U True) s"
proof -
  let ?i = "boxID box" and ?I = "others E cs (boxID box) U True"
  have start: "wp (driver_start E box) (\<lambda>_ t. ?I t \<and> box_up E cs t ?i) (\<lambda>_. ?I) t" if "?I t" for t
    using wp_conj [OF keeps_wpD [OF oc.start [OF refl] that] wp_start_up [OF n that refl]] by simp
  have ready: "wp (waitReady E k) (\<lambda>_ t. ?I t \<and> box_up E cs t ?i) (\<lambda>_. ?I) t" if "?I t" "box_up E cs t ?i" for k t
  proof -
    have "keeps (\<lambda>t. ?I t \<and> box_up E cs t ?i) (waitReady E k)"
    proof (induction k)
      case (Suc k)
      have "keeps (\<lambda>t. ?I t \<and> box_up E cs t ?i) (isReady E)"
        by (simp add: keeps_def isReady_def others_def host_ok_def box_up_def)
      with Suc show ?case by (auto intro!: keeps_rules)
    qed (simp add: keeps_raise)
    from keeps_wpD [OF this] that have "wp (waitReady E k) (\<lambda>_ t. ?I t \<and> box_up E cs t ?i) (\<lambda>_ t. ?I t \<and> box_up E cs t ?i) t" by blast
    then show ?thesis by (rule wp_mono) auto
  qed
  have net: "wp (driver_netUp E ?i (boxKind box)) (\<lambda>ad t. ?I t \<and> ad \<noteq> []) (\<lambda>_. ?I) t" if "?I t" for t
  proof -
    have "wp (driver_netUp E ?i (boxKind box)) (\<lambda>ad _. ad \<noteq> []) (\<lambda>_ _. True) t"
    proof -
      have true: "keeps (\<lambda>_. True) m" for m by (simp add: keeps_def)
      show ?thesis
        unfolding driver_netUp_def
        by (rule wp_keeps_bind [OF true] TrueI | simp add: wp_rules wp_True split: option.split prod.split)+
    qed
    from wp_conj [OF keeps_wpD [OF om.net_up that] this] show ?thesis by simp
  qed
  have rest: "wp (bind_s (driver_stop E ?i) (\<lambda>_. bind_s (driver_netUp E ?i (boxKind box)) (\<lambda>ad.
      bind_s (driver_start E box) (\<lambda>_. bind_s (waitReady E (rxTries E)) (\<lambda>_. ret ad)))))
      (\<lambda>ad t. ?I t \<and> box_up E cs t ?i \<and> ad \<noteq> []) (\<lambda>_. ?I) t" if t: "?I t" for t
  proof (rule wp_bind_rule [OF wp_stop [OF n t]])
    fix t assume "others E cs ?i U False t"
    then have "?I t" by (rule others_weaken)
    then show "wp (bind_s (driver_netUp E ?i (boxKind box)) (\<lambda>ad. bind_s (driver_start E box) (\<lambda>_. bind_s (waitReady E (rxTries E)) (\<lambda>_. ret ad))))
      (\<lambda>ad t. ?I t \<and> box_up E cs t ?i \<and> ad \<noteq> []) (\<lambda>_. ?I) t"
      by (rule wp_bind_rule [OF net]) (elim conjE, rule wp_bind_rule [OF start], assumption, elim conjE, rule wp_bind_rule [OF ready], auto simp: wp_ret)
  qed
  show ?thesis
    unfolding driver_Wake_def
  proof (rule wp_bind_rule)
    show "wp (driver_running E ?i) (\<lambda>r t. ?I t \<and> (\<forall>ad. r = Some ad \<longrightarrow> box_up E cs t ?i \<and> ad \<noteq> [])) (\<lambda>_. ?I) s"
      by (rule wp_mono [OF wp_running [OF n s]]) auto
  qed (use rest in \<open>auto simp: wp_ret split: option.split\<close>)
qed

section \<open>The contract\<close>

lemma keys_of_updates: "fst ` set (fold (\<lambda>c. AList.update (f c) (g c)) xs al) = f ` set xs \<union> fst ` set al"
  by (induction xs arbitrary: al) (auto simp: dom_update)

lemma states_listed:
  assumes n: "runsc_node E cs" and ok: "host_ok E cs s"
  shows "wp (driver_States E) (\<lambda>sts t. cs (hoTool t) = cs (hoTool s) \<and> (\<forall>i. box_up E cs s i \<longleftrightarrow> i \<in> fst ` set sts)) (\<lambda>_ t. cs (hoTool t) = cs (hoTool s)) s"
  unfolding driver_States_def
proof (rule wp_bind_rule)
  show "wp (driver_list E) (\<lambda>xs t. cs (hoTool t) = cs (hoTool s) \<and> (\<lambda>c. (cnID c, cnBundle c)) ` set xs = cs (hoTool s)) (\<lambda>_ t. cs (hoTool t) = cs (hoTool s)) s"
    by (rule wp_listed [OF n ok]) auto
next
  fix xs and t :: "'a host"
  assume t: "cs (hoTool t) = cs (hoTool s) \<and> (\<lambda>c. (cnID c, cnBundle c)) ` set xs = cs (hoTool s)"
  have "box_up E cs s i \<longleftrightarrow> (\<exists>c \<in> set xs. cnBundle c \<noteq> [] \<and> butlast (cnBundle c) = rxBundles E \<and> last (cnBundle c) = i)" for i
  proof
    assume "box_up E cs s i"
    then have "(box_cid E i, box_dir E i) \<in> (\<lambda>c. (cnID c, cnBundle c)) ` set xs" using t by (simp only: box_up_def)
    then obtain c where "c \<in> set xs" "cnBundle c = box_dir E i" by auto
    then show "\<exists>c \<in> set xs. cnBundle c \<noteq> [] \<and> butlast (cnBundle c) = rxBundles E \<and> last (cnBundle c) = i"
      by (intro bexI [of _ c]) (simp_all add: box_dir_def)
  next
    assume "\<exists>c \<in> set xs. cnBundle c \<noteq> [] \<and> butlast (cnBundle c) = rxBundles E \<and> last (cnBundle c) = i"
    then obtain c where c: "c \<in> set xs" "cnBundle c = box_dir E i" unfolding box_dir_def by (metis append_butlast_last_id)
    then have "(cnID c, box_dir E i) \<in> cs (hoTool s)" using t by force
    with listed_cid [OF n ok this] show "box_up E cs s i" by (simp add: box_up_def)
  qed
  then show "wp (ret (fold (\<lambda>c. AList.update (last (cnBundle c)) (state_of (cnStatus c)))
       (filter (\<lambda>c. cnBundle c \<noteq> [] \<and> butlast (cnBundle c) = rxBundles E) xs) []))
     (\<lambda>sts t. cs (hoTool t) = cs (hoTool s) \<and> (\<forall>i. box_up E cs s i \<longleftrightarrow> i \<in> fst ` set sts)) (\<lambda>_ t. cs (hoTool t) = cs (hoTool s)) t"
    using t by (auto simp: wp_ret keys_of_updates)
qed

text \<open>The driver keeps the contract that the group relies on.\<close>

lemma runsc_keeps_contract:
  assumes n: "runsc_node E cs"
  shows "box_driver (runsc_driver E) (box_up E cs) (host_ok E cs)"
proof -
  have start: "others E cs i (box_up E cs d) (box_up E cs d i) d" if "host_ok E cs d" for d i using that by (simp add: others_def)
  have wake: "wp (driver_Wake E b) (\<lambda>ad t. others E cs (boxID b) (box_up E cs d) True t \<and> box_up E cs t (boxID b) \<and> ad \<noteq> [])
      (\<lambda>_. others E cs (boxID b) (box_up E cs d) True) d" if "host_ok E cs d" for b d
    using that by (intro wp_Wake [OF n]) (simp add: others_def)
  have stop: "wp (driver_stop E i) (\<lambda>_. others E cs i (box_up E cs d) False) (\<lambda>_. others E cs i (box_up E cs d) (box_up E cs d i)) d"
    if "host_ok E cs d" for i d by (rule wp_stop [OF n start [OF that]])
  have woken: "others E cs (boxID b) (box_up E cs d) True d'" if "host_ok E cs d" "driver_Wake E b d = (r, d')" for b d r d'
    using wake [OF that(1), of b] that(2) by (auto simp: wp_def split: sum.splits)
  have slept: "others E cs i (box_up E cs d) (box_up E cs d i) d'" if "host_ok E cs d" "driver_stop E i d = (r, d')" for i d r d'
    using stop [OF that(1), of i] that(2) others_weaken by (fastforce simp: wp_def split: sum.splits)
  have states: "host_ok E cs d' \<and> box_up E cs d' = box_up E cs d \<and> (\<forall>sts. q = Inr sts \<longrightarrow> (\<forall>i. box_up E cs d i \<longleftrightarrow> i \<in> fst ` set sts))"
    if "host_ok E cs d" "driver_States E d = (q, d')" for d q d'
    using states_listed [OF n that(1)] that by (auto simp: wp_def host_ok_def box_up_def fun_eq_iff split: sum.splits)
  show ?thesis
  proof
    fix d d' :: "'a host" and b r i
    assume d: "host_ok E cs d" "drvWake (runsc_driver E) b d = (r, d')"
    note w = woken [OF d(1), of b r d'] d(2)
    show "host_ok E cs d'" using w n by (simp add: runsc_driver_def others_def)
    show "box_up E cs d' i = box_up E cs d i" if "i \<noteq> boxID b" using w n that by (simp add: runsc_driver_def others_def)
  next
    fix d d' :: "'a host" and b a
    assume d: "host_ok E cs d" "drvWake (runsc_driver E) b d = (Inr a, d')"
    then show "box_up E cs d' (boxID b) \<and> a \<noteq> []" using wake [OF d(1), of b] by (simp add: runsc_driver_def wp_def)
  next
    fix d d' :: "'a host" and i j q
    assume d: "host_ok E cs d" "drvSleep (runsc_driver E) i d = (q, d')"
    note w = slept [OF d(1), of i q d'] d(2)
    show "host_ok E cs d'" using w n by (simp add: runsc_driver_def others_def)
    show "box_up E cs d' j = box_up E cs d j" if "j \<noteq> i" using w n that by (simp add: runsc_driver_def others_def)
    show "box_up E cs d' j \<Longrightarrow> box_up E cs d j" using w n by (cases "j = i") (auto simp: runsc_driver_def others_def)
  next
    fix d d' :: "'a host" and i u
    assume d: "host_ok E cs d" "drvSleep (runsc_driver E) i d = (Inr u, d')"
    then show "\<not> box_up E cs d' i" using stop [OF d(1), of i] n by (simp add: runsc_driver_def wp_def others_def)
  next
    fix d d' :: "'a host" and v
    assume d: "host_ok E cs d" "drvStates (runsc_driver E) d = (v, d')"
    then show "host_ok E cs d' \<and> box_up E cs d' = box_up E cs d"
      using states [OF d(1)] by (auto simp: runsc_driver_def split: prod.splits sum.splits)
  next
    fix d d' :: "'a host" and ids i
    assume d: "host_ok E cs d" "drvStates (runsc_driver E) d = (Inr ids, d')"
    then obtain sts where "driver_States E d = (Inr sts, d')" "set ids = fst ` set sts"
      by (auto simp: runsc_driver_def split: prod.splits sum.splits)
    then show "box_up E cs d i \<longleftrightarrow> i \<in> set ids" using states [OF d(1)] by blast
  qed
qed

text \<open>
  C14 No box is lost with the driver that runs boxes with runsc: in every state a daemon can reach, whatever calls and commands fail, a box
  that runsc has a container of has a live actor that counts it as awake, with its idle timer armed or a command in it; an actor of a
  box that is not awake has no command, no address and no watch.
\<close>

theorem runsc_no_lost_box:
  assumes "runsc_node E cs" "group_reach (runsc_driver E) (box_up E cs) (host_ok E cs) g" "\<not> stopped g"
  shows "(box_up E cs (gdrv g) i \<longrightarrow> (\<exists>a. actors g i = Some a \<and> awake a \<and> \<not> finished a \<and>
      (idleAgent (cfg g) \<noteq> 0 \<and> idleHuman (cfg g) \<noteq> 0 \<longrightarrow> armIdle (cfg g) a \<noteq> None \<or> execs a \<noteq> [])))
    \<and> (\<forall>a. actors g i = Some a \<and> \<not> awake a \<longrightarrow> execs a = [] \<and> jobs a = [] \<and> addr a = [] \<and> \<not> watching a)"
proof -
  have g: "group_ok (runsc_driver E) (box_up E cs) (host_ok E cs) [] g"
    by (rule box_driver.group_reach_ok [OF runsc_keeps_contract [OF assms(1)] assms(2)])
  have "\<exists>a. actors g i = Some a \<and> awake a \<and> \<not> finished a" if "box_up E cs (gdrv g) i"
    by (rule group_okD(5) [OF g assms(3) that])
  then show ?thesis using group_okD(6) [OF g, of i] by (auto simp: armIdle_def actor_ok_def)
qed

section \<open>A node\<close>

text \<open>A runsc that keeps a list, and digests that tell all IDs apart.\<close>

definition list_tool :: "container list runsc_tool" where
  "list_tool = \<lparr>rsList = (\<lambda>r. (Inr r, r)),
     rsCreate = (\<lambda>d c r. if \<exists>x \<in> set r. cnID x = c then (Inl 1, r) else (Inr (), r @ [\<lparr>cnID = c, cnStatus = ''created'', cnBundle = d\<rparr>])),
     rsStart = (\<lambda>c r. (Inr (), map (\<lambda>x. if cnID x = c then x\<lparr>cnStatus := ''running''\<rparr> else x) r)),
     rsWait = (\<lambda>_ r. (Inr (), r)), rsKill = (\<lambda>_ r. (Inr (), r)), rsDelete = (\<lambda>c r. (Inr (), filter (\<lambda>x. cnID x \<noteq> c) r))\<rparr>"

definition list_containers :: "container list \<Rightarrow> (string \<times> path) set" where
  "list_containers r = (\<lambda>c. (cnID c, cnBundle c)) ` set r"

fun apart_sum :: "string \<Rightarrow> string" where
  "apart_sum [] = ''0''"
| "apart_sum (c # cs) = CHR ''1'' # c # apart_sum cs"

lemma apart_sum_prefix: "prefix (apart_sum i) (apart_sum j) \<Longrightarrow> i = j"
  by (induction i arbitrary: j) (case_tac j; simp)+

lemma list_started: "list_containers (map (\<lambda>x. if cnID x = c then x\<lparr>cnStatus := st\<rparr> else x) r) = list_containers r"
  unfolding list_containers_def set_map image_image by (rule image_cong) auto

lemma list_tool_like: "runsc_like list_tool list_containers"
  unfolding runsc_like_def
  by (intro conjI) (auto simp: list_tool_def list_started, auto simp: list_containers_def split: if_splits)

definition sample_env :: "container list runsc_env" where
  "sample_env = \<lparr>rxTool = list_tool, rxBundles = [''run'', ''boxes''], rxPool = [''pool''], rxImageEnv = [], rxLogin = None, rxPreview = [],
     rxSum16 = apart_sum, rxHexsum = apart_sum, rxFault = (\<lambda>_. None), rxPart = (\<lambda>_. 0), rxAnswers = (\<lambda>_. True), rxRandom = (\<lambda>_. []), rxTries = 3\<rparr>"

lemma sample_node: "runsc_node sample_env list_containers"
  using list_tool_like apart_sum_prefix by (auto simp: runsc_node_def sample_env_def)

text \<open>A daemon that finds box \<open>dev\<close> running.\<close>

definition sample_host :: "container list host" where
  "sample_host = \<lparr>hoTool = [\<lparr>cnID = ''fern-'' @ apart_sum ''dev'', cnStatus = ''running'', cnBundle = [''run'', ''boxes'', ''dev'']\<rparr>],
     hoBundles = [(''dev'', \<lparr>bdNet = Some ''0'', bdMounted = True, bdConfig = None\<rparr>)], hoBoxes = [''dev''], hoCalls = 0, hoStops = []\<rparr>"

definition runsc_group :: "container list host group" where
  "runsc_group = \<lparr>gst = sample_store, gdrv = sample_host, drv = runsc_driver sample_env, cfg = sample_cfg, cdc = plain_codecs,
     actors = Map.empty, pastCrashes = Map.empty, exited = [], nextGen = 0, builds = [], prewakes = [], cancelled = [],
     woken = [], prewakeResults = [], touched = [], gone = [], busy = [], stopped = False\<rparr>"

lemma runsc_started:
  "group_reach (runsc_driver sample_env) (box_up sample_env list_containers) (host_ok sample_env list_containers) (snd (Run_start runsc_group))"
proof (rule group_reach.started [of _ _ runsc_group])
  show "new_group (runsc_driver sample_env) (host_ok sample_env list_containers) runsc_group"
    by (simp add: new_group_def runsc_group_def host_ok_def list_containers_def sample_host_def box_cid_def box_dir_def sample_env_def)
  have "fst (Run_start runsc_group) = Inr ()" by code_simp
  then show "Run_start runsc_group = (Inr (), snd (Run_start runsc_group))" by (cases "Run_start runsc_group") simp
qed

theorem runsc_no_lost_box_witness:
  "\<exists>a. actors (snd (Run_start runsc_group)) ''dev'' = Some a \<and> awake a \<and> \<not> finished a \<and> (armIdle sample_cfg a \<noteq> None \<or> execs a \<noteq> [])"
proof -
  let ?g = "snd (Run_start runsc_group)"
  have "\<not> stopped ?g" "cfg ?g = sample_cfg" "idleAgent sample_cfg \<noteq> 0 \<and> idleHuman sample_cfg \<noteq> 0" by code_simp+
  moreover have "hoTool (gdrv ?g) = hoTool sample_host" by code_simp
  then have "box_up sample_env list_containers (gdrv ?g) ''dev''"
    by (simp add: box_up_def list_containers_def sample_host_def box_cid_def box_dir_def sample_env_def)
  ultimately show ?thesis using runsc_no_lost_box [OF sample_node runsc_started, of "''dev''"] by metis
qed

end
