(* ===== verification/RunscAddrs.thy ===== *)
theory RunscAddrs
  imports RunscLaws
begin

text \<open>
  The addresses of boxes: whatever calls fail and wherever a wake or a stop ends, no two boxes that may run have the same one.
\<close>

section \<open>Addresses\<close>

lemma box_net_plus:
  assumes "m < (16384 :: nat)"
  shows "boxNet OR (of_nat m :: ip) * 4 = of_nat (173604864 + 4 * m)"
proof -
  have "\<not> bit (of_nat (4 * m) :: ip) k" if "16 \<le> k" for k
  proof -
    have "4 * m < 2 ^ k" using assms that power_increasing [of 16 k "2 :: nat"] by simp
    then have "\<not> bit (4 * m) k" by (simp add: bit_iff_odd)
    then show ?thesis by (simp add: bit_of_nat_iff del: of_nat_mult)
  qed
  then have "push_bit 16 q AND of_nat (4 * m) = (0 :: ip)" for q
    by (intro bit_eqI) (auto simp: bit_and_iff bit_push_bit_iff simp del: of_nat_mult)
  moreover have "boxNet = push_bit 16 2649" by (simp add: boxNet_def push_bit_eq_mult)
  ultimately have "boxNet OR of_nat (4 * m) = boxNet + of_nat (4 * m)"
    by (intro disjunctive_add_eq_or [symmetric]) metis
  moreover have "boxNet = of_nat 173604864" by (simp add: boxNet_def push_bit_eq_mult)
  ultimately show ?thesis by (simp add: mult.commute)
qed

lemma addrs_some:
  assumes "0 \<le> n" "n < int maxBoxes"
  shows "\<exists>h a. addrs n = Some (h, a) \<and> unat h = 173604864 + 4 * nat n + 1 \<and> unat a = 173604864 + 4 * nat n + 2"
proof -
  let ?v = "of_nat (173604864 + 4 * nat n) :: ip"
  have n: "nat n < 16384" using assms by (simp add: maxBoxes_def)
  have big: "unat (of_nat k :: ip) = k" if "k < 2 ^ 32" for k using that by (simp add: unat_of_nat take_bit_nat_eq_self)
  have "unat (of_nat (173604864 + 4 * nat n + 1) :: ip) = 173604864 + 4 * nat n + 1"
    "unat (of_nat (173604864 + 4 * nat n + 2) :: ip) = 173604864 + 4 * nat n + 2"
    by (rule big, use n in simp)+
  moreover have "?v + 1 = of_nat (173604864 + 4 * nat n + 1)" "?v + 2 = of_nat (173604864 + 4 * nat n + 2)"
    by (simp_all only: of_nat_add of_nat_1 of_nat_numeral)
  moreover have "addrs n = Some (?v + 1, ?v + 2)"
    using assms box_net_plus [OF n] by (simp add: addrs_def Let_def)
  ultimately show ?thesis by (simp only:) blast
qed

text \<open>A number that was written can be read.\<close>

lemma digit_not_space: "is_digit c \<Longrightarrow> \<not> is_space c"
  by (auto simp: is_space_def is_digit_code)

lemma number_read: "n < maxBoxes \<Longrightarrow> Atoi (trim_space (Itoa (int n))) = Some (int n)"
proof -
  assume n: "n < maxBoxes"
  have "list_all (\<lambda>c. \<not> is_space c) (Itoa (int n))"
    using utoa_digits [of n] by (auto simp: Itoa_def list_all_iff dest: digit_not_space)
  then show ?thesis using n by (simp add: trim_no_space Atoi_Itoa maxBoxes_def)
qed

lemma net_number_simps [simp]:
  "net_number j (s\<lparr>hoTool := r\<rparr>) = net_number j s" "net_number j (s\<lparr>hoCalls := n\<rparr>) = net_number j s"
  "net_number j (s\<lparr>hoStops := xs\<rparr>) = net_number j s" "net_number j (s\<lparr>hoBoxes := ys\<rparr>) = net_number j s"
  by (simp_all add: net_number_def)

lemma net_set_bundle: "j \<noteq> i \<or> (\<forall>bd. bdNet (f bd) = bdNet bd) \<Longrightarrow> net_number j (set_bundle i f s) = net_number j s"
  by (auto simp: net_number_def set_bundle_def update_conv' split: option.split)

lemma net_make_bundle: "net_number j (make_bundle i s) = net_number j s"
  by (auto simp: net_number_def make_bundle_def new_bundle_def update_conv' split: option.split)

lemma net_delete: "j \<noteq> i \<Longrightarrow> net_number j (s\<lparr>hoBundles := AList.delete i (hoBundles s)\<rparr>) = net_number j s"
  by (simp add: net_number_def delete_conv')

definition addr_inv :: "'r runsc_env \<Rightarrow> ('r \<Rightarrow> (string \<times> path) set) \<Rightarrow> 'r host \<Rightarrow> bool" where
  "addr_inv E cs s \<longleftrightarrow> (\<forall>j. box_up E cs s j \<longrightarrow> (\<exists>n. net_number j s = Some n \<and> 0 \<le> n \<and> n < int maxBoxes))
     \<and> (\<forall>j k n. box_up E cs s j \<and> box_up E cs s k \<and> net_number j s = Some n \<and> net_number k s = Some n \<longrightarrow> j = k)"

text \<open>The number of a box that is not up yet is no other box's.\<close>

definition own_number :: "'r runsc_env \<Rightarrow> ('r \<Rightarrow> (string \<times> path) set) \<Rightarrow> string \<Rightarrow> 'r host \<Rightarrow> bool" where
  "own_number E cs i s \<longleftrightarrow> (\<exists>n. net_number i s = Some n \<and> 0 \<le> n \<and> n < int maxBoxes
     \<and> (\<forall>j. j \<noteq> i \<and> box_up E cs s j \<longrightarrow> net_number j s \<noteq> Some n))"

datatype wake_stage = Before | Stopped | Numbered

definition staged :: "'r runsc_env \<Rightarrow> ('r \<Rightarrow> (string \<times> path) set) \<Rightarrow> string \<Rightarrow> wake_stage \<Rightarrow> 'r host \<Rightarrow> bool" where
  "staged E cs i st s \<longleftrightarrow> (runsc_node E cs \<longrightarrow> host_ok E cs s \<and> addr_inv E cs s
     \<and> (case st of Before \<Rightarrow> True | Stopped \<Rightarrow> \<not> box_up E cs s i | Numbered \<Rightarrow> own_number E cs i s))"

lemma staged_same:
  assumes "runsc_node E cs \<Longrightarrow> cs (hoTool t) = cs (hoTool s)" "\<And>j. net_number j t = net_number j s" "staged E cs i st s"
  shows "staged E cs i st t"
proof -
  have "box_up E cs t = box_up E cs s" "host_ok E cs t = host_ok E cs s" if "runsc_node E cs"
    using assms(1) [OF that] by (simp_all add: box_up_def host_ok_def fun_eq_iff)
  then show ?thesis using assms(2,3) by (cases st) (auto simp: staged_def addr_inv_def own_number_def)
qed

lemma staged_weaken: "staged E cs i st s \<Longrightarrow> staged E cs j Before s"
  by (simp add: staged_def)

interpretation sh: host_frame E i "staged E cs i st" for E :: "'r runsc_env" and cs i st
  by unfold_locales (rule staged_same; (assumption)?; simp add: runsc_nodeD net_set_bundle)+

lemma staged_others:
  assumes "staged E cs i Stopped s" "hoTool t = hoTool s" "\<And>j. j \<noteq> i \<Longrightarrow> net_number j t = net_number j s"
  shows "staged E cs i Stopped t"
proof -
  have "box_up E cs t = box_up E cs s" "host_ok E cs t = host_ok E cs s"
    using assms(2) by (simp_all add: box_up_def host_ok_def fun_eq_iff)
  then show ?thesis using assms(1,3) unfolding staged_def addr_inv_def by (simp, metis)
qed

interpretation sm: remove_frame E i "staged E cs i Stopped" for E :: "'r runsc_env" and cs i
  by unfold_locales (erule staged_others; simp add: net_delete net_set_bundle net_make_bundle)+

interpretation sc: create_frame E i "staged E cs i Numbered" for E :: "'r runsc_env" and cs i
proof unfold_locales
  fix s :: "'r host" assume s: "staged E cs i Numbered s"
  let ?r = "snd (rsCreate (rxTool E) (lyDir (layout_of E i)) (lyCid (layout_of E i)) (hoTool s))"
  let ?t = "s\<lparr>hoTool := ?r\<rparr>"
  have "host_ok E cs ?t \<and> addr_inv E cs ?t \<and> own_number E cs i ?t" if n: "runsc_node E cs"
  proof -
    have r: "cs (hoTool s) \<subseteq> cs ?r" "cs ?r \<subseteq> insert (box_cid E i, box_dir E i) (cs (hoTool s))"
      using runsc_nodeD(3,4) [OF n] by simp_all
    have up: "box_up E cs ?t j \<longleftrightarrow> box_up E cs s j" if "j \<noteq> i" for j using r that by (auto simp: box_up_def)
    have old: "host_ok E cs s" "addr_inv E cs s" "own_number E cs i s" using s n by (simp_all add: staged_def)
    have "host_ok E cs ?t" using old(1) r(2) by (auto simp: host_ok_def)
    moreover have "own_number E cs i ?t" using old(3) up by (auto simp: own_number_def)
    moreover have "addr_inv E cs ?t"
      unfolding addr_inv_def net_number_simps
      using old(2,3) up unfolding addr_inv_def own_number_def by metis
    ultimately show ?thesis by blast
  qed
  then show "staged E cs i Numbered ?t" by (simp add: staged_def)
qed

interpretation sd: delete_frame E i "staged E cs i Before" for E :: "'r runsc_env" and cs i
proof unfold_locales
  fix s :: "'r host" assume s: "staged E cs i Before s"
  obtain q r where d: "rsDelete (rxTool E) (box_cid E i) (hoTool s) = (q, r)" by fastforce
  have "host_ok E cs (s\<lparr>hoTool := r\<rparr>) \<and> addr_inv E cs (s\<lparr>hoTool := r\<rparr>)" if n: "runsc_node E cs"
  proof -
    have old: "host_ok E cs s" "addr_inv E cs s" using s n by (simp_all add: staged_def)
    have r: "cs r \<subseteq> cs (hoTool s)" using runsc_delete(2) [OF n _ d] old(1) by (simp add: host_ok_def)
    then have "box_up E cs (s\<lparr>hoTool := r\<rparr>) j \<Longrightarrow> box_up E cs s j" for j by (auto simp: box_up_def)
    then show ?thesis using old r unfolding addr_inv_def net_number_simps host_ok_def by (simp, blast)
  qed
  then show "staged E cs i Before (s\<lparr>hoTool := snd (rsDelete (rxTool E) (lyCid (layout_of E i)) (hoTool s))\<rparr>)"
    using d by (simp add: staged_def)
qed

section \<open>The stages of a wake\<close>

lemma wp_stop_addrs:
  assumes n: "runsc_node E cs" and s: "staged E cs i Before s"
  shows "wp (driver_stop E i) (\<lambda>_. staged E cs i Stopped) (\<lambda>_. staged E cs i Before) s"
proof -
  have ok: "host_ok E cs s" using s n by (simp add: staged_def)
  have list: "wp (driver_list E) (\<lambda>xs t. staged E cs i Before t \<and> (\<forall>c \<in> set xs. cnBundle c = box_dir E i \<longrightarrow> cnID c = box_cid E i))
      (\<lambda>_. staged E cs i Before) s"
  proof (rule wp_listed [OF n ok])
    fix xs and t :: "'a host"
    assume t: "cs (hoTool t) = cs (hoTool s)" "(\<lambda>c. (cnID c, cnBundle c)) ` set xs = cs (hoTool t)" "t = s\<lparr>hoTool := hoTool t\<rparr>"
    have "net_number j t = net_number j s" for j by (subst t(3)) simp
    then have "staged E cs i Before t" using staged_same [OF t(1) _ s] by blast
    moreover have "(cnID c, cnBundle c) \<in> cs (hoTool s)" if "c \<in> set xs" for c using t(1,2) that by blast
    ultimately show "staged E cs i Before t \<and> (\<forall>c \<in> set xs. cnBundle c = box_dir E i \<longrightarrow> cnID c = box_cid E i)"
      using listed_cid [OF n ok] by metis
  next
    fix e and t :: "'a host" assume t: "cs (hoTool t) = cs (hoTool s)" "t = s\<lparr>hoTool := hoTool t\<rparr>"
    have "net_number j t = net_number j s" for j by (subst t(2)) simp
    then show "staged E cs i Before t" using staged_same [OF t(1) _ s] by blast
  qed
  have "wp (stop_containers E i) (\<lambda>_. staged E cs i Before) (\<lambda>_. staged E cs i Before) s"
    unfolding stop_containers_def
    by (rule wp_bind_rule [OF list]) (auto intro!: keeps_wpD keeps_for_each sd.stops_container)
  moreover have "wp (stop_containers E i) (\<lambda>_. others E cs i (box_up E cs s) False) (\<lambda>_. others E cs i (box_up E cs s) True) s"
    using ok by (intro wp_stop_containers [OF n]) (simp add: others_def)
  ultimately have down: "wp (stop_containers E i) (\<lambda>_. staged E cs i Stopped) (\<lambda>_. staged E cs i Before) s"
    by (rule wp_mono [OF wp_conj]) (use n in \<open>auto simp: staged_def others_def\<close>)
  have "keeps (staged E cs i Stopped)
      (bind_s (try_s (plain_call E)) (\<lambda>_. bind_s (try_s (plain_call E)) (\<lambda>_. bind_s (unmount_root E i) (\<lambda>_. remove_dirs E i))))"
    by (intro keeps_rules sh.plain sh.unmounts sm.removing)
  from keeps_wpD [OF this] show ?thesis
    unfolding driver_stop_def by (intro wp_bind_rule [OF down]) (rule wp_mono, assumption?, auto intro: staged_weaken)
qed

text \<open>The lowest number that no folder has is written.\<close>

lemma wp_allocate:
  assumes s: "staged E cs i Stopped s" and b: "map_of (hoBundles s) i \<noteq> None" and n: "runsc_node E cs"
  shows "wp (allocate E i) (\<lambda>k t. staged E cs i Numbered t \<and> k < maxBoxes) (\<lambda>_. staged E cs i Stopped) s"
proof (cases "find (\<lambda>n. Some (int n) \<notin> set (map (\<lambda>j. net_number j s) (map fst (hoBundles s)))) [0..<maxBoxes]")
  case None
  then show ?thesis using s by (simp add: allocate_def wp_rules)
next
  case (Some k)
  let ?t = "set_bundle i (\<lambda>bd. bd\<lparr>bdNet := Some (Itoa (int k))\<rparr>) (s\<lparr>hoCalls := Suc (hoCalls s)\<rparr>)"
  have k: "k < maxBoxes" "Some (int k) \<notin> set (map (\<lambda>j. net_number j s) (map fst (hoBundles s)))"
    using Some by (auto simp: find_Some_iff)
  have free: "net_number j s \<noteq> Some (int k)" for j
  proof
    assume j: "net_number j s = Some (int k)"
    then have "j \<in> set (map fst (hoBundles s))" by (auto simp: net_number_def split: option.splits dest: map_of_SomeD intro: rev_image_eqI)
    with j k(2) show False by (metis (mono_tags, lifting) image_eqI list.set_map)
  qed
  have num: "net_number i ?t = Some (int k)"
    using b number_read [OF k(1)] by (auto simp: net_number_def set_bundle_def update_conv')
  have rest: "staged E cs i Stopped ?t" using sm.changes [OF sh.calls [OF s]] .
  have "own_number E cs i ?t"
    unfolding own_number_def using num k(1) free by (intro exI [of _ "int k"]) (simp add: net_set_bundle)
  then have "staged E cs i Numbered ?t" using rest by (simp add: staged_def)
  moreover have "staged E cs i Stopped (set_bundle i f (s\<lparr>hoCalls := Suc (hoCalls s)\<rparr>))" for f using sm.changes [OF sh.calls [OF s]] .
  ultimately show ?thesis
    using Some k(1) by (simp add: allocate_def wp_rules write_net_def wp_host_call split: option.split)
qed

lemma wp_netUp_addrs:
  assumes n: "runsc_node E cs" and s: "staged E cs i Stopped s"
  shows "wp (driver_netUp E i k) (\<lambda>_. staged E cs i Numbered) (\<lambda>_. staged E cs i Before) s"
proof -
  have make: "wp (sys_call E (make_bundle i) (\<lambda>_. id)) (\<lambda>_ t. staged E cs i Stopped t \<and> map_of (hoBundles t) i \<noteq> None) (\<lambda>_. staged E cs i Before) s"
    using sm.makes [OF sh.calls [OF s]] sh.calls [OF s] staged_weaken
    by (fastforce simp: wp_host_call make_bundle_def update_conv' split: option.split)
  have alloc: "wp (allocate E i) (\<lambda>k t. staged E cs i Numbered t \<and> k < maxBoxes) (\<lambda>_. staged E cs i Before) t"
    if "staged E cs i Stopped t" "map_of (hoBundles t) i \<noteq> None" for t
    by (rule wp_mono [OF wp_allocate [OF that n]]) (auto intro: staged_weaken)
  have cmds: "wp (for_each (\<lambda>_. plain_call E) xs) (\<lambda>_. staged E cs i Numbered) (\<lambda>_. staged E cs i Before) t"
    if "staged E cs i Numbered t" for t and xs :: "string list list"
    by (rule wp_mono [OF keeps_wpD [OF sh.commands that]]) (auto intro: staged_weaken)
  show ?thesis
    unfolding driver_netUp_def
  proof (rule wp_bind_rule [OF make], elim conjE, rule wp_bind_rule [OF alloc], assumption+, elim conjE)
    fix t m assume t: "staged E cs i Numbered t" "m < maxBoxes"
    show "wp (case addrs (int m) of None \<Rightarrow> raise errNoAddress
        | Some (h, guest) \<Rightarrow> bind_s (for_each (\<lambda>_. plain_call E) (netUp_commands (layout_of E i) k h guest)) (\<lambda>_. ret (execAddr guest)))
      (\<lambda>_. staged E cs i Numbered) (\<lambda>_. staged E cs i Before) t"
    proof -
      obtain h a where "addrs (int m) = Some (h, a)" using addrs_some [of "int m"] t(2) by auto
      then show ?thesis by (simp add: wp_bind_rule [OF cmds [OF t(1)]] wp_ret)
    qed
  qed
qed

lemma wp_Wake_addrs:
  assumes n: "runsc_node E cs" and s: "staged E cs (boxID box) Before s"
  shows "wp (driver_Wake E box) (\<lambda>_. staged E cs (boxID box) Before) (\<lambda>_. staged E cs (boxID box) Before) s"
proof -
  let ?i = "boxID box"
  have start: "wp (bind_s (driver_start E box) (\<lambda>_. bind_s (waitReady E (rxTries E)) (\<lambda>_. ret ad)))
      (\<lambda>_. staged E cs ?i Before) (\<lambda>_. staged E cs ?i Before) t" if "staged E cs ?i Numbered t" for t and ad :: string
  proof -
    have "keeps (staged E cs ?i Numbered) (bind_s (driver_start E box) (\<lambda>_. bind_s (waitReady E (rxTries E)) (\<lambda>_. ret ad)))"
      by (intro keeps_rules sc.start sh.wait_ready refl)
    from keeps_wpD [OF this that] show ?thesis by (rule wp_mono) (auto intro: staged_weaken)
  qed
  have rest: "wp (bind_s (driver_stop E ?i) (\<lambda>_. bind_s (driver_netUp E ?i (boxKind box)) (\<lambda>ad.
      bind_s (driver_start E box) (\<lambda>_. bind_s (waitReady E (rxTries E)) (\<lambda>_. ret ad)))))
      (\<lambda>_. staged E cs ?i Before) (\<lambda>_. staged E cs ?i Before) t" if t: "staged E cs ?i Before t" for t
    by (rule wp_bind_rule [OF wp_stop_addrs [OF n t]]) (rule wp_bind_rule [OF wp_netUp_addrs [OF n]], assumption, rule start)
  show ?thesis
    unfolding driver_Wake_def
    by (rule wp_bind_rule [OF keeps_wpD [OF sh.running s]]) (auto simp: wp_ret intro: rest split: option.split)
qed

section \<open>The node's runs\<close>

text \<open>Wakes, stops, looks at the boxes and recoveries in any order, and containers that go by themselves.\<close>

inductive host_reach :: "'r runsc_env \<Rightarrow> ('r \<Rightarrow> (string \<times> path) set) \<Rightarrow> 'r host \<Rightarrow> bool" for E cs where
  empty: "cs (hoTool s) = {} \<Longrightarrow> host_reach E cs s"
| wake: "host_reach E cs s \<Longrightarrow> host_reach E cs (snd (driver_Wake E b s))"
| sleep: "host_reach E cs s \<Longrightarrow> host_reach E cs (snd (driver_stop E i s))"
| states: "host_reach E cs s \<Longrightarrow> host_reach E cs (snd (driver_States E s))"
| reconcile: "host_reach E cs s \<Longrightarrow> host_reach E cs (snd (driver_reconcile E s))"
| gone: "host_reach E cs s \<Longrightarrow> cs r \<subseteq> cs (hoTool s) \<Longrightarrow> host_reach E cs (s\<lparr>hoTool := r\<rparr>)"

definition host_addrs :: "'r runsc_env \<Rightarrow> ('r \<Rightarrow> (string \<times> path) set) \<Rightarrow> 'r host \<Rightarrow> bool" where
  "host_addrs E cs s \<longleftrightarrow> (\<forall>i. staged E cs i Before s)"

lemma host_addrs_one: "host_addrs E cs s \<longleftrightarrow> staged E cs i Before s"
  by (auto simp: host_addrs_def intro: staged_weaken)

lemma keeps_stop_addrs: "runsc_node E cs \<Longrightarrow> keeps (host_addrs E cs) (driver_stop E i)"
  unfolding keeps_wp host_addrs_one [of _ _ _ i]
  by (intro allI impI, rule wp_mono [OF wp_stop_addrs]) (auto intro: staged_weaken)

lemma keeps_reconcile_addrs:
  assumes "runsc_node E cs"
  shows "keeps (host_addrs E cs) (driver_reconcile E)"
proof -
  have "keeps (host_addrs E cs) (driver_States E)" "keeps (host_addrs E cs) (plain_call E)"
    unfolding host_addrs_one [of _ _ _ "[]"] by (rule sh.states, rule sh.plain)
  then show ?thesis
    unfolding driver_reconcile_def by (intro keeps_rules keeps_stop_addrs [OF assms])
qed

lemma host_reach_addrs: "host_reach E cs s \<Longrightarrow> runsc_node E cs \<Longrightarrow> host_addrs E cs s"
proof (induction rule: host_reach.induct)
  case (empty s)
  then show ?case by (simp add: host_addrs_def staged_def host_ok_def addr_inv_def box_up_def)
next
  case (wake s b)
  then show ?case
    unfolding host_addrs_one [of _ _ _ "boxID b"] using wp_Wake_addrs [of E cs b s] by (simp add: wp_snd)
next
  case (sleep s i)
  then show ?case using keepsD [OF keeps_stop_addrs] by blast
next
  case (states s)
  then show ?case unfolding host_addrs_one [of _ _ _ "[]"] using keepsD [OF sh.states] by blast
next
  case (reconcile s)
  then show ?case using keepsD [OF keeps_reconcile_addrs] by blast
next
  case (gone s r)
  then have s: "host_ok E cs s" "addr_inv E cs s" by (simp_all add: host_addrs_def staged_def)
  have "box_up E cs (s\<lparr>hoTool := r\<rparr>) j \<Longrightarrow> box_up E cs s j" for j using gone.hyps(2) by (auto simp: box_up_def)
  then have "addr_inv E cs (s\<lparr>hoTool := r\<rparr>)" using s(2) unfolding addr_inv_def net_number_simps by blast
  moreover have "host_ok E cs (s\<lparr>hoTool := r\<rparr>)" using s(1) gone.hyps(2) by (auto simp: host_ok_def)
  ultimately show ?case by (simp add: host_addrs_def staged_def)
qed

lemma linkAddrs_number:
  assumes "net_number i s = Some n" "addrs n = Some a"
  shows "linkAddrs i s = (Inr a, s)"
  using assms by (auto simp: linkAddrs_def net_number_def bind_s_def gets_def ret_def split: option.splits)


text \<open>Two boxes on a new node.\<close>

definition sample_box :: "string \<Rightarrow> Box" where
  "sample_box i = \<lparr>boxID = i, boxKind = KServices,
     boxEnv = \<lparr>ID = i, Workspace = [''w'', i], Claude = [], Git = None, Created = 0, BoxToken = ''t''\<rparr>\<rparr>"

definition empty_host :: "container list host" where
  "empty_host = \<lparr>hoTool = [], hoBundles = [], hoBoxes = [], hoCalls = 0, hoStops = []\<rparr>"

lemma find_first_two: "find P [0..<maxBoxes] = (if P 0 then Some 0 else if P 1 then Some 1 else find P [2..<maxBoxes])"
proof -
  have "0 < maxBoxes" "Suc 0 < maxBoxes" by (simp_all add: maxBoxes_def)
  then have "[0..<maxBoxes] = 0 # 1 # [2..<maxBoxes]"
    using upt_conv_Cons [of 0 maxBoxes] upt_conv_Cons [of "Suc 0" maxBoxes] by (simp add: numeral_2_eq_2)
  then show ?thesis by simp
qed

lemma addrs_first_two: "addrs 0 = Some (boxNet + 1, boxNet + 2)" "addrs 1 = Some ((boxNet OR 4) + 1, (boxNet OR 4) + 2)"
  by (simp_all add: addrs_def maxBoxes_def Let_def)

lemma numbers_read: "Atoi (trim_space (Itoa 0)) = Some 0" "Atoi (trim_space (Itoa 1)) = Some 1"
  using number_read [of 0] number_read [of 1] by (simp_all add: maxBoxes_def)

lemmas wake_defs = driver_Wake_def driver_running_def driver_list_def driver_stop_def stop_containers_def stop_container_def unmount_root_def
  remove_dirs_def driver_netUp_def allocate_def find_first_two write_net_def driver_start_def claude_login_def write_config_def linkAddrs_def
  isReady_def plain_call_def sys_call_def tool_def bind_s_def try_s_def gets_def ret_def raise_def set_bundle_def make_bundle_def
  new_bundle_def net_number_def sample_env_def list_tool_def netUp_commands_def numbers_read addrs_first_two Let_def

definition two_boxes :: "container list host" where
  "two_boxes = snd (driver_Wake sample_env (sample_box ''b'') (snd (driver_Wake sample_env (sample_box ''a'') empty_host)))"

lemma two_boxes_tool: "hoTool two_boxes = [\<lparr>cnID = box_cid sample_env ''a'', cnStatus = ''running'', cnBundle = box_dir sample_env ''a''\<rparr>,
    \<lparr>cnID = box_cid sample_env ''b'', cnStatus = ''running'', cnBundle = box_dir sample_env ''b''\<rparr>]"
proof -
  obtain c n where a: "snd (driver_Wake sample_env (sample_box ''a'') empty_host) =
    \<lparr>hoTool = [\<lparr>cnID = box_cid sample_env ''a'', cnStatus = ''running'', cnBundle = box_dir sample_env ''a''\<rparr>],
     hoBundles = [(''a'', \<lparr>bdNet = Some (Itoa 0), bdMounted = True, bdConfig = c\<rparr>)], hoBoxes = [''a''], hoCalls = n, hoStops = []\<rparr>"
    by (simp add: wake_defs empty_host_def sample_box_def numeral_3_eq_3)
  show ?thesis unfolding two_boxes_def a by (simp add: wake_defs sample_box_def numeral_3_eq_3 box_cid_def box_dir_def)
qed


end
