(* ===== verification/Watch.thy ===== *)
theory Watch
  imports GoStrings "HOL-Library.Word"
begin

text \<open>
  \<open>internal/watch\<close>: the events the kernel reads out (\<open>event.go\<close>) and what a watch makes of them (\<open>watch.go\<close>). A slice out of range
  is the error \<open>Panic\<close>. Integers are little-endian, as the node's are. Folders have paths relative to the workspace, lists of components,
  the workspace's own being empty.
\<close>

unbundle bit_operations_syntax

section \<open>Events\<close>

type_synonym byte8 = "8 word"

datatype watch_error = ErrShort | ErrVersion byte8 | Panic

definition slice :: "nat \<Rightarrow> nat \<Rightarrow> byte8 list \<Rightarrow> watch_error + byte8 list" where
  "slice lo hi xs = (if lo \<le> hi \<and> hi \<le> length xs then Inr (drop lo (take hi xs)) else Inl Panic)"

definition from_index :: "nat \<Rightarrow> byte8 list \<Rightarrow> watch_error + byte8 list" where
  "from_index lo xs = slice lo (length xs) xs"

fun le_nat :: "byte8 list \<Rightarrow> nat" where
  "le_nat [] = 0"
| "le_nat (x # xs) = unat x + 256 * le_nat xs"

text \<open>\<open>binary.NativeEndian.UintN(xs[off:])\<close> with \<open>k\<close> bytes.\<close>

definition uint_at :: "nat \<Rightarrow> nat \<Rightarrow> byte8 list \<Rightarrow> watch_error + nat" where
  "uint_at k off xs = (case slice off (off + k) xs of Inl e \<Rightarrow> Inl e | Inr ys \<Rightarrow> Inr (le_nat ys))"

definition byte_at :: "nat \<Rightarrow> byte8 list \<Rightarrow> watch_error + byte8" where
  "byte_at i xs = (if i < length xs then Inr (xs ! i) else Inl Panic)"

abbreviation bind_r :: "watch_error + 'a \<Rightarrow> ('a \<Rightarrow> watch_error + 'b) \<Rightarrow> watch_error + 'b" where
  "bind_r m f \<equiv> (case m of Inl e \<Rightarrow> Inl e | Inr x \<Rightarrow> f x)"

record event =
  evMask :: "64 word"
  evPid :: int
  evHandle :: string
  evName :: string

definition metadataLen :: nat where "metadataLen = 24"
definition infoHeader :: nat where "infoHeader = 4"
definition fsidLen :: nat where "fsidLen = 8"
definition handleHeader :: nat where "handleHeader = 8"

lemmas layout_lens = metadataLen_def infoHeader_def fsidLen_def handleHeader_def

text \<open>Of \<open>linux/fanotify.h\<close>.\<close>

definition FANOTIFY_METADATA_VERSION :: byte8 where "FANOTIFY_METADATA_VERSION = 3"
definition INFO_TYPE_DFID_NAME :: byte8 where "INFO_TYPE_DFID_NAME = 2"
definition INFO_TYPE_DFID :: byte8 where "INFO_TYPE_DFID = 3"

definition nibble_char :: "nat \<Rightarrow> char" where
  "nibble_char d = (if d < 10 then char_of (48 + d) else char_of (87 + d))"

definition hex_text :: "byte8 list \<Rightarrow> string" where
  "hex_text xs = concat (map (\<lambda>x. [nibble_char (unat x div 16), nibble_char (unat x mod 16)]) xs)"

definition handleKey :: "int \<Rightarrow> byte8 list \<Rightarrow> string" where
  "handleKey typ handle = Itoa typ @ '':'' @ hex_text handle"

definition int32 :: "nat \<Rightarrow> int" where
  "int32 n = sint (of_nat n :: 32 word)"

text \<open>One record of a folder's handle, and its name for \<open>DFID_NAME\<close>.\<close>

definition handle_record :: "byte8 \<Rightarrow> byte8 list \<Rightarrow> event \<Rightarrow> watch_error + event" where
  "handle_record typ rec0 e =
     (if length rec0 < fsidLen + handleHeader then Inl ErrShort
      else bind_r (from_index fsidLen rec0) (\<lambda>rec.
        bind_r (uint_at 4 0 rec) (\<lambda>hLen.
        bind_r (uint_at 4 4 rec) (\<lambda>hType.
        if int hLen > int (length rec) - int handleHeader then Inl ErrShort
        else bind_r (slice handleHeader (handleHeader + hLen) rec) (\<lambda>h.
          let e1 = e\<lparr>evHandle := handleKey (int32 hType) h\<rparr> in
          if typ = INFO_TYPE_DFID_NAME then
            bind_r (from_index (handleHeader + hLen) rec) (\<lambda>name.
            Inr (e1\<lparr>evName := map (\<lambda>x. char_of (unat x)) (takeWhile (\<lambda>x. x \<noteq> 0) name)\<rparr>))
          else Inr e1)))))"

text \<open>\<open>info\<close>: a record is at least \<open>infoHeader\<close> long, so the loop ends.\<close>

function event_info :: "event \<Rightarrow> byte8 list \<Rightarrow> watch_error + event" where
  "event_info e recs =
     (if recs = [] then Inr e
      else if length recs < infoHeader then Inl ErrShort
      else case (byte_at 0 recs, uint_at 2 2 recs) of
          (Inr typ, Inr n) \<Rightarrow>
            if n < infoHeader \<or> n > length recs then Inl ErrShort
            else (case (slice infoHeader n recs, from_index n recs) of
                (Inr rec, Inr rest) \<Rightarrow>
                  if typ \<noteq> INFO_TYPE_DFID_NAME \<and> typ \<noteq> INFO_TYPE_DFID then event_info e (drop n recs)
                  else bind_r (handle_record typ rec e) (\<lambda>e1. event_info e1 (drop n recs))
              | _ \<Rightarrow> Inl Panic)
        | _ \<Rightarrow> Inl Panic)"
  by pat_completeness auto

termination
  by (relation "measure (\<lambda>(e, recs). length recs)") (auto simp: infoHeader_def)

text \<open>\<open>decode\<close>.\<close>

definition decode_head :: "byte8 list \<Rightarrow> watch_error + nat \<times> event" where
  "decode_head buf =
     (if length buf < metadataLen then Inl ErrShort
      else bind_r (uint_at 4 0 buf) (\<lambda>evLen.
        bind_r (byte_at 4 buf) (\<lambda>vers.
        bind_r (uint_at 2 6 buf) (\<lambda>metaLen.
        if vers \<noteq> FANOTIFY_METADATA_VERSION then Inl (ErrVersion vers)
        else if evLen < metadataLen \<or> metaLen < metadataLen \<or> metaLen > evLen \<or> evLen > length buf then Inl ErrShort
        else bind_r (uint_at 8 8 buf) (\<lambda>mask.
          bind_r (uint_at 4 20 buf) (\<lambda>pid.
          bind_r (slice metaLen evLen buf) (\<lambda>recs.
          bind_r (event_info \<lparr>evMask = of_nat mask, evPid = int32 pid, evHandle = [], evName = []\<rparr> recs) (\<lambda>e.
          Inr (evLen, e)))))))))"

lemma decode_head_len: "decode_head buf = Inr (n, e) \<Longrightarrow> metadataLen \<le> n \<and> n \<le> length buf"
  by (auto simp: decode_head_def split: sum.splits if_splits)

function decode :: "byte8 list \<Rightarrow> watch_error + event list" where
  "decode buf =
     (if buf = [] then Inr []
      else case decode_head buf of
          Inl e \<Rightarrow> Inl e
        | Inr (n, e) \<Rightarrow> bind_r (decode (drop n buf)) (\<lambda>es. Inr (e # es)))"
  by pat_completeness auto

termination
  by (relation "measure length") (auto dest!: decode_head_len simp: metadataLen_def)

declare event_info.simps [simp del] decode.simps [simp del]

section \<open>The folders of a watch\<close>

definition skips :: "string \<Rightarrow> bool" where
  "skips name \<longleftrightarrow> name = ''.git'' \<or> name = ''node_modules'' \<or> name = ''.fern''"

definition FAN_MODIFY :: "64 word" where "FAN_MODIFY = 0x2"
definition FAN_MOVED_FROM :: "64 word" where "FAN_MOVED_FROM = 0x40"
definition FAN_MOVED_TO :: "64 word" where "FAN_MOVED_TO = 0x80"
definition FAN_CREATE :: "64 word" where "FAN_CREATE = 0x100"
definition FAN_DELETE :: "64 word" where "FAN_DELETE = 0x200"
definition FAN_Q_OVERFLOW :: "64 word" where "FAN_Q_OVERFLOW = 0x4000"
definition FAN_ONDIR :: "64 word" where "FAN_ONDIR = 0x40000000"

text \<open>
  A folder as \<open>filepath.WalkDir\<close> finds it: an entry is a file (\<open>regular\<close> or not), a folder whose mark and handle give a key, is gone, or
  fails with an error, or what can't be read, such as the rest of a folder. What is gone is left out.
\<close>

datatype mark_result = Marked string | MarkGone | MarkFailed

datatype entry = EFile bool | EUnreadable | EFolder mark_result "(string \<times> entry) list"

type_synonym rel = "string list"

text \<open>The callback of \<open>add\<close> on every entry, in order; the walk ends at the first error.\<close>

fun add_entry :: "rel \<Rightarrow> entry \<Rightarrow> (string \<times> rel) list \<times> rel list \<Rightarrow> bool \<times> (string \<times> rel) list \<times> rel list"
  and add_entries :: "rel \<Rightarrow> (string \<times> entry) list \<Rightarrow> (string \<times> rel) list \<times> rel list \<Rightarrow> bool \<times> (string \<times> rel) list \<times> rel list" where
  "add_entry r (EFile regular) (dirs, files) = (True, dirs, if regular then files @ [r] else files)"
| "add_entry r EUnreadable s = (False, s)"
| "add_entry r (EFolder m es) (dirs, files) =
     (if r \<noteq> [] \<and> skips (last r) then (True, dirs, files)
      else (case m of
          MarkGone \<Rightarrow> (True, dirs, files)
        | MarkFailed \<Rightarrow> (False, dirs, files)
        | Marked k \<Rightarrow> add_entries r es (AList.update k r dirs, files)))"
| "add_entries r [] s = (True, s)"
| "add_entries r ((name, e) # es) s =
     (case add_entry (r @ [name]) e s of (False, s1) \<Rightarrow> (False, s1) | (True, s1) \<Rightarrow> add_entries r es s1)"

text \<open>\<open>add\<close>: None is a folder that is gone.\<close>

definition tree_add :: "rel \<Rightarrow> entry option \<Rightarrow> (string \<times> rel) list \<Rightarrow> bool \<times> (string \<times> rel) list \<times> rel list" where
  "tree_add r found dirs = (case found of None \<Rightarrow> (True, dirs, []) | Some e \<Rightarrow> add_entry r e (dirs, []))"

definition forget :: "rel \<Rightarrow> (string \<times> rel) list \<Rightarrow> (string \<times> rel) list" where
  "forget r dirs = filter (\<lambda>x. \<not> (snd x = r \<or> r \<noteq> [] \<and> prefix r (snd x))) dirs"

section \<open>A watch\<close>

text \<open>
  \<open>look r\<close> is what a walk of folder \<open>r\<close> finds, \<open>mine\<close> whether a process is the box's. \<open>path_join\<close> is \<open>path.Join\<close> onto a clean
  relative path.
\<close>

definition path_join :: "rel \<Rightarrow> string \<Rightarrow> rel" where
  "path_join parent name = clean_onto False parent (split_on CHR ''/'' name)"

lemma path_join_good: "good_name name \<Longrightarrow> path_join parent name = parent @ [name]"
  by (simp add: path_join_def good_name_def split_on_no_sep clean_onto_good)

record tree =
  trDirs :: "(string \<times> rel) list"
  trPending :: "rel list"

definition add_pending :: "rel \<Rightarrow> tree \<Rightarrow> tree" where
  "add_pending r t = t\<lparr>trPending := List.insert r (trPending t)\<rparr>"

definition apply_event :: "(rel \<Rightarrow> entry option) \<Rightarrow> (int \<Rightarrow> bool) \<Rightarrow> event \<Rightarrow> tree \<Rightarrow> tree" where
  "apply_event look mine e t =
     (if evMask e AND FAN_Q_OVERFLOW \<noteq> 0 then t
      else (case map_of (trDirs t) (evHandle e) of
          None \<Rightarrow> t
        | Some parent \<Rightarrow>
            if evName e = [] \<or> evName e = ''.'' then t
            else let r = path_join parent (evName e) in
              if evMask e AND FAN_ONDIR = 0 then
                (if mine (evPid e) \<and> evMask e AND (FAN_MODIFY OR FAN_CREATE OR FAN_MOVED_TO) \<noteq> 0 then add_pending r t else t)
              else if evMask e AND (FAN_DELETE OR FAN_MOVED_FROM) \<noteq> 0 then t\<lparr>trDirs := forget r (trDirs t)\<rparr>
              else if evMask e AND (FAN_CREATE OR FAN_MOVED_TO) \<noteq> 0 \<and> \<not> skips (evName e) then
                (let (_, dirs, files) = tree_add r (look r) (trDirs t); t1 = t\<lparr>trDirs := dirs\<rparr> in
                 if mine (evPid e) then fold add_pending files t1 else t1)
              else t))"

definition apply_events :: "(nat \<Rightarrow> rel \<Rightarrow> entry option) \<Rightarrow> (int \<Rightarrow> bool) \<Rightarrow> event list \<Rightarrow> nat \<times> tree \<Rightarrow> nat \<times> tree" where
  "apply_events look mine es s = fold (\<lambda>e (n, t). (Suc n, apply_event (look n) mine e t)) es s"

text \<open>What \<open>writers\<close> answers during one read, \<open>boxOf\<close> being what it remembers of each process.\<close>

definition writers :: "(int \<Rightarrow> string) \<Rightarrow> string \<Rightarrow> int \<Rightarrow> bool" where
  "writers boxOf box pid \<longleftrightarrow> boxOf pid = box"

text \<open>
  \<open>Watch\<close>, from the first walk on: what was read, with the boxes the processes are in by then, and the timer of a batch. A timer that
  has nothing to report isn't armed. The run gives the paths of every call of \<open>changed\<close>, and the error that ended it.
\<close>

datatype watch_input = WRead "byte8 list" "int \<Rightarrow> string" | WBatch

fun watch_run :: "(nat \<Rightarrow> rel \<Rightarrow> entry option) \<Rightarrow> string \<Rightarrow> watch_input list \<Rightarrow> nat \<times> tree \<Rightarrow> rel list list \<times> watch_error option" where
  "watch_run look box [] s = ([], None)"
| "watch_run look box (WRead buf boxOf # is) s =
     (case decode buf of
        Inl e \<Rightarrow> ([], Some e)
      | Inr es \<Rightarrow> watch_run look box is (apply_events look (writers boxOf box) es s))"
| "watch_run look box (WBatch # is) (n, t) =
     (if trPending t = [] then watch_run look box is (n, t)
      else let (cs, e) = watch_run look box is (n, t\<lparr>trPending := []\<rparr>) in (sort_key path_text (trPending t) # cs, e))"

text \<open>The walk of the workspace, which ends the watch when it fails.\<close>

definition start_watch :: "entry option \<Rightarrow> tree option" where
  "start_watch root = (case tree_add [] root [] of (ok, dirs, _) \<Rightarrow> if ok then Some \<lparr>trDirs = dirs, trPending = []\<rparr> else None)"

end
