(* ===== verification/WatchLaws.thy ===== *)
theory WatchLaws
  imports Watch
begin

text \<open>
  A watch reads whatever bytes it gets without a panic, reads what the kernel writes, and reports no file of a skipped folder.
\<close>

section \<open>Decoding\<close>

lemma slice_ok: "lo \<le> hi \<Longrightarrow> hi \<le> length xs \<Longrightarrow> slice lo hi xs = Inr (drop lo (take hi xs))"
  by (simp add: slice_def)

lemma from_index_ok: "lo \<le> length xs \<Longrightarrow> from_index lo xs = Inr (drop lo xs)"
  by (simp add: from_index_def slice_def)

lemma uint_at_ok: "off + k \<le> length xs \<Longrightarrow> uint_at k off xs = Inr (le_nat (take k (drop off xs)))"
  by (simp add: uint_at_def slice_def drop_take)

lemma byte_at_ok: "i < length xs \<Longrightarrow> byte_at i xs = Inr (xs ! i)"
  by (simp add: byte_at_def)

lemma handle_record_no_panic: "handle_record typ rec0 e \<noteq> Inl Panic"
proof (cases "length rec0 < fsidLen + handleHeader")
  case False
  let ?r = "drop fsidLen rec0" and ?n = "le_nat (take 4 (drop fsidLen rec0))"
  have "from_index fsidLen rec0 = Inr ?r" "uint_at 4 0 ?r = Inr ?n" "uint_at 4 4 ?r = Inr (le_nat (take 4 (drop 4 ?r)))"
    using False by (simp_all add: from_index_ok uint_at_ok layout_lens)
  moreover have "slice handleHeader (handleHeader + ?n) ?r = Inr (drop handleHeader (take (handleHeader + ?n) ?r))"
      "from_index (handleHeader + ?n) ?r = Inr (drop (handleHeader + ?n) ?r)"
    if "\<not> int ?n > int (length ?r) - int handleHeader"
    using that False by (simp_all add: slice_ok from_index_ok layout_lens)
  ultimately show ?thesis using False by (auto simp: handle_record_def Let_def simp del: length_drop)
qed (simp add: handle_record_def)

text \<open>The loop without its slices.\<close>

lemma event_info_step:
  assumes "recs \<noteq> []"
  shows "event_info e recs =
    (if length recs < infoHeader then Inl ErrShort
     else let n = le_nat (take 2 (drop 2 recs)) in
       if n < infoHeader \<or> n > length recs then Inl ErrShort
       else if recs ! 0 \<noteq> INFO_TYPE_DFID_NAME \<and> recs ! 0 \<noteq> INFO_TYPE_DFID then event_info e (drop n recs)
       else bind_r (handle_record (recs ! 0) (drop infoHeader (take n recs)) e) (\<lambda>e1. event_info e1 (drop n recs)))"
proof (cases "length recs < infoHeader")
  case False
  have "byte_at 0 recs = Inr (recs ! 0)" "uint_at 2 2 recs = Inr (le_nat (take 2 (drop 2 recs)))"
    using False assms by (simp_all add: byte_at_ok uint_at_ok layout_lens)
  then show ?thesis using assms False by (subst event_info.simps) (simp add: slice_ok from_index_ok Let_def)
next
  case True
  then show ?thesis using assms by (subst event_info.simps) simp
qed

lemma event_info_no_panic: "event_info e recs \<noteq> Inl Panic"
proof (induction "length recs" arbitrary: e recs rule: less_induct)
  case less
  let ?n = "le_nat (take 2 (drop 2 recs))"
  show ?case
  proof (cases "recs = []")
    case True
    then show ?thesis by (simp add: event_info.simps)
  next
    case False
    then have shorter: "length (drop ?n recs) < length recs" if "infoHeader \<le> ?n" using that by (simp add: infoHeader_def)
    show ?thesis
      using less [OF shorter] handle_record_no_panic
      by (subst event_info_step [OF False]) (auto simp: Let_def split: sum.split)
  qed
qed

lemma decode_head_no_panic: "decode_head buf \<noteq> Inl Panic"
proof (cases "length buf < metadataLen")
  case False
  let ?n = "le_nat (take 4 (drop 0 buf))" and ?m = "le_nat (take 2 (drop 6 buf))"
  have "uint_at 4 0 buf = Inr ?n" "byte_at 4 buf = Inr (buf ! 4)" "uint_at 2 6 buf = Inr ?m"
    "uint_at 8 8 buf = Inr (le_nat (take 8 (drop 8 buf)))" "uint_at 4 20 buf = Inr (le_nat (take 4 (drop 20 buf)))"
    using False by (simp_all add: uint_at_ok byte_at_ok layout_lens)
  moreover have "slice ?m ?n buf = Inr (drop ?m (take ?n buf))" if "\<not> (?m > ?n \<or> ?n > length buf)"
    using that by (simp add: slice_ok)
  ultimately show ?thesis using False event_info_no_panic by (auto simp: decode_head_def split: sum.split)
qed (simp add: decode_head_def)

lemma decode_no_panic: "decode buf \<noteq> Inl Panic"
proof (induction buf rule: decode.induct)
  case (1 buf)
  then show ?case using decode_head_no_panic [of buf] by (subst decode.simps) (auto split: sum.split)
qed

section \<open>What the kernel writes\<close>

fun le_bytes :: "nat \<Rightarrow> nat \<Rightarrow> byte8 list" where
  "le_bytes 0 n = []"
| "le_bytes (Suc k) n = of_nat n # le_bytes k (n div 256)"

lemma le_bytes_length [simp]: "length (le_bytes k n) = k"
  by (induction k arbitrary: n) simp_all

lemma le_nat_bytes: "n < 256 ^ k \<Longrightarrow> le_nat (le_bytes k n) = n"
proof (induction k arbitrary: n)
  case (Suc k)
  have "n div 256 < 256 ^ k" using Suc.prems by (simp add: less_mult_imp_div_less mult.commute)
  with Suc.IH have "le_nat (le_bytes k (n div 256)) = n div 256" .
  then show ?case by (simp add: unat_of_nat take_bit_eq_mod)
qed simp

text \<open>A change of an entry in a folder, as \<open>fanotify_event_metadata\<close> and one \<open>DFID_NAME\<close> record.\<close>

record change =
  chMask :: "64 word"
  chFd :: nat
  chPid :: nat
  chFsid :: "byte8 list"
  chType :: nat
  chHandle :: "byte8 list"
  chName :: "byte8 list"
  chPad :: nat

definition change_record :: "change \<Rightarrow> byte8 list" where
  "change_record c =
     (let body = chFsid c @ le_bytes 4 (length (chHandle c)) @ le_bytes 4 (chType c) @ chHandle c @ chName c @ replicate (Suc (chPad c)) 0 in
      [INFO_TYPE_DFID_NAME, 0] @ le_bytes 2 (infoHeader + length body) @ body)"

definition change_bytes :: "change \<Rightarrow> byte8 list" where
  "change_bytes c =
     (let r = change_record c in
      le_bytes 4 (metadataLen + length r) @ [FANOTIFY_METADATA_VERSION, 0] @ le_bytes 2 metadataLen @ le_bytes 8 (unat (chMask c))
      @ le_bytes 4 (chFd c) @ le_bytes 4 (chPid c) @ r)"

definition change_ok :: "change \<Rightarrow> bool" where
  "change_ok c \<longleftrightarrow> length (chFsid c) = fsidLen \<and> 0 \<notin> set (chName c) \<and> length (change_record c) < 65536 \<and> chFd c < 2 ^ 32
     \<and> chPid c < 2 ^ 32 \<and> chType c < 2 ^ 32"

definition change_event :: "change \<Rightarrow> event" where
  "change_event c = \<lparr>evMask = chMask c, evPid = int32 (chPid c), evHandle = handleKey (int32 (chType c)) (chHandle c),
     evName = map (\<lambda>x. char_of (unat x)) (chName c)\<rparr>"

lemma change_record_length: "length (chFsid c) = fsidLen \<Longrightarrow> length (change_record c) = 21 + length (chHandle c) + length (chName c) + chPad c"
  by (simp add: change_record_def Let_def layout_lens)

lemma takeWhile_name: "0 \<notin> set name \<Longrightarrow> takeWhile (\<lambda>x. x \<noteq> 0) (name @ replicate (Suc n) 0) = name"
  by (induction name) auto

lemma handle_record_change:
  assumes "change_ok c"
  shows "handle_record INFO_TYPE_DFID_NAME (drop 4 (change_record c)) e =
    Inr (e\<lparr>evHandle := handleKey (int32 (chType c)) (chHandle c), evName := map (\<lambda>x. char_of (unat x)) (chName c)\<rparr>)"
proof -
  let ?h = "chHandle c" and ?tail = "chName c @ replicate (Suc (chPad c)) 0"
  define r where "r = le_bytes 4 (length ?h) @ le_bytes 4 (chType c) @ ?h @ ?tail"
  have c: "length (chFsid c) = 8" "0 \<notin> set (chName c)" "chType c < 256 ^ 4" "length ?h < 256 ^ 4"
    using assms change_record_length [of c] by (auto simp: change_ok_def fsidLen_def)
  have body: "drop 4 (change_record c) = chFsid c @ r" by (simp add: change_record_def Let_def r_def)
  have lens: "length r = 8 + length ?h + length ?tail" by (simp add: r_def)
  have "from_index fsidLen (chFsid c @ r) = Inr r" using c(1) by (simp add: from_index_ok fsidLen_def)
  moreover have "uint_at 4 0 r = Inr (length ?h)" using le_nat_bytes [OF c(4)] lens by (simp add: uint_at_ok r_def)
  moreover have "uint_at 4 4 r = Inr (chType c)" using le_nat_bytes [OF c(3)] lens by (simp add: uint_at_ok r_def)
  moreover have "slice 8 (8 + length ?h) r = Inr ?h" using lens by (simp add: slice_ok r_def)
  moreover have "from_index (8 + length ?h) r = Inr ?tail" using lens by (simp add: from_index_ok r_def)
  ultimately show ?thesis
    using c(1,2) lens takeWhile_name [OF c(2), of "chPad c"]
    by (simp add: handle_record_def body Let_def fsidLen_def handleHeader_def)
qed

lemma event_info_change:
  assumes "change_ok c"
  shows "event_info e (change_record c) =
    Inr (e\<lparr>evHandle := handleKey (int32 (chType c)) (chHandle c), evName := map (\<lambda>x. char_of (unat x)) (chName c)\<rparr>)"
proof -
  let ?r = "change_record c"
  have len: "length ?r = 21 + length (chHandle c) + length (chName c) + chPad c" "length ?r < 256 ^ 2"
    using assms change_record_length [of c] by (auto simp: change_ok_def)
  obtain body where body: "?r = [INFO_TYPE_DFID_NAME, 0] @ le_bytes 2 (length ?r) @ body"
    using change_record_length [of c] by (auto simp: change_record_def Let_def infoHeader_def)
  have n: "le_nat (take 2 (drop 2 ?r)) = length ?r" using le_nat_bytes [OF len(2)] by (subst body) simp
  have kind: "?r ! 0 = INFO_TYPE_DFID_NAME" by (subst body) simp
  have "?r \<noteq> []" using len(1) by auto
  then show ?thesis
    by (subst event_info_step) (use len(1) n kind handle_record_change [OF assms] in \<open>simp_all add: Let_def infoHeader_def event_info.simps\<close>)
qed

lemma decode_head_change:
  assumes "change_ok c"
  shows "decode_head (change_bytes c @ rest) = Inr (length (change_bytes c), change_event c)"
proof -
  let ?r = "change_record c" and ?n = "metadataLen + length (change_record c)"
  have small: "?n < 256 ^ 4" "metadataLen < 256 ^ 2" "chPid c < 256 ^ 4" "unat (chMask c) < 256 ^ 8"
  proof -
    have "unat (chMask c) < 2 ^ 64" using unsigned_less [of "chMask c"] by simp
    then show "unat (chMask c) < 256 ^ 8" by simp
  qed (use assms in \<open>auto simp: change_ok_def metadataLen_def\<close>)
  have len: "length (change_bytes c) = ?n" by (simp add: change_bytes_def Let_def metadataLen_def)
  define buf where "buf = change_bytes c @ rest"
  have bytes: "buf = le_bytes 4 ?n @ [FANOTIFY_METADATA_VERSION, 0] @ le_bytes 2 metadataLen @ le_bytes 8 (unat (chMask c))
      @ le_bytes 4 (chFd c) @ le_bytes 4 (chPid c) @ ?r @ rest"
    by (simp add: buf_def change_bytes_def Let_def)
  have long: "?n \<le> length buf" using len by (simp add: buf_def)
  have "uint_at 4 0 buf = Inr ?n" using le_nat_bytes [OF small(1)] by (subst uint_at_ok) (simp_all add: bytes)
  moreover have "uint_at 2 6 buf = Inr metadataLen" using le_nat_bytes [OF small(2)] by (subst uint_at_ok) (simp_all add: bytes)
  moreover have "uint_at 8 8 buf = Inr (unat (chMask c))" using le_nat_bytes [OF small(4)] by (subst uint_at_ok) (simp_all add: bytes)
  moreover have "uint_at 4 20 buf = Inr (chPid c)" using le_nat_bytes [OF small(3)] by (subst uint_at_ok) (simp_all add: bytes)
  moreover have "byte_at 4 buf = Inr FANOTIFY_METADATA_VERSION" by (simp add: byte_at_def bytes nth_append)
  moreover have "slice metadataLen ?n buf = Inr ?r" using long by (simp add: slice_ok drop_take) (simp add: bytes metadataLen_def)
  ultimately have "decode_head buf = Inr (?n, change_event c)"
    using long event_info_change [OF assms] by (simp add: decode_head_def change_event_def)
  then show ?thesis using len by (simp add: buf_def)
qed

text \<open>What the kernel writes is read as it was meant.\<close>

lemma decode_changes: "\<forall>c \<in> set cs. change_ok c \<Longrightarrow> decode (concat (map change_bytes cs)) = Inr (map change_event cs)"
proof (induction cs)
  case (Cons c cs)
  have "change_bytes c \<noteq> []" by (simp add: change_bytes_def Let_def)
  then show ?case using Cons decode_head_change [of c "concat (map change_bytes cs)"] by (subst decode.simps) simp
qed (simp add: decode.simps)


section \<open>What a watch reports\<close>

text \<open>The names a walk finds are single components.\<close>

fun entry_named :: "entry \<Rightarrow> bool"
  and entries_named :: "(string \<times> entry) list \<Rightarrow> bool" where
  "entry_named (EFolder m es) = entries_named es"
| "entry_named _ = True"
| "entries_named [] = True"
| "entries_named ((name, e) # es) \<longleftrightarrow> good_name name \<and> entry_named e \<and> entries_named es"

definition watched_dir :: "rel \<Rightarrow> bool" where
  "watched_dir r \<longleftrightarrow> (\<forall>c \<in> set r. good_name c \<and> \<not> skips c)"

definition watched_file :: "rel \<Rightarrow> bool" where
  "watched_file r \<longleftrightarrow> r \<noteq> [] \<and> good_name (last r) \<and> watched_dir (butlast r)"

definition watched_dirs :: "(string \<times> rel) list \<Rightarrow> bool" where
  "watched_dirs dirs \<longleftrightarrow> (\<forall>r \<in> snd ` set dirs. watched_dir r)"

definition watched_files :: "rel list \<Rightarrow> bool" where
  "watched_files files \<longleftrightarrow> (\<forall>r \<in> set files. watched_file r)"

lemma watched_file_below: "watched_dir r \<Longrightarrow> good_name name \<Longrightarrow> watched_file (r @ [name])"
  by (simp add: watched_file_def)

lemma watched_file_dir: "watched_file r \<Longrightarrow> \<not> skips (last r) \<Longrightarrow> watched_dir r"
  by (cases r rule: rev_cases) (auto simp: watched_file_def watched_dir_def)

lemma watched_dirs_update: "watched_dirs dirs \<Longrightarrow> watched_dir r \<Longrightarrow> watched_dirs (AList.update k r dirs)"
  by (induction dirs) (auto simp: watched_dirs_def)

lemma watched_dirs_forget: "watched_dirs dirs \<Longrightarrow> watched_dirs (forget r dirs)"
  by (auto simp: watched_dirs_def forget_def)

text \<open>A walk from a folder marks no skipped folder and finds no file in one.\<close>

lemma add_entry_watched:
  "entry_named e \<Longrightarrow> watched_file r \<or> r = [] \<Longrightarrow> watched_dirs (fst s) \<Longrightarrow> watched_files (snd s) \<Longrightarrow>
   add_entry r e s = (ok, dirs, files) \<Longrightarrow> watched_dirs dirs \<and> (r \<noteq> [] \<longrightarrow> watched_files files)"
  "entries_named es \<Longrightarrow> watched_dir r \<Longrightarrow> watched_dirs (fst s) \<Longrightarrow> watched_files (snd s) \<Longrightarrow>
   add_entries r es s = (ok, dirs, files) \<Longrightarrow> watched_dirs dirs \<and> watched_files files"
proof (induction r e s and r es s arbitrary: ok dirs files and ok dirs files rule: add_entry_add_entries.induct)
  case (3 r m es dirs0 files0)
  then show ?case
    using watched_file_dir [of r] watched_dirs_update [of dirs0 r]
    by (auto simp: watched_dir_def split: if_splits mark_result.splits)
next
  case (5 r name e es s)
  obtain ok1 dirs1 files1 where e: "add_entry (r @ [name]) e s = (ok1, dirs1, files1)" by (cases "add_entry (r @ [name]) e s")
  have "watched_dirs dirs1 \<and> watched_files files1" using 5 e watched_file_below by auto
  then show ?case using "5.IH"(2) [of ok1 "(dirs1, files1)"] "5.prems" e by (auto split: bool.splits)
qed (auto simp: watched_files_def split: if_splits)

lemma tree_add_watched:
  assumes "\<And>e. found = Some e \<Longrightarrow> entry_named e" "watched_file r \<or> r = []" "watched_dirs dirs0"
    "tree_add r found dirs0 = (ok, dirs, files)"
  shows "watched_dirs dirs" "r \<noteq> [] \<Longrightarrow> watched_files files"
  using assms add_entry_watched(1) [of _ r "(dirs0, [])" ok dirs files]
  by (auto simp: tree_add_def watched_files_def split: option.splits)

definition watched_tree :: "tree \<Rightarrow> bool" where
  "watched_tree t \<longleftrightarrow> watched_dirs (trDirs t) \<and> watched_files (trPending t)"

definition event_named :: "event \<Rightarrow> bool" where
  "event_named e \<longleftrightarrow> evName e = [] \<or> evName e = ''.'' \<or> good_name (evName e)"

definition walks_named :: "(nat \<Rightarrow> rel \<Rightarrow> entry option) \<Rightarrow> bool" where
  "walks_named look \<longleftrightarrow> (\<forall>n r e. look n r = Some e \<longrightarrow> entry_named e)"

lemma fold_add_pending [simp]:
  "trDirs (fold add_pending files t) = trDirs t" "set (trPending (fold add_pending files t)) = set files \<union> set (trPending t)"
  by (induction files arbitrary: t) (auto simp: add_pending_def)

lemma apply_event_watched:
  assumes named: "\<And>r e. look r = Some e \<Longrightarrow> entry_named e" "event_named e" and t: "watched_tree t"
  shows "watched_tree (apply_event look mine e t)"
proof (cases "map_of (trDirs t) (evHandle e)")
  case (Some parent)
  then have "watched_dir parent" using t by (force simp: watched_tree_def watched_dirs_def dest: map_of_SomeD)
  show ?thesis
  proof (cases "good_name (evName e)")
    case True
    define r where "r = path_join parent (evName e)"
    have r: "watched_file r" "r \<noteq> []"
      using watched_file_below [OF \<open>watched_dir parent\<close> True] True by (simp_all add: r_def path_join_good)
    obtain ok dirs files where add: "tree_add r (look r) (trDirs t) = (ok, dirs, files)" by (cases "tree_add r (look r) (trDirs t)")
    have "watched_dirs dirs" "watched_files files"
      using tree_add_watched [OF named(1) _ _ add] r t by (simp_all add: watched_tree_def)
    moreover have "watched_dirs (forget r (trDirs t))" using t by (simp add: watched_tree_def watched_dirs_forget)
    ultimately show ?thesis
      using t Some r add
      by (auto simp: apply_event_def Let_def watched_tree_def watched_files_def add_pending_def simp flip: r_def)
  next
    case False
    then have "evName e = [] \<or> evName e = ''.''" using named(2) by (simp add: event_named_def)
    then show ?thesis using t Some by (auto simp: apply_event_def)
  qed
qed (use t in \<open>simp add: apply_event_def\<close>)

lemma apply_events_watched:
  assumes "walks_named look" "list_all event_named es" "watched_tree t"
  shows "watched_tree (snd (apply_events look mine es (n, t)))"
  using assms(2,3)
proof (induction es arbitrary: n t)
  case (Cons e es)
  have "watched_tree (apply_event (look n) mine e t)"
    using Cons.prems assms(1) by (intro apply_event_watched) (auto simp: walks_named_def)
  then show ?case using Cons by (simp add: apply_events_def)
qed (simp add: apply_events_def)

definition input_named :: "watch_input \<Rightarrow> bool" where
  "input_named i = (case i of WRead buf _ \<Rightarrow> (case decode buf of Inl _ \<Rightarrow> True | Inr es \<Rightarrow> list_all event_named es) | WBatch \<Rightarrow> True)"

lemma sort_key_empty: "sort_key f xs = [] \<longleftrightarrow> xs = []"
  by (metis length_0_conv length_sort)

lemma watch_run_watched:
  assumes "walks_named look" "list_all input_named is" "watched_tree t" "watch_run look box is (n, t) = (cs, e)"
  shows "e \<noteq> Some Panic \<and> (\<forall>ps \<in> set cs. ps \<noteq> [] \<and> sorted (map path_text ps) \<and> watched_files ps)"
  using assms(2-4)
proof (induction "is" arbitrary: n t cs)
  case (Cons i "is")
  show ?case
  proof (cases i)
    case (WRead buf boxOf)
    show ?thesis
    proof (cases "decode buf")
      case (Inr es)
      obtain n1 t1 where s: "apply_events look (writers boxOf box) es (n, t) = (n1, t1)" by fastforce
      have "list_all event_named es" using Cons.prems(1) WRead Inr by (simp add: input_named_def)
      then have "watched_tree t1" using apply_events_watched [OF assms(1) _ Cons.prems(2)] s by (metis snd_conv)
      then show ?thesis using Cons.IH [of t1 n1 cs] Cons.prems WRead Inr s by simp
    qed (use Cons.prems WRead decode_no_panic [of buf] in auto)
  next
    case WBatch
    show ?thesis
    proof (cases "trPending t = []")
      case False
      obtain cs1 where cs: "watch_run look box is (n, t\<lparr>trPending := []\<rparr>) = (cs1, e)" "cs = sort_key path_text (trPending t) # cs1"
        using Cons.prems(3) WBatch False by (auto simp: Let_def split: prod.splits)
      have "watched_tree (t\<lparr>trPending := []\<rparr>)" using Cons.prems(2) by (simp add: watched_tree_def watched_files_def)
      then have "e \<noteq> Some Panic \<and> (\<forall>ps \<in> set cs1. ps \<noteq> [] \<and> sorted (map path_text ps) \<and> watched_files ps)"
        using Cons.IH [OF _ _ cs(1)] Cons.prems(1) by simp
      moreover have "sort_key path_text (trPending t) \<noteq> []" using False by (simp add: sort_key_empty)
      ultimately show ?thesis using cs(2) Cons.prems(2) by (simp add: watched_tree_def watched_files_def)
    qed (use Cons WBatch in simp)
  qed
qed auto

text \<open>Changes of files leave the folders alone and add what the box wrote, each path once.\<close>

definition change_name :: "change \<Rightarrow> string" where
  "change_name c = map (\<lambda>x. char_of (unat x)) (chName c)"

definition file_change :: "change \<Rightarrow> bool" where
  "file_change c \<longleftrightarrow> change_ok c \<and> good_name (change_name c) \<and> chMask c AND FAN_ONDIR = 0 \<and> chMask c AND FAN_Q_OVERFLOW = 0"

definition written_by :: "(int \<Rightarrow> bool) \<Rightarrow> (string \<times> rel) list \<Rightarrow> change list \<Rightarrow> rel set" where
  "written_by mine dirs cs =
     {d @ [change_name c] | c d. c \<in> set cs \<and> map_of dirs (handleKey (int32 (chType c)) (chHandle c)) = Some d
        \<and> mine (int32 (chPid c)) \<and> chMask c AND (FAN_MODIFY OR FAN_CREATE OR FAN_MOVED_TO) \<noteq> 0}"

lemma apply_event_file:
  assumes "file_change c"
  shows "trDirs (apply_event look mine (change_event c) t) = trDirs t"
    "set (trPending (apply_event look mine (change_event c) t)) = set (trPending t) \<union> written_by mine (trDirs t) [c]"
    "distinct (trPending t) \<Longrightarrow> distinct (trPending (apply_event look mine (change_event c) t))"
proof -
  have "change_name c \<noteq> []" "change_name c \<noteq> ''.''" using assms by (auto simp: file_change_def good_name_def)
  then have e: "apply_event look mine (change_event c) t =
      (case map_of (trDirs t) (handleKey (int32 (chType c)) (chHandle c)) of
         None \<Rightarrow> t
       | Some d \<Rightarrow> if mine (int32 (chPid c)) \<and> chMask c AND (FAN_MODIFY OR FAN_CREATE OR FAN_MOVED_TO) \<noteq> 0
                  then add_pending (d @ [change_name c]) t else t)"
    using assms by (simp add: apply_event_def change_event_def file_change_def path_join_good Let_def flip: change_name_def split: option.split)
  show "trDirs (apply_event look mine (change_event c) t) = trDirs t"
    by (simp add: e add_pending_def split: option.split)
  show "set (trPending (apply_event look mine (change_event c) t)) = set (trPending t) \<union> written_by mine (trDirs t) [c]"
    by (auto simp: e add_pending_def written_by_def split: option.split)
  show "distinct (trPending t) \<Longrightarrow> distinct (trPending (apply_event look mine (change_event c) t))"
    by (simp add: e add_pending_def split: option.split)
qed

lemma written_by_Cons: "written_by mine dirs (c # cs) = written_by mine dirs [c] \<union> written_by mine dirs cs"
  unfolding written_by_def by auto

lemma apply_events_files:
  assumes "list_all file_change cs" "apply_events look mine (map change_event cs) (n, t) = (n1, t1)"
  shows "trDirs t1 = trDirs t \<and> set (trPending t1) = set (trPending t) \<union> written_by mine (trDirs t) cs
    \<and> (distinct (trPending t) \<longrightarrow> distinct (trPending t1))"
  using assms
proof (induction cs arbitrary: n t)
  case Nil
  then show ?case by (simp add: apply_events_def written_by_def)
next
  case (Cons c cs)
  let ?t = "apply_event (look n) mine (change_event c) t"
  have "apply_events look mine (map change_event cs) (Suc n, ?t) = (n1, t1)" using Cons.prems(2) by (simp add: apply_events_def)
  with Cons have "trDirs t1 = trDirs ?t \<and> set (trPending t1) = set (trPending ?t) \<union> written_by mine (trDirs ?t) cs
    \<and> (distinct (trPending ?t) \<longrightarrow> distinct (trPending t1))" by simp
  then show ?case
    using Cons.prems(1) apply_event_file [of c, where look = "look n" and mine = mine and t = t] written_by_Cons [of mine "trDirs t" c cs] by auto
qed

lemma watched_file_parts: "watched_file p \<Longrightarrow> p \<noteq> [] \<and> list_all good_name p \<and> \<not> list_ex skips (butlast p)"
  by (cases p rule: rev_cases) (auto simp: watched_file_def watched_dir_def list_all_iff list_ex_iff)

section \<open>Properties\<close>

text \<open>
  C38: Whatever is read and whenever batches end, decoding never runs out of a buffer's bounds, and every report is of at least one file, in
  order, with paths of plain components, none below \<open>.git\<close>, \<open>node_modules\<close> or \<open>.fern\<close>. Entries have single components as names,
  in the kernel's events and on disk.
\<close>

theorem watch_reports:
  assumes "walks_named look" "list_all input_named is" "entry_named folder" "start_watch (Some folder) = Some t"
    "watch_run look box is (0, t) = (cs, e)"
  shows "e \<noteq> Some Panic
    \<and> (\<forall>ps \<in> set cs. ps \<noteq> [] \<and> sorted (map path_text ps)
        \<and> (\<forall>p \<in> set ps. p \<noteq> [] \<and> list_all good_name p \<and> \<not> list_ex skips (butlast p)))"
proof -
  obtain ok dirs files where "tree_add [] (Some folder) [] = (ok, dirs, files)" by (cases "tree_add [] (Some folder) []")
  then have "watched_tree t"
    using assms(3,4) tree_add_watched(1) [of "Some folder" "[]" "[]" ok dirs files]
    by (auto simp: start_watch_def watched_tree_def watched_dirs_def watched_files_def split: if_splits)
  from watch_run_watched [OF assms(1,2) this assms(5)] show ?thesis
    unfolding watched_files_def using watched_file_parts by blast
qed

definition example_change :: "64 word \<Rightarrow> change" where
  "example_change m = \<lparr>chMask = m, chFd = 0, chPid = 7, chFsid = replicate 8 0, chType = 1, chHandle = [0x61], chName = [0x62, 0x2E, 0x63], chPad = 0\<rparr>"

definition example_folder :: entry where
  "example_folder = EFolder (Marked ''1:61'') [(''a.c'', EFile True), (''.git'', EFolder (Marked ''1:62'') [(''HEAD'', EFile True)])]"

lemma example_change_ok [simp]: "change_ok (example_change m)"
  by (simp add: change_ok_def change_record_length) (simp add: example_change_def fsidLen_def change_record_def Let_def infoHeader_def)

lemma example_event: "change_event (example_change m) = \<lparr>evMask = m, evPid = 7, evHandle = ''1:61'', evName = ''b.c''\<rparr>"
  unfolding change_event_def by (simp add: example_change_def) code_simp

lemma example_decode: "decode (change_bytes (example_change m)) = Inr [\<lparr>evMask = m, evPid = 7, evHandle = ''1:61'', evName = ''b.c''\<rparr>]"
  using decode_changes [of "[example_change m]"] by (simp add: example_event)

lemma example_start: "start_watch (Some example_folder) = Some \<lparr>trDirs = [(''1:61'', [])], trPending = []\<rparr>"
  by code_simp

lemma example_run:
  "watch_run (\<lambda>_ _. None) ''box'' [WRead (change_bytes (example_change FAN_MODIFY)) (\<lambda>_. ''box''), WBatch]
     (0, \<lparr>trDirs = [(''1:61'', [])], trPending = []\<rparr>) = ([[[''b.c'']]], None)"
  by (simp add: example_decode apply_events_def apply_event_def path_join_good good_name_def add_pending_def writers_def
      FAN_MODIFY_def FAN_CREATE_def FAN_MOVED_TO_def FAN_ONDIR_def FAN_Q_OVERFLOW_def)

theorem watch_reports_witness:
  "start_watch (Some example_folder) = Some \<lparr>trDirs = [(''1:61'', [])], trPending = []\<rparr>
     \<and> fst (watch_run (\<lambda>_ _. None) ''box'' [WRead (change_bytes (example_change FAN_MODIFY)) (\<lambda>_. ''box''), WBatch]
        (0, \<lparr>trDirs = [(''1:61'', [])], trPending = []\<rparr>)) = [[[''b.c'']]]
     \<and> list_all good_name [''b.c'']"
  using watch_reports [OF _ _ _ example_start example_run] example_start example_run
  by (simp add: walks_named_def input_named_def example_decode event_named_def good_name_def example_folder_def)

text \<open>
  C37: The changes of files that the kernel writes out in one read are reported in one batch: exactly the paths that processes of the box
  created, wrote or renamed into place in the watched folders, each once and in order, and no call if there are none.
\<close>

theorem file_changes_reported:
  assumes "list_all file_change cs" "trPending t = []"
  shows "\<exists>ps. watch_run look box [WRead (concat (map change_bytes cs)) boxOf, WBatch] (n, t) = (if ps = [] then [] else [ps], None)
    \<and> set ps = {d @ [change_name c] | c d. c \<in> set cs \<and> map_of (trDirs t) (handleKey (int32 (chType c)) (chHandle c)) = Some d
        \<and> boxOf (int32 (chPid c)) = box \<and> chMask c AND (FAN_MODIFY OR FAN_CREATE OR FAN_MOVED_TO) \<noteq> 0}
    \<and> distinct ps \<and> sorted (map path_text ps)"
proof -
  obtain n1 t1 where s: "apply_events look (writers boxOf box) (map change_event cs) (n, t) = (n1, t1)" by fastforce
  have "decode (concat (map change_bytes cs)) = Inr (map change_event cs)"
    using assms(1) by (intro decode_changes) (auto simp: list_all_iff file_change_def)
  then have "watch_run look box [WRead (concat (map change_bytes cs)) boxOf, WBatch] (n, t) =
      (if sort_key path_text (trPending t1) = [] then [] else [sort_key path_text (trPending t1)], None)"
    using s by (cases "trPending t1 = []") (simp_all add: sort_key_empty)
  then show ?thesis
    using apply_events_files [OF assms(1) s] assms(2)
    by (intro exI [of _ "sort_key path_text (trPending t1)"]) (simp add: written_by_def writers_def)
qed

theorem file_changes_reported_witness:
  "\<exists>ps. watch_run (\<lambda>_ _. None) ''box'' [WRead (change_bytes (example_change FAN_CREATE)) (\<lambda>_. ''box''), WBatch]
        (0, \<lparr>trDirs = [(''1:61'', [''src''])], trPending = []\<rparr>) = (if ps = [] then [] else [ps], None)
     \<and> set ps = {[''src'', ''b.c'']}"
proof -
  have names: "change_name (example_change FAN_CREATE) = ''b.c''" "good_name ''b.c''"
    using example_event [of FAN_CREATE] by (simp_all add: change_event_def change_name_def good_name_def)
  have key: "handleKey (int32 (chType (example_change FAN_CREATE))) (chHandle (example_change FAN_CREATE)) = ''1:61''"
    using example_event [of FAN_CREATE] by (simp add: change_event_def)
  have mask: "chMask (example_change FAN_CREATE) = 0x100" by (simp add: example_change_def FAN_CREATE_def)
  then have "list_all file_change [example_change FAN_CREATE]"
    using names by (simp add: file_change_def FAN_ONDIR_def FAN_Q_OVERFLOW_def)
  with file_changes_reported [of "[example_change FAN_CREATE]" "\<lparr>trDirs = [(''1:61'', [''src''])], trPending = []\<rparr>" "\<lambda>_ _. None" "''box''" "\<lambda>_. ''box''" 0]
  show ?thesis using names key mask by (auto simp: FAN_MODIFY_def FAN_CREATE_def FAN_MOVED_TO_def)
qed

end
