(* ===== verification/InitServices.thy ===== *)
theory InitServices
  imports Setup
begin

text \<open>
  \<open>cmd/fern-init\<close>: the services of a box (\<open>services.go\<close>, \<open>readiness.go\<close>), and a service that starts at its first connection
  (\<open>ondemand.go\<close>). Times are nanoseconds. What a process, a socket's peer or the scheduler does is an event.
\<close>

section \<open>services.yaml\<close>

record service =
  svRun :: string
  svStop :: string
  svReady :: string
  svListen :: string
  svPort :: int

definition environ :: "service \<Rightarrow> string list \<Rightarrow> string list" where
  "environ s env = (if svPort s = 0 then env else env @ [''PORT='' @ Itoa (svPort s)])"

datatype network = Unix | TCP

definition listenAddr :: "string \<Rightarrow> (network \<times> string) option" where
  "listenAddr listen =
     (case cut_at CHR '':'' listen of (net, addr, fine) \<Rightarrow>
        if \<not> fine \<or> addr = [] then None
        else if net = ''unix'' then Some (Unix, addr)
        else if net = ''tcp'' then Some (TCP, ''127.0.0.1:'' @ addr)
        else None)"

datatype services_error = BadServicesYAML | RunRequired string | NotAPort string int | BadListen string string | ServicesFileFailed setup_error

definition service_error :: "string \<times> service \<Rightarrow> services_error option" where
  "service_error x =
     (case x of (name, svc) \<Rightarrow>
        if svRun svc = [] then Some (RunRequired name)
        else if svPort svc < 0 \<or> svPort svc > 65535 then Some (NotAPort name (svPort svc))
        else if svListen svc \<noteq> [] \<and> listenAddr (svListen svc) = None then Some (BadListen name (svListen svc))
        else None)"

text \<open>\<open>yaml\<close> is \<open>UnmarshalStrict\<close>; a map's entries come in any order.\<close>

definition parseServices :: "(string \<Rightarrow> (string \<times> service) list option) \<Rightarrow> string \<Rightarrow> services_error + (string \<times> service) list" where
  "parseServices yaml data =
     (case yaml data of
        None \<Rightarrow> Inl BadServicesYAML
      | Some ss \<Rightarrow> (case List.map_filter service_error ss of e # _ \<Rightarrow> Inl e | [] \<Rightarrow> Inr ss))"

definition loadServices ::
  "(string \<Rightarrow> (string \<times> service) list option) \<Rightarrow> codecs \<Rightarrow> path \<Rightarrow> store \<Rightarrow> (services_error + (string \<times> service) list \<times> bool) \<times> store" where
  "loadServices yaml co dir s =
     (case ServicesFile co dir s of
        (Inl e, t) \<Rightarrow> (Inl (ServicesFileFailed e), t)
      | (Inr (None, _), t) \<Rightarrow> (Inr ([], False), t)
      | (Inr (Some data, guessed), t) \<Rightarrow> (map_sum id (\<lambda>ss. (ss, guessed)) (parseServices yaml data), t))"

section \<open>A supervised service\<close>

abbreviation second_ns :: int where "second_ns \<equiv> 1000000000"

definition minBackoff :: int where "minBackoff = second_ns"
definition maxBackoff :: int where "maxBackoff = 30 * second_ns"
definition stableRun :: int where "stableRun = 60 * second_ns"

text \<open>One turn of \<open>run\<close>'s loop: how long the service ran, and whether \<open>quit\<close> was closed when it exited or during the pause.\<close>

record service_run =
  srLasted :: int
  srQuitAtExit :: bool
  srQuitInPause :: bool

text \<open>The pauses begun, and whether it has returned. Every turn starts the service once.\<close>

fun supervisor_run :: "int \<Rightarrow> service_run list \<Rightarrow> int list \<times> bool" where
  "supervisor_run backoff [] = ([], False)"
| "supervisor_run backoff (r # rs) =
     (if srQuitAtExit r then ([], True)
      else let b = (if srLasted r > stableRun then minBackoff else backoff) in
        if srQuitInPause r then ([b], True)
        else let (ps, returned) = supervisor_run (min (2 * b) maxBackoff) rs in (b # ps, returned))"

datatype group_signal = SIGTERM | SIGKILL

text \<open>The polls of \<open>endGroup\<close>: the time of each, and whether a process is left in the group.\<close>

fun end_poll :: "int \<Rightarrow> (int \<times> bool) list \<Rightarrow> group_signal list \<times> bool" where
  "end_poll kill [] = ([], False)"
| "end_poll kill ((now, left) # obs) =
     (if now < kill then (if left then end_poll kill obs else ([], True)) else ([SIGKILL], True))"

definition endGroup :: "bool \<Rightarrow> int \<Rightarrow> (int \<times> bool) list \<Rightarrow> group_signal list \<times> bool" where
  "endGroup left kill obs =
     (if \<not> left then ([], True) else case end_poll kill obs of (sigs, returned) \<Rightarrow> (SIGTERM # sigs, returned))"

record headBuffer =
  hbMax :: nat
  hbBuf :: string
  hbDropped :: nat

definition headBuffer_Write :: "string \<Rightarrow> headBuffer \<Rightarrow> nat \<times> headBuffer" where
  "headBuffer_Write p b =
     (let n = min (length p) (hbMax b - length (hbBuf b)) in
      (length p, b\<lparr>hbBuf := hbBuf b @ take n p, hbDropped := hbDropped b + (length p - n)\<rparr>))"

definition ellipsis :: string where "ellipsis = map char_of [226, 128, 166 :: nat]"

definition headBuffer_String :: "headBuffer \<Rightarrow> string" where
  "headBuffer_String b =
     (if hbDropped b = 0 then hbBuf b else hbBuf b @ ellipsis @ '' ('' @ utoa (hbDropped b) @ '' more bytes)'')"

definition maxShellOutput :: nat where "maxShellOutput = 4096"

text \<open>\<open>shell\<close>: how the script ended and what it wrote.\<close>

datatype shell_end = ShellOK | ShellWaitDelay | ShellFailed string

definition shell_output :: "string list \<Rightarrow> headBuffer" where
  "shell_output ps = fold (\<lambda>p b. snd (headBuffer_Write p b)) ps \<lparr>hbMax = maxShellOutput, hbBuf = [], hbDropped = 0\<rparr>"

definition shell :: "shell_end \<Rightarrow> string list \<Rightarrow> string option" where
  "shell e ps = (case e of ShellFailed err \<Rightarrow> Some (err @ '': '' @ headBuffer_String (shell_output ps)) | _ \<Rightarrow> None)"

section \<open>Readiness\<close>

definition maxWait :: int where "maxWait = 10 * second_ns"

text \<open>\<open>run\<close> is what the shell makes of a service's check in its environment.\<close>

definition checkServices :: "(string \<Rightarrow> string list \<Rightarrow> shell_end \<times> string list) \<Rightarrow> (string \<times> service) list \<Rightarrow> string list \<Rightarrow> string list" where
  "checkServices run services env =
     List.map_filter (\<lambda>(name, svc).
       if svReady svc = [] then None
       else (case run (svReady svc) (environ svc env) of (e, out) \<Rightarrow>
         map_option (\<lambda>err. name @ '' not ready: '' @ err) (shell e out))) (sort_key fst services)"

datatype ready_answer = ReadyOK | Unavailable "string list" | RequestGone | StillWaiting

text \<open>The rounds of checks: the time after one and its failures, or that the request went away before it.\<close>

fun ready_rounds :: "int \<Rightarrow> (int \<times> string list) option list \<Rightarrow> ready_answer" where
  "ready_rounds deadline [] = StillWaiting"
| "ready_rounds deadline (None # _) = RequestGone"
| "ready_rounds deadline (Some (now, errs) # obs) =
     (if errs = [] then ReadyOK else if now < deadline then ready_rounds deadline obs else Unavailable errs)"

definition readiness :: "int \<Rightarrow> int \<Rightarrow> (int \<times> string list) option list \<Rightarrow> ready_answer" where
  "readiness wait now obs = ready_rounds (now + min wait maxWait) obs"

section \<open>A service on demand\<close>

text \<open>
  The goroutines of an \<open>onDemand\<close>: \<open>serve\<close>, \<open>waitReady\<close>, one \<open>relay\<close> a connection, and \<open>stop\<close>. A step is what one of them does up
  to its next wait or lock. A connection is known by its number; \<open>Up i\<close> is the one relay \<open>i\<close> made to the service. The channel
  \<open>ready\<close> has room for one answer.
\<close>

datatype conn = Down nat | Up nat
datatype waiter = WNone | WPolling | WReturned bool | WSent bool
datatype relay_phase = RWaiting | RHolding bool | RReady | RDialed | RCopying | REnded
datatype stop_phase = SNone | SClosing | SWaiting | SStopped
datatype socket = OwnSocket | ServiceSocket | NoSocket

record onDemand =
  odNetwork :: network
  odSvc :: service
  odOpen :: bool
  odServing :: bool
  odSock :: socket
  odStarted :: bool
  odGroup :: int
  odWaiter :: waiter
  odReady :: "bool option"
  odRelays :: "relay_phase list"
  odConns :: "conn set"
  odClosed :: "conn set"
  odCtx :: bool
  odStop :: stop_phase
  odSupervised :: bool

definition listenOnDemand :: "service \<Rightarrow> bool \<Rightarrow> onDemand option" where
  "listenOnDemand svc listens =
     (case listenAddr (svListen svc) of
        None \<Rightarrow> None
      | Some (net, _) \<Rightarrow>
          if \<not> listens then None
          else Some \<lparr>odNetwork = net, odSvc = svc, odOpen = True, odServing = True, odSock = (if net = Unix then OwnSocket else NoSocket),
            odStarted = False, odGroup = 0, odWaiter = WNone, odReady = None, odRelays = [], odConns = {}, odClosed = {},
            odCtx = False, odStop = SNone, odSupervised = False\<rparr>)"

definition fromService :: "int \<Rightarrow> onDemand \<Rightarrow> bool" where
  "fromService pgid s \<longleftrightarrow> odGroup s \<noteq> 0 \<and> pgid = odGroup s"

text \<open>A connection of the service itself is closed at once; \<open>pgid\<close> is its process group, 0 for none.\<close>

definition od_accept :: "int \<Rightarrow> onDemand \<Rightarrow> onDemand" where
  "od_accept pgid s =
     (if odStarted s \<and> fromService pgid s then s
      else let s1 = (if odStarted s then s
                     else s\<lparr>odOpen := odOpen s \<and> odNetwork s \<noteq> TCP, odStarted := True, odSupervised := True, odWaiter := WPolling\<rparr>) in
        s1\<lparr>odConns := insert (Down (length (odRelays s))) (odConns s), odRelays := odRelays s @ [RWaiting]\<rparr>)"

definition replaced :: "onDemand \<Rightarrow> bool" where
  "replaced s \<longleftrightarrow> odSock s = ServiceSocket"

definition wait_returns :: "bool \<Rightarrow> onDemand \<Rightarrow> onDemand" where
  "wait_returns fine s = s\<lparr>odWaiter := WReturned fine, odOpen := odOpen s \<and> odNetwork s \<noteq> Unix\<rparr>"

text \<open>A turn of \<open>waitReady\<close>'s loop: whether the service's check passes, and whether the deadline has passed.\<close>

definition wait_poll :: "bool \<Rightarrow> bool \<Rightarrow> onDemand \<Rightarrow> onDemand" where
  "wait_poll passes late s =
     (let failed = (if odNetwork s = Unix \<and> \<not> replaced s then True else if svReady (odSvc s) \<noteq> [] then \<not> passes else False) in
      if \<not> failed then wait_returns True s else if late then wait_returns False s else s)"

definition od_forget :: "conn \<Rightarrow> onDemand \<Rightarrow> onDemand" where
  "od_forget c s = s\<lparr>odClosed := insert c (odClosed s), odConns := odConns s - {c}\<rparr>"

definition set_phase :: "nat \<Rightarrow> relay_phase \<Rightarrow> onDemand \<Rightarrow> onDemand" where
  "set_phase i p s = s\<lparr>odRelays := (odRelays s)[i := p]\<rparr>"

definition end_relay :: "nat \<Rightarrow> onDemand \<Rightarrow> onDemand" where
  "end_relay i s = set_phase i REnded (od_forget (Down i) s)"

datatype od_event =
  Accept int | ServeEnds
| Poll bool bool | PollCancelled | SendReady
| Take nat | GiveUp nat | PassOn nat | Dial nat bool | AddUp nat | Copied nat
| Stop | StopConns | StopService
| GroupIs int | SocketTaken | CtxDone

fun relay_at :: "nat \<Rightarrow> onDemand \<Rightarrow> relay_phase option" where
  "relay_at i s = (if i < length (odRelays s) then Some (odRelays s ! i) else None)"

text \<open>\<open>wait\<close>: take the answer, then pass it on; \<open>relay\<close> ends if it is an error.\<close>

definition wait_take :: "nat \<Rightarrow> onDemand \<Rightarrow> onDemand option" where
  "wait_take i s =
     (case (relay_at i s, odReady s) of
        (Some RWaiting, Some r) \<Rightarrow> Some (set_phase i (RHolding r) (s\<lparr>odReady := None\<rparr>))
      | _ \<Rightarrow> None)"

definition wait_pass :: "nat \<Rightarrow> onDemand \<Rightarrow> onDemand option" where
  "wait_pass i s =
     (case (relay_at i s, odReady s) of
        (Some (RHolding r), None) \<Rightarrow>
          (let s1 = s\<lparr>odReady := Some r\<rparr> in Some (if r then set_phase i RReady s1 else end_relay i s1))
      | _ \<Rightarrow> None)"

text \<open>The rest of \<open>relay\<close>; a dial fails when the context is done.\<close>

definition relay_dial :: "nat \<Rightarrow> bool \<Rightarrow> onDemand \<Rightarrow> onDemand option" where
  "relay_dial i fine s =
     (if relay_at i s = Some RReady \<and> \<not> (fine \<and> odCtx s) then Some (if fine then set_phase i RDialed s else end_relay i s) else None)"

definition relay_add :: "nat \<Rightarrow> onDemand \<Rightarrow> onDemand option" where
  "relay_add i s =
     (if relay_at i s = Some RDialed then Some (set_phase i RCopying (s\<lparr>odConns := insert (Up i) (odConns s)\<rparr>)) else None)"

definition relay_copied :: "nat \<Rightarrow> onDemand \<Rightarrow> onDemand option" where
  "relay_copied i s = (if relay_at i s = Some RCopying then Some (end_relay i (od_forget (Up i) s)) else None)"

text \<open>\<open>stop\<close>, up to each of its waits: for \<open>serve\<close>, and for the relays and \<open>waitReady\<close>.\<close>

definition stop_listener :: "onDemand \<Rightarrow> onDemand option" where
  "stop_listener s = (if odStop s = SNone then Some (s\<lparr>odOpen := False, odStop := SClosing\<rparr>) else None)"

definition stop_conns :: "onDemand \<Rightarrow> onDemand option" where
  "stop_conns s =
     (if odStop s = SClosing \<and> \<not> odServing s then Some (s\<lparr>odClosed := odClosed s \<union> odConns s, odStop := SWaiting\<rparr>) else None)"

definition stop_service :: "onDemand \<Rightarrow> onDemand option" where
  "stop_service s =
     (if odStop s = SWaiting \<and> list_all (\<lambda>p. p = REnded) (odRelays s) \<and> (case odWaiter s of WNone \<Rightarrow> True | WSent _ \<Rightarrow> True | _ \<Rightarrow> False)
      then Some (if odStarted s then s\<lparr>odSupervised := False, odGroup := 0, odStop := SStopped\<rparr>
        else s\<lparr>odSock := NoSocket, odStop := SStopped\<rparr>)
      else None)"

lemmas od_parts [simp] = wait_take_def wait_pass_def relay_dial_def relay_add_def relay_copied_def stop_listener_def stop_conns_def stop_service_def

text \<open>The steps; None is one that can't be taken now.\<close>

fun od_step :: "od_event \<Rightarrow> onDemand \<Rightarrow> onDemand option" where
  "od_step (Accept pgid) s = (if odOpen s \<and> odServing s then Some (od_accept pgid s) else None)"
| "od_step ServeEnds s = (if \<not> odOpen s \<and> odServing s then Some (s\<lparr>odServing := False\<rparr>) else None)"
| "od_step (Poll passes late) s = (if odWaiter s = WPolling then Some (wait_poll passes late s) else None)"
| "od_step PollCancelled s = (if odWaiter s = WPolling \<and> odCtx s then Some (wait_returns False s) else None)"
| "od_step SendReady s =
     (case (odWaiter s, odReady s) of
        (WReturned r, None) \<Rightarrow> Some (s\<lparr>odReady := Some r, odWaiter := WSent r\<rparr>)
      | _ \<Rightarrow> None)"
| "od_step (Take i) s = wait_take i s"
| "od_step (GiveUp i) s = (if relay_at i s = Some RWaiting \<and> odCtx s then Some (end_relay i s) else None)"
| "od_step (PassOn i) s = wait_pass i s"
| "od_step (Dial i fine) s = relay_dial i fine s"
| "od_step (AddUp i) s = relay_add i s"
| "od_step (Copied i) s = relay_copied i s"
| "od_step Stop s = stop_listener s"
| "od_step StopConns s = stop_conns s"
| "od_step StopService s = stop_service s"
| "od_step (GroupIs g) s = (if odSupervised s then Some (s\<lparr>odGroup := g\<rparr>) else None)"
| "od_step SocketTaken s = (if odSupervised s \<and> odNetwork s = Unix then Some (s\<lparr>odSock := ServiceSocket\<rparr>) else None)"
| "od_step CtxDone s = Some (s\<lparr>odCtx := True\<rparr>)"

definition od_steps :: "od_event list \<Rightarrow> onDemand \<Rightarrow> onDemand option" where
  "od_steps es s = fold_opt od_step es s"

text \<open>The services \<open>run\<close>'s readiness asks: one that hasn't started is ready, as its socket is.\<close>

definition asked :: "(string \<times> onDemand) list \<Rightarrow> (string \<times> service) list \<Rightarrow> (string \<times> service) list" where
  "asked lazy services = filter (\<lambda>x. case map_of lazy (fst x) of None \<Rightarrow> True | Some o1 \<Rightarrow> odStarted o1) services"

end
