(* ===== verification/InitLaws.thy ===== *)
theory InitLaws
  imports InitServices
begin

text \<open>
  A service on demand is started once, gets connections only when it is ready, and answers each of those that wait; a supervised
  service's restarts are paced.
\<close>

section \<open>The state of a service on demand\<close>

definition is_holding :: "relay_phase \<Rightarrow> bool" where
  "is_holding p \<longleftrightarrow> (\<exists>r. p = RHolding r)"

definition relays_on :: "relay_phase \<Rightarrow> bool" where
  "relays_on p \<longleftrightarrow> p = RReady \<or> p = RDialed \<or> p = RCopying"

text \<open>The answer is in the channel or with one connection, and there is one answer.\<close>

definition one_answer :: "bool \<Rightarrow> onDemand \<Rightarrow> bool" where
  "one_answer r s \<longleftrightarrow>
     (odReady s = Some r \<and> (\<forall>p \<in> set (odRelays s). \<not> is_holding p))
     \<or> (odReady s = None \<and> (\<exists>i < length (odRelays s). odRelays s ! i = RHolding r
          \<and> (\<forall>j < length (odRelays s). j \<noteq> i \<longrightarrow> \<not> is_holding (odRelays s ! j))))"

definition answers_inv :: "onDemand \<Rightarrow> bool" where
  "answers_inv s = (case odWaiter s of
      WSent r \<Rightarrow> one_answer r s \<and> (\<forall>p \<in> set (odRelays s). relays_on p \<longrightarrow> r)
    | _ \<Rightarrow> odReady s = None \<and> (\<forall>p \<in> set (odRelays s). \<not> is_holding p \<and> \<not> relays_on p))"

definition start_inv :: "onDemand \<Rightarrow> bool" where
  "start_inv s \<longleftrightarrow> (odStarted s \<longleftrightarrow> odWaiter s \<noteq> WNone) \<and> (odRelays s \<noteq> [] \<longrightarrow> odStarted s)
     \<and> (odSupervised s \<longleftrightarrow> odStarted s \<and> odStop s \<noteq> SStopped)
     \<and> (odOpen s \<longleftrightarrow> odStop s = SNone \<and> (if odNetwork s = TCP then \<not> odStarted s else odWaiter s = WNone \<or> odWaiter s = WPolling))
     \<and> (odNetwork s = Unix \<and> \<not> odStarted s \<longrightarrow> odSock s = (if odStop s = SStopped then NoSocket else OwnSocket))
     \<and> (odNetwork s = Unix \<and> odStarted s \<longrightarrow> odSock s \<noteq> NoSocket)
     \<and> (odNetwork s = Unix \<and> (odWaiter s = WReturned True \<or> odWaiter s = WSent True) \<longrightarrow> odSock s = ServiceSocket)"

definition conns_of :: "relay_phase list \<Rightarrow> conn set" where
  "conns_of ps = {Down i | i. i < length ps \<and> ps ! i \<noteq> REnded} \<union> {Up i | i. i < length ps \<and> ps ! i = RCopying}"

definition conns_inv :: "onDemand \<Rightarrow> bool" where
  "conns_inv s \<longleftrightarrow>
     odConns s = conns_of (odRelays s)
     \<and> (\<forall>i < length (odRelays s). odRelays s ! i = REnded \<longrightarrow> Down i \<in> odClosed s)
     \<and> (odStop s = SWaiting \<or> odStop s = SStopped \<longrightarrow> \<not> odServing s \<and> (\<forall>i < length (odRelays s). Down i \<in> odClosed s))
     \<and> (odStop s = SStopped \<longrightarrow> (\<forall>p \<in> set (odRelays s). p = REnded))"

lemma set_phase_all: "i < length ps \<Longrightarrow> (\<forall>p \<in> set (ps[i := q]). P p) \<longleftrightarrow> P q \<and> (\<forall>j < length ps. j \<noteq> i \<longrightarrow> P (ps ! j))"
  by (auto simp: all_set_conv_all_nth nth_list_update)

fun relay_of :: "od_event \<Rightarrow> nat option" where
  "relay_of (Take i) = Some i" | "relay_of (GiveUp i) = Some i" | "relay_of (PassOn i) = Some i"
| "relay_of (Dial i _) = Some i" | "relay_of (AddUp i) = Some i" | "relay_of (Copied i) = Some i"
| "relay_of _ = None"

text \<open>What a relay does, by the phase it leaves.\<close>

lemma end_relay_simps: "end_relay i s = s\<lparr>odRelays := (odRelays s)[i := REnded], odConns := odConns s - {Down i}, odClosed := insert (Down i) (odClosed s)\<rparr>"
  by (simp add: end_relay_def set_phase_def od_forget_def)

lemma relay_step_cases:
  assumes "od_step e s = Some t" "relay_of e = Some i"
  obtains (Take) r where "i < length (odRelays s)" "odRelays s ! i = RWaiting" "odReady s = Some r" "e = Take i"
      "t = s\<lparr>odReady := None, odRelays := (odRelays s)[i := RHolding r]\<rparr>"
    | (PassOn) "i < length (odRelays s)" "odRelays s ! i = RHolding True" "odReady s = None" "e = PassOn i"
      "t = s\<lparr>odReady := Some True, odRelays := (odRelays s)[i := RReady]\<rparr>"
    | (Refuse) "i < length (odRelays s)" "odRelays s ! i = RHolding False" "odReady s = None" "e = PassOn i"
      "t = end_relay i (s\<lparr>odReady := Some False\<rparr>)"
    | (End) "i < length (odRelays s)" "odRelays s ! i = RWaiting \<or> odRelays s ! i = RReady" "e = GiveUp i \<or> e = Dial i False" "t = end_relay i s"
    | (Dial) "i < length (odRelays s)" "odRelays s ! i = RReady" "e = Dial i True" "t = s\<lparr>odRelays := (odRelays s)[i := RDialed]\<rparr>"
    | (AddUp) "i < length (odRelays s)" "odRelays s ! i = RDialed" "e = AddUp i"
      "t = s\<lparr>odConns := insert (Up i) (odConns s), odRelays := (odRelays s)[i := RCopying]\<rparr>"
    | (Copied) "i < length (odRelays s)" "odRelays s ! i = RCopying" "e = Copied i" "t = end_relay i (od_forget (Up i) s)"
proof (cases e)
  case (Take j)
  then show ?thesis using assms that(1) by (auto simp: set_phase_def split: if_splits option.splits relay_phase.splits)
next
  case (GiveUp j)
  then show ?thesis using assms that(4) by (auto split: if_splits)
next
  case (PassOn j)
  then obtain r where r: "i < length (odRelays s)" "odRelays s ! i = RHolding r" "odReady s = None" "e = PassOn i"
      "t = (let s1 = s\<lparr>odReady := Some r\<rparr> in if r then set_phase i RReady s1 else end_relay i s1)"
    using assms by (auto simp: Let_def split: if_splits option.splits relay_phase.splits)
  then show ?thesis using that(2,3) by (cases r) (simp_all add: set_phase_def)
next
  case (Dial j b)
  then show ?thesis using assms that(4,5) by (cases b) (auto simp: set_phase_def split: if_splits)
next
  case (AddUp j)
  then show ?thesis using assms that(6) by (auto simp: set_phase_def split: if_splits)
next
  case (Copied j)
  then show ?thesis using assms that(7) by (auto split: if_splits)
qed (use assms(2) in \<open>simp_all only: relay_of.simps option.distinct\<close>)

lemma relay_step_frame:
  assumes "od_step e s = Some t" "relay_of e = Some i"
  shows "odNetwork t = odNetwork s" "odOpen t = odOpen s" "odServing t = odServing s" "odSock t = odSock s" "odStarted t = odStarted s"
    "odWaiter t = odWaiter s" "odStop t = odStop s" "odSupervised t = odSupervised s" "length (odRelays t) = length (odRelays s)"
  by (cases rule: relay_step_cases [OF assms]; simp add: end_relay_simps od_forget_def)+

lemma wait_poll_outcome:
  "wait_poll passes late s = s \<or> wait_poll passes late s = wait_returns False s
   \<or> wait_poll passes late s = wait_returns True s \<and> (odNetwork s = Unix \<longrightarrow> odSock s = ServiceSocket)"
  unfolding wait_poll_def Let_def replaced_def by argo

text \<open>What the other goroutines and the world do.\<close>

lemma main_step_cases:
  assumes "od_step e s = Some t" "relay_of e = None"
  obtains (Reject) "t = s"
    | (Accept) "odOpen s" "odServing s" "odStarted s"
      "t = s\<lparr>odConns := insert (Down (length (odRelays s))) (odConns s), odRelays := odRelays s @ [RWaiting]\<rparr>"
    | (Start) "odOpen s" "odServing s" "\<not> odStarted s"
      "t = s\<lparr>odOpen := odNetwork s \<noteq> TCP, odStarted := True, odSupervised := True, odWaiter := WPolling,
        odConns := insert (Down (length (odRelays s))) (odConns s), odRelays := odRelays s @ [RWaiting]\<rparr>"
    | (ServeEnds) "\<not> odOpen s" "t = s\<lparr>odServing := False\<rparr>"
    | (Returns) fine where "odWaiter s = WPolling" "fine \<Longrightarrow> odNetwork s = Unix \<Longrightarrow> odSock s = ServiceSocket" "t = wait_returns fine s"
    | (SendReady) r where "odWaiter s = WReturned r" "odReady s = None" "t = s\<lparr>odReady := Some r, odWaiter := WSent r\<rparr>"
    | (Stop) "odStop s = SNone" "t = s\<lparr>odOpen := False, odStop := SClosing\<rparr>"
    | (StopConns) "odStop s = SClosing" "\<not> odServing s" "t = s\<lparr>odClosed := odClosed s \<union> odConns s, odStop := SWaiting\<rparr>"
    | (StopStarted) "odStop s = SWaiting" "\<forall>p \<in> set (odRelays s). p = REnded" "odStarted s"
      "t = s\<lparr>odSupervised := False, odGroup := 0, odStop := SStopped\<rparr>"
    | (StopOwn) "odStop s = SWaiting" "\<forall>p \<in> set (odRelays s). p = REnded" "\<not> odStarted s" "t = s\<lparr>odSock := NoSocket, odStop := SStopped\<rparr>"
    | (GroupIs) g where "t = s\<lparr>odGroup := g\<rparr>"
    | (SocketTaken) "odSupervised s" "odNetwork s = Unix" "t = s\<lparr>odSock := ServiceSocket\<rparr>"
    | (CtxDone) "t = s\<lparr>odCtx := True\<rparr>"
proof (cases e)
  case (Accept pgid)
  then have g: "odOpen s" "odServing s" "t = od_accept pgid s" using assms(1) by (simp_all split: if_splits)
  show ?thesis
  proof (cases "odStarted s")
    case True
    show ?thesis
    proof (cases "fromService pgid s")
      case True
      then show ?thesis using g(3) \<open>odStarted s\<close> by (intro that(1)) (simp add: od_accept_def)
    next
      case False
      then show ?thesis using g True by (intro that(2)) (simp_all add: od_accept_def)
    qed
  next
    case False
    then show ?thesis using g that(3) by (simp add: od_accept_def)
  qed
next
  case ServeEnds
  then show ?thesis using assms(1) that(4) by (simp split: if_splits)
next
  case (Poll fine late)
  then have "odWaiter s = WPolling" "t = wait_poll fine late s" using assms(1) by (simp_all split: if_splits)
  then show ?thesis using wait_poll_outcome [of fine late s] that(1) that(5) [of True] that(5) [of False] by argo
next
  case PollCancelled
  then show ?thesis using assms(1) that(5) [of False] by (simp split: if_splits)
next
  case SendReady
  then show ?thesis using assms(1) that(6) by (cases "odWaiter s"; cases "odReady s") simp_all
next
  case Stop
  then show ?thesis using assms(1) that(7) by (simp split: if_splits)
next
  case StopConns
  then show ?thesis using assms(1) that(8) by (simp split: if_splits)
next
  case StopService
  then show ?thesis using assms(1) that(9,10) by (cases "odStarted s") (simp_all add: list_all_iff split: if_splits)
next
  case (GroupIs g)
  then show ?thesis using assms(1) that(11) [of g] by (simp split: if_splits)
next
  case SocketTaken
  then show ?thesis using assms(1) that(12) by (simp split: if_splits)
next
  case CtxDone
  then show ?thesis using assms(1) that(13) by simp
qed (use assms(2) in \<open>simp_all only: relay_of.simps option.distinct\<close>)

lemma start_inv_step:
  assumes "start_inv s" "od_step e s = Some t"
  shows "start_inv t"
proof (cases "relay_of e")
  case (Some i)
  have "odRelays t = [] \<longleftrightarrow> odRelays s = []" using relay_step_frame(9) [OF assms(2) Some] by (metis length_0_conv)
  then show ?thesis using assms(1) unfolding start_inv_def relay_step_frame [OF assms(2) Some] by argo
next
  case None
  show ?thesis
    using assms(1) by (cases rule: main_step_cases [OF assms(2) None]; cases "odNetwork s"; simp add: start_inv_def wait_returns_def; fastforce?)
qed

lemma conns_of_mem: "Down i \<in> conns_of ps \<longleftrightarrow> i < length ps \<and> ps ! i \<noteq> REnded" "Up i \<in> conns_of ps \<longleftrightarrow> i < length ps \<and> ps ! i = RCopying"
  by (simp_all add: conns_of_def)

lemma conns_eqI: "(\<And>i. Down i \<in> A \<longleftrightarrow> Down i \<in> B) \<Longrightarrow> (\<And>i. Up i \<in> A \<longleftrightarrow> Up i \<in> B) \<Longrightarrow> A = (B :: conn set)"
  by (metis conn.exhaust set_eqI)

lemma conns_of_accept: "conns_of (ps @ [RWaiting]) = insert (Down (length ps)) (conns_of ps)"
  by (rule conns_eqI) (auto simp: conns_of_mem nth_append less_Suc_eq)

lemma conns_relay:
  assumes "odConns s = conns_of (odRelays s)" "od_step e s = Some t" "relay_of e = Some i"
  shows "odConns t = conns_of (odRelays t)"
  by (cases rule: relay_step_cases [OF assms(2,3)]; intro conns_eqI; simp add: assms(1) end_relay_simps od_forget_def conns_of_mem nth_list_update; fastforce?)

lemma closed_relay:
  assumes "od_step e s = Some t" "relay_of e = Some i"
  shows "odRelays s ! i \<noteq> REnded" "odClosed s \<subseteq> odClosed t" "\<And>j. j \<noteq> i \<Longrightarrow> odRelays t ! j = odRelays s ! j"
    "odRelays t ! i = REnded \<Longrightarrow> Down i \<in> odClosed t" "i < length (odRelays s)"
  by (cases rule: relay_step_cases [OF assms]; auto simp: end_relay_simps od_forget_def)+

lemma conns_inv_step:
  assumes "conns_inv s" "od_step e s = Some t"
  shows "conns_inv t"
proof (cases "relay_of e")
  case (Some i)
  note c = closed_relay [OF assms(2) Some] and f = relay_step_frame [OF assms(2) Some]
  have "odConns t = conns_of (odRelays t)" using conns_relay [OF _ assms(2) Some] assms(1) by (simp add: conns_inv_def)
  moreover have "\<forall>j < length (odRelays t). odRelays t ! j = REnded \<longrightarrow> Down j \<in> odClosed t"
    using assms(1) c f(9) by (metis conns_inv_def subsetD)
  moreover have "odStop s \<noteq> SStopped" using assms(1) c(1,5) by (auto simp: conns_inv_def)
  ultimately show ?thesis using assms(1) c(2) f unfolding conns_inv_def by auto
next
  case None
  show ?thesis
    using assms(1)
    by (cases rule: main_step_cases [OF assms(2) None];
        simp add: conns_inv_def wait_returns_def conns_of_accept conns_of_mem nth_append less_Suc_eq; fastforce?)
qed

section \<open>Answers\<close>

lemma one_answer_full: "odReady s = Some r \<Longrightarrow> one_answer q s \<longleftrightarrow> r = q \<and> (\<forall>p \<in> set (odRelays s). \<not> is_holding p)"
  by (auto simp: one_answer_def)

lemma one_answer_empty:
  "odReady s = None \<Longrightarrow> one_answer q s \<longleftrightarrow> (\<exists>i < length (odRelays s). odRelays s ! i = RHolding q
     \<and> (\<forall>j < length (odRelays s). j \<noteq> i \<longrightarrow> \<not> is_holding (odRelays s ! j)))"
  by (simp add: one_answer_def)

lemma phases [simp]: "is_holding (RHolding r)" "\<not> is_holding RWaiting" "\<not> is_holding RReady" "\<not> is_holding RDialed" "\<not> is_holding RCopying"
  "\<not> is_holding REnded" "\<not> relays_on RWaiting" "\<not> relays_on (RHolding r)" "\<not> relays_on REnded" "relays_on RReady" "relays_on RDialed" "relays_on RCopying"
  by (simp_all add: is_holding_def relays_on_def)

text \<open>A relay that neither takes nor passes on the answer leaves it where it is.\<close>

lemma one_answer_other:
  assumes "one_answer q s" "i < length (odRelays s)" "\<not> is_holding (odRelays s ! i)" "\<not> is_holding p"
    "odRelays t = (odRelays s)[i := p]" "odReady t = odReady s"
  shows "one_answer q t"
proof (cases "odReady s")
  case None
  then obtain j where "j < length (odRelays s)" "odRelays s ! j = RHolding q" "\<forall>k < length (odRelays s). k \<noteq> j \<longrightarrow> \<not> is_holding (odRelays s ! k)"
    using assms(1) by (auto simp: one_answer_empty)
  moreover have "i \<noteq> j" using assms(3) calculation(2) by auto
  ultimately show ?thesis using None assms(2,4-6) by (auto simp: one_answer_empty nth_list_update intro!: exI [of _ j] split: if_splits)
qed (use assms in \<open>auto simp: one_answer_full set_phase_all\<close>)

lemma one_answer_take:
  assumes "one_answer q s" "odReady s = Some r" "i < length (odRelays s)"
  shows "r = q" "one_answer q (s\<lparr>odReady := None, odRelays := (odRelays s)[i := RHolding r]\<rparr>)"
  using assms by (auto simp: one_answer_full one_answer_empty nth_list_update all_set_conv_all_nth intro!: exI [of _ i])

lemma one_answer_pass:
  assumes "one_answer q s" "odReady s = None" "i < length (odRelays s)" "odRelays s ! i = RHolding r" "\<not> is_holding p"
    "odRelays t = (odRelays s)[i := p]" "odReady t = Some r"
  shows "r = q \<and> one_answer q t"
proof -
  obtain j where "j < length (odRelays s)" "odRelays s ! j = RHolding q" "\<forall>k < length (odRelays s). k \<noteq> j \<longrightarrow> \<not> is_holding (odRelays s ! k)"
    using assms(1,2) by (auto simp: one_answer_empty)
  moreover have "i = j" using assms(3,4) calculation(3) by (metis phases(1))
  ultimately show ?thesis using assms by (simp add: one_answer_full set_phase_all)
qed

lemma answers_before: "answers_inv s \<Longrightarrow> \<nexists>r. odWaiter s = WSent r \<Longrightarrow> odReady s = None \<and> (\<forall>p \<in> set (odRelays s). \<not> is_holding p \<and> \<not> relays_on p)"
  by (auto simp: answers_inv_def split: waiter.splits)

lemma answers_inv_cong:
  "odWaiter t = odWaiter s \<Longrightarrow> odReady t = odReady s \<Longrightarrow> odRelays t = odRelays s \<Longrightarrow> answers_inv t = answers_inv s"
  by (simp add: answers_inv_def one_answer_def split: waiter.split)

lemma answers_inv_sent:
  "odWaiter s = WSent r \<Longrightarrow> answers_inv s \<longleftrightarrow> one_answer r s \<and> (\<forall>p \<in> set (odRelays s). relays_on p \<longrightarrow> r)"
  by (simp add: answers_inv_def)

lemma answers_inv_relay:
  assumes "answers_inv s" "od_step e s = Some t" "relay_of e = Some i"
  shows "answers_inv t"
proof (cases "\<exists>r. odWaiter s = WSent r")
  case True
  then obtain q where q: "odWaiter s = WSent q" "odWaiter t = WSent q" using relay_step_frame(6) [OF assms(2,3)] by auto
  then have inv: "one_answer q s" "\<forall>p \<in> set (odRelays s). relays_on p \<longrightarrow> q" using assms(1) by (simp_all add: answers_inv_sent)
  have on: "\<forall>x \<in> set ((odRelays s)[i := p]). relays_on x \<longrightarrow> q" if "relays_on p \<Longrightarrow> q" for p
    using that inv(2) set_update_subset_insert [of "odRelays s" i p] by blast
  have "one_answer q t \<and> (\<forall>p \<in> set (odRelays t). relays_on p \<longrightarrow> q)"
    using assms(2,3)
  proof (cases rule: relay_step_cases)
    case (Take r)
    then show ?thesis using one_answer_take [OF inv(1) Take(3,1)] on [of "RHolding r"] by simp
  next
    case PassOn
    then show ?thesis using one_answer_pass [OF inv(1) PassOn(3,1,2), of RReady t] on [of RReady] by auto
  next
    case Refuse
    then show ?thesis using one_answer_pass [OF inv(1) Refuse(3,1,2), of REnded t] on [of REnded] by (cases q) (simp_all add: end_relay_simps)
  next
    case End
    then show ?thesis using one_answer_other [OF inv(1) End(1), of REnded t] on [of REnded] by (auto simp: end_relay_simps)
  next
    case Dial
    then have yes: "q" using inv(2) [rule_format, OF nth_mem [OF Dial(1)]] by simp
    then show ?thesis using one_answer_other [OF inv(1) Dial(1), of RDialed t] Dial by simp
  next
    case AddUp
    then have yes: "q" using inv(2) [rule_format, OF nth_mem [OF AddUp(1)]] by simp
    then show ?thesis using one_answer_other [OF inv(1) AddUp(1), of RCopying t] AddUp by simp
  next
    case Copied
    then show ?thesis using one_answer_other [OF inv(1) Copied(1), of REnded t] on [of REnded] by (simp add: end_relay_simps od_forget_def)
  qed
  then show ?thesis using q(2) by (simp add: answers_inv_sent)
next
  case False
  then have none: "odReady s = None" "\<forall>p \<in> set (odRelays s). \<not> is_holding p \<and> \<not> relays_on p" using answers_before [OF assms(1)] by auto
  then have p: "\<not> is_holding (odRelays s ! j) \<and> \<not> relays_on (odRelays s ! j)" if "j < length (odRelays s)" for j using that by simp
  have "odReady t = None \<and> (\<forall>p \<in> set (odRelays t). \<not> is_holding p \<and> \<not> relays_on p)"
    by (cases rule: relay_step_cases [OF assms(2,3)]) (use none(1) p [of i] p in \<open>auto simp: end_relay_simps set_phase_all\<close>)
  then show ?thesis using relay_step_frame(6) [OF assms(2,3)] False by (simp add: answers_inv_def split: waiter.splits)
qed

lemma answers_inv_step:
  assumes "answers_inv s" "start_inv s" "od_step e s = Some t"
  shows "answers_inv t"
proof (cases "relay_of e")
  case (Some i)
  then show ?thesis by (rule answers_inv_relay [OF assms(1,3)])
next
  case None
  with assms(3) show ?thesis
  proof (cases rule: main_step_cases)
    case Accept
    then show ?thesis using assms(1)
      by (auto simp: answers_inv_def one_answer_def nth_append less_Suc_eq split: waiter.splits)
  next
    case Start
    then have "odWaiter s = WNone" using assms(2) by (simp add: start_inv_def)
    then show ?thesis using Start assms(1) by (simp add: answers_inv_def)
  next
    case (SendReady r)
    then show ?thesis using assms(1) by (simp add: answers_inv_def one_answer_def)
  next
    case (Returns fine)
    then show ?thesis using assms(1) by (simp add: answers_inv_def wait_returns_def)
  qed (use assms(1) answers_inv_cong [of t s] in simp_all)
qed

section \<open>Runs\<close>

definition od_inv :: "onDemand \<Rightarrow> bool" where
  "od_inv s \<longleftrightarrow> start_inv s \<and> conns_inv s \<and> answers_inv s"

lemma od_inv_step: "od_inv s \<Longrightarrow> od_step e s = Some t \<Longrightarrow> od_inv t"
  unfolding od_inv_def using start_inv_step conns_inv_step answers_inv_step by blast

lemma od_inv_steps: "od_inv s \<Longrightarrow> od_steps es s = Some t \<Longrightarrow> od_inv t"
  by (induction es arbitrary: s) (auto simp: od_steps_def split: option.splits intro: od_inv_step)

lemma od_inv_listen: "listenOnDemand svc listens = Some s \<Longrightarrow> od_inv s"
  by (auto simp: listenOnDemand_def od_inv_def start_inv_def conns_inv_def answers_inv_def conns_of_def split: option.splits if_splits prod.splits)

lemma reached: "listenOnDemand svc listens = Some s0 \<Longrightarrow> od_steps es s0 = Some s \<Longrightarrow> od_inv s"
  using od_inv_listen od_inv_steps by blast

text \<open>The work left before every connection has its answer.\<close>

fun is_answer :: "od_event \<Rightarrow> bool" where
  "is_answer (Take i) = True"
| "is_answer (PassOn i) = True"
| "is_answer _ = False"

fun answer_work :: "relay_phase \<Rightarrow> nat" where
  "answer_work RWaiting = 2"
| "answer_work (RHolding r) = 1"
| "answer_work _ = 0"

definition work_left :: "onDemand \<Rightarrow> nat" where
  "work_left s = sum_list (map answer_work (odRelays s))"

lemma answer_step_cases:
  assumes "od_step e s = Some t" "is_answer e"
  obtains i where "relay_of e = Some i" "i < length (odRelays s)" "odRelays s ! i = RWaiting" "odRelays t = (odRelays s)[i := RHolding (the (odReady s))]" "odReady s \<noteq> None"
    | i r where "relay_of e = Some i" "i < length (odRelays s)" "odRelays s ! i = RHolding r" "odRelays t = (odRelays s)[i := if r then RReady else REnded]"
proof -
  obtain i where i: "relay_of e = Some i" using assms(2) by (cases e) auto
  with assms(1) show ?thesis
  proof (cases rule: relay_step_cases)
    case (Take r)
    then show ?thesis by (intro that(1) [OF i]) simp_all
  next
    case PassOn
    then show ?thesis by (intro that(2) [OF i, of True]) simp_all
  next
    case Refuse
    then show ?thesis by (intro that(2) [OF i, of False]) (simp_all add: end_relay_simps)
  next
    case End
    then show ?thesis using assms(2) by auto
  qed (use assms(2) in \<open>simp_all only: is_answer.simps\<close>)
qed

lemma work_left_step:
  assumes "od_step e s = Some t" "is_answer e"
  shows "work_left t < work_left s"
proof -
  have less: "sum_list (map answer_work (ps[i := p])) < sum_list (map answer_work ps)"
    if "i < length ps" "answer_work p < answer_work (ps ! i)" for ps i p
  proof -
    have "answer_work (ps ! i) \<le> sum_list (map answer_work ps)" using that(1) by (intro member_le_sum_list) simp_all
    then show ?thesis using that by (simp add: map_update sum_list_update)
  qed
  show ?thesis by (cases rule: answer_step_cases [OF assms]) (simp_all add: work_left_def less)
qed

lemma work_left_bound: "work_left s \<le> 2 * length (odRelays s)"
proof -
  have "sum_list (map answer_work ps) \<le> 2 * length ps" for ps
  proof (induction ps)
    case (Cons p ps)
    then show ?case by (cases p) auto
  qed simp
  then show ?thesis by (simp add: work_left_def)
qed

lemma work_left_steps:
  "od_steps es s = Some t \<Longrightarrow> list_all is_answer es \<Longrightarrow> length es + work_left t \<le> work_left s"
proof (induction es arbitrary: s)
  case (Cons e es)
  then obtain s1 where s1: "od_step e s = Some s1" "od_steps es s1 = Some t" by (auto simp: od_steps_def split: option.splits)
  with Cons have "length es + work_left t \<le> work_left s1" by simp
  with work_left_step [OF s1(1)] Cons.prems(2) show ?case by simp
qed (simp add: od_steps_def)

text \<open>A connection with no answer yet keeps waiting for it, holds it or has followed it.\<close>

definition follows :: "bool \<Rightarrow> relay_phase \<Rightarrow> bool" where
  "follows r p \<longleftrightarrow> p = RWaiting \<or> p = RHolding r \<or> p = (if r then RReady else REnded)"

lemma sent_holding: "od_inv s \<Longrightarrow> odWaiter s = WSent r \<Longrightarrow> i < length (odRelays s) \<Longrightarrow> odRelays s ! i = RHolding q \<Longrightarrow> q = r"
  by (auto simp: od_inv_def answers_inv_sent one_answer_def all_set_conv_all_nth)

lemma sent_ready: "od_inv s \<Longrightarrow> odWaiter s = WSent r \<Longrightarrow> odReady s = Some q \<Longrightarrow> q = r"
  by (simp add: od_inv_def answers_inv_sent one_answer_full)

lemma follows_step:
  assumes "od_inv s" "odWaiter s = WSent r" "od_step e s = Some t" "is_answer e" "follows r (odRelays s ! j)" "j < length (odRelays s)"
  shows "follows r (odRelays t ! j)" "odWaiter t = WSent r" "length (odRelays t) = length (odRelays s)"
proof -
  show "follows r (odRelays t ! j)"
    by (cases rule: answer_step_cases [OF assms(3,4)])
      (use assms(5,6) sent_ready [OF assms(1,2)] sent_holding [OF assms(1,2)] in \<open>auto simp: follows_def nth_list_update\<close>)
  obtain i where i: "relay_of e = Some i" using assms(4) by (cases e) auto
  show "odWaiter t = WSent r" "length (odRelays t) = length (odRelays s)" using relay_step_frame(6,9) [OF assms(3) i] assms(2) by simp_all
qed

lemma follows_steps:
  assumes "od_inv s" "odWaiter s = WSent r" "od_steps es s = Some t" "list_all is_answer es" "follows r (odRelays s ! j)" "j < length (odRelays s)"
  shows "follows r (odRelays t ! j) \<and> odWaiter t = WSent r \<and> length (odRelays t) = length (odRelays s)"
  using assms
proof (induction es arbitrary: s)
  case (Cons e es)
  then obtain s1 where s1: "od_step e s = Some s1" "od_steps es s1 = Some t" by (auto simp: od_steps_def split: option.splits)
  have "is_answer e" using Cons.prems(4) by simp
  note f = follows_step [OF Cons.prems(1,2) s1(1) this Cons.prems(5,6)]
  show ?case using Cons.IH [OF od_inv_step [OF Cons.prems(1) s1(1)] f(2) s1(2) _ f(1)] Cons.prems(4,6) f(3) by simp
qed (simp add: od_steps_def)

text \<open>With the answer there, nobody waits once nobody can go on.\<close>

lemma stuck_answered:
  assumes "od_inv t" "odWaiter t = WSent r" "\<forall>e. is_answer e \<longrightarrow> od_step e t = None" "j < length (odRelays t)"
  shows "odRelays t ! j \<noteq> RWaiting" "odRelays t ! j \<noteq> RHolding q"
proof -
  have ans: "one_answer r t" using assms(1,2) by (simp add: od_inv_def answers_inv_sent)
  have "odReady t \<noteq> None"
  proof
    assume none: "odReady t = None"
    then obtain i where "i < length (odRelays t)" "odRelays t ! i = RHolding r" using ans by (auto simp: one_answer_empty)
    then have "od_step (PassOn i) t \<noteq> None" using none by (simp add: Let_def)
    then show False using assms(3) by (metis is_answer.simps(2))
  qed
  then obtain q' where full: "odReady t = Some q'" by auto
  then show "odRelays t ! j \<noteq> RHolding q" using ans assms(4) by (metis one_answer_full nth_mem phases(1))
  have "od_step (Take j) t = None" using assms(3) is_answer.simps(1) by blast
  then show "odRelays t ! j \<noteq> RWaiting" using full assms(4) by auto
qed

section \<open>Supervised services\<close>

text \<open>The pauses between restarts stay in their bounds and double up to the longest while no run is stable.\<close>

lemma supervisor_pauses:
  assumes "supervisor_run b rs = (ps, returned)" "minBackoff \<le> b" "b \<le> maxBackoff"
  shows "(\<forall>p \<in> set ps. minBackoff \<le> p \<and> p \<le> maxBackoff) \<and> length ps \<le> length rs
    \<and> (\<forall>k < length ps. (\<forall>j \<le> k. srLasted (rs ! j) \<le> stableRun) \<longrightarrow> ps ! k = min (2 ^ k * b) maxBackoff)
    \<and> (\<forall>k < length rs. srQuitAtExit (rs ! k) \<or> srQuitInPause (rs ! k) \<longrightarrow> returned \<and> length ps \<le> Suc k)"
  using assms
proof (induction rs arbitrary: b ps)
  case (Cons r rs)
  define d where "d = (if srLasted r > stableRun then minBackoff else b)"
  have d: "minBackoff \<le> d" "d \<le> maxBackoff" using Cons.prems(2,3) by (auto simp: d_def minBackoff_def maxBackoff_def)
  consider "srQuitAtExit r" "ps = []" "returned" | "srQuitInPause r" "ps = [d]" "returned"
    | ps' where "\<not> srQuitAtExit r" "\<not> srQuitInPause r" "ps = d # ps'" "supervisor_run (min (2 * d) maxBackoff) rs = (ps', returned)"
    using Cons.prems(1) by (auto simp: d_def Let_def split: if_splits prod.splits)
  then show ?case
  proof cases
    case 3
    have "minBackoff \<le> min (2 * d) maxBackoff" using d by (simp add: minBackoff_def maxBackoff_def)
    note IH = Cons.IH [OF 3(4) this min.cobounded2]
    have pow: "ps' ! k = min (2 ^ Suc k * b) maxBackoff" if "k < length ps'" "\<forall>j \<le> Suc k. srLasted ((r # rs) ! j) \<le> stableRun" for k
    proof -
      have "d = b" using that(2) by (auto simp: d_def dest: spec [of _ 0])
      moreover have "\<forall>j \<le> k. srLasted (rs ! j) \<le> stableRun" using that(2) by (metis Suc_le_mono nth_Cons_Suc)
      ultimately have "ps' ! k = min (2 ^ k * min (2 * b) maxBackoff) maxBackoff" using IH that(1) by simp
      also have "\<dots> = min (2 ^ Suc k * b) maxBackoff"
      proof (cases "2 * b \<le> maxBackoff")
        case False
        have "maxBackoff \<le> 2 ^ k * maxBackoff" "maxBackoff \<le> 2 ^ k * (2 * b)"
          using False mult_mono [of 1 "2 ^ k" maxBackoff "2 * b"] by (simp_all add: maxBackoff_def)
        then show ?thesis using False by (simp add: mult.assoc mult.left_commute)
      qed (simp add: mult.assoc mult.left_commute)
      finally show ?thesis .
    qed
    have first: "d = min b maxBackoff" if "srLasted r \<le> stableRun" using that Cons.prems(3) by (simp add: d_def)
    show ?thesis
    proof (intro conjI allI impI)
      show "\<forall>p \<in> set ps. minBackoff \<le> p \<and> p \<le> maxBackoff" "length ps \<le> length (r # rs)" using IH d 3(3) by simp_all
      show "ps ! k = min (2 ^ k * b) maxBackoff" if "k < length ps" "\<forall>j \<le> k. srLasted ((r # rs) ! j) \<le> stableRun" for k
        using that pow first 3(3) by (cases k) auto
      show "returned" "length ps \<le> Suc k" if "k < length (r # rs)" "srQuitAtExit ((r # rs) ! k) \<or> srQuitInPause ((r # rs) ! k)" for k
        using that IH 3(1-3) by (cases k; auto)+
    qed
  qed (use d Cons.prems(3) in \<open>auto simp: d_def less_Suc_eq_0_disj min_def\<close>)
qed simp

text \<open>\<open>endGroup\<close> returns only with the group empty or killed, and kills only what is left at the time it was given.\<close>

lemma end_poll_ends:
  "end_poll kill obs = (sigs, returned) \<Longrightarrow>
   (returned \<longrightarrow> sigs = [SIGKILL] \<or> sigs = [] \<and> (\<exists>now. (now, False) \<in> set obs))
   \<and> (sigs = [SIGKILL] \<longrightarrow> (\<exists>now left. (now, left) \<in> set obs \<and> kill \<le> now))
   \<and> ((\<exists>now left. (now, left) \<in> set obs \<and> kill \<le> now) \<longrightarrow> returned)"
proof (induction obs)
  case (Cons o1 obs)
  then show ?case by (cases o1) (auto split: if_splits)
qed simp

text \<open>What an error quotes of a script's output is its start.\<close>

lemma shell_output_head:
  "hbBuf (shell_output ps) = take maxShellOutput (concat ps) \<and> hbDropped (shell_output ps) = length (concat ps) - maxShellOutput"
proof -
  have "hbBuf (fold (\<lambda>p b. snd (headBuffer_Write p b)) ps b) = take (hbMax b) (hbBuf b @ concat ps)
      \<and> hbDropped (fold (\<lambda>p b. snd (headBuffer_Write p b)) ps b) = hbDropped b + (length (hbBuf b @ concat ps) - hbMax b)"
    if "length (hbBuf b) \<le> hbMax b" for b
    using that
  proof (induction ps arbitrary: b)
    case (Cons p ps)
    define c where "c = snd (headBuffer_Write p b)"
    have c: "hbMax c = hbMax b" "hbBuf c = take (hbMax b) (hbBuf b @ p)" "hbDropped c = hbDropped b + (length (hbBuf b @ p) - hbMax b)"
      using Cons.prems by (auto simp: c_def headBuffer_Write_def Let_def min_def)
    then have IH: "hbBuf (fold (\<lambda>p b. snd (headBuffer_Write p b)) ps c) = take (hbMax c) (hbBuf c @ concat ps)
      \<and> hbDropped (fold (\<lambda>p b. snd (headBuffer_Write p b)) ps c) = hbDropped c + (length (hbBuf c @ concat ps) - hbMax c)"
      by (intro Cons.IH) simp
    show ?case using IH c by (auto simp: c_def [symmetric] min_def)
  qed simp
  from this [of "\<lparr>hbMax = maxShellOutput, hbBuf = [], hbDropped = 0\<rparr>"] show ?thesis by (simp add: shell_output_def)
qed

text \<open>A service that was read from \<open>services.yaml\<close> can be listened for.\<close>

lemma parsed_services:
  assumes "parseServices yaml data = Inr ss" "(name, svc) \<in> set ss"
  shows "svRun svc \<noteq> []" "0 \<le> svPort svc \<and> svPort svc \<le> 65535" "svListen svc \<noteq> [] \<Longrightarrow> listenOnDemand svc True \<noteq> None"
proof -
  have "List.map_filter service_error ss = []" "yaml data = Some ss" using assms(1) by (auto simp: parseServices_def split: option.splits list.splits)
  then have "service_error (name, svc) = None" using assms(2) by (force simp: map_filter_def filter_empty_conv)
  then show "svRun svc \<noteq> []" "0 \<le> svPort svc \<and> svPort svc \<le> 65535" "svListen svc \<noteq> [] \<Longrightarrow> listenOnDemand svc True \<noteq> None"
    by (auto simp: service_error_def listenOnDemand_def split: if_splits)
qed

text \<open>The daemon has its answer by the first round of checks after the deadline, and \<open>ok\<close> only after a round without failures.\<close>

lemma ready_rounds_answer:
  "Some (now, errs) \<in> set obs \<Longrightarrow> deadline \<le> now \<Longrightarrow> ready_rounds deadline obs \<noteq> StillWaiting"
  "ready_rounds deadline obs = ReadyOK \<Longrightarrow> \<exists>now. Some (now, []) \<in> set obs"
  by (induction deadline obs rule: ready_rounds.induct) (auto split: if_splits)

section \<open>Properties\<close>

text \<open>
  C40: In every run of a service on demand, a connection is relayed only once the service's check has passed, and on a unix socket only
  when the socket is the service's own, never back to fern-init; the connections kept are those of the relays that run. The unix socket
  is listened on until the service is ready or stopped, a TCP port is let go as soon as the service starts, and the service's own
  socket is never removed. When \<open>stop\<close> has returned, nothing listens, every connection is closed and the service isn't supervised.
\<close>

theorem on_demand_safe:
  assumes "listenOnDemand svc listens = Some s0" "od_steps es s0 = Some s"
  shows "(\<forall>p \<in> set (odRelays s). p = RReady \<or> p = RDialed \<or> p = RCopying \<longrightarrow>
      odWaiter s = WSent True \<and> (odNetwork s = Unix \<longrightarrow> odSock s = ServiceSocket))
    \<and> odConns s = {Down i | i. i < length (odRelays s) \<and> odRelays s ! i \<noteq> REnded} \<union> {Up i | i. i < length (odRelays s) \<and> odRelays s ! i = RCopying}
    \<and> (odOpen s \<longleftrightarrow> odStop s = SNone \<and> (if odNetwork s = TCP then \<not> odStarted s else odWaiter s = WNone \<or> odWaiter s = WPolling))
    \<and> (odNetwork s = Unix \<and> odStarted s \<longrightarrow> odSock s \<noteq> NoSocket)
    \<and> (odStop s = SStopped \<longrightarrow> \<not> odServing s \<and> odConns s = {} \<and> \<not> odSupervised s
        \<and> (\<forall>i < length (odRelays s). odRelays s ! i = REnded \<and> Down i \<in> odClosed s)
        \<and> (odNetwork s = Unix \<and> \<not> odStarted s \<longrightarrow> odSock s = NoSocket))"
proof (intro conjI)
  have inv: "start_inv s" "conns_inv s" "answers_inv s" using reached [OF assms] by (simp_all add: od_inv_def)
  have "odWaiter s = WSent True" if "p \<in> set (odRelays s)" "relays_on p" for p
    using that inv(3) by (cases "\<exists>r. odWaiter s = WSent r") (auto simp: answers_inv_sent dest: answers_before)
  then show "\<forall>p \<in> set (odRelays s). p = RReady \<or> p = RDialed \<or> p = RCopying \<longrightarrow>
      odWaiter s = WSent True \<and> (odNetwork s = Unix \<longrightarrow> odSock s = ServiceSocket)"
    using inv(1) by (auto simp: start_inv_def relays_on_def)
  show conns: "odConns s = {Down i | i. i < length (odRelays s) \<and> odRelays s ! i \<noteq> REnded} \<union> {Up i | i. i < length (odRelays s) \<and> odRelays s ! i = RCopying}"
    using inv(2) by (simp add: conns_inv_def conns_of_def)
  show "odOpen s \<longleftrightarrow> odStop s = SNone \<and> (if odNetwork s = TCP then \<not> odStarted s else odWaiter s = WNone \<or> odWaiter s = WPolling)"
    "odNetwork s = Unix \<and> odStarted s \<longrightarrow> odSock s \<noteq> NoSocket" using inv(1) unfolding start_inv_def by argo+
  show "odStop s = SStopped \<longrightarrow> \<not> odServing s \<and> odConns s = {} \<and> \<not> odSupervised s
        \<and> (\<forall>i < length (odRelays s). odRelays s ! i = REnded \<and> Down i \<in> odClosed s)
        \<and> (odNetwork s = Unix \<and> \<not> odStarted s \<longrightarrow> odSock s = NoSocket)"
  proof (intro impI)
    assume stop: "odStop s = SStopped"
    then have "\<not> odServing s" "\<forall>i < length (odRelays s). odRelays s ! i = REnded \<and> Down i \<in> odClosed s"
      using inv(2) by (simp_all add: conns_inv_def)
    moreover have "\<not> odSupervised s" "odNetwork s = Unix \<and> \<not> odStarted s \<longrightarrow> odSock s = NoSocket"
      using inv(1) stop unfolding start_inv_def by simp_all
    ultimately show "\<not> odServing s \<and> odConns s = {} \<and> \<not> odSupervised s
        \<and> (\<forall>i < length (odRelays s). odRelays s ! i = REnded \<and> Down i \<in> odClosed s)
        \<and> (odNetwork s = Unix \<and> \<not> odStarted s \<longrightarrow> odSock s = NoSocket)"
      unfolding conns by auto
  qed
qed

definition sample_service :: service where
  "sample_service = \<lparr>svRun = ''postgres'', svStop = [], svReady = ''pg_isready'', svListen = ''unix:/run/pg'', svPort = 0\<rparr>"

definition sample_listening :: onDemand where
  "sample_listening = the (listenOnDemand sample_service True)"

definition sample_events :: "od_event list" where
  "sample_events = [Accept 0, GroupIs 5, Accept 5, Accept 7, SocketTaken, Poll True False, SendReady]"

definition sample_answered :: onDemand where
  "sample_answered = the (od_steps sample_events sample_listening)"

lemma sample_listens: "listenOnDemand sample_service True = Some sample_listening"
  unfolding sample_listening_def by code_simp

lemma sample_run:
  "od_steps sample_events sample_listening = Some sample_answered" "odWaiter sample_answered = WSent True"
  "odRelays sample_answered = [RWaiting, RWaiting]"
  unfolding sample_answered_def by code_simp+

definition sample_relayed :: onDemand where
  "sample_relayed = the (od_steps (sample_events @ [Take 1, PassOn 1, Dial 1 True]) sample_listening)"

lemma sample_relay:
  "od_steps (sample_events @ [Take 1, PassOn 1, Dial 1 True]) sample_listening = Some sample_relayed"
  "odRelays sample_relayed = [RWaiting, RDialed]" "odNetwork sample_relayed = Unix"
  unfolding sample_relayed_def by code_simp+

theorem on_demand_safe_witness:
  "odRelays sample_relayed = [RWaiting, RDialed] \<and> odSock sample_relayed = ServiceSocket \<and> \<not> odOpen sample_relayed"
  using on_demand_safe [OF sample_listens sample_relay(1)] by (simp add: sample_relay(2,3))

text \<open>
  C39: Once the service's readiness is known, every connection that waits for it learns it, in any order the scheduler takes: the
  connections take the one answer out of the channel and put it back, at most two steps for each, and when none of them can take
  such a step, none waits any more; those that waited go on to the service if it is ready and are dropped if it isn't.
\<close>

theorem on_demand_answers:
  assumes "listenOnDemand svc listens = Some s0" "od_steps es0 s0 = Some s" "odWaiter s = WSent r"
    and "od_steps es s = Some t" "list_all is_answer es"
  shows "length es \<le> 2 * length (odRelays s)
    \<and> ((\<forall>e. is_answer e \<longrightarrow> od_step e t = None) \<longrightarrow>
        (\<forall>j < length (odRelays s). (odRelays s ! j = RWaiting \<or> is_holding (odRelays s ! j)) \<longrightarrow>
          odRelays t ! j = (if r then RReady else REnded)))"
proof (intro conjI impI allI)
  note inv = reached [OF assms(1,2)]
  show "length es \<le> 2 * length (odRelays s)" using work_left_steps [OF assms(4,5)] work_left_bound [of s] by simp
  fix j assume stuck: "\<forall>e. is_answer e \<longrightarrow> od_step e t = None" and j: "j < length (odRelays s)" "odRelays s ! j = RWaiting \<or> is_holding (odRelays s ! j)"
  have "follows r (odRelays s ! j)" using j(2) sent_holding [OF inv assms(3) j(1)] by (auto simp: follows_def is_holding_def)
  with follows_steps [OF inv assms(3-5)] j(1) have t: "follows r (odRelays t ! j)" "odWaiter t = WSent r" "j < length (odRelays t)" by auto
  with stuck_answered [OF od_inv_steps [OF inv assms(4)] t(2) stuck t(3)] show "odRelays t ! j = (if r then RReady else REnded)"
    by (auto simp: follows_def)
qed

definition sample_done :: onDemand where
  "sample_done = the (od_steps [Take 1, PassOn 1, Take 0, PassOn 0] sample_answered)"

lemma sample_pass:
  "od_steps [Take 1, PassOn 1, Take 0, PassOn 0] sample_answered = Some sample_done" "odRelays sample_done = [RReady, RReady]"
  unfolding sample_done_def by code_simp+

theorem on_demand_answers_witness:
  "length [Take 1, PassOn 1, Take 0, PassOn 0] \<le> 2 * length (odRelays sample_answered) \<and> odRelays sample_done ! 0 = RReady"
proof -
  have "od_step e sample_done = None" if "is_answer e" for e
    using that by (cases e) (simp_all add: sample_pass(2) less_Suc_eq nth_Cons')
  with on_demand_answers [OF sample_listens sample_run(1,2) sample_pass(1)] show ?thesis by (simp add: sample_run(3))
qed

text \<open>
  \<open>stop\<close> is to close the relayed connections before it waits for the relays. It doesn't close one that a relay opened before and adds
  after it, so that it waits until the service ends it.
\<close>

definition race_events :: "od_event list" where
  "race_events = sample_events @ [Take 0, PassOn 0, Take 1, PassOn 1, Dial 0 True, Dial 1 False, CtxDone, ServeEnds, Stop, StopConns, AddUp 0]"

lemma stop_misses_relay:
  "(case od_steps race_events sample_listening of
      None \<Rightarrow> False
    | Some s \<Rightarrow> odStop s = SWaiting \<and> Up 0 \<in> odConns s \<and> Up 0 \<notin> odClosed s \<and> Option.is_none (od_step StopService s))"
  by code_simp

end
