(* ===== verification/Spec2Isabelle.thy ===== *)
theory Spec2Isabelle
  imports StoreInvariant SetupLaws GroupStops HibernateLaws BackupRestore BoxExecLaws BoxJobsLaws RunscAddrs WatchLaws InitLaws
begin

text \<open>
  \<^bold>\<open>Verification of fern\<close>

  fern runs coding agents on one server: every environment has a workspace (a btrfs subvolume), snapshots of it, and boxes
  (gVisor sandboxes) that commands run in. A daemon owns them. This development models the parts that own state.

  \<^bold>\<open>The parts and the theories\<close>

  \<^item> Shared: \<open>Prelude\<close> (programs with state and errors, weakest preconditions, \<open>keeps\<close>), \<open>GoStrings\<close> (strconv, strings,
    filepath), \<open>FileTree\<close> (a disk as a tree of files, folders and subvolumes).
  \<^item> \<open>internal/store\<close>: \<open>Ids\<close> (\<open>store.go\<close>, \<open>create.go\<close>: IDs and forks' names), \<open>Index\<close> (\<open>store/index\<close>: the SQLite tables and
    queries), \<open>StoreBase\<close> (\<open>store.go\<close>, \<open>btrfs.go\<close>, \<open>ioctl.go\<close>), \<open>StoreSnapshot\<close> (\<open>snapshot.go\<close>, \<open>retention.go\<close>), \<open>StoreGit\<close>
    (\<open>gitdir.go\<close>), \<open>StoreGolden\<close> (\<open>golden.go\<close>), \<open>StoreCreate\<close> (\<open>create.go\<close>), \<open>StoreRecover\<close> (\<open>recover.go\<close>).
    \<open>store\<close> is the state: the disk, the index, and a world that gives each call its fault, time and random text. Every
    system call and query may fail, and once \<open>failAt\<close> a hook of the tests, so a theorem about the end of an operation is one
    about every point where it may stop.
  \<^item> \<open>internal/setup\<close>: \<open>Setup\<close> (\<open>setup.go\<close>, \<open>guess.go\<close>: the contract files, the guess, the golden keys).
  \<^item> \<open>internal/actor\<close> and \<open>internal/runsc\<close>: \<open>Driver\<close> (\<open>runsc.Box\<close>, \<open>runsc.Fake\<close>), \<open>Group\<close> (\<open>actor.go\<close>, \<open>exec.go\<close>, \<open>idle.go\<close>,
    \<open>watch.go\<close>), \<open>GroupChanges\<close> (\<open>changes.go\<close>, \<open>golden.go\<close>). The driver is an argument. What an actor's goroutine does for
    one message is one program; \<open>GroupRun\<close> lets the messages come in any order. \<open>RunscSpec\<close> (\<open>net.go\<close>, \<open>spec.go\<close>) and \<open>Runsc\<close> (\<open>runsc.go\<close>)
    are the driver that runs boxes with runsc: its state is the node, with runsc's containers, the boxes' folders and their addresses.
  \<^item> \<open>internal/hibernate\<close>: \<open>Hibernate\<close> (\<open>stream.go\<close>, \<open>hibernate.go\<close>), one step for each case of \<open>run\<close>'s select.
  \<^item> \<open>internal/backup\<close>: \<open>Crypt\<close> (\<open>crypt.go\<close>), \<open>Backup\<close> (\<open>s3.go\<close>, \<open>backup.go\<close>, \<open>state.go\<close>). It calls the group for its snapshots.
  \<^item> \<open>internal/boxexec\<close>: \<open>BoxExec\<close> (\<open>boxexec.go\<close>, \<open>server.go\<close>, \<open>client.go\<close>: the frames and goroutines of a command's connection),
    \<open>BoxJobs\<close> (\<open>jobs.go\<close>: background commands). A connection is a command and the messages still to come; its goroutines take turns.
  \<^item> \<open>internal/watch\<close>: \<open>Watch\<close> (\<open>event.go\<close>, \<open>watch.go\<close>: the kernel's events, the folders marked, the batches reported). A walk of the
    disk and the box of a process are inputs.
  \<^item> \<open>cmd/fern-init\<close>: \<open>InitServices\<close> (\<open>services.go\<close>, \<open>readiness.go\<close>, \<open>ondemand.go\<close>: the services of a box, and one that starts at its
    first connection, whose goroutines' steps come in any order).

  \<^bold>\<open>What is shown\<close>

  \<^item> \<open>SnapshotSafety\<close>, \<open>SnapshotLaws\<close>, \<open>DeleteSafety\<close>, \<open>CreateSafety\<close>, \<open>ReconcileSafety\<close>: what each change of the disk leaves
    wherever it stops, and what the next one makes of it; \<open>StoreInvariant\<close>: one invariant for every sequence of operations.
    \<open>StoreFrame\<close>, \<open>StoreCalm\<close>, \<open>CreateFrame\<close> are the rules they share.
  \<^item> \<open>SetupLaws\<close>: a guess is safe to write down, the golden key depends on the contract files and on nothing outside.
  \<^item> \<open>GroupInv\<close>, \<open>GroupFrame\<close>, \<open>GroupRun\<close>: no box is lost, boxes stay apart, queues are bounded; \<open>GroupWaits\<close>: actors that wait
    for each other do so in one direction; \<open>GroupLaws\<close>, \<open>GroupStops\<close>: forks, idle boxes, crashes, restores.
  \<^item> \<open>RunscLaws\<close>: the driver keeps the contract, so that no box is lost with it either; \<open>RunscAddrs\<close>: boxes' addresses stay apart.
    \<open>RunscFrame\<close> has the frames both use.
  \<^item> \<open>HibernateLaws\<close>: the lines of a conversation are kept over a restart of Claude.
  \<^item> \<open>CryptLaws\<close>: the encrypted stream opens to what was sealed and nothing else; \<open>BackupLaws\<close>, \<open>BackupSafety\<close>, \<open>BackupRun\<close>,
    \<open>BackupRestore\<close>: a bucket restores, wherever a backup stopped.
  \<^item> \<open>BoxExecLaws\<close>: a connection implements a pipe and confines its client; \<open>BoxJobsLaws\<close>: no running background command is
    forgotten, and its reads account for every byte.
  \<^item> \<open>WatchLaws\<close>: bytes of any shape are read without a panic, those the kernel writes as it meant them; what a box writes is reported,
    and nothing of a skipped folder.
  \<^item> \<open>InitLaws\<close>: connections to a service on demand wait for it and all get its answer; restarts of a service are paced.

  The interfaces are locales, interpreted on the model: the index as recovery uses it (\<open>Index\<close>), the driver's contract
  (\<open>Driver\<close>), what a group and a node keep (\<open>GroupFrame\<close>, \<open>RunscFrame\<close>), readers (\<open>CryptLaws\<close>),
  steps that implement a specification (\<open>BoxExecLaws\<close>).

  \<^bold>\<open>Parameters\<close>

  Code that is not the repository's is an argument with named laws: runsc (\<open>runsc_like\<close>, with digests that differ, \<open>runsc_node\<close>), AES-GCM (\<open>gcm_like\<close>), JSON, YAML
  and SHA-256 (\<open>codecs\<close>), gzip and \<open>btrfs send\<close> and \<open>receive\<close> (\<open>codecs_ok\<close>), the object store (\<open>s3_like\<close>). Each law has
  an instance.

  \<^bold>\<open>Bounds and fuel\<close>

  \<open>group_Delete\<close> calls itself for an environment's forks with fuel \<open>deleteFuel\<close>; an ID is at most 63 characters long and every fork is
  longer than its parent, so the fuel is enough (\<open>Delete_terminates\<close>). \<open>S3_List\<close> reads at most \<open>bkPages\<close> pages: a service may go on
  giving tokens for ever, and the theorems hold for every number. So do those about \<open>waitReady\<close>, which asks \<open>rxTries\<close> times before its
  wake's time is up. Times are \<open>int\<close> nanoseconds; the fields of \<open>statfs\<close> are 64-bit
  words, the nonce's counter a 32-bit one, a terminal's rows and columns 16-bit ones. The loops of a frame writer are
  \<open>partial_function\<close>s that are shown to return (\<open>fw_ReadFrom_frames\<close>, \<open>fw_loop_frames\<close>).

  \<^bold>\<open>Not modelled\<close>

  The HTTP API, previews, images, GitHub, the rest of \<open>fern-init\<close> (tools, the hint, touching files), the daemon's and the command line's main programs: they run commands, proxy bytes or
  decode requests, and keep no state that the parts above rely on. Of \<open>internal/backup\<close>, AWS signatures and the content of the
  state archive are left out; of \<open>internal/runsc\<close>, the firewall's text and what \<open>Prepare\<close> writes to the node; of \<open>internal/boxexec\<close>, terminals, pipes, the WebSocket's handshake and the daemon's relay.
\<close>

end
